(* ===== verification/Prelude.thy ===== *)
theory Prelude
  imports Complex_Main "HOL-Library.Signed_Division" "HOL-Library.Word" "HOL-Library.Char_ord"
    "HOL-Library.List_Lexorder"
begin

text \<open>
  What every component of the model shares: Go's 64-bit integers with their wrap-around and
  their truncating division, byte strings with the library functions the code calls on them
  (\<open>strings.TrimSpace\<close>, \<open>fmt.Sprintf\<close> of a zero-padded integer), identifiers, and the
  contract of an enumeration with a wire form, which a dozen value objects of the code follow.
\<close>

named_theorems i64_simps \<open>rules that remove the 64-bit wrap-around where the value fits\<close>

section \<open>Go's int64 and int\<close>

text \<open>
  A Go \<open>int64\<close> (and \<open>int\<close>, on the 64-bit targets the program is built for) is an \<open>int\<close>
  here; an operation whose result may leave the range is wrapped by \<open>i64\<close>, as Go defines
  overflow. Go's division truncates towards zero, which is \<open>sdiv\<close> and \<open>smod\<close>.
\<close>

definition i64 :: "int \<Rightarrow> int" where
  "i64 x = (x + 2 ^ 63) mod 2 ^ 64 - 2 ^ 63"

definition in_i64 :: "int \<Rightarrow> bool" where
  "in_i64 x \<longleftrightarrow> - (2 ^ 63) \<le> x \<and> x < 2 ^ 63"

lemma i64_id [i64_simps]: "in_i64 x \<Longrightarrow> i64 x = x"
  by (simp add: i64_def in_i64_def)

lemma in_i64_i64 [simp]: "in_i64 (i64 x)"
  unfolding in_i64_def i64_def
  using pos_mod_bound [of "2 ^ 64" "x + 2 ^ 63"] pos_mod_sign [of "2 ^ 64" "x + 2 ^ 63"]
  by simp

lemma i64_i64 [simp]: "i64 (i64 x) = i64 x"
  by (rule i64_id) simp

lemma in_i64_small: "\<bar>x\<bar> \<le> 9223372036854775807 \<Longrightarrow> in_i64 x"
  by (simp add: in_i64_def abs_le_iff)

lemma sdiv_nonneg: "0 \<le> a \<Longrightarrow> 0 \<le> b \<Longrightarrow> a sdiv b = a div b" for a b :: int
  by (auto simp: signed_divide_int_def sgn_if)

lemma smod_nonneg: "0 \<le> a \<Longrightarrow> 0 \<le> b \<Longrightarrow> a smod b = a mod b" for a b :: int
  by (auto simp: signed_modulo_int_def sgn_if)

section \<open>Go's float64\<close>

text \<open>
  A score is only compared with constants, so a \<open>float64\<close> is a rational, an infinity or
  not-a-number; every comparison with not-a-number is false, and \<open>!=\<close> is true.
\<close>

datatype float64 = NaN | NegInf | Fin rat | PosInf

fun f_less :: "float64 \<Rightarrow> float64 \<Rightarrow> bool" where
  "f_less NaN y = False"
| "f_less x NaN = False"
| "f_less (Fin a) (Fin b) = (a < b)"
| "f_less NegInf y = (y \<noteq> NegInf)"
| "f_less x PosInf = (x \<noteq> PosInf)"
| "f_less x y = False"

fun f_eq :: "float64 \<Rightarrow> float64 \<Rightarrow> bool" where
  "f_eq NaN y = False"
| "f_eq x y = (x = y)"

section \<open>Identifiers\<close>

text \<open>
  \<open>uuid.UUID\<close> is an array of 16 bytes, here a 128-bit word; \<open>uuid.Nil\<close> is zero. Generating
  and parsing identifiers belongs to a third-party package and is a parameter where it is used.
\<close>

type_synonym uuid = "128 word"

abbreviation uuid_nil :: uuid where
  "uuid_nil \<equiv> 0"

section \<open>Byte strings\<close>

text \<open>
  A Go string is a sequence of bytes: a \<open>char list\<close>. \<open>strings.TrimSpace\<close> removes the
  Unicode white space on both ends; \<open>space_codes\<close> lists the UTF-8 encodings of the code
  points \<open>unicode.IsSpace\<close> accepts. No encoding is a proper suffix or prefix of a character
  that is not white space, so stripping encodings is stripping code points.
\<close>

definition bytes_of :: "nat list \<Rightarrow> string" where
  "bytes_of ns = map char_of ns"

definition space_codes :: "string list" where
  "space_codes =
     map (\<lambda>n. bytes_of [n]) [9, 10, 11, 12, 13, 32] @
     map bytes_of [[0xC2, 0x85], [0xC2, 0xA0], [0xE1, 0x9A, 0x80]] @
     map (\<lambda>n. bytes_of [0xE2, 0x80, n]) ([0x80..<0x8B] @ [0xA8, 0xA9, 0xAF]) @
     map bytes_of [[0xE2, 0x81, 0x9F], [0xE3, 0x80, 0x80]]"

fun strip_any :: "string list \<Rightarrow> string \<Rightarrow> string option" where
  "strip_any [] s = None"
| "strip_any (p # ps) s =
     (if p \<noteq> [] \<and> take (length p) s = p then Some (drop (length p) s) else strip_any ps s)"

lemma strip_any_shorter: "strip_any ps s = Some t \<Longrightarrow> length t < length s"
proof (induction ps s rule: strip_any.induct)
  case (2 p ps s)
  show ?case
  proof (cases "p \<noteq> [] \<and> take (length p) s = p")
    case True
    then have "length p \<le> length s" by (metis length_take min.cobounded1)
    with True 2 show ?thesis by (cases p) auto
  qed (use 2 in auto)
qed simp

function trim_left_of :: "string list \<Rightarrow> string \<Rightarrow> string" where
  "trim_left_of ps s = (case strip_any ps s of None \<Rightarrow> s | Some t \<Rightarrow> trim_left_of ps t)"
  by pat_completeness auto
termination
  by (relation "measure (\<lambda>(ps, s). length s)") (auto dest: strip_any_shorter)

declare trim_left_of.simps [simp del]

definition trim_space :: "string \<Rightarrow> string" where
  "trim_space s =
     rev (trim_left_of (map rev space_codes) (rev (trim_left_of space_codes s)))"

lemma strip_any_trim_left: "strip_any ps (trim_left_of ps s) = None"
proof (induction ps s rule: trim_left_of.induct)
  case (1 ps s)
  then show ?case by (subst trim_left_of.simps) (simp split: option.splits)
qed

lemma trim_left_stable: "strip_any ps s = None \<Longrightarrow> trim_left_of ps s = s"
  by (subst trim_left_of.simps) simp

lemma strip_any_append: "strip_any ps s = Some t \<Longrightarrow> \<exists>t'. strip_any ps (s @ u) = Some t'"
  by (induction ps s rule: strip_any.induct) (auto split: if_splits)

lemma strip_any_suffix: "strip_any ps s = Some t \<Longrightarrow> \<exists>u. s = u @ t"
  by (induction ps s rule: strip_any.induct) (auto split: if_splits intro: append_take_drop_id [symmetric])

lemma trim_left_suffix: "\<exists>u. s = u @ trim_left_of ps s"
proof (induction ps s rule: trim_left_of.induct)
  case (1 ps s)
  show ?case
  proof (cases "strip_any ps s")
    case None
    then show ?thesis by (simp add: trim_left_stable)
  next
    case (Some t)
    have eq: "trim_left_of ps s = trim_left_of ps t"
      by (subst trim_left_of.simps) (simp add: Some)
    obtain u where "t = u @ trim_left_of ps t" using 1 [OF Some] by blast
    moreover obtain v where "s = v @ t" using strip_any_suffix [OF Some] by blast
    ultimately have "s = (v @ u) @ trim_left_of ps s" unfolding eq by (metis append.assoc)
    then show ?thesis by blast
  qed
qed

lemma trim_none: "strip_any space_codes s = None \<Longrightarrow> strip_any (map rev space_codes) (rev s) = None \<Longrightarrow>
    trim_space s = s"
  by (simp add: trim_space_def trim_left_stable)

lemma trim_space_Nil [simp]: "trim_space [] = []"
  by (rule trim_none) code_simp+

lemma trim_space_idem [simp]: "trim_space (trim_space s) = trim_space s"
proof -
  let ?t = "trim_left_of space_codes s"
  let ?r = "trim_left_of (map rev space_codes) (rev ?t)"
  obtain u where "rev ?t = u @ ?r" using trim_left_suffix by blast
  then have "?t = rev ?r @ rev u" by (metis rev_append rev_rev_ident)
  then have "strip_any space_codes (rev ?r) = None"
    using strip_any_append [of space_codes "rev ?r" _ "rev u"] strip_any_trim_left [of space_codes s]
    by (cases "strip_any space_codes (rev ?r)") auto
  then have "trim_left_of space_codes (rev ?r) = rev ?r" by (rule trim_left_stable)
  then show ?thesis by (simp add: trim_space_def trim_left_stable strip_any_trim_left)
qed

text \<open>A string that neither starts nor ends with the first byte of a space keeps its ends.\<close>

lemma strip_any_hd: "s \<noteq> [] \<Longrightarrow> \<forall>p \<in> set ps. p = [] \<or> hd p \<noteq> hd s \<Longrightarrow> strip_any ps s = None"
proof (induction ps)
  case (Cons p ps)
  have "take (length p) s \<noteq> p" if "p \<noteq> []"
    using Cons.prems that by (cases p; cases s) auto
  then show ?case using Cons by auto
qed simp

lemma space_heads:
  "p \<in> set space_codes \<Longrightarrow> (of_char (hd p) :: nat) < 33 \<or> 127 < (of_char (hd p) :: nat)"
  "p \<in> set space_codes \<Longrightarrow> (of_char (last p) :: nat) < 33 \<or> 127 < (of_char (last p) :: nat)"
  by (auto simp: space_codes_def bytes_of_def)

lemma no_space_ends:
  assumes "s \<noteq> []" "33 \<le> (of_char (hd s) :: nat)" "(of_char (hd s) :: nat) \<le> 127"
    and "33 \<le> (of_char (last s) :: nat)" "(of_char (last s) :: nat) \<le> 127"
  shows "trim_space s = s"
proof (rule trim_none; rule strip_any_hd)
  show "\<forall>p \<in> set space_codes. p = [] \<or> hd p \<noteq> hd s" using space_heads(1) assms(2,3) by fastforce
  have "last p \<noteq> last s" if "p \<in> set space_codes" for p using space_heads(2) [OF that] assms(4,5) by auto
  then show "\<forall>p \<in> set (map rev space_codes). p = [] \<or> hd p \<noteq> hd (rev s)" by (auto simp: hd_rev)
qed (use assms(1) in simp_all)

section \<open>Decimal formatting\<close>

definition digit_char :: "nat \<Rightarrow> char" where
  "digit_char d = char_of (48 + d)"

fun dec :: "nat \<Rightarrow> string" where
  "dec n = (if n < 10 then [digit_char n] else dec (n div 10) @ [digit_char (n mod 10)])"

declare dec.simps [simp del]

definition pad0 :: "nat \<Rightarrow> string \<Rightarrow> string" where
  "pad0 w s = replicate (w - length s) CHR ''0'' @ s"

text \<open>\<open>strconv.FormatInt(n, 10)\<close> and the verb \<open>%0wd\<close>, whose width counts the sign.\<close>

definition format_int :: "int \<Rightarrow> string" where
  "format_int n = (if n < 0 then CHR ''-'' # dec (nat (- n)) else dec (nat n))"

definition sprintf_0d :: "nat \<Rightarrow> int \<Rightarrow> string" where
  "sprintf_0d w n =
     (if n < 0 then CHR ''-'' # pad0 (w - 1) (dec (nat (- n))) else pad0 w (dec (nat n)))"

definition is_digit :: "char \<Rightarrow> bool" where
  "is_digit c \<longleftrightarrow> CHR ''0'' \<le> c \<and> c \<le> CHR ''9''"

definition digit_val :: "char \<Rightarrow> nat" where
  "digit_val c = of_char c - 48"

definition undec :: "string \<Rightarrow> nat" where
  "undec s = foldl (\<lambda>n c. 10 * n + digit_val c) 0 s"

lemma digit_val_char [simp]: "d < 10 \<Longrightarrow> digit_val (digit_char d) = d"
  by (simp add: digit_val_def digit_char_def)

lemma is_digit_char [simp]: "d < 10 \<Longrightarrow> is_digit (digit_char d)"
  by (simp add: is_digit_def digit_char_def less_eq_char_def)

lemma digit_char_less [simp]:
  "d < 10 \<Longrightarrow> e < 10 \<Longrightarrow> digit_char d < digit_char e \<longleftrightarrow> d < e"
  by (simp add: digit_char_def less_char_def)

lemma digit_char_inject [simp]:
  "d < 10 \<Longrightarrow> e < 10 \<Longrightarrow> digit_char d = digit_char e \<longleftrightarrow> d = e"
  by (metis digit_val_char)

lemma undec_snoc [simp]: "undec (s @ [c]) = 10 * undec s + digit_val c"
  by (simp add: undec_def)

lemma undec_Nil [simp]: "undec [] = 0"
  by (simp add: undec_def)

lemma undec_single [simp]: "undec [c] = digit_val c"
  by (simp add: undec_def)

lemma undec_dec [simp]: "undec (dec n) = n"
proof (induction n rule: dec.induct)
  case (1 n)
  then show ?case
    by (cases "n < 10") (simp_all add: dec.simps [of n])
qed

lemma dec_digits: "\<forall>c \<in> set (dec n). is_digit c"
proof (induction n rule: dec.induct)
  case (1 n)
  then show ?case
    by (cases "n < 10") (simp_all add: dec.simps [of n])
qed

lemma dec_nonempty [simp]: "dec n \<noteq> []"
  by (subst dec.simps) simp

lemma dec_one: "n < 10 \<Longrightarrow> dec n = [digit_char n]"
  by (simp add: dec.simps)

lemma dec_two: "10 \<le> n \<Longrightarrow> n < 100 \<Longrightarrow> dec n = [digit_char (n div 10), digit_char (n mod 10)]"
  by (simp add: dec.simps [of n] dec_one)

lemma dec_three:
  "100 \<le> n \<Longrightarrow> n < 1000 \<Longrightarrow>
   dec n = [digit_char (n div 100), digit_char (n div 10 mod 10), digit_char (n mod 10)]"
  by (simp add: dec.simps [of n] dec_two div_mult2_eq [symmetric])

lemma dec_four:
  "1000 \<le> n \<Longrightarrow> n < 10000 \<Longrightarrow>
   dec n = [digit_char (n div 1000), digit_char (n div 100 mod 10),
            digit_char (n div 10 mod 10), digit_char (n mod 10)]"
  by (simp add: dec.simps [of n] dec_three div_mult2_eq [symmetric])

lemma char_zero: "CHR ''0'' = digit_char 0"
  by (simp add: digit_char_def char_of_def bit_0)

lemma digit_char_literals:
  "digit_char 0 = CHR ''0''" "digit_char (Suc 0) = CHR ''1''" "digit_char 1 = CHR ''1''"
  "digit_char 2 = CHR ''2''" "digit_char 3 = CHR ''3''" "digit_char 4 = CHR ''4''"
  "digit_char 5 = CHR ''5''" "digit_char 6 = CHR ''6''" "digit_char 7 = CHR ''7''"
  "digit_char 8 = CHR ''8''" "digit_char 9 = CHR ''9''"
  by code_simp+

lemma digit_char_cases:
  assumes "is_digit c"
  obtains d where "d < 10" "c = digit_char d"
proof
  have "48 \<le> (of_char c :: nat)" "(of_char c :: nat) \<le> 57"
    using assms by (simp_all add: is_digit_def less_eq_char_def)
  then show "of_char c - 48 < (10 :: nat)" "c = digit_char (of_char c - 48)"
    by (simp_all add: digit_char_def)
qed

lemma pad0_two:
  "n < 100 \<Longrightarrow> pad0 2 (dec n) = [digit_char (n div 10), digit_char (n mod 10)]"
  by (cases "n < 10") (simp_all add: pad0_def dec_one dec_two char_zero)

lemma pad0_four:
  "n < 10000 \<Longrightarrow>
   pad0 4 (dec n) =
     [digit_char (n div 1000), digit_char (n div 100 mod 10),
      digit_char (n div 10 mod 10), digit_char (n mod 10)]"
proof -
  assume n: "n < 10000"
  have r: "replicate 3 (c :: char) = [c, c, c]" "replicate 2 c = [c, c]" for c
    by (simp_all add: numeral_eq_Suc)
  consider "n < 10" | "10 \<le> n" "n < 100" | "100 \<le> n" "n < 1000" | "1000 \<le> n" by linarith
  then show ?thesis
  proof cases
    case 1
    then show ?thesis by (simp add: pad0_def dec_one char_zero r)
  next
    case 2
    then show ?thesis by (simp add: pad0_def dec_two char_zero r)
  next
    case 3
    then show ?thesis by (simp add: pad0_def dec_three char_zero r)
  next
    case 4
    with n show ?thesis by (simp add: pad0_def dec_four)
  qed
qed

section \<open>Lists\<close>

lemma sum_list_map_add:
  "sum_list (map (\<lambda>x. f x + g x) xs) = sum_list (map f xs) + sum_list (map g xs)"
  for f g :: "'a \<Rightarrow> int"
  by (induction xs) auto

lemma sum_list_nth_update:
  "i < length xs \<Longrightarrow> sum_list (xs[i := v]) = sum_list xs - xs ! i + v" for v :: int
proof (induction xs arbitrary: i)
  case Nil
  then show ?case by simp
next
  case (Cons x xs)
  then show ?case by (cases i) auto
qed

lemma sum_list_filter_split:
  "sum_list (map f xs) = sum_list (map f (filter P xs)) + sum_list (map f (filter (\<lambda>x. \<not> P x) xs))"
  for f :: "'a \<Rightarrow> int"
  by (induction xs) auto

section \<open>Go maps of int64\<close>

text \<open>
  A \<open>map[string]int64\<close> that is filled by \<open>m[k] += v\<close> is an association list in the order in
  which its keys first appear (Go iterates over it in an order of its own); a missing key reads as
  0, and the addition wraps.
\<close>

fun add_at :: "'k \<Rightarrow> int \<Rightarrow> ('k \<times> int) list \<Rightarrow> ('k \<times> int) list" where
  "add_at k v [] = [(k, i64 v)]"
| "add_at k v ((k', w) # m) = (if k' = k then (k, i64 (w + v)) # m else (k', w) # add_at k v m)"

definition value_at :: "('k \<times> int) list \<Rightarrow> 'k \<Rightarrow> int" where
  "value_at m k = (case map_of m k of None \<Rightarrow> 0 | Some v \<Rightarrow> v)"

definition tally :: "('k \<times> int) list \<Rightarrow> ('k \<times> int) list" where
  "tally xs = fold (\<lambda>(k, v). add_at k v) xs []"

definition sum_at :: "('k \<times> int) list \<Rightarrow> 'k \<Rightarrow> int" where
  "sum_at xs k = sum_list (map snd (filter (\<lambda>kv. fst kv = k) xs))"

lemma sum_at_simps [simp]:
  "sum_at [] k = 0"
  "sum_at (kv # xs) k = (if fst kv = k then snd kv else 0) + sum_at xs k"
  "sum_at (xs @ ys) k = sum_at xs k + sum_at ys k"
  by (simp_all add: sum_at_def)

lemma i64_add_left: "i64 (i64 a + b) = i64 (a + b)"
proof -
  have "i64 a + b + 2 ^ 63 = (a + 2 ^ 63) mod 2 ^ 64 + b" by (simp add: i64_def)
  then have "(i64 a + b + 2 ^ 63) mod 2 ^ 64 = (a + 2 ^ 63 + b) mod 2 ^ 64"
    by (simp only: mod_add_left_eq)
  also have "a + 2 ^ 63 + b = a + b + 2 ^ 63" by simp
  finally show ?thesis by (simp only: i64_def)
qed

lemma value_at_Nil [simp]: "value_at [] k = 0"
  by (simp add: value_at_def)

lemma value_at_Cons [simp]: "value_at (kv # m) k = (if fst kv = k then snd kv else value_at m k)"
  by (cases kv) (simp add: value_at_def)

lemma value_at_add:
  "value_at (add_at k v m) j = (if j = k then i64 (value_at m k + v) else value_at m j)"
  by (induction m) auto

lemma add_at_keys [simp]: "fst ` set (add_at k v m) = insert k (fst ` set m)"
  by (induction k v m rule: add_at.induct) (simp_all add: insert_commute)

lemma add_at_distinct: "distinct (map fst m) \<Longrightarrow> distinct (map fst (add_at k v m))"
  by (induction k v m rule: add_at.induct) auto

lemma tally_fold:
  "i64 (value_at m k) = value_at m k \<Longrightarrow>
   value_at (fold (\<lambda>(k, v). add_at k v) xs m) k = i64 (value_at m k + sum_at xs k)"
proof (induction xs arbitrary: m)
  case (Cons kv xs)
  obtain j v where kv: "kv = (j, v)" by fastforce
  show ?case
    using Cons by (simp add: kv value_at_add i64_add_left add.assoc)
qed simp

lemma value_at_tally: "value_at (tally xs) k = i64 (sum_at xs k)"
  using tally_fold [of "[]" k xs] by (simp add: tally_def i64_id in_i64_small)

lemma keys_tally: "set (map fst (tally xs)) = set (map fst xs)"
proof -
  have "set (map fst (fold (\<lambda>(k, v). add_at k v) xs m)) = set (map fst m) \<union> set (map fst xs)" for m
    by (induction xs arbitrary: m) (simp_all add: case_prod_unfold)
  from this [of "[]"] show ?thesis by (simp add: tally_def)
qed

lemma distinct_tally: "distinct (map fst (tally xs))"
proof -
  have "distinct (map fst m) \<Longrightarrow> distinct (map fst (fold (\<lambda>(k, v). add_at k v) xs m))" for m
    by (induction xs arbitrary: m) (simp_all add: case_prod_unfold add_at_distinct)
  then show ?thesis by (simp add: tally_def)
qed

section \<open>Errors collected in a list\<close>

text \<open>
  Smart constructors append to a slice of errors and join it at the end: a failed check adds its
  error, a passed one adds nothing.
\<close>

definition err_if :: "bool \<Rightarrow> 'e \<Rightarrow> 'e list" where
  "err_if b e = (if b then [e] else [])"

lemma err_if_Nil [simp]: "err_if b e = [] \<longleftrightarrow> \<not> b"
  by (simp add: err_if_def)

lemma set_err_if: "x \<in> set (err_if b e) \<longleftrightarrow> b \<and> x = e"
  by (auto simp: err_if_def)

fun errs_of :: "'e + 'a \<Rightarrow> 'e list" where
  "errs_of (Inl e) = [e]"
| "errs_of (Inr x) = []"

lemma errs_of_Nil [simp]: "errs_of r = [] \<longleftrightarrow> (\<exists>x. r = Inr x)"
  by (cases r) simp_all

text \<open>
  A chain of fallible steps that has succeeded: every step of it has, and each returns what the
  next one starts from.
\<close>

named_theorems result_simps

lemma bind_Inr [result_simps]:
  "(case r of Inl e \<Rightarrow> Inl (g e) | Inr x \<Rightarrow> f x) = Inr y \<longleftrightarrow> (\<exists>x. r = Inr x \<and> f x = Inr y)"
  by (cases r) simp_all

lemma bind_option_Inr [result_simps]:
  "(case r of None \<Rightarrow> Inl e | Some x \<Rightarrow> f x) = Inr y \<longleftrightarrow> (\<exists>x. r = Some x \<and> f x = Inr y)"
  by (cases r) simp_all

lemma guard_Inr [result_simps]: "(if b then Inl e else r) = Inr y \<longleftrightarrow> \<not> b \<and> r = Inr y"
  by simp

section \<open>Transactions\<close>

text \<open>
  \<open>uow.Do\<close> of \<open>internal/platform/database/uow\<close>: the body runs on the state of the database,
  and the state it leaves is committed when it returns a result and dropped when it returns an
  error.
\<close>

definition do_tx :: "('s \<Rightarrow> ('e + 'a) \<times> 's) \<Rightarrow> 's \<Rightarrow> ('e + 'a) \<times> 's" where
  "do_tx f s = (case f s of (Inl e, s') \<Rightarrow> (Inl e, s) | (Inr x, s') \<Rightarrow> (Inr x, s'))"

lemma do_tx_ok:
  assumes "\<And>x s'. f s = (Inr x, s') \<Longrightarrow> P s'" "P s" "do_tx f s = (r, s')"
  shows "P s'"
  using assms by (auto simp: do_tx_def split: sum.splits prod.splits)

lemma do_tx_Inr: "do_tx f s = (Inr x, s') \<longleftrightarrow> f s = (Inr x, s')"
  by (auto simp: do_tx_def split: sum.splits prod.splits)

lemma do_tx_Inl: "do_tx f s = (Inl e, s') \<longleftrightarrow> (\<exists>s1. f s = (Inl e, s1)) \<and> s' = s"
  by (auto simp: do_tx_def split: sum.splits prod.splits)

section \<open>The contract of an enumeration with a wire form\<close>

text \<open>
  Most enumerations of the code come with a \<open>String\<close> method and a \<open>Parse\<close> function that
  is meant to be its inverse on the declared constants. The contract names the three operations
  and promises the two directions; its clients are the repositories and the event payloads,
  which store the wire form and read it back.
\<close>

locale wire_enum =
  fixes declared :: "'a \<Rightarrow> bool"
    and wire :: "'a \<Rightarrow> 'w"
    and parse :: "'w \<Rightarrow> 'e + 'a"
  assumes parse_wire: "declared x \<Longrightarrow> parse (wire x) = Inr x"
    and wire_parse: "parse s = Inr x \<Longrightarrow> declared x \<and> wire x = s"
begin

lemma wire_inject: "declared x \<Longrightarrow> declared y \<Longrightarrow> wire x = wire y \<longleftrightarrow> x = y"
  by (metis parse_wire sum.inject(2))

lemma parse_Inr_iff: "parse s = Inr x \<longleftrightarrow> declared x \<and> wire x = s"
  using parse_wire wire_parse by blast

lemma parse_inject: "parse s = Inr x \<Longrightarrow> parse t = Inr x \<Longrightarrow> s = t"
  by (metis wire_parse)

lemma parse_Inl_iff: "(\<exists>e. parse s = Inl e) \<longleftrightarrow> s \<notin> wire ` {x. declared x}"
  by (cases "parse s") (auto simp: image_iff parse_wire dest: wire_parse)

end

end
