(* ===== verification/GoTime.thy ===== *)
theory GoTime
  imports Prelude
begin

text \<open>
  The part of Go's package \<open>time\<close> the program computes with: instants with a location,
  \<open>Date\<close>, \<open>Year\<close>/\<open>Month\<close>/\<open>Day\<close>, \<open>In\<close>, \<open>Add\<close>, \<open>Sub\<close>, \<open>AddDate\<close> and the comparisons, on
  the proleptic Gregorian calendar. The lemmas show that \<open>Date\<close> and the civil fields are
  inverse to each other in a location without transitions, and how days compare.
\<close>

section \<open>The calendar\<close>

definition is_leap :: "int \<Rightarrow> bool" where
  "is_leap y \<longleftrightarrow> y mod 4 = 0 \<and> (y mod 100 \<noteq> 0 \<or> y mod 400 = 0)"

definition days_before_year :: "int \<Rightarrow> int" where
  "days_before_year y = 365 * (y - 1) + (y - 1) div 4 - (y - 1) div 100 + (y - 1) div 400"

definition days_in_month :: "int \<Rightarrow> int \<Rightarrow> int" where
  "days_in_month y m =
     (if m = 2 then (if is_leap y then 29 else 28)
      else if m = 4 \<or> m = 6 \<or> m = 9 \<or> m = 11 then 30 else 31)"

definition days_before_month :: "int \<Rightarrow> int \<Rightarrow> int" where
  "days_before_month y m =
     (if m \<le> 1 then 0 else if m = 2 then 31 else
      (if is_leap y then 1 else 0) +
      (if m = 3 then 59 else if m = 4 then 90 else if m = 5 then 120 else if m = 6 then 151
       else if m = 7 then 181 else if m = 8 then 212 else if m = 9 then 243
       else if m = 10 then 273 else if m = 11 then 304 else 334))"

text \<open>
  Days since 1 January of year 1. The month may lie outside 1..12 and the day outside the
  month; both carry over, as in \<open>time.Date\<close>.
\<close>

definition days_of :: "int \<Rightarrow> int \<Rightarrow> int \<Rightarrow> int" where
  "days_of y m d =
     (let y' = y + (m - 1) div 12; m' = (m - 1) mod 12 + 1
      in days_before_year y' + days_before_month y' m' + (d - 1))"

definition year_of_days :: "int \<Rightarrow> int" where
  "year_of_days n =
     (let y = (400 * n) div 146097 + 1
      in if n < days_before_year y then y - 1
         else if days_before_year (y + 1) \<le> n then y + 1 else y)"

text \<open>The month of a day of the year: months are skipped while the day lies beyond them.\<close>

function month_from :: "int \<Rightarrow> int \<Rightarrow> int \<Rightarrow> int \<times> int" where
  "month_from y m r =
     (if m < 12 \<and> days_in_month y m \<le> r then month_from y (m + 1) (r - days_in_month y m)
      else (m, r))"
  by pat_completeness auto
termination
  by (relation "measure (\<lambda>(y, m, r). nat (12 - m))") auto

declare month_from.simps [simp del]

definition civil_of_days :: "int \<Rightarrow> int \<times> int \<times> int" where
  "civil_of_days n =
     (let y = year_of_days n; (m, r) = month_from y 1 (n - days_before_year y) in (y, m, r + 1))"

definition valid_date :: "int \<Rightarrow> int \<Rightarrow> int \<Rightarrow> bool" where
  "valid_date y m d \<longleftrightarrow> 1 \<le> m \<and> m \<le> 12 \<and> 1 \<le> d \<and> d \<le> days_in_month y m"

lemma div_bounds:
  "0 < k \<Longrightarrow> k * (x div k) \<le> x" "0 < k \<Longrightarrow> x < k * (x div k) + k" for k x :: int
  using mult_div_mod_eq [of k x] pos_mod_bound [of k x] pos_mod_sign [of k x] by linarith+

lemma div_step: "1 < k \<Longrightarrow> y div k = (y - 1) div k + (if y mod k = 0 then 1 else 0)" for k y :: int
proof -
  assume k: "1 < k"
  let ?q = "y div k" and ?r = "y mod k"
  have y: "k * ?q + ?r = y" "0 \<le> ?r" "?r < k"
    using k pos_mod_sign [of k y] pos_mod_bound [of k y] by simp_all
  show ?thesis
  proof (cases "?r = 0")
    case True
    have "(y - 1) div k = ?q - 1"
    proof (rule int_div_pos_eq [where r = "k - 1"])
      show "y - 1 = k * (?q - 1) + (k - 1)" using y(1) True by (simp add: algebra_simps)
    qed (use k in simp_all)
    with True show ?thesis by simp
  next
    case False
    have "(y - 1) div k = ?q"
    proof (rule int_div_pos_eq [where r = "?r - 1"])
      show "y - 1 = k * ?q + (?r - 1)" using y(1) by linarith
      show "0 \<le> ?r - 1" "?r - 1 < k" using y False by linarith+
    qed
    with False show ?thesis by simp
  qed
qed

lemma month_cases:
  assumes "1 \<le> m" "m \<le> (12 :: int)"
  obtains "m = 1" | "m = 2" | "m = 3" | "m = 4" | "m = 5" | "m = 6" | "m = 7" | "m = 8"
    | "m = 9" | "m = 10" | "m = 11" | "m = 12"
proof -
  have "m \<in> set [1..12]" using assms by simp
  then have "m \<in> {1, 2, 3, 4, 5, 6, 7, 8, 9, 10, 11, 12}" by (simp add: upto_rec1)
  then show ?thesis using that by blast
qed

lemma year_sum:
  "a = a' + i \<Longrightarrow> b = b' + j \<Longrightarrow> c = c' + k \<Longrightarrow>
   365 * y + a - b + c = 365 * (y - 1) + a' - b' + c' + 365 + (i - j + k)" for a b c y :: int
  by simp

lemma days_before_year_Suc:
  "days_before_year (y + 1) = days_before_year y + (if is_leap y then 366 else 365)"
proof -
  have m: "y mod 400 = 0 \<Longrightarrow> y mod 100 = 0" "y mod 100 = 0 \<Longrightarrow> y mod 4 = 0"
    using mod_mod_cancel [of 100 400 y] mod_mod_cancel [of 4 100 y] by auto
  have "days_before_year (y + 1) = 365 * y + y div 4 - y div 100 + y div 400"
    by (simp add: days_before_year_def)
  also have "\<dots> = days_before_year y + 365 +
      ((if y mod 4 = 0 then 1 else 0) - (if y mod 100 = 0 then 1 else 0) +
       (if y mod 400 = 0 then 1 else 0))"
    unfolding days_before_year_def by (rule year_sum; rule div_step; simp)
  also have "\<dots> = days_before_year y + (if is_leap y then 366 else 365)"
    using m by (cases "y mod 400 = 0"; cases "y mod 100 = 0"; cases "y mod 4 = 0")
      (simp_all add: is_leap_def)
  finally show ?thesis .
qed

lemma cycle_bounds:
  fixes n a b c :: int
  assumes "4 * a \<le> n" "n < 4 * a + 4" "100 * b \<le> n" "n < 100 * b + 100" "400 * c \<le> n"
    "n < 400 * c + 400"
  shows "146097 * n - 699 \<le> 400 * (365 * n + a - b + c)"
    "400 * (365 * n + a - b + c) \<le> 146097 * n + 396"
  using assms by (simp_all add: algebra_simps)

lemma quotient_near:
  fixes n q d y :: int
  assumes "146097 * q \<le> 400 * n" "400 * n < 146097 * q + 146097"
  shows "d \<le> n \<Longrightarrow> 146097 * (y - 1) - 699 \<le> 400 * d \<Longrightarrow> y - 2 \<le> q"
    and "n \<le> d + 365 \<Longrightarrow> 400 * d \<le> 146097 * (y - 1) + 396 \<Longrightarrow> q \<le> y"
    and "400 * d \<le> 146097 * (q - 1) + 396 \<Longrightarrow> d \<le> n"
    and "146097 * (q + 2) - 699 \<le> 400 * d \<Longrightarrow> n < d"
  using assms by (simp_all add: algebra_simps)

lemma days_before_year_lower: "146097 * (y - 1) - 699 \<le> 400 * days_before_year y"
  unfolding days_before_year_def by (rule cycle_bounds; rule div_bounds; simp)

lemma days_before_year_upper: "400 * days_before_year y \<le> 146097 * (y - 1) + 396"
  unfolding days_before_year_def by (rule cycle_bounds; rule div_bounds; simp)

lemma days_before_year_mono: "x \<le> y \<Longrightarrow> days_before_year x \<le> days_before_year y"
  by (induction y rule: int_ge_induct) (auto simp: days_before_year_Suc)

lemma days_before_year_strict: "x < y \<Longrightarrow> days_before_year x + 365 \<le> days_before_year y"
  using days_before_year_mono [of "x + 1" y] by (simp add: days_before_year_Suc split: if_splits)

lemma year_of_days_eq:
  assumes "days_before_year y \<le> n" "n < days_before_year (y + 1)"
  shows "year_of_days n = y"
proof -
  define q where "q = (400 * n) div 146097"
  have n: "days_before_year y \<le> n" "n \<le> days_before_year y + 365"
    using assms by (auto simp: days_before_year_Suc split: if_splits)
  have q: "146097 * q \<le> 400 * n" "400 * n < 146097 * q + 146097"
    unfolding q_def using div_bounds [of 146097 "400 * n"] by simp_all
  have "y - 2 \<le> q" using quotient_near(1) [OF q] n(1) days_before_year_lower by blast
  moreover have "q \<le> y" using quotient_near(2) [OF q] n(2) days_before_year_upper by blast
  ultimately consider "q = y - 2" | "q = y - 1" | "q = y" by linarith
  then show ?thesis
    using assms days_before_year_mono [of "y - 1" y]
    by cases (simp_all add: year_of_days_def Let_def flip: q_def)
qed

lemma year_of_days_bounds:
  "days_before_year (year_of_days n) \<le> n \<and> n < days_before_year (year_of_days n + 1)"
proof -
  define q where "q = (400 * n) div 146097"
  have q: "146097 * q \<le> 400 * n" "400 * n < 146097 * q + 146097"
    unfolding q_def using div_bounds [of 146097 "400 * n"] by simp_all
  have lo: "days_before_year q \<le> n"
    using quotient_near(3) [OF q] days_before_year_upper [of q] by simp
  have hi: "n < days_before_year (q + 3)"
    using quotient_near(4) [OF q] days_before_year_lower [of "q + 3"] by simp
  have y: "year_of_days n = (if n < days_before_year (q + 1) then q
      else if days_before_year (q + 2) \<le> n then q + 2 else q + 1)"
    by (simp add: year_of_days_def Let_def add.assoc flip: q_def)
  show ?thesis using lo hi by (auto simp: y add.assoc)
qed

lemma days_before_month_Suc:
  "1 \<le> m \<Longrightarrow> m < 12 \<Longrightarrow> days_before_month y (m + 1) = days_before_month y m + days_in_month y m"
  by (rule month_cases [of m]) (simp_all add: days_before_month_def days_in_month_def)

lemma days_before_december:
  "days_before_month y 12 + days_in_month y 12 = (if is_leap y then 366 else 365)"
  by (simp add: days_before_month_def days_in_month_def)

lemma days_in_month_range: "28 \<le> days_in_month y m" "days_in_month y m \<le> 31"
  by (auto simp: days_in_month_def)

lemma month_from_exact:
  "1 \<le> k \<Longrightarrow> k + int j \<le> 12 \<Longrightarrow> 0 \<le> e \<Longrightarrow> e < days_in_month y (k + int j) \<Longrightarrow>
   month_from y k (days_before_month y (k + int j) - days_before_month y k + e) = (k + int j, e)"
proof (induction j arbitrary: k)
  case 0
  then show ?case by (simp add: month_from.simps)
next
  case (Suc j)
  have le: "days_before_month y (k + 1) \<le> days_before_month y (k + 1 + int i)"
    if "k + 1 + int i \<le> 12" for i
    using that
  proof (induction i)
    case (Suc i)
    then show ?case
      using days_before_month_Suc [of "k + 1 + int i" y] \<open>1 \<le> k\<close>
        days_in_month_range(1) [of y "k + 1 + int i"] by (simp add: add.assoc add.commute)
  qed simp
  let ?n = "k + int (Suc j)"
  have k: "k < 12" "days_before_month y (k + 1) = days_before_month y k + days_in_month y k"
    using Suc.prems days_before_month_Suc [of k y] by simp_all
  have "month_from y k (days_before_month y ?n - days_before_month y k + e) =
      month_from y (k + 1) (days_before_month y ?n - days_before_month y (k + 1) + e)"
    using k le [of j] Suc.prems by (subst month_from.simps) (simp add: algebra_simps)
  also have "\<dots> = (?n, e)"
    using Suc.IH [of "k + 1"] Suc.prems by (simp add: algebra_simps)
  finally show ?case .
qed

lemma month_from_bounds:
  assumes "month_from y m r = (m', r')" "1 \<le> m" "m \<le> 12" "0 \<le> r"
    "days_before_month y m + r < (if is_leap y then 366 else 365)"
  shows "1 \<le> m' \<and> m' \<le> 12 \<and> 0 \<le> r' \<and> r' < days_in_month y m' \<and>
    days_before_month y m' + r' = days_before_month y m + r"
  using assms
proof (induction y m r rule: month_from.induct)
  case (1 y m r)
  show ?case
  proof (cases "m < 12 \<and> days_in_month y m \<le> r")
    case True
    with 1 show ?thesis
      by (simp add: month_from.simps [of y m r] days_before_month_Suc)
  next
    case False
    with "1.prems" have "m' = m" "r' = r" by (auto simp: month_from.simps [of y m r])
    with False "1.prems" show ?thesis
      using days_before_december [of y] by (cases "m = 12") auto
  qed
qed

lemma yday_bound:
  assumes "valid_date y m d"
  shows "0 \<le> days_before_month y m + (d - 1)"
    "days_before_month y m + (d - 1) < (if is_leap y then 366 else 365)"
proof -
  have m: "1 \<le> m" "m \<le> 12" and d: "1 \<le> d" "d \<le> days_in_month y m"
    using assms by (simp_all add: valid_date_def)
  have "0 \<le> days_before_month y m \<and>
      days_before_month y m + days_in_month y m \<le> (if is_leap y then 366 else 365)"
    by (rule month_cases [OF m]) (simp_all add: days_before_month_def days_in_month_def)
  with d show "0 \<le> days_before_month y m + (d - 1)"
    and "days_before_month y m + (d - 1) < (if is_leap y then 366 else 365)"
    by linarith+
qed

lemma days_of_normal:
  "1 \<le> m \<Longrightarrow> m \<le> 12 \<Longrightarrow> days_of y m d = days_before_year y + days_before_month y m + (d - 1)"
  by (simp add: days_of_def Let_def)

lemma civil_of_days_of [simp]:
  assumes "valid_date y m d"
  shows "civil_of_days (days_of y m d) = (y, m, d)"
proof -
  have m: "1 \<le> m" "m \<le> 12" using assms by (simp_all add: valid_date_def)
  have "year_of_days (days_of y m d) = y"
    using yday_bound [OF assms] by (intro year_of_days_eq) (simp_all add: days_of_normal m
        days_before_year_Suc)
  moreover have "month_from y 1 (days_before_month y m + (d - 1)) = (m, d - 1)"
    using month_from_exact [of 1 "nat (m - 1)" "d - 1" y] assms
    by (simp add: valid_date_def days_before_month_def [of y 1])
  ultimately show ?thesis
    by (simp add: civil_of_days_def Let_def days_of_normal m)
qed

lemma days_of_civil:
  assumes "civil_of_days n = (y, m, d)"
  shows "valid_date y m d" "days_of y m d = n"
proof -
  let ?r = "n - days_before_year y"
  have y: "y = year_of_days n" and m: "month_from y 1 ?r = (m, d - 1)"
    using assms by (auto simp: civil_of_days_def Let_def split: prod.splits)
  have r: "0 \<le> ?r" "?r < (if is_leap y then 366 else 365)"
    using year_of_days_bounds [of n] by (auto simp: y days_before_year_Suc split: if_splits)
  have "1 \<le> m \<and> m \<le> 12 \<and> 0 \<le> d - 1 \<and> d - 1 < days_in_month y m \<and>
      days_before_month y m + (d - 1) = ?r"
    using month_from_bounds [OF m] r by (simp add: days_before_month_def [of y 1])
  then show "valid_date y m d" "days_of y m d = n"
    by (auto simp: days_of_normal valid_date_def)
qed

lemma days_of_month_overflow: "days_of y (m + 12) d = days_of (y + 1) m d"
proof -
  have "(m + 12 - 1) div 12 = (m - 1) div 12 + 1" "(m + 12 - 1) mod 12 = (m - 1) mod 12"
    using div_add_self2 [of 12 "m - 1"] mod_add_self2 [of "m - 1" 12] by simp_all
  then show ?thesis by (simp add: days_of_def Let_def ac_simps)
qed

lemma days_of_next_month:
  assumes "1 \<le> m" "m \<le> 12"
  shows "days_of y (m + 1) 1 = days_of y m 1 + days_in_month y m"
proof (cases "m = 12")
  case True
  have "days_of y 13 1 = days_before_year (y + 1)"
    by (simp add: days_of_def Let_def days_before_month_def)
  with True show ?thesis
    using days_before_december [of y] by (simp add: days_of_normal days_before_year_Suc)
next
  case False
  with assms show ?thesis by (simp add: days_of_normal days_before_month_Suc)
qed

lemma days_of_add_day: "days_of y m (d + k) = days_of y m d + k"
  by (simp add: days_of_def Let_def)

lemma days_of_day: "days_of y m d = days_of y m 1 + (d - 1)"
  by (simp add: days_of_def Let_def)

section \<open>Instants and locations\<close>

text \<open>
  A location is the list of its transitions as the time zone database gives them: the UTC second
  from which an offset (in seconds) holds, ascending; the first entry starts at the least int64.
  The empty list is UTC. The data of a particular zone is a parameter of the model.
\<close>

type_synonym location = "(int \<times> int) list"

abbreviation utc :: location where
  "utc \<equiv> []"

fun zone_from :: "int \<times> int \<Rightarrow> location \<Rightarrow> int \<Rightarrow> int \<times> int \<times> int" where
  "zone_from (s, off) [] t = (off, s, 2 ^ 63 - 1)"
| "zone_from (s, off) ((s', off') # zs) t =
     (if t < s' then (off, s, s') else zone_from (s', off') zs t)"

definition zone_lookup :: "location \<Rightarrow> int \<Rightarrow> int \<times> int \<times> int" where
  "zone_lookup l t = (case l of [] \<Rightarrow> (0, - (2 ^ 63), 2 ^ 63 - 1) | z # zs \<Rightarrow> zone_from z zs t)"

definition fixed_zone :: "int \<Rightarrow> location" where
  "fixed_zone off = [(- (2 ^ 63), off)]"

text \<open>
  An instant is a number of nanoseconds since 1 January of year 1, UTC: the zero \<open>Time\<close> is 0.
  \<open>unix_base\<close> is the second of that count at which 1970 begins.
\<close>

record gotime =
  ns :: int
  loc :: location

definition unix_base :: int where
  "unix_base = 62135596800"

abbreviation second_ns :: int where
  "second_ns \<equiv> 1000000000"

abbreviation day_s :: int where
  "day_s \<equiv> 86400"

abbreviation day_ns :: int where
  "day_ns \<equiv> 86400000000000"

definition zero_time :: gotime where
  "zero_time = \<lparr>ns = 0, loc = utc\<rparr>"

definition is_zero :: "gotime \<Rightarrow> bool" where
  "is_zero t \<longleftrightarrow> ns t = 0"

definition before :: "gotime \<Rightarrow> gotime \<Rightarrow> bool" where
  "before t u \<longleftrightarrow> ns t < ns u"

definition after :: "gotime \<Rightarrow> gotime \<Rightarrow> bool" where
  "after t u \<longleftrightarrow> ns u < ns t"

definition in_loc :: "gotime \<Rightarrow> location \<Rightarrow> gotime" where
  "in_loc t l = t\<lparr>loc := l\<rparr>"

definition add_dur :: "gotime \<Rightarrow> int \<Rightarrow> gotime" where
  "add_dur t d = t\<lparr>ns := ns t + d\<rparr>"

text \<open>\<open>Time.Sub\<close> saturates at the ends of the int64 range.\<close>

definition sub_time :: "gotime \<Rightarrow> gotime \<Rightarrow> int" where
  "sub_time t u = max (- (2 ^ 63)) (min (2 ^ 63 - 1) (ns t - ns u))"

definition local_secs :: "gotime \<Rightarrow> int" where
  "local_secs t =
     (let s = ns t div second_ns in s + fst (zone_lookup (loc t) (s - unix_base)))"

definition date_of :: "gotime \<Rightarrow> int \<times> int \<times> int" where
  "date_of t = civil_of_days (local_secs t div day_s)"

definition year :: "gotime \<Rightarrow> int" where
  "year t = fst (date_of t)"

definition month :: "gotime \<Rightarrow> int" where
  "month t = fst (snd (date_of t))"

definition day :: "gotime \<Rightarrow> int" where
  "day t = snd (snd (date_of t))"

text \<open>
  \<open>time.Date\<close>: the offset in force is looked up at the wall clock read as UTC, and once more
  at the shifted second when that falls outside the interval of the first answer.
\<close>

definition go_date :: "int \<Rightarrow> int \<Rightarrow> int \<Rightarrow> int \<Rightarrow> int \<Rightarrow> location \<Rightarrow> gotime" where
  "go_date y m d sod nsec l =
     (let u = days_of y m d * day_s + sod - unix_base;
          (off, start, end) = zone_lookup l u;
          v = (if off = 0 then u
               else if u - off < start \<or> end \<le> u - off
                    then u - fst (zone_lookup l (u - off)) else u - off)
      in \<lparr>ns = (v + unix_base) * second_ns + nsec, loc = l\<rparr>)"

abbreviation midnight :: "int \<Rightarrow> int \<Rightarrow> int \<Rightarrow> location \<Rightarrow> gotime" where
  "midnight y m d l \<equiv> go_date y m d 0 0 l"

definition add_date :: "gotime \<Rightarrow> int \<Rightarrow> int \<Rightarrow> int \<Rightarrow> gotime" where
  "add_date t y m d =
     go_date (year t + y) (month t + m) (day t + d) (local_secs t mod day_s) (ns t mod second_ns)
       (loc t)"

text \<open>\<open>Truncate(24 * time.Hour)\<close> rounds down to a multiple of a day since the zero time.\<close>

definition truncate_day :: "gotime \<Rightarrow> gotime" where
  "truncate_day t = t\<lparr>ns := ns t - ns t mod day_ns\<rparr>"

section \<open>Locations without transitions\<close>

definition steady :: "location \<Rightarrow> int \<Rightarrow> bool" where
  "steady l off \<longleftrightarrow> (\<forall>t. zone_lookup l t = (off, - (2 ^ 63), 2 ^ 63 - 1))"

lemma steady_utc [simp]: "steady utc 0"
  by (simp add: steady_def zone_lookup_def)

lemma steady_fixed [simp]: "steady (fixed_zone off) off"
  by (simp add: steady_def zone_lookup_def fixed_zone_def)

lemma loc_go_date [simp]: "loc (go_date y m d sod nsec l) = l"
  by (simp add: go_date_def Let_def split: prod.split)

lemma ns_go_date:
  "steady l off \<Longrightarrow>
   ns (go_date y m d sod nsec l) = (days_of y m d * day_s + sod - off) * second_ns + nsec"
  by (simp add: go_date_def Let_def steady_def)

lemma local_secs_go_date:
  "steady l off \<Longrightarrow> 0 \<le> nsec \<Longrightarrow> nsec < second_ns \<Longrightarrow>
   local_secs (go_date y m d sod nsec l) = days_of y m d * day_s + sod"
  by (simp add: local_secs_def Let_def ns_go_date) (simp add: steady_def)

lemma date_of_go_date:
  assumes "steady l off" "0 \<le> nsec" "nsec < second_ns" "0 \<le> sod" "sod < day_s"
  shows "date_of (go_date y m d sod nsec l) = civil_of_days (days_of y m d)"
proof -
  have "(days_of y m d * day_s + sod) div day_s = days_of y m d" using assms by simp
  then show ?thesis using assms by (simp add: date_of_def local_secs_go_date)
qed

lemma date_of_midnight:
  "steady l off \<Longrightarrow> valid_date y m d \<Longrightarrow> date_of (midnight y m d l) = (y, m, d)"
  by (simp add: date_of_go_date)

lemma date_of_valid: "valid_date (year t) (month t) (day t)"
  using days_of_civil(1) [of "local_secs t div day_s" "year t" "month t" "day t"]
  by (simp add: year_def month_def day_def date_of_def)

lemma days_of_date: "days_of (year t) (month t) (day t) = local_secs t div day_s"
  using days_of_civil(2) [of "local_secs t div day_s" "year t" "month t" "day t"]
  by (simp add: year_def month_def day_def date_of_def)

lemma day_range: "1 \<le> day t" "day t \<le> 31"
  using date_of_valid [of t] days_in_month_range [of "year t" "month t"]
  by (auto simp: valid_date_def)

lemma month_range: "1 \<le> month t" "month t \<le> 12"
  using date_of_valid [of t] by (auto simp: valid_date_def)

lemma midnight_less:
  "steady l off \<Longrightarrow>
   before (midnight y m d l) (midnight y' m' d' l) \<longleftrightarrow> days_of y m d < days_of y' m' d'"
  by (simp add: before_def ns_go_date)

lemma midnight_after:
  "steady l off \<Longrightarrow>
   after (midnight y m d l) (midnight y' m' d' l) \<longleftrightarrow> days_of y' m' d' < days_of y m d"
  by (simp add: after_def ns_go_date)

lemma midnight_cong: "days_of y m d = days_of y' m' d' \<Longrightarrow> midnight y m d l = midnight y' m' d' l"
  by (simp add: go_date_def)

lemma in_loc_same [simp]: "loc t = l \<Longrightarrow> in_loc t l = t"
  by (simp add: in_loc_def)

lemma in_loc_loc [simp]: "loc (in_loc t l) = l"
  by (simp add: in_loc_def)

lemma ns_in_loc [simp]: "ns (in_loc t l) = ns t"
  by (simp add: in_loc_def)

text \<open>The number of the civil day of an instant at its location.\<close>

definition local_day :: "gotime \<Rightarrow> int" where
  "local_day t = local_secs t div day_s"

lemma local_day_date: "local_day t = days_of (year t) (month t) (day t)"
  by (simp add: local_day_def days_of_date)

lemma local_day_midnight: "steady l off \<Longrightarrow> local_day (midnight y m d l) = days_of y m d"
  by (simp add: local_day_def local_secs_go_date)

end
