(* ===== verification/Months.thy ===== *)
theory Months
  imports GoTime
begin

text \<open>
  Calendar months as the code writes them: seven characters, \<open>YYYY-MM\<close>. The transactions
  module calls such a value a reference month, the budgets module a competence; both compare
  them as strings and step through them with \<open>time.Parse\<close> and \<open>AddDate\<close>. This theory
  holds what the two share and proves that string order is calendar order.
\<close>

section \<open>Labels\<close>

text \<open>
  The test both smart constructors run. Go iterates over runes, but a byte outside ASCII starts
  a rune above \<open>'9'\<close>, so testing bytes gives the same answer.
\<close>

definition month_digits :: "string \<Rightarrow> bool" where
  "month_digits raw \<longleftrightarrow>
     length raw = 7 \<and> raw ! 4 = CHR ''-'' \<and>
     (\<forall>i \<in> set [0, 1, 2, 3, 5, 6]. is_digit (raw ! i)) \<and>
     ''01'' \<le> take 2 (drop 5 raw) \<and> take 2 (drop 5 raw) \<le> ''12''"

definition month_string :: "int \<Rightarrow> int \<Rightarrow> string" where
  "month_string y m = sprintf_0d 4 y @ ''-'' @ sprintf_0d 2 m"

text \<open>
  \<open>time.Parse("2006-01", s)\<close> gives the first of the month at midnight UTC, or the zero time
  when \<open>s\<close> is not four digits, a hyphen and a month in range; the callers drop the error.
\<close>

definition parse_month :: "string \<Rightarrow> gotime" where
  "parse_month s =
     (if month_digits s
      then midnight (int (undec (take 4 s))) (int (undec (drop 5 s))) 1 utc else zero_time)"

definition month_label_add :: "string \<Rightarrow> int \<Rightarrow> string" where
  "month_label_add s n =
     (let t = add_date (parse_month s) 0 n 0 in month_string (year t) (month t))"

section \<open>Labels of the years 0 to 9999\<close>

definition label_ok :: "int \<Rightarrow> int \<Rightarrow> bool" where
  "label_ok y m \<longleftrightarrow> 0 \<le> y \<and> y \<le> 9999 \<and> 1 \<le> m \<and> m \<le> 12"

definition month_index :: "string \<Rightarrow> int" where
  "month_index s = 12 * int (undec (take 4 s)) + int (undec (drop 5 s)) - 1"

lemma month_string_explicit:
  assumes "label_ok y m"
  shows "month_string y m =
    [digit_char (nat y div 1000), digit_char (nat y div 100 mod 10),
     digit_char (nat y div 10 mod 10), digit_char (nat y mod 10), CHR ''-'',
     digit_char (nat m div 10), digit_char (nat m mod 10)]"
proof -
  have "nat y < 10000" "nat m < 100" using assms by (auto simp: label_ok_def)
  then show ?thesis
    using assms by (simp add: month_string_def sprintf_0d_def label_ok_def pad0_four pad0_two)
qed

lemma undec_append: "undec (s @ t) = undec s * 10 ^ length t + undec t"
proof (induction t rule: rev_induct)
  case (snoc c t)
  have "undec (s @ t @ [c]) = 10 * undec (s @ t) + digit_val c"
    by (metis append_assoc undec_snoc)
  with snoc show ?case by (simp add: algebra_simps)
qed simp

lemma undec_pair [simp]: "undec [a, b] = 10 * digit_val a + digit_val b"
  using undec_snoc [of "[a]" b] by simp

lemma undec_four [simp]:
  "undec [a, b, c, d] =
   1000 * digit_val a + 100 * digit_val b + 10 * digit_val c + digit_val d"
  using undec_append [of "[a, b]" "[c, d]"] by simp

lemma digits_sum:
  "n = 10 * a + r \<Longrightarrow> a = 10 * b + q \<Longrightarrow> b = 10 * c + p \<Longrightarrow> 1000 * c + 100 * p + 10 * q + r = n"
  for n a b c p q r :: nat
  by simp

lemma digits_four: "n < 10000 \<Longrightarrow>
  1000 * (n div 1000) + 100 * (n div 100 mod 10) + 10 * (n div 10 mod 10) + n mod 10 = n" for n :: nat
proof -
  have "n div 100 = n div 10 div 10" "n div 1000 = n div 10 div 10 div 10"
    by (simp_all add: div_mult2_eq [symmetric])
  then show ?thesis
    using digits_sum [of n "n div 10" "n mod 10" "n div 10 div 10" "n div 10 mod 10"
        "n div 10 div 10 div 10" "n div 10 div 10 mod 10"] by simp
qed

lemma month_string_parts:
  assumes "label_ok y m"
  shows "undec (take 4 (month_string y m)) = nat y" "undec (drop 5 (month_string y m)) = nat m"
proof -
  have y: "nat y < 10000" and m: "nat m < 100" using assms by (auto simp: label_ok_def)
  then show "undec (take 4 (month_string y m)) = nat y"
    using digits_four [OF y] by (simp add: month_string_explicit [OF assms])
  show "undec (drop 5 (month_string y m)) = nat m"
    using m by (simp add: month_string_explicit [OF assms])
qed

lemma month_part_range:
  assumes "1 \<le> m" "m \<le> 12"
  shows "''01'' \<le> [digit_char (nat m div 10), digit_char (nat m mod 10)]"
    "[digit_char (nat m div 10), digit_char (nat m mod 10)] \<le> ''12''"
  by (rule month_cases [OF assms]; simp add: digit_char_literals less_le less_char_def)+

lemma month_string_digits:
  assumes "label_ok y m"
  shows "month_digits (month_string y m)"
proof -
  have "nat y div 1000 < 10" "nat m div 10 < 10" using assms by (auto simp: label_ok_def)
  moreover have "1 \<le> m" "m \<le> 12" using assms by (simp_all add: label_ok_def)
  ultimately show ?thesis
    using month_part_range [of m]
    by (simp add: month_digits_def month_string_explicit [OF assms] numeral_2_eq_2)
qed

lemma digits_of_sum:
  fixes d0 d1 d2 d3 :: nat
  assumes "d1 < 10" "d2 < 10" "d3 < 10"
  defines "n \<equiv> 1000 * d0 + 100 * d1 + 10 * d2 + d3"
  shows "n div 1000 = d0" "n div 100 = 10 * d0 + d1" "n div 10 = 100 * d0 + 10 * d1 + d2"
    "n mod 10 = d3"
proof -
  show "n div 1000 = d0" "n div 100 = 10 * d0 + d1" "n div 10 = 100 * d0 + 10 * d1 + d2"
    using assms by (intro div_nat_eqI; simp)+
  have "n = 10 * (100 * d0 + 10 * d1 + d2) + d3" by (simp add: n_def)
  then show "n mod 10 = d3" using assms(3) by (metis mod_less mod_mult_self4)
qed

lemma mod_ten_of_sum [simp]:
  "d < 10 \<Longrightarrow> (10 * k + d) mod 10 = d" "d < 10 \<Longrightarrow> (100 * j + 10 * k + d) mod 10 = d" for d :: nat
proof -
  assume d: "d < 10"
  then show one: "(10 * k + d) mod 10 = d" for k by simp
  have "100 * j + 10 * k + d = 10 * (10 * j + k) + d" by simp
  then show "(100 * j + 10 * k + d) mod 10 = d" by (simp only: one)
qed

text \<open>A label that passes the test is the label of the month its digits name.\<close>

lemma month_digits_string:
  assumes "month_digits s"
  obtains y m where "label_ok y m" "s = month_string y m"
proof -
  obtain a b c d h e f where abc: "s = [a, b, c, d, h, e, f]"
    using assms by (auto simp: month_digits_def numeral_eq_Suc length_Suc_conv)
  then have h: "h = CHR ''-''" and digits: "is_digit a" "is_digit b" "is_digit c" "is_digit d"
      "is_digit e" "is_digit f"
    using assms by (simp_all add: month_digits_def)
  obtain d0 where d0: "d0 < 10" "a = digit_char d0" using digits(1) by (rule digit_char_cases)
  obtain d1 where d1: "d1 < 10" "b = digit_char d1" using digits(2) by (rule digit_char_cases)
  obtain d2 where d2: "d2 < 10" "c = digit_char d2" using digits(3) by (rule digit_char_cases)
  obtain d3 where d3: "d3 < 10" "d = digit_char d3" using digits(4) by (rule digit_char_cases)
  obtain d5 where d5: "d5 < 10" "e = digit_char d5" using digits(5) by (rule digit_char_cases)
  obtain d6 where d6: "d6 < 10" "f = digit_char d6" using digits(6) by (rule digit_char_cases)
  note d = d0(1) d1(1) d2(1) d3(1) d5(1) d6(1)
  have s: "s = [digit_char d0, digit_char d1, digit_char d2, digit_char d3, CHR ''-'',
      digit_char d5, digit_char d6]"
    by (simp add: abc h d0 d1 d2 d3 d5 d6)
  have "''01'' \<le> [digit_char d5, digit_char d6]" "[digit_char d5, digit_char d6] \<le> ''12''"
    using assms by (simp_all add: month_digits_def s)
  then have m: "1 \<le> 10 * d5 + d6" "10 * d5 + d6 \<le> 12"
    using d by (auto simp: digit_char_literals(1,3,4) [symmetric])
  let ?n = "1000 * d0 + 100 * d1 + 10 * d2 + d3" and ?k = "10 * d5 + d6"
  have ok: "label_ok (int ?n) (int ?k)" using m d by (simp add: label_ok_def)
  have "?k div 10 = d5" using d by (intro div_nat_eqI; simp)
  then have "s = month_string (int ?n) (int ?k)"
    unfolding month_string_explicit [OF ok] s nat_int
    using d by (simp add: digits_of_sum [OF d(2-4)])
  with ok show ?thesis by (rule that)
qed

section \<open>Order and succession\<close>

lemma parse_month_string:
  "label_ok y m \<Longrightarrow> parse_month (month_string y m) = midnight y m 1 utc"
  by (simp add: parse_month_def month_string_digits month_string_parts) (simp add: label_ok_def)

lemma month_index_string: "label_ok y m \<Longrightarrow> month_index (month_string y m) = 12 * y + m - 1"
  by (simp add: month_index_def month_string_parts) (simp add: label_ok_def)

lemma undec_Cons: "undec (c # s) = digit_val c * 10 ^ length s + undec s"
  using undec_append [of "[c]" s] by simp

lemma undec_bound: "\<forall>c \<in> set s. is_digit c \<Longrightarrow> undec s < 10 ^ length s"
proof (induction s)
  case (Cons c s)
  then have IH: "undec s < 10 ^ length s" and "is_digit c" by simp_all
  then obtain d where d: "d < 10" "c = digit_char d" by (blast elim: digit_char_cases)
  then have "digit_val c * 10 ^ length s \<le> 9 * 10 ^ length s" by (intro mult_right_mono) simp_all
  moreover have "10 ^ length (c # s) = 9 * 10 ^ length s + (10 :: nat) ^ length s" by simp
  ultimately show ?case using IH unfolding undec_Cons by linarith
qed simp

lemma digit_string_less:
  assumes "length s = length t" "\<forall>c \<in> set s. is_digit c" "\<forall>c \<in> set t. is_digit c"
  shows "(s < t \<longleftrightarrow> undec s < undec t) \<and> (s = t \<longleftrightarrow> undec s = undec t)"
  using assms
proof (induction s t rule: list_induct2)
  case (Cons x xs y ys)
  let ?p = "10 ^ length xs :: nat"
  obtain d e where d: "d < 10" "x = digit_char d" and e: "e < 10" "y = digit_char e"
    using Cons.prems by (meson digit_char_cases list.set_intros(1))
  have u: "undec xs < ?p" and v: "undec ys < ?p"
    using Cons.prems Cons.hyps undec_bound [of xs] undec_bound [of ys] by simp_all
  have lt: "d' * ?p + u' < e' * ?p + v'" if "d' < e'" "u' < ?p" for d' e' u' v' :: nat
  proof -
    have "(d' + 1) * ?p \<le> e' * ?p" using that(1) by (intro mult_right_mono) simp_all
    with that(2) show ?thesis by (simp add: algebra_simps)
  qed
  consider "d < e" | "d = e" | "e < d" by linarith
  then show ?case
  proof cases
    case 1
    then show ?thesis
      using d e lt [OF 1 u, of "undec ys"] Cons.hyps by (simp add: undec_Cons)
  next
    case 2
    then show ?thesis using Cons d e by (simp add: undec_Cons)
  next
    case 3
    then show ?thesis
      using d e lt [OF 3 v, of "undec xs"] Cons.hyps by (simp add: undec_Cons)
  qed
qed simp

lemma append_less_append:
  "length u = length u' \<Longrightarrow> u @ v < u' @ v' \<longleftrightarrow> u < u' \<or> u = u' \<and> v < v'"
  for u v :: "'a::linorder list"
  by (induction u u' rule: list_induct2) auto

lemma month_string_split:
  assumes "label_ok y m"
  shows "month_string y m = pad0 4 (dec (nat y)) @ CHR ''-'' # pad0 2 (dec (nat m))"
  using assms by (simp add: month_string_def sprintf_0d_def label_ok_def)

lemma padded_digits:
  assumes "label_ok y m"
  shows "length (pad0 4 (dec (nat y))) = 4" "\<forall>c \<in> set (pad0 4 (dec (nat y))). is_digit c"
    "undec (pad0 4 (dec (nat y))) = nat y"
    "length (pad0 2 (dec (nat m))) = 2" "\<forall>c \<in> set (pad0 2 (dec (nat m))). is_digit c"
    "undec (pad0 2 (dec (nat m))) = nat m"
proof -
  have y: "nat y < 10000" and m: "nat m < 100" using assms by (auto simp: label_ok_def)
  then have "nat y div 1000 < 10" "nat m div 10 < 10" by auto
  then show "length (pad0 4 (dec (nat y))) = 4" "\<forall>c \<in> set (pad0 4 (dec (nat y))). is_digit c"
    "undec (pad0 4 (dec (nat y))) = nat y"
    "length (pad0 2 (dec (nat m))) = 2" "\<forall>c \<in> set (pad0 2 (dec (nat m))). is_digit c"
    "undec (pad0 2 (dec (nat m))) = nat m"
    using digits_four [OF y] by (simp_all add: pad0_four [OF y] pad0_two [OF m])
qed

lemma month_string_less:
  assumes "label_ok y m" "label_ok y' m'"
  shows "month_string y m < month_string y' m' \<longleftrightarrow> 12 * y + m < 12 * y' + m'"
proof -
  note p = padded_digits [OF assms(1)] and q = padded_digits [OF assms(2)]
  let ?u = "pad0 4 (dec (nat y))" and ?u' = "pad0 4 (dec (nat y'))"
  let ?v = "pad0 2 (dec (nat m))" and ?v' = "pad0 2 (dec (nat m'))"
  have "(?u < ?u' \<longleftrightarrow> undec ?u < undec ?u') \<and> (?u = ?u' \<longleftrightarrow> undec ?u = undec ?u')"
    by (rule digit_string_less [OF trans [OF p(1) q(1) [symmetric]] p(2) q(2)])
  then have u: "?u < ?u' \<longleftrightarrow> nat y < nat y'" "?u = ?u' \<longleftrightarrow> nat y = nat y'"
    by (simp_all only: p(3) q(3))
  have "(?v < ?v' \<longleftrightarrow> undec ?v < undec ?v') \<and> (?v = ?v' \<longleftrightarrow> undec ?v = undec ?v')"
    by (rule digit_string_less [OF trans [OF p(4) q(4) [symmetric]] p(5) q(5)])
  then have v: "?v < ?v' \<longleftrightarrow> nat m < nat m'"
    by (simp only: p(6) q(6))
  have "month_string y m < month_string y' m' \<longleftrightarrow>
      ?u @ CHR ''-'' # ?v < ?u' @ CHR ''-'' # ?v'"
    by (simp only: month_string_split [OF assms(1)] month_string_split [OF assms(2)])
  also have "\<dots> \<longleftrightarrow> ?u < ?u' \<or> ?u = ?u' \<and> CHR ''-'' # ?v < CHR ''-'' # ?v'"
    by (rule append_less_append, rule trans [OF p(1) q(1) [symmetric]])
  also have "\<dots> \<longleftrightarrow> nat y < nat y' \<or> nat y = nat y' \<and> nat m < nat m'"
    unfolding u Cons_less_Cons v by simp
  also have "\<dots> \<longleftrightarrow> 12 * y + m < 12 * y' + m'"
    using assms by (auto simp: label_ok_def)
  finally show ?thesis .
qed

lemma month_string_inject:
  "label_ok y m \<Longrightarrow> label_ok y' m' \<Longrightarrow> month_string y m = month_string y' m' \<longleftrightarrow> y = y' \<and> m = m'"
  using month_string_parts [of y m] month_string_parts [of y' m']
  by (auto simp: label_ok_def)

text \<open>Adding months moves the index; the target must lie in the years 0 to 9999.\<close>

lemma days_of_carry:
  "days_of y m d = days_of (y + (m - 1) div 12) ((m - 1) mod 12 + 1) d"
proof -
  have "((m - 1) mod 12 + 1 - 1) div 12 = 0" "((m - 1) mod 12 + 1 - 1) mod 12 = (m - 1) mod 12"
    by simp_all
  then show ?thesis by (simp add: days_of_def Let_def)
qed

lemma valid_first: "1 \<le> m \<Longrightarrow> m \<le> 12 \<Longrightarrow> valid_date y m 1"
  using days_in_month_range(1) [of y m] by (simp add: valid_date_def)

lemma month_fields:
  assumes "1 \<le> m" "m \<le> 12" "steady l off"
  shows "year (midnight y m 1 l) = y" "month (midnight y m 1 l) = m" "day (midnight y m 1 l) = 1"
    "local_secs (midnight y m 1 l) mod day_s = 0" "ns (midnight y m 1 l) mod second_ns = 0"
proof -
  have "date_of (midnight y m 1 l) = (y, m, 1)"
    using assms valid_first by (simp add: date_of_midnight)
  then show "year (midnight y m 1 l) = y" "month (midnight y m 1 l) = m"
    "day (midnight y m 1 l) = 1"
    by (simp_all add: year_def month_def day_def)
  show "local_secs (midnight y m 1 l) mod day_s = 0" "ns (midnight y m 1 l) mod second_ns = 0"
    using assms(3) by (simp_all add: local_secs_go_date ns_go_date)
qed

lemma month_label_add:
  assumes "label_ok y m"
  shows "month_label_add (month_string y m) n =
    month_string (y + (m + n - 1) div 12) ((m + n - 1) mod 12 + 1)"
proof -
  have m: "1 \<le> m" "m \<le> 12" using assms by (simp_all add: label_ok_def)
  have "add_date (parse_month (month_string y m)) 0 n 0 = midnight y (m + n) 1 utc"
    using month_fields [OF m steady_utc, of y]
    by (simp add: add_date_def parse_month_string [OF assms])
  also have "\<dots> = midnight (y + (m + n - 1) div 12) ((m + n - 1) mod 12 + 1) 1 utc"
    by (rule midnight_cong, rule days_of_carry)
  finally show ?thesis
    using month_fields [OF _ _ steady_utc, of "(m + n - 1) mod 12 + 1" "y + (m + n - 1) div 12"]
      pos_mod_bound [of 12 "m + n - 1"]
    by (simp add: month_label_add_def)
qed

section \<open>The contract of a month label\<close>

text \<open>
  What a client of a reference month or a competence relies on: values are labels, the order is
  the order of the strings, and the successor is the label one month later. The lemmas give
  the calendar meaning of the three on valid labels.
\<close>

locale month_label =
  fixes make :: "string \<Rightarrow> 'a"
    and label :: "'a \<Rightarrow> string"
    and succ_month :: "'a \<Rightarrow> 'a"
    and earlier :: "'a \<Rightarrow> 'a \<Rightarrow> bool"
  assumes label_make: "label (make s) = s"
    and succ_label: "succ_month a = make (month_label_add (label a) 1)"
    and earlier_label: "earlier a b \<longleftrightarrow> label a < label b"
begin

lemma earlier_index:
  assumes "month_digits (label a)" "month_digits (label b)"
  shows "earlier a b \<longleftrightarrow> month_index (label a) < month_index (label b)"
proof -
  obtain y m y' m' where "label_ok y m" "label a = month_string y m"
      "label_ok y' m'" "label b = month_string y' m'"
    using assms by (metis month_digits_string)
  then show ?thesis by (simp add: earlier_label month_string_less month_index_string)
qed

lemma succ_index:
  assumes "month_digits (label a)" "label a < ''9999-12''"
  shows "month_digits (label (succ_month a))"
    "month_index (label (succ_month a)) = month_index (label a) + 1"
proof -
  obtain y m where ok: "label_ok y m" and a: "label a = month_string y m"
    using assms(1) by (metis month_digits_string)
  have "month_string 9999 12 = ''9999-12''"
    using month_string_explicit [of 9999 12] by (simp add: label_ok_def digit_char_literals)
  with assms(2) have lt: "12 * y + m < 12 * 9999 + 12"
    using month_string_less [OF ok, of 9999 12] by (simp add: a label_ok_def)
  let ?y = "y + m div 12" and ?m = "m mod 12 + 1"
  have "label_ok ?y ?m" "12 * ?y + ?m = 12 * y + m + 1"
    using ok lt by (cases "m = 12"; auto simp: label_ok_def)+
  moreover have "label (succ_month a) = month_string ?y ?m"
    using month_label_add [OF ok, of 1] by (simp add: succ_label label_make a)
  ultimately show "month_digits (label (succ_month a))"
    "month_index (label (succ_month a)) = month_index (label a) + 1"
    by (simp_all add: month_string_digits month_index_string [OF ok] month_index_string a)
qed

lemma earlier_succ:
  assumes "month_digits (label a)" "label a < ''9999-12''"
  shows "earlier a (succ_month a)"
  using earlier_index [OF assms(1) succ_index(1) [OF assms]] succ_index(2) [OF assms] by simp

end

end
