(* ===== verification/TxnValues.thy ===== *)
theory TxnValues
  imports Months
begin

text \<open>
  The value objects of \<open>internal/transactions/domain/valueobjects\<close>: enumerations with their
  wire forms, amounts, reference months, billing snapshots, and the category evidence that must
  accompany every write. Smart constructors return the error they raise on the left.
\<close>

section \<open>Errors\<close>

text \<open>
  The sentinel errors of the module. Wrapping with \<open>fmt.Errorf\<close> keeps the sentinel visible to
  \<open>errors.Is\<close>, so a wrapped error is its sentinel here, and \<open>errors.Join\<close> is a list. The last
  four are the errors of the database's constraints and a run-time panic.
\<close>

datatype txn_error =
    ErrDirectionUnknown
  | ErrPaymentMethodUnknown
  | ErrFrequencyUnknown
  | ErrInvalidCategoryDecisionSource
  | ErrMoneyMustBePositive
  | ErrDescriptionEmpty
  | ErrDescriptionTooLong
  | ErrInstallmentCountOutOfRange
  | ErrDayOfMonthOutOfRange
  | ErrRefMonthInvalid
  | ErrSearchQueryTooShort
  | ErrInvalidUserID
  | ErrInvalidCardID
  | ErrInvalidCategoryID
  | ErrInvalidSubcategoryID
  | ErrUUIDParse
  | ErrCommandMissingOccurredAt
  | ErrCommandCreditCardRequiresCardID
  | ErrCommandCreditCardRequiresOutcome
  | ErrCategoryWriteBlocked
  | ErrCategoryVersionChanged
  | ErrCategoryEvidenceRequired
  | ErrCategoryRootWithoutLeaf
  | ErrCategoryKindDirectionMismatch
  | ErrTransactionAlreadyDeleted
  | ErrRecurringTemplateAlreadyDeleted
  | ErrTransactionRequiresSubcategory
  | ErrPaymentMethodMigrationNotAllowed
  | ErrCardInvoiceVersionConflict
  | ErrCardInvoiceNotFound
  | ErrTransactionNotFound
  | ErrTransactionVersionConflict
  | ErrDuplicateRecurringTemplate
  | ErrUsecaseUnauthorized
  | ErrCheckViolation
  | ErrUniqueViolation
  | ErrBigintOutOfRange
  | Panic

section \<open>Enumerations\<close>

datatype direction = DirectionIncome | DirectionOutcome

fun direction_string :: "direction \<Rightarrow> string" where
  "direction_string DirectionIncome = ''income''"
| "direction_string DirectionOutcome = ''outcome''"

definition parse_direction :: "string \<Rightarrow> txn_error + direction" where
  "parse_direction s =
     (if s = ''income'' then Inr DirectionIncome
      else if s = ''outcome'' then Inr DirectionOutcome
      else Inl ErrDirectionUnknown)"

definition direction_from_int :: "int \<Rightarrow> txn_error + direction" where
  "direction_from_int v =
     (if v = 1 then Inr DirectionIncome else if v = 2 then Inr DirectionOutcome
      else Inl ErrDirectionUnknown)"

datatype payment_method =
    Pix | TED | DebitInAccount | DebitCard | Cash | Boleto | CreditCard | Doc | MealVoucher
  | FoodVoucher | Transferencia | ApplePay | GooglePay | PicPay | MercadoPago | Cheque

fun payment_method_string :: "payment_method \<Rightarrow> string" where
  "payment_method_string Pix = ''pix''"
| "payment_method_string TED = ''ted''"
| "payment_method_string DebitInAccount = ''debit_in_account''"
| "payment_method_string DebitCard = ''debit_card''"
| "payment_method_string Cash = ''cash''"
| "payment_method_string Boleto = ''boleto''"
| "payment_method_string CreditCard = ''credit_card''"
| "payment_method_string Doc = ''doc''"
| "payment_method_string MealVoucher = ''vale_refeicao''"
| "payment_method_string FoodVoucher = ''vale_alimentacao''"
| "payment_method_string Transferencia = ''transferencia''"
| "payment_method_string ApplePay = ''apple_pay''"
| "payment_method_string GooglePay = ''google_pay''"
| "payment_method_string PicPay = ''picpay''"
| "payment_method_string MercadoPago = ''mercado_pago''"
| "payment_method_string Cheque = ''cheque''"

definition payment_method_by_string :: "(string \<times> payment_method) list" where
  "payment_method_by_string =
     [(''pix'', Pix), (''ted'', TED), (''debit_in_account'', DebitInAccount),
      (''debit_card'', DebitCard), (''cash'', Cash), (''boleto'', Boleto),
      (''credit_card'', CreditCard), (''doc'', Doc), (''vale_refeicao'', MealVoucher),
      (''vale_alimentacao'', FoodVoucher), (''transferencia'', Transferencia),
      (''apple_pay'', ApplePay), (''google_pay'', GooglePay), (''picpay'', PicPay),
      (''mercado_pago'', MercadoPago), (''cheque'', Cheque)]"

definition parse_payment_method :: "string \<Rightarrow> txn_error + payment_method" where
  "parse_payment_method s =
     (case map_of payment_method_by_string s of
        Some p \<Rightarrow> Inr p
      | None \<Rightarrow> Inl ErrPaymentMethodUnknown)"

definition parse_payment_method_for_create :: "string \<Rightarrow> txn_error + payment_method" where
  "parse_payment_method_for_create s = parse_payment_method s"

definition payment_method_list :: "payment_method list" where
  "payment_method_list =
     [Pix, TED, DebitInAccount, DebitCard, Cash, Boleto, CreditCard, Doc, MealVoucher,
      FoodVoucher, Transferencia, ApplePay, GooglePay, PicPay, MercadoPago, Cheque]"

definition payment_method_from_int :: "int \<Rightarrow> txn_error + payment_method" where
  "payment_method_from_int v =
     (if v < 1 \<or> v > 16 then Inl ErrPaymentMethodUnknown
      else Inr (payment_method_list ! nat (v - 1)))"

definition is_credit_card :: "payment_method \<Rightarrow> bool" where
  "is_credit_card p \<longleftrightarrow> p = CreditCard"

datatype frequency = FrequencyMonthly | FrequencyYearly

fun frequency_string :: "frequency \<Rightarrow> string" where
  "frequency_string FrequencyMonthly = ''monthly''"
| "frequency_string FrequencyYearly = ''yearly''"

definition parse_frequency :: "string \<Rightarrow> txn_error + frequency" where
  "parse_frequency s =
     (if s = ''monthly'' then Inr FrequencyMonthly
      else if s = ''yearly'' then Inr FrequencyYearly
      else Inl ErrFrequencyUnknown)"

definition frequency_from_int :: "int \<Rightarrow> txn_error + frequency" where
  "frequency_from_int v =
     (if v = 1 then Inr FrequencyMonthly else if v = 2 then Inr FrequencyYearly
      else Inl ErrFrequencyUnknown)"

text \<open>
  \<open>CategoryDecisionSource\<close> keeps the zero value, which the validation of the evidence tests.
\<close>

datatype decision_source =
    SourceZero | AutoMatched | UserSelectedCandidate | ManualCanonicalID | SystemMigration

fun decision_source_string :: "decision_source \<Rightarrow> string" where
  "decision_source_string AutoMatched = ''auto_matched''"
| "decision_source_string UserSelectedCandidate = ''user_selected_candidate''"
| "decision_source_string ManualCanonicalID = ''manual_canonical_id''"
| "decision_source_string SystemMigration = ''system_migration''"
| "decision_source_string SourceZero = ''''"

definition parse_decision_source :: "string \<Rightarrow> txn_error + decision_source" where
  "parse_decision_source s =
     (if s = ''auto_matched'' then Inr AutoMatched
      else if s = ''user_selected_candidate'' then Inr UserSelectedCandidate
      else if s = ''manual_canonical_id'' then Inr ManualCanonicalID
      else if s = ''system_migration'' then Inr SystemMigration
      else Inl ErrInvalidCategoryDecisionSource)"

definition source_is_valid :: "decision_source \<Rightarrow> bool" where
  "source_is_valid s \<longleftrightarrow> s \<noteq> SourceZero"

definition source_is_manual :: "decision_source \<Rightarrow> bool" where
  "source_is_manual s \<longleftrightarrow> s = ManualCanonicalID"

interpretation direction_wire: wire_enum "\<lambda>_. True" direction_string parse_direction
proof
  fix x show "parse_direction (direction_string x) = Inr x"
    by (cases x) (simp_all add: parse_direction_def)
  fix s assume "parse_direction s = Inr x"
  then show "True \<and> direction_string x = s" by (auto simp: parse_direction_def split: if_splits)
qed

interpretation payment_wire: wire_enum "\<lambda>_. True" payment_method_string parse_payment_method
proof
  fix x show "parse_payment_method (payment_method_string x) = Inr x"
    by (cases x) (simp_all add: parse_payment_method_def payment_method_by_string_def)
  fix s assume "parse_payment_method s = Inr x"
  then have "(s, x) \<in> set payment_method_by_string"
    by (auto simp: parse_payment_method_def dest: map_of_SomeD split: option.splits)
  then show "True \<and> payment_method_string x = s" by (auto simp: payment_method_by_string_def)
qed

interpretation frequency_wire: wire_enum "\<lambda>_. True" frequency_string parse_frequency
proof
  fix x show "parse_frequency (frequency_string x) = Inr x"
    by (cases x) (simp_all add: parse_frequency_def)
  fix s assume "parse_frequency s = Inr x"
  then show "True \<and> frequency_string x = s" by (auto simp: parse_frequency_def split: if_splits)
qed

interpretation source_wire: wire_enum source_is_valid decision_source_string parse_decision_source
proof
  fix x assume "source_is_valid x"
  then show "parse_decision_source (decision_source_string x) = Inr x"
    by (cases x) (simp_all add: parse_decision_source_def source_is_valid_def)
next
  fix s x assume "parse_decision_source s = Inr x"
  then show "source_is_valid x \<and> decision_source_string x = s"
    by (auto simp: parse_decision_source_def source_is_valid_def split: if_splits)
qed

section \<open>Amounts, counts and days\<close>

datatype money = Money (cents: int)

definition new_money :: "int \<Rightarrow> txn_error + money" where
  "new_money c = (if c \<le> 0 then Inl ErrMoneyMustBePositive else Inr (Money c))"

datatype installment_count = InstallmentCount (count: int)

definition new_installment_count :: "int \<Rightarrow> txn_error + installment_count" where
  "new_installment_count n =
     (if n < 1 \<or> n > 24 then Inl ErrInstallmentCountOutOfRange else Inr (InstallmentCount n))"

record day_of_month =
  dom_value :: int
  dom_max :: int

definition new_day_of_month :: "int \<Rightarrow> txn_error + day_of_month" where
  "new_day_of_month d =
     (if d < 1 \<or> d > 31 then Inl ErrDayOfMonthOutOfRange
      else Inr \<lparr>dom_value = d, dom_max = 31\<rparr>)"

definition new_day_of_month_snapshot :: "int \<Rightarrow> txn_error + day_of_month" where
  "new_day_of_month_snapshot d =
     (if d < 1 \<or> d > 31 then Inl ErrDayOfMonthOutOfRange
      else Inr \<lparr>dom_value = d, dom_max = 31\<rparr>)"

datatype description = Description (text_of: string)

definition new_description :: "string \<Rightarrow> txn_error + description" where
  "new_description s =
     (if s = '''' then Inl ErrDescriptionEmpty
      else if length s > 500 then Inl ErrDescriptionTooLong
      else Inr (Description s))"

record card_billing_snapshot =
  closing_day :: day_of_month
  due_day :: day_of_month

definition new_card_billing_snapshot :: "int \<Rightarrow> int \<Rightarrow> txn_error list + card_billing_snapshot" where
  "new_card_billing_snapshot closing due =
     (case (new_day_of_month_snapshot closing, new_day_of_month_snapshot due) of
        (Inr c, Inr d) \<Rightarrow> Inr \<lparr>closing_day = c, due_day = d\<rparr>
      | (Inl e, Inr d) \<Rightarrow> Inl [e]
      | (Inr c, Inl e) \<Rightarrow> Inl [e]
      | (Inl e, Inl e') \<Rightarrow> Inl [e, e'])"

definition valid_snapshot :: "card_billing_snapshot \<Rightarrow> bool" where
  "valid_snapshot s \<longleftrightarrow>
     1 \<le> dom_value (closing_day s) \<and> dom_value (closing_day s) \<le> 31 \<and>
     1 \<le> dom_value (due_day s) \<and> dom_value (due_day s) \<le> 31"

lemma new_card_billing_snapshot_valid:
  "new_card_billing_snapshot c d = Inr s \<Longrightarrow>
   valid_snapshot s \<and> dom_value (closing_day s) = c \<and> dom_value (due_day s) = d"
  by (auto simp: new_card_billing_snapshot_def new_day_of_month_snapshot_def valid_snapshot_def
      split: if_splits)

section \<open>Reference months\<close>

datatype ref_month = RefMonth (rm_value: string)

definition new_ref_month :: "string \<Rightarrow> txn_error + ref_month" where
  "new_ref_month raw = (if month_digits raw then Inr (RefMonth raw) else Inl ErrRefMonthInvalid)"

definition ref_month_from_time :: "gotime \<Rightarrow> location \<Rightarrow> ref_month" where
  "ref_month_from_time t l =
     (let br = in_loc t l in RefMonth (month_string (year br) (month br)))"

definition rm_before :: "ref_month \<Rightarrow> ref_month \<Rightarrow> bool" where
  "rm_before a b \<longleftrightarrow> rm_value a < rm_value b"

definition rm_next :: "ref_month \<Rightarrow> ref_month" where
  "rm_next r = RefMonth (month_label_add (rm_value r) 1)"

interpretation ref_month_label: month_label RefMonth rm_value rm_next rm_before
  by unfold_locales (simp_all add: rm_next_def rm_before_def)

end
