(* ===== verification/TxnEvidence.thy ===== *)
theory TxnEvidence
  imports TxnValues
begin

text \<open>
  The evidence every categorised write carries
  (\<open>internal/transactions/domain/valueobjects/category_write_evidence.go\<close>): what the
  categories module matched, how, and who decided. A write without valid evidence is refused.
\<close>

record evidence_input =
  ei_root_category_id :: uuid
  ei_subcategory_id :: uuid
  ei_kind :: string
  ei_path :: string
  ei_outcome :: string
  ei_score :: float64
  ei_confidence :: string
  ei_quality :: string
  ei_signal_type :: string
  ei_matched_term :: string
  ei_match_reason :: string
  ei_source :: decision_source
  ei_editorial_version :: int
  ei_decided_at :: gotime

record evidence =
  ev_root_category_id :: uuid
  ev_subcategory_id :: uuid
  ev_kind :: string
  ev_path :: string
  ev_outcome :: string
  ev_score :: float64
  ev_confidence :: string
  ev_quality :: string
  ev_signal_type :: string
  ev_matched_term :: string
  ev_match_reason :: string
  ev_source :: decision_source
  ev_editorial_version :: int
  ev_decided_at :: gotime

definition valid_confidences :: "string list" where
  "valid_confidences = [''high'', ''medium'', ''low'', ''manual_confirmed'']"

definition valid_qualities :: "string list" where
  "valid_qualities = [''exact'', ''token'', ''fuzzy'', ''manual_canonical'']"

definition valid_signal_types :: "string list" where
  "valid_signal_types =
     [''canonical_name'', ''alias'', ''phrase'', ''merchant'', ''segment'', ''manual_canonical'']"

definition valid_kinds :: "string list" where
  "valid_kinds = [''expense'', ''income'']"


definition validate_evidence_ids :: "evidence_input \<Rightarrow> txn_error list" where
  "validate_evidence_ids i =
     err_if (ei_root_category_id i = uuid_nil) ErrCategoryRootWithoutLeaf @
     err_if (ei_subcategory_id i = uuid_nil) ErrCategoryRootWithoutLeaf @
     err_if (ei_root_category_id i \<noteq> uuid_nil \<and> ei_subcategory_id i \<noteq> uuid_nil \<and>
             ei_root_category_id i = ei_subcategory_id i) ErrCategoryRootWithoutLeaf"

definition validate_manual_evidence :: "evidence_input \<Rightarrow> txn_error list" where
  "validate_manual_evidence i =
     err_if (\<not> f_eq (ei_score i) (Fin 1)) ErrCategoryWriteBlocked @
     err_if (ei_confidence i \<noteq> ''manual_confirmed'') ErrCategoryWriteBlocked @
     err_if (ei_quality i \<noteq> ''manual_canonical'') ErrCategoryWriteBlocked @
     err_if (ei_signal_type i \<noteq> ''manual_canonical'') ErrCategoryWriteBlocked @
     err_if (ei_match_reason i \<noteq> ''manual canonical id validated'') ErrCategoryWriteBlocked @
     err_if (ei_matched_term i = '''') ErrCategoryWriteBlocked"

definition validate_evidence_input :: "evidence_input \<Rightarrow> txn_error list" where
  "validate_evidence_input i =
     err_if (\<not> source_is_valid (ei_source i)) ErrInvalidCategoryDecisionSource @
     err_if (ei_outcome i \<noteq> ''matched'') ErrCategoryWriteBlocked @
     err_if (f_less (ei_score i) (Fin 0) \<or> f_less (Fin 1) (ei_score i)) ErrCategoryWriteBlocked @
     err_if (ei_confidence i \<notin> set valid_confidences) ErrCategoryWriteBlocked @
     err_if (ei_quality i \<notin> set valid_qualities) ErrCategoryWriteBlocked @
     err_if (ei_signal_type i \<notin> set valid_signal_types) ErrCategoryWriteBlocked @
     validate_evidence_ids i @
     err_if (ei_kind i \<notin> set valid_kinds) ErrCategoryKindDirectionMismatch @
     err_if (ei_editorial_version i \<le> 0) ErrCategoryVersionChanged @
     err_if (ei_path i = '''') ErrCategoryWriteBlocked @
     err_if (is_zero (ei_decided_at i)) ErrCategoryWriteBlocked @
     (if source_is_valid (ei_source i) \<and> source_is_manual (ei_source i)
      then validate_manual_evidence i else [])"

definition new_category_write_evidence :: "evidence_input \<Rightarrow> txn_error list + evidence" where
  "new_category_write_evidence i =
     (if validate_evidence_input i \<noteq> [] then Inl (validate_evidence_input i)
      else Inr \<lparr>ev_root_category_id = ei_root_category_id i,
                ev_subcategory_id = ei_subcategory_id i,
                ev_kind = ei_kind i, ev_path = ei_path i, ev_outcome = ei_outcome i,
                ev_score = ei_score i, ev_confidence = ei_confidence i,
                ev_quality = ei_quality i, ev_signal_type = ei_signal_type i,
                ev_matched_term = ei_matched_term i, ev_match_reason = ei_match_reason i,
                ev_source = ei_source i, ev_editorial_version = ei_editorial_version i,
                ev_decided_at = ei_decided_at i\<rparr>)"

definition evidence_is_zero :: "evidence \<Rightarrow> bool" where
  "evidence_is_zero e \<longleftrightarrow>
     ev_root_category_id e = uuid_nil \<and> ev_subcategory_id e = uuid_nil"

text \<open>
  What a reader of a stored evidence may rely on. The score is in [0, 1] or not-a-number: the
  range test is written as two comparisons, which not-a-number passes.
\<close>

definition evidence_ok :: "evidence \<Rightarrow> bool" where
  "evidence_ok e \<longleftrightarrow>
     source_is_valid (ev_source e) \<and> ev_outcome e = ''matched'' \<and>
     (ev_score e = NaN \<or> (\<exists>q. ev_score e = Fin q \<and> 0 \<le> q \<and> q \<le> 1)) \<and>
     ev_confidence e \<in> set valid_confidences \<and> ev_quality e \<in> set valid_qualities \<and>
     ev_signal_type e \<in> set valid_signal_types \<and> ev_kind e \<in> set valid_kinds \<and>
     ev_root_category_id e \<noteq> uuid_nil \<and> ev_subcategory_id e \<noteq> uuid_nil \<and>
     ev_root_category_id e \<noteq> ev_subcategory_id e \<and>
     0 < ev_editorial_version e \<and> ev_path e \<noteq> '''' \<and> \<not> is_zero (ev_decided_at e)"

definition manual_evidence_ok :: "evidence \<Rightarrow> bool" where
  "manual_evidence_ok e \<longleftrightarrow>
     ev_score e = Fin 1 \<and> ev_confidence e = ''manual_confirmed'' \<and>
     ev_quality e = ''manual_canonical'' \<and> ev_signal_type e = ''manual_canonical'' \<and>
     ev_match_reason e = ''manual canonical id validated'' \<and> ev_matched_term e \<noteq> ''''"

lemma score_in_range:
  "\<not> f_less x (Fin 0) \<Longrightarrow> \<not> f_less (Fin 1) x \<Longrightarrow> x = NaN \<or> (\<exists>q. x = Fin q \<and> 0 \<le> q \<and> q \<le> 1)"
  by (cases x) auto

lemma f_eq_Fin: "f_eq x (Fin q) \<longleftrightarrow> x = Fin q"
  by (cases x) auto

lemma new_evidence_fields:
  assumes "new_category_write_evidence i = Inr e"
  shows "validate_evidence_input i = []"
    "ev_source e = ei_source i" "ev_outcome e = ei_outcome i" "ev_score e = ei_score i"
    "ev_confidence e = ei_confidence i" "ev_quality e = ei_quality i"
    "ev_signal_type e = ei_signal_type i" "ev_kind e = ei_kind i"
    "ev_root_category_id e = ei_root_category_id i" "ev_subcategory_id e = ei_subcategory_id i"
    "ev_editorial_version e = ei_editorial_version i" "ev_path e = ei_path i"
    "ev_decided_at e = ei_decided_at i" "ev_match_reason e = ei_match_reason i"
    "ev_matched_term e = ei_matched_term i"
  using assms by (auto simp: new_category_write_evidence_def split: if_splits)

lemma new_evidence_ok:
  assumes "new_category_write_evidence i = Inr e"
  shows "evidence_ok e" "source_is_manual (ev_source e) \<Longrightarrow> manual_evidence_ok e"
proof -
  note f = new_evidence_fields [OF assms]
  have ids: "validate_evidence_ids i = []" using f(1) by (simp add: validate_evidence_input_def)
  show "evidence_ok e"
    using f(1) ids score_in_range
    by (simp add: evidence_ok_def f(2-) validate_evidence_input_def validate_evidence_ids_def)
  show "source_is_manual (ev_source e) \<Longrightarrow> manual_evidence_ok e"
    using f(1)
    by (simp add: manual_evidence_ok_def f(2-) validate_evidence_input_def
        validate_manual_evidence_def f_eq_Fin source_is_manual_def source_is_valid_def)
qed

end
