(* ===== verification/TxnEntities.thy ===== *)
theory TxnEntities
  imports TxnEvidence
begin

text \<open>
  The entities of \<open>internal/transactions/domain/entities\<close>: a transaction and its life
  (create, update, billing, soft delete), card invoices and their items, recurring templates,
  monthly summaries and the events. A pointer that may be nil and \<open>option.Option\<close> are both
  \<open>option\<close>. A version is an int64 and wraps.
\<close>

section \<open>Transactions\<close>

record transaction =
  tx_id :: uuid
  tx_user_id :: uuid
  tx_direction :: direction
  tx_payment_method :: payment_method
  tx_amount :: money
  tx_description :: description
  tx_category_id :: uuid
  tx_subcategory_id :: "uuid option"
  tx_category_name_snapshot :: string
  tx_subcategory_name_snapshot :: string
  tx_evidence :: evidence
  tx_ref_month :: ref_month
  tx_occurred_at :: gotime
  tx_card_id :: "uuid option"
  tx_installments_total :: "installment_count option"
  tx_billing_snapshot :: "card_billing_snapshot option"
  tx_version :: int
  tx_deleted_at :: "gotime option"
  tx_created_at :: gotime
  tx_updated_at :: gotime
  tx_origin_wamid :: string
  tx_origin_item_seq :: int
  tx_origin_operation :: string
  tx_has_origin :: bool

definition new_transaction ::
  "uuid \<Rightarrow> uuid \<Rightarrow> direction \<Rightarrow> payment_method \<Rightarrow> money \<Rightarrow> description \<Rightarrow> uuid \<Rightarrow> uuid option \<Rightarrow>
   string \<Rightarrow> string \<Rightarrow> evidence \<Rightarrow> ref_month \<Rightarrow> gotime \<Rightarrow> gotime \<Rightarrow> transaction" where
  "new_transaction i u dir pm amt desc cat sub cname sname ev rm occ now =
     \<lparr>tx_id = i, tx_user_id = u, tx_direction = dir, tx_payment_method = pm, tx_amount = amt,
      tx_description = desc, tx_category_id = cat, tx_subcategory_id = sub,
      tx_category_name_snapshot = cname, tx_subcategory_name_snapshot = sname,
      tx_evidence = ev, tx_ref_month = rm, tx_occurred_at = occ,
      tx_card_id = None, tx_installments_total = None, tx_billing_snapshot = None,
      tx_version = 1, tx_deleted_at = None, tx_created_at = now, tx_updated_at = now,
      tx_origin_wamid = '''', tx_origin_item_seq = 0, tx_origin_operation = '''',
      tx_has_origin = False\<rparr>"

definition reconstitute ::
  "uuid \<Rightarrow> uuid \<Rightarrow> direction \<Rightarrow> payment_method \<Rightarrow> money \<Rightarrow> description \<Rightarrow> uuid \<Rightarrow> uuid option \<Rightarrow>
   string \<Rightarrow> string \<Rightarrow> evidence \<Rightarrow> ref_month \<Rightarrow> gotime \<Rightarrow> uuid option \<Rightarrow>
   installment_count option \<Rightarrow> card_billing_snapshot option \<Rightarrow> int \<Rightarrow> gotime option \<Rightarrow>
   gotime \<Rightarrow> gotime \<Rightarrow> transaction" where
  "reconstitute i u dir pm amt desc cat sub cname sname ev rm occ cid inst snap ver del cre upd =
     \<lparr>tx_id = i, tx_user_id = u, tx_direction = dir, tx_payment_method = pm, tx_amount = amt,
      tx_description = desc, tx_category_id = cat, tx_subcategory_id = sub,
      tx_category_name_snapshot = cname, tx_subcategory_name_snapshot = sname,
      tx_evidence = ev, tx_ref_month = rm, tx_occurred_at = occ,
      tx_card_id = cid, tx_installments_total = inst, tx_billing_snapshot = snap,
      tx_version = ver, tx_deleted_at = del, tx_created_at = cre, tx_updated_at = upd,
      tx_origin_wamid = '''', tx_origin_item_seq = 0, tx_origin_operation = '''',
      tx_has_origin = False\<rparr>"

definition update_transaction ::
  "direction \<Rightarrow> payment_method \<Rightarrow> money \<Rightarrow> description \<Rightarrow> uuid \<Rightarrow> uuid option \<Rightarrow> string \<Rightarrow> string \<Rightarrow>
   evidence \<Rightarrow> ref_month \<Rightarrow> gotime \<Rightarrow> gotime \<Rightarrow> transaction \<Rightarrow> transaction" where
  "update_transaction dir pm amt desc cat sub cname sname ev rm occ now t =
     t\<lparr>tx_direction := dir, tx_payment_method := pm, tx_amount := amt, tx_description := desc,
       tx_category_id := cat, tx_subcategory_id := sub, tx_category_name_snapshot := cname,
       tx_subcategory_name_snapshot := sname, tx_evidence := ev, tx_ref_month := rm,
       tx_occurred_at := occ, tx_version := i64 (tx_version t + 1), tx_updated_at := now\<rparr>"

definition set_card_billing ::
  "uuid \<Rightarrow> installment_count \<Rightarrow> card_billing_snapshot \<Rightarrow> transaction \<Rightarrow> transaction" where
  "set_card_billing cid inst snap t =
     t\<lparr>tx_card_id := Some cid, tx_installments_total := Some inst,
       tx_billing_snapshot := Some snap\<rparr>"

definition set_category_snapshots :: "string \<Rightarrow> string \<Rightarrow> transaction \<Rightarrow> transaction" where
  "set_category_snapshots cname sname t =
     t\<lparr>tx_category_name_snapshot := cname, tx_subcategory_name_snapshot := sname\<rparr>"

definition set_origin :: "string \<Rightarrow> int \<Rightarrow> string \<Rightarrow> transaction \<Rightarrow> transaction" where
  "set_origin wamid seq op t =
     t\<lparr>tx_origin_wamid := wamid, tx_origin_item_seq := seq, tx_origin_operation := op,
       tx_has_origin := True\<rparr>"

definition soft_delete :: "gotime \<Rightarrow> transaction \<Rightarrow> txn_error + transaction" where
  "soft_delete now t =
     (if tx_deleted_at t \<noteq> None then Inl ErrTransactionAlreadyDeleted
      else Inr (t\<lparr>tx_deleted_at := Some now, tx_version := i64 (tx_version t + 1),
                  tx_updated_at := now\<rparr>))"

section \<open>Card invoices\<close>

record card_invoice =
  inv_id :: uuid
  inv_user_id :: uuid
  inv_card_id :: uuid
  inv_ref_month :: ref_month
  inv_closing_at :: gotime
  inv_due_at :: gotime
  inv_items_total_cents :: int
  inv_version :: int
  inv_created_at :: gotime
  inv_updated_at :: gotime

definition new_card_invoice ::
  "uuid \<Rightarrow> uuid \<Rightarrow> uuid \<Rightarrow> ref_month \<Rightarrow> gotime \<Rightarrow> gotime \<Rightarrow> gotime \<Rightarrow> card_invoice" where
  "new_card_invoice i u c rm closing due now =
     \<lparr>inv_id = i, inv_user_id = u, inv_card_id = c, inv_ref_month = rm, inv_closing_at = closing,
      inv_due_at = due, inv_items_total_cents = 0, inv_version = 1, inv_created_at = now,
      inv_updated_at = now\<rparr>"

definition hydrate_version :: "int \<Rightarrow> int \<Rightarrow> gotime \<Rightarrow> card_invoice \<Rightarrow> card_invoice" where
  "hydrate_version v tot upd i =
     i\<lparr>inv_version := v, inv_items_total_cents := tot, inv_updated_at := upd\<rparr>"

record card_invoice_item =
  it_id :: uuid
  it_invoice_id :: uuid
  it_purchase_id :: uuid
  it_user_id :: uuid
  it_ref_month :: ref_month
  it_installment_index :: int
  it_amount :: money
  it_deleted_at :: "gotime option"
  it_created_at :: gotime
  it_updated_at :: gotime

definition new_card_invoice_item ::
  "uuid \<Rightarrow> uuid \<Rightarrow> uuid \<Rightarrow> uuid \<Rightarrow> ref_month \<Rightarrow> int \<Rightarrow> money \<Rightarrow> gotime \<Rightarrow> card_invoice_item" where
  "new_card_invoice_item i iid purchase u rm idx amt now =
     \<lparr>it_id = i, it_invoice_id = iid, it_purchase_id = purchase, it_user_id = u,
      it_ref_month = rm, it_installment_index = idx, it_amount = amt, it_deleted_at = None,
      it_created_at = now, it_updated_at = now\<rparr>"

lemma new_card_invoice_item_simps [simp]:
  "it_amount (new_card_invoice_item i iid p u rm idx amt now) = amt"
  "it_ref_month (new_card_invoice_item i iid p u rm idx amt now) = rm"
  "it_id (new_card_invoice_item i iid p u rm idx amt now) = i"
  "it_invoice_id (new_card_invoice_item i iid p u rm idx amt now) = iid"
  "it_purchase_id (new_card_invoice_item i iid p u rm idx amt now) = p"
  "it_user_id (new_card_invoice_item i iid p u rm idx amt now) = u"
  "it_installment_index (new_card_invoice_item i iid p u rm idx amt now) = idx"
  "it_created_at (new_card_invoice_item i iid p u rm idx amt now) = now"
  by (simp_all add: new_card_invoice_item_def)

section \<open>Monthly summaries\<close>

record monthly_summary =
  ms_user_id :: uuid
  ms_ref_month :: ref_month
  ms_income_cents :: int
  ms_outcome_cents :: int
  ms_total_cents :: int
  ms_version :: int
  ms_updated_at :: "gotime option"

definition new_monthly_summary ::
  "uuid \<Rightarrow> ref_month \<Rightarrow> int \<Rightarrow> int \<Rightarrow> int \<Rightarrow> gotime option \<Rightarrow> monthly_summary" where
  "new_monthly_summary u rm income outcome ver upd =
     \<lparr>ms_user_id = u, ms_ref_month = rm, ms_income_cents = income, ms_outcome_cents = outcome,
      ms_total_cents = i64 (income - outcome), ms_version = ver, ms_updated_at = upd\<rparr>"

section \<open>Recurring templates\<close>

record recurring_template =
  rt_id :: uuid
  rt_user_id :: uuid
  rt_direction :: direction
  rt_payment_method :: payment_method
  rt_card_id :: "uuid option"
  rt_amount :: money
  rt_description :: description
  rt_category_id :: uuid
  rt_subcategory_id :: "uuid option"
  rt_category_name_snapshot :: string
  rt_subcategory_name_snapshot :: string
  rt_evidence :: evidence
  rt_frequency :: frequency
  rt_day_of_month :: day_of_month
  rt_installments_total :: installment_count
  rt_started_at :: gotime
  rt_ended_at :: "gotime option"
  rt_version :: int
  rt_deleted_at :: "gotime option"
  rt_created_at :: gotime
  rt_updated_at :: gotime

definition new_recurring_template ::
  "uuid \<Rightarrow> uuid \<Rightarrow> direction \<Rightarrow> payment_method \<Rightarrow> uuid option \<Rightarrow> money \<Rightarrow> description \<Rightarrow> uuid \<Rightarrow>
   uuid option \<Rightarrow> string \<Rightarrow> string \<Rightarrow> evidence \<Rightarrow> frequency \<Rightarrow> day_of_month \<Rightarrow>
   installment_count \<Rightarrow> gotime \<Rightarrow> gotime option \<Rightarrow> gotime \<Rightarrow> recurring_template" where
  "new_recurring_template i u dir pm cid amt desc cat sub cname sname ev freq dmo inst st en now =
     \<lparr>rt_id = i, rt_user_id = u, rt_direction = dir, rt_payment_method = pm, rt_card_id = cid,
      rt_amount = amt, rt_description = desc, rt_category_id = cat, rt_subcategory_id = sub,
      rt_category_name_snapshot = cname, rt_subcategory_name_snapshot = sname,
      rt_evidence = ev, rt_frequency = freq, rt_day_of_month = dmo,
      rt_installments_total = inst, rt_started_at = st, rt_ended_at = en, rt_version = 1,
      rt_deleted_at = None, rt_created_at = now, rt_updated_at = now\<rparr>"

definition update_recurring_template ::
  "direction \<Rightarrow> payment_method \<Rightarrow> uuid option \<Rightarrow> money \<Rightarrow> description \<Rightarrow> uuid \<Rightarrow> uuid option \<Rightarrow>
   string \<Rightarrow> string \<Rightarrow> evidence \<Rightarrow> frequency \<Rightarrow> day_of_month \<Rightarrow> installment_count \<Rightarrow> gotime \<Rightarrow>
   gotime option \<Rightarrow> gotime \<Rightarrow> recurring_template \<Rightarrow> recurring_template" where
  "update_recurring_template dir pm cid amt desc cat sub cname sname ev freq dmo inst st en now r =
     r\<lparr>rt_direction := dir, rt_payment_method := pm, rt_card_id := cid, rt_amount := amt,
       rt_description := desc, rt_category_id := cat, rt_subcategory_id := sub,
       rt_category_name_snapshot := cname, rt_subcategory_name_snapshot := sname,
       rt_evidence := ev, rt_frequency := freq, rt_day_of_month := dmo,
       rt_installments_total := inst, rt_started_at := st, rt_ended_at := en,
       rt_version := i64 (rt_version r + 1), rt_updated_at := now\<rparr>"

definition soft_delete_template ::
  "gotime \<Rightarrow> recurring_template \<Rightarrow> txn_error + recurring_template" where
  "soft_delete_template now r =
     (if rt_deleted_at r \<noteq> None then Inl ErrRecurringTemplateAlreadyDeleted
      else Inr (r\<lparr>rt_deleted_at := Some now, rt_version := i64 (rt_version r + 1),
                  rt_updated_at := now\<rparr>))"

definition reconstitute_recurring_template ::
  "uuid \<Rightarrow> uuid \<Rightarrow> direction \<Rightarrow> payment_method \<Rightarrow> uuid option \<Rightarrow> money \<Rightarrow> description \<Rightarrow> uuid \<Rightarrow>
   uuid option \<Rightarrow> string \<Rightarrow> string \<Rightarrow> evidence \<Rightarrow> frequency \<Rightarrow> day_of_month \<Rightarrow>
   installment_count \<Rightarrow> gotime \<Rightarrow> gotime option \<Rightarrow> int \<Rightarrow> gotime option \<Rightarrow> gotime \<Rightarrow> gotime \<Rightarrow>
   recurring_template" where
  "reconstitute_recurring_template i u dir pm cid amt desc cat sub cname sname ev freq dmo inst
     st en ver del cre upd =
     \<lparr>rt_id = i, rt_user_id = u, rt_direction = dir, rt_payment_method = pm, rt_card_id = cid,
      rt_amount = amt, rt_description = desc, rt_category_id = cat, rt_subcategory_id = sub,
      rt_category_name_snapshot = cname, rt_subcategory_name_snapshot = sname,
      rt_evidence = ev, rt_frequency = freq, rt_day_of_month = dmo,
      rt_installments_total = inst, rt_started_at = st, rt_ended_at = en, rt_version = ver,
      rt_deleted_at = del, rt_created_at = cre, rt_updated_at = upd\<rparr>"

section \<open>Events\<close>

record card_purchase_installment =
  cpi_item_id :: uuid
  cpi_ref_month :: ref_month
  cpi_amount_cents :: int
  cpi_index :: int

record transaction_created =
  tc_event_id :: uuid
  tc_aggregate_id :: uuid
  tc_user_id :: uuid
  tc_occurred_at :: gotime
  tc_direction :: direction
  tc_payment_method :: payment_method
  tc_amount_cents :: int
  tc_ref_month :: ref_month
  tc_category_id :: uuid
  tc_subcategory_id :: uuid
  tc_ref_months_affected :: "ref_month list"
  tc_installments :: "card_purchase_installment list"

record transaction_updated =
  tu_event_id :: uuid
  tu_aggregate_id :: uuid
  tu_user_id :: uuid
  tu_occurred_at :: gotime
  tu_direction :: direction
  tu_payment_method :: payment_method
  tu_amount_cents :: int
  tu_ref_month :: ref_month
  tu_subcategory_id :: uuid
  tu_ref_months_affected :: "ref_month list"

record transaction_deleted =
  td_event_id :: uuid
  td_aggregate_id :: uuid
  td_user_id :: uuid
  td_occurred_at :: gotime
  td_ref_month :: ref_month
  td_ref_months_affected :: "ref_month list"

datatype transaction_event =
    Created transaction_created
  | Updated transaction_updated
  | Deleted transaction_deleted

end
