(* ===== verification/TxnServices.thy ===== *)
theory TxnServices
  imports TxnEntities
begin

text \<open>
  The pure services of \<open>internal/transactions/domain/services\<close>: splitting an amount into
  installments, resolving the billing cycles a card purchase falls into, and deciding whether a
  recurring template materialises on a day.
\<close>

section \<open>Splitting an amount\<close>

text \<open>
  The error of \<open>NewMoney\<close> is dropped: a share of zero cents becomes the zero \<open>Money\<close>.
\<close>

definition split_amount :: "money \<Rightarrow> installment_count \<Rightarrow> money list" where
  "split_amount amt n =
     (let k = count n; base = cents amt sdiv k; rest = cents amt smod k
      in map (\<lambda>i. case new_money (if int i < rest then base + 1 else base) of
                    Inr m \<Rightarrow> m
                  | Inl _ \<Rightarrow> Money 0) [0..<nat k])"

definition share :: "int \<Rightarrow> int \<Rightarrow> nat \<Rightarrow> int" where
  "share c k i = c div k + (if int i < c mod k then 1 else 0)"

lemma sum_upto_less: "(\<Sum>i = 0..<n. if int i < r then 1 else 0) = min (int n) r" if "0 \<le> r"
  using that by (induction n) auto

lemma split_amount_shares:
  assumes "0 \<le> cents amt" "1 \<le> count n"
  shows "map cents (split_amount amt n) = map (share (cents amt) (count n)) [0..<nat (count n)]"
proof -
  let ?c = "cents amt" and ?k = "count n"
  have k: "0 < ?k" using assms by simp
  have "0 \<le> ?c div ?k" using assms(1) k by (simp add: pos_imp_zdiv_nonneg_iff)
  then have "cents (case new_money (share ?c ?k i) of Inr m \<Rightarrow> m | Inl _ \<Rightarrow> Money 0) = share ?c ?k i"
    for i by (auto simp: share_def new_money_def)
  moreover have "(if int i < ?c smod ?k then ?c sdiv ?k + 1 else ?c sdiv ?k) = share ?c ?k i" for i
    using assms by (simp add: share_def sdiv_nonneg smod_nonneg)
  ultimately show ?thesis by (simp add: split_amount_def Let_def comp_def)
qed

lemma share_bounds:
  assumes "0 \<le> c" "1 \<le> k"
  shows "0 \<le> share c k i" "c div k \<le> share c k i" "share c k i \<le> c div k + 1"
    "i \<le> j \<Longrightarrow> share c k j \<le> share c k i"
  using assms by (auto simp: share_def pos_imp_zdiv_nonneg_iff add_nonneg_nonneg)

lemma sum_shares:
  assumes "0 \<le> c" "1 \<le> k"
  shows "sum_list (map (share c k) [0..<nat k]) = c"
proof -
  have "c mod k < k" "0 \<le> c mod k" using assms by simp_all
  then have "(\<Sum>i = 0..<nat k. share c k i) = k * (c div k) + c mod k"
    using assms sum_upto_less [of "c mod k" "nat k"] by (simp add: share_def sum.distrib)
  then show ?thesis by (simp add: interv_sum_list_conv_sum_set_nat)
qed

section \<open>Billing cycles\<close>

definition clamp_day :: "int \<Rightarrow> int \<Rightarrow> int \<Rightarrow> int" where
  "clamp_day d y m =
     (let last_day = day (midnight y (m + 1) 0 utc) in if d > last_day then last_day else d)"

text \<open>The inner loop: months beyond December carry into the year.\<close>

function carry_month :: "int \<Rightarrow> int \<Rightarrow> int \<times> int" where
  "carry_month y m = (if m > 12 then carry_month (y + 1) (m - 12) else (y, m))"
  by pat_completeness auto
termination
  by (relation "measure (\<lambda>(y, m). nat m)") auto

declare carry_month.simps [simp del]

definition first_cycle :: "gotime \<Rightarrow> int \<Rightarrow> int \<times> int" where
  "first_cycle purchased closing =
     (if day purchased \<le> closing then (year purchased, month purchased)
      else let next = midnight (year purchased) (month purchased + 1) 1 (loc purchased)
           in (year next, month next))"

definition cycle_at ::
  "location \<Rightarrow> int \<Rightarrow> int \<Rightarrow> int \<times> int \<Rightarrow> nat \<Rightarrow> ref_month \<times> gotime \<times> gotime" where
  "cycle_at l closing due fm i =
     (let (y, m) = carry_month (fst fm) (snd fm + int i);
          closing_eff = clamp_day closing y m;
          (dy, dm) = (if due < closing
                      then let next = midnight y (m + 1) 1 utc in (year next, month next)
                      else (y, m));
          due_eff = clamp_day due dy dm
      in (ref_month_from_time (midnight y m 1 l) l, midnight y m closing_eff l,
          midnight dy dm due_eff l))"

definition resolve ::
  "gotime \<Rightarrow> card_billing_snapshot \<Rightarrow> installment_count \<Rightarrow>
   ref_month list \<times> gotime list \<times> gotime list" where
  "resolve purchased snap n =
     (let closing = dom_value (closing_day snap); due = dom_value (due_day snap);
          br = in_loc purchased (loc purchased); fm = first_cycle br closing;
          cs = map (cycle_at (loc purchased) closing due fm) [0..<nat (count n)]
      in (map fst cs, map (\<lambda>c. fst (snd c)) cs, map (\<lambda>c. snd (snd c)) cs))"

lemma last_day_of_month:
  assumes "1 \<le> m" "m \<le> 12" "steady l off"
  shows "day (midnight y (m + 1) 0 l) = days_in_month y m"
proof -
  have "days_of y (m + 1) 0 = days_of y m (days_in_month y m)"
    using days_of_next_month [OF assms(1,2), of y]
    by (simp add: days_of_day [of y "m + 1" 0] days_of_day [of y m "days_in_month y m"])
  then have "midnight y (m + 1) 0 l = midnight y m (days_in_month y m) l" by (rule midnight_cong)
  moreover have "valid_date y m (days_in_month y m)"
    using assms(1,2) days_in_month_range(1) [of y m] by (simp add: valid_date_def)
  ultimately show ?thesis using assms(3) by (simp add: day_def date_of_midnight)
qed

lemma clamp_day_eq:
  "1 \<le> m \<Longrightarrow> m \<le> 12 \<Longrightarrow> clamp_day d y m = min d (days_in_month y m)"
  using last_day_of_month [OF _ _ steady_utc, of m y] by (simp add: clamp_day_def Let_def)

lemma carry_month_eq:
  "1 \<le> m \<Longrightarrow> carry_month y m = (y + (m - 1) div 12, (m - 1) mod 12 + 1)"
proof (induction y m rule: carry_month.induct)
  case (1 y m)
  show ?case
  proof (cases "m > 12")
    case True
    have "(m - 1) div 12 = (m - 12 - 1) div 12 + 1" "(m - 1) mod 12 = (m - 12 - 1) mod 12"
      using div_add_self2 [of 12 "m - 13"] mod_add_self2 [of "m - 13" 12] by simp_all
    with True 1 show ?thesis by (simp add: carry_month.simps [of y m])
  next
    case False
    with "1.prems" show ?thesis by (simp add: carry_month.simps [of y m])
  qed
qed

lemma next_month_fields:
  assumes "1 \<le> m" "m \<le> 12" "steady l off"
  shows "(year (midnight y (m + 1) 1 l), month (midnight y (m + 1) 1 l)) =
    (if m = 12 then (y + 1, 1) else (y, m + 1))"
proof (cases "m = 12")
  case True
  have "midnight y 13 1 l = midnight (y + 1) 1 1 l"
    using days_of_month_overflow [of y 1 1] by (intro midnight_cong) simp
  then show ?thesis using True month_fields [OF _ _ assms(3), of 1 "y + 1"] by simp
next
  case False
  then show ?thesis using assms month_fields [OF _ _ assms(3), of "m + 1" y] by simp
qed

text \<open>Months are counted from year 0: month \<open>k\<close> is month \<open>k mod 12 + 1\<close> of year \<open>k div 12\<close>.\<close>

definition nth_month :: "int \<Rightarrow> int \<times> int" where
  "nth_month k = (k div 12, k mod 12 + 1)"

definition month_count :: "int \<Rightarrow> int \<Rightarrow> int" where
  "month_count y m = 12 * y + m - 1"

lemma nth_month_count: "1 \<le> m \<Longrightarrow> m \<le> 12 \<Longrightarrow> nth_month (month_count y m) = (y, m)"
proof -
  assume m: "1 \<le> m" "m \<le> 12"
  have "(12 * y + (m - 1)) div 12 = y" "(12 * y + (m - 1)) mod 12 = m - 1"
    using m by simp_all
  then show ?thesis by (simp add: nth_month_def month_count_def add_diff_eq)
qed

lemma carry_month_nth:
  "1 \<le> m \<Longrightarrow> carry_month y m = nth_month (month_count y m)"
proof -
  assume m: "1 \<le> m"
  have "month_count y m = (m - 1) + y * 12" by (simp add: month_count_def)
  then have "month_count y m div 12 = y + (m - 1) div 12" "month_count y m mod 12 = (m - 1) mod 12"
    by simp_all
  then show ?thesis using carry_month_eq [OF m] by (simp add: nth_month_def)
qed

lemma nth_month_range: "1 \<le> snd (nth_month k)" "snd (nth_month k) \<le> 12"
  using pos_mod_bound [of 12 k] by (simp_all add: nth_month_def)

definition month_start :: "int \<Rightarrow> int" where
  "month_start k = days_of (fst (nth_month k)) (snd (nth_month k)) 1"

definition month_length :: "int \<Rightarrow> int" where
  "month_length k = days_in_month (fst (nth_month k)) (snd (nth_month k))"

lemma month_start_Suc: "month_start (k + 1) = month_start k + month_length k"
proof -
  obtain y m where k: "nth_month k = (y, m)" by fastforce
  then have m: "1 \<le> m" "m \<le> 12" using nth_month_range [of k] by simp_all
  have km: "k = month_count y m"
    using k mult_div_mod_eq [of 12 k] by (auto simp: nth_month_def month_count_def)
  have "month_start (k + 1) = days_of y (m + 1) 1"
  proof (cases "m = 12")
    case True
    then have "k + 1 = month_count (y + 1) 1" by (simp add: km month_count_def)
    then show ?thesis
      using True days_of_month_overflow [of y 1 1] by (simp add: month_start_def nth_month_count)
  next
    case False
    then have "k + 1 = month_count y (m + 1)" by (simp add: km month_count_def)
    with m False show ?thesis by (simp add: month_start_def nth_month_count)
  qed
  then show ?thesis
    using days_of_next_month [OF m, of y] by (simp add: month_start_def month_length_def k)
qed

lemma month_length_range: "28 \<le> month_length k" "month_length k \<le> 31"
  using days_in_month_range by (simp_all add: month_length_def)

lemma month_start_less: "j < k \<Longrightarrow> month_start j + month_length j \<le> month_start k"
proof (induction "nat (k - j)" arbitrary: k)
  case (Suc n)
  show ?case
  proof (cases "k = j + 1")
    case True then show ?thesis using month_start_Suc [of j] by simp
  next
    case False
    then have "month_start j + month_length j \<le> month_start (k - 1)"
      using Suc by (intro Suc(1)) auto
    then show ?thesis using month_start_Suc [of "k - 1"] month_length_range [of "k - 1"] by simp
  qed
qed simp

text \<open>The day on which the cycle of month \<open>k\<close> closes, and the day on which it falls due.\<close>

definition clamped_day :: "int \<Rightarrow> int \<Rightarrow> int" where
  "clamped_day d k = month_start k + min d (month_length k) - 1"

lemma clamped_day_less:
  "1 \<le> c \<Longrightarrow> 1 \<le> d \<Longrightarrow> j < k \<Longrightarrow> clamped_day c j < clamped_day d k"
  using month_start_less [of j k] month_length_range [of k] by (auto simp: clamped_day_def min_def)

definition first_month :: "gotime \<Rightarrow> int \<Rightarrow> int" where
  "first_month t c = month_count (year t) (month t) + (if day t \<le> c then 0 else 1)"

lemma nth_month_Suc:
  assumes "1 \<le> m" "m \<le> 12"
  shows "nth_month (month_count y m + 1) = (if m = 12 then (y + 1, 1) else (y, m + 1))"
  using nth_month_count [of 1 "y + 1"] nth_month_count [of "m + 1" y] assms
  by (auto simp: month_count_def algebra_simps)

lemma first_cycle_nth:
  assumes "steady (loc t) off"
  shows "first_cycle t c = nth_month (first_month t c)"
  using nth_month_Suc [OF month_range [of t], of "year t"]
    nth_month_count [OF month_range [of t], of "year t"]
    next_month_fields [OF month_range [of t] assms, of "year t"]
  by (simp add: first_cycle_def first_month_def Let_def split: if_splits)

lemma midnight_clamped:
  assumes "steady l off" "nth_month k = (y, m)"
  shows "local_day (midnight y m (clamp_day d y m) l) = clamped_day d k"
proof -
  have m: "1 \<le> m" "m \<le> 12" using nth_month_range [of k] assms(2) by simp_all
  show ?thesis
    using assms days_of_day [of y m "min d (days_in_month y m)"]
    by (simp add: local_day_midnight clamp_day_eq [OF m] clamped_day_def month_start_def
        month_length_def)
qed

lemma cycle_at_fields:
  assumes "steady l off" "cycle_at l c d (nth_month k) i = (rm, cl, du)"
  shows "rm = (case nth_month (k + int i) of (y, m) \<Rightarrow> RefMonth (month_string y m))"
    "local_day cl = clamped_day c (k + int i)"
    "local_day du = clamped_day d (k + int i + (if d < c then 1 else 0))"
    "loc cl = l" "loc du = l"
proof -
  obtain y0 m0 where k0: "nth_month k = (y0, m0)" by fastforce
  obtain y m where k: "nth_month (k + int i) = (y, m)" by fastforce
  have m0: "1 \<le> m0" using nth_month_range [of k] k0 by simp
  have m: "1 \<le> m" "m \<le> 12" using nth_month_range [of "k + int i"] k by simp_all
  have km: "k = month_count y0 m0"
    using k0 mult_div_mod_eq [of 12 k] by (auto simp: nth_month_def month_count_def)
  have km': "k + int i = month_count y m"
    using k mult_div_mod_eq [of 12 "k + int i"] by (auto simp: nth_month_def month_count_def)
  have "carry_month y0 (m0 + int i) = (y, m)"
    using carry_month_nth [of "m0 + int i" y0] m0 k
    by (simp add: km month_count_def algebra_simps)
  moreover have "nth_month (k + int i + 1) =
      (year (midnight y (m + 1) 1 utc), month (midnight y (m + 1) 1 utc))"
    using nth_month_Suc [OF m, of y] next_month_fields [OF m steady_utc, of y] by (simp add: km')
  ultimately show "rm = (case nth_month (k + int i) of (y, m) \<Rightarrow> RefMonth (month_string y m))"
    "local_day cl = clamped_day c (k + int i)"
    "local_day du = clamped_day d (k + int i + (if d < c then 1 else 0))"
    "loc cl = l" "loc du = l"
    using assms k0 k midnight_clamped [OF assms(1) k] midnight_clamped [OF assms(1)]
      month_fields [OF m assms(1), of y]
    by (auto simp: cycle_at_def Let_def ref_month_from_time_def split: if_splits)
qed

lemma first_month_bounds:
  assumes "1 \<le> c"
  shows "clamped_day c (first_month p c - 1) < local_day p"
    "local_day p \<le> clamped_day c (first_month p c)"
proof -
  define k where "k = month_count (year p) (month p)"
  have k: "nth_month k = (year p, month p)"
    using nth_month_count [OF month_range [of p]] by (simp add: k_def)
  have day: "local_day p = month_start k + day p - 1"
    using days_of_day [of "year p" "month p" "day p"]
    by (simp add: local_day_date month_start_def k)
  have len: "day p \<le> month_length k"
    using date_of_valid [of p] by (simp add: month_length_def k valid_date_def)
  show "clamped_day c (first_month p c - 1) < local_day p"
    using day day_range [of p] month_start_Suc [of "k - 1"]
    by (auto simp: first_month_def clamped_day_def min_def simp flip: k_def)
  show "local_day p \<le> clamped_day c (first_month p c)"
    using day len assms month_start_Suc [of k] month_length_range [of "k + 1"]
    by (auto simp: first_month_def clamped_day_def min_def simp flip: k_def)
qed

section \<open>Correctness\<close>

text \<open>
  C6: An amount splits into exactly the requested number of installments, which add up to the
  amount, never increase and differ by at most one cent; all of them are positive exactly when
  there are at least as many cents as installments.
\<close>

theorem split_amount_fair:
  assumes "0 < cents amt" "1 \<le> count n"
  shows "length (split_amount amt n) = nat (count n) \<and>
    sum_list (map cents (split_amount amt n)) = cents amt \<and>
    (\<forall>j < nat (count n). \<forall>i \<le> j.
       cents (split_amount amt n ! j) \<le> cents (split_amount amt n ! i) \<and>
       cents (split_amount amt n ! i) \<le> cents (split_amount amt n ! j) + 1) \<and>
    ((\<forall>m \<in> set (split_amount amt n). 0 < cents m) \<longleftrightarrow> count n \<le> cents amt)"
proof -
  let ?c = "cents amt" and ?k = "count n" and ?s = "split_amount amt n"
  have shares: "map cents ?s = map (share ?c ?k) [0..<nat ?k]"
    using assms by (intro split_amount_shares) simp_all
  then have len: "length ?s = nat ?k" by (metis length_map diff_zero length_upt)
  have nth: "cents (?s ! i) = share ?c ?k i" if "i < nat ?k" for i
    using that len shares by (metis add_0 diff_zero length_upt nth_map nth_upt)
  have pos: "(\<forall>m \<in> set ?s. 0 < cents m) \<longleftrightarrow> (\<forall>i < nat ?k. 0 < share ?c ?k i)"
    using nth len by (auto simp: all_set_conv_all_nth)
  have "(\<forall>i < nat ?k. 0 < share ?c ?k i) \<longleftrightarrow> ?k \<le> ?c"
  proof
    assume "?k \<le> ?c"
    then have "1 \<le> ?c div ?k" using assms zdiv_mono1 [of ?k ?c ?k] by simp
    then show "\<forall>i < nat ?k. 0 < share ?c ?k i" by (simp add: share_def)
  next
    assume "\<forall>i < nat ?k. 0 < share ?c ?k i"
    then have "0 < share ?c ?k (nat (?k - 1))" using assms by simp
    then show "?k \<le> ?c"
      using assms by (cases "?k \<le> ?c") (auto simp: share_def split: if_splits)
  qed
  moreover have "share ?c ?k j \<le> share ?c ?k i \<and> share ?c ?k i \<le> share ?c ?k j + 1"
    if "i \<le> j" for i j using that by (auto simp: share_def)
  ultimately show ?thesis
    using pos len nth shares sum_shares [of ?c ?k] assms by simp
qed

theorem split_amount_fair_witness:
  "map cents (split_amount (Money 100) (InstallmentCount 3)) = [34, 33, 33] \<and>
   sum_list (map cents (split_amount (Money 100) (InstallmentCount 3))) = 100"
  using split_amount_fair [of "Money 100" "InstallmentCount 3"]
    split_amount_shares [of "Money 100" "InstallmentCount 3"]
  by (simp add: share_def upt_rec)

text \<open>
  The cycles of a card purchase. The first cycle is the one whose closing day is the first on
  or after the day of the purchase, later installments fall one month after another and are
  labelled with their months, closing days increase strictly, a cycle never falls due before it
  closes, and closing and due days are clamped to the last day of their month.
\<close>

lemma resolve_cycles:
  assumes "steady (loc p) off" "valid_snapshot s" "resolve p s n = (rms, cls, dues)"
    "i < nat (count n)"
  shows "length rms = nat (count n) \<and> length cls = nat (count n) \<and> length dues = nat (count n) \<and>
    (let c = dom_value (closing_day s); d = dom_value (due_day s); k = first_month p c in
      clamped_day c (k - 1) < local_day p \<and> local_day p \<le> clamped_day c k \<and>
      rms ! i = (case nth_month (k + int i) of (y, m) \<Rightarrow> RefMonth (month_string y m)) \<and>
      local_day (cls ! i) = clamped_day c (k + int i) \<and>
      local_day (dues ! i) = clamped_day d (if d < c then k + int i + 1 else k + int i) \<and>
      local_day (cls ! i) \<le> local_day (dues ! i) \<and>
      (i + 1 < nat (count n) \<longrightarrow> local_day (cls ! i) < local_day (cls ! (i + 1))))"
proof -
  define c where "c = dom_value (closing_day s)"
  define d where "d = dom_value (due_day s)"
  define k where "k = first_month p c"
  have cd: "1 \<le> c" "1 \<le> d" using assms(2) by (simp_all add: c_def d_def valid_snapshot_def)
  have lists: "rms = map (\<lambda>i. fst (cycle_at (loc p) c d (nth_month k) i)) [0..<nat (count n)]"
    "cls = map (\<lambda>i. fst (snd (cycle_at (loc p) c d (nth_month k) i))) [0..<nat (count n)]"
    "dues = map (\<lambda>i. snd (snd (cycle_at (loc p) c d (nth_month k) i))) [0..<nat (count n)]"
    using assms(3) first_cycle_nth [OF assms(1), of c]
    by (auto simp: resolve_def Let_def c_def d_def k_def)
  have f: "fst (cycle_at (loc p) c d (nth_month k) j) =
        (case nth_month (k + int j) of (y, m) \<Rightarrow> RefMonth (month_string y m))"
      "local_day (fst (snd (cycle_at (loc p) c d (nth_month k) j))) = clamped_day c (k + int j)"
      "local_day (snd (snd (cycle_at (loc p) c d (nth_month k) j))) =
        clamped_day d (k + int j + (if d < c then 1 else 0))" for j
    using cycle_at_fields [OF assms(1), of c d k j] by (metis prod.collapse)+
  have "clamped_day c (k + int i) \<le> clamped_day d (k + int i + (if d < c then 1 else 0))"
    using clamped_day_less [OF cd, of "k + int i" "k + int i + 1"]
    by (auto simp: clamped_day_def)
  then show ?thesis
    using assms(4) f cd first_month_bounds [OF cd(1), of p] clamped_day_less [OF cd(1) cd(1)]
    by (simp add: lists Let_def flip: c_def d_def k_def)
qed

lemma midnight_fields:
  assumes "steady l off" "valid_date y m d"
  shows "year (midnight y m d l) = y" "month (midnight y m d l) = m" "day (midnight y m d l) = d"
  using date_of_midnight [OF assms] by (simp_all add: year_def month_def day_def)

lemma resolve_cycles_witness:
  "case resolve (midnight 2024 1 31 utc)
          \<lparr>closing_day = \<lparr>dom_value = 30, dom_max = 31\<rparr>, due_day = \<lparr>dom_value = 5, dom_max = 31\<rparr>\<rparr>
          (InstallmentCount 2) of
     (rms, cls, dues) \<Rightarrow>
       rms ! 0 = RefMonth ''2024-02'' \<and> local_day (cls ! 0) = days_of 2024 2 29 \<and>
       local_day (dues ! 0) = days_of 2024 3 5"
    (is "case resolve ?p ?s ?n of (rms, cls, dues) \<Rightarrow> ?P rms cls dues")
proof -
  obtain rms cls dues where r: "resolve ?p ?s ?n = (rms, cls, dues)" by (rule prod_cases3)
  have "valid_date 2024 1 31" by (simp add: valid_date_def days_in_month_def)
  then have k: "first_month ?p 30 = 12 * 2024 + 1"
    by (simp add: first_month_def midnight_fields [OF steady_utc] month_count_def)
  have "clamped_day 30 24289 = days_of 2024 2 29" "clamped_day 5 24290 = days_of 2024 3 5"
    by (simp_all add: clamped_day_def month_start_def month_length_def nth_month_def
        days_of_day [of 2024 2 29] days_of_day [of 2024 3 5] days_in_month_def is_leap_def)
  then have "?P rms cls dues"
    using resolve_cycles [OF _ _ r, of 0 0]
    by (simp add: valid_snapshot_def k Let_def nth_month_def month_string_explicit label_ok_def
        digit_char_literals)
  then show ?thesis by (simp add: r)
qed

end
