(* ===== verification/TxnCommands.thy ===== *)
theory TxnCommands
  imports TxnServices
begin

text \<open>
  The commands of \<open>internal/transactions/domain/commands\<close>: untrusted requests become commands
  of value objects, or the list of every rule they break. \<open>uuid.Parse\<close> is the parameter
  \<open>parse\<close> of the constructors.
\<close>

section \<open>Creating and updating a transaction\<close>

record raw_create_transaction =
  rct_direction :: string
  rct_payment_method :: string
  rct_amount_cents :: int
  rct_description :: string
  rct_category_id :: string
  rct_subcategory_id :: string
  rct_card_id :: string
  rct_installments :: int
  rct_occurred_at :: gotime

record create_transaction =
  ct_user_id :: uuid
  ct_direction :: direction
  ct_payment_method :: payment_method
  ct_amount :: money
  ct_description :: description
  ct_category_id :: uuid
  ct_subcategory_id :: "uuid option"
  ct_card_id :: "uuid option"
  ct_installments :: "installment_count option"
  ct_occurred_at :: gotime

definition parse_id :: "(string \<Rightarrow> uuid option) \<Rightarrow> txn_error \<Rightarrow> string \<Rightarrow> txn_error + uuid" where
  "parse_id parse e s = (case parse s of Some i \<Rightarrow> Inr i | None \<Rightarrow> Inl e)"

text \<open>The \<open>parseOptional\<close> helpers return the errors they append with the option they build.\<close>

definition parse_optional_id ::
  "(string \<Rightarrow> uuid option) \<Rightarrow> txn_error \<Rightarrow> string \<Rightarrow> txn_error list \<times> uuid option" where
  "parse_optional_id parse e raw =
     (if raw = '''' then ([], None)
      else case parse_id parse e raw of Inl e' \<Rightarrow> ([e'], None) | Inr i \<Rightarrow> ([], Some i))"

definition parse_optional_installment_count ::
  "int \<Rightarrow> txn_error list \<times> installment_count option" where
  "parse_optional_installment_count raw =
     (if raw = 0 then ([], None)
      else case new_installment_count raw of Inl e \<Rightarrow> ([e], None) | Inr n \<Rightarrow> ([], Some n))"

definition validate_credit_card_constraints ::
  "txn_error + payment_method \<Rightarrow> uuid option \<Rightarrow> txn_error + direction \<Rightarrow> txn_error list" where
  "validate_credit_card_constraints pm cid dir =
     (if pm \<noteq> Inr CreditCard then []
      else err_if (cid = None) ErrCommandCreditCardRequiresCardID @
           err_if (dir = Inr DirectionIncome) ErrCommandCreditCardRequiresOutcome)"

definition new_create_transaction ::
  "(string \<Rightarrow> uuid option) \<Rightarrow> raw_create_transaction \<Rightarrow> uuid \<Rightarrow>
   txn_error list + create_transaction" where
  "new_create_transaction parse raw user =
     (let dir = parse_direction (rct_direction raw);
          pm = parse_payment_method_for_create (rct_payment_method raw);
          amt = new_money (rct_amount_cents raw);
          desc = new_description (rct_description raw);
          cat = parse_id parse ErrInvalidCategoryID (rct_category_id raw);
          sub = parse_optional_id parse ErrInvalidSubcategoryID (rct_subcategory_id raw);
          cid = parse_optional_id parse ErrInvalidCardID (rct_card_id raw);
          inst = parse_optional_installment_count (rct_installments raw);
          errs = errs_of dir @ errs_of pm @ errs_of amt @ errs_of desc @ errs_of cat @
                 err_if (is_zero (rct_occurred_at raw)) ErrCommandMissingOccurredAt @
                 fst sub @ fst cid @ fst inst @
                 validate_credit_card_constraints pm (snd cid) dir
      in case (dir, pm, amt, desc, cat) of
           (Inr d, Inr p, Inr a, Inr s, Inr c) \<Rightarrow>
             if errs = []
             then Inr \<lparr>ct_user_id = user, ct_direction = d, ct_payment_method = p, ct_amount = a,
                       ct_description = s, ct_category_id = c, ct_subcategory_id = snd sub,
                       ct_card_id = snd cid, ct_installments = snd inst,
                       ct_occurred_at = rct_occurred_at raw\<rparr>
             else Inl errs
         | _ \<Rightarrow> Inl errs)"

text \<open>
  An update carries the identity and the expected version too; its other fields are checked by
  the same rules in the same order, after the identity.
\<close>

record raw_update_transaction = raw_create_transaction +
  rut_transaction_id :: string
  rut_version :: int

record update_transaction_cmd = create_transaction +
  ut_transaction_id :: uuid
  ut_version :: int

definition new_update_transaction ::
  "(string \<Rightarrow> uuid option) \<Rightarrow> raw_update_transaction \<Rightarrow> uuid \<Rightarrow>
   txn_error list + update_transaction_cmd" where
  "new_update_transaction parse raw user =
     (let tid = parse_id parse ErrUUIDParse (rut_transaction_id raw)
      in case (tid, new_create_transaction parse (raw_create_transaction.truncate raw) user) of
           (Inr i, Inr c) \<Rightarrow>
             Inr (create_transaction.extend c
                    (update_transaction_cmd.fields i (rut_version raw)))
         | (_, Inl es) \<Rightarrow> Inl (errs_of tid @ es)
         | (_, Inr c) \<Rightarrow> Inl (errs_of tid))"

section \<open>Recurring templates\<close>

record raw_recurring_template =
  rrt_direction :: string
  rrt_payment_method :: string
  rrt_card_id :: string
  rrt_amount_cents :: int
  rrt_description :: string
  rrt_category_id :: string
  rrt_subcategory_id :: string
  rrt_frequency :: string
  rrt_day_of_month :: int
  rrt_started_at :: gotime
  rrt_ended_at :: "gotime option"
  rrt_installments_total :: int

record create_recurring_template =
  cr_user_id :: uuid
  cr_direction :: direction
  cr_payment_method :: payment_method
  cr_card_id :: "uuid option"
  cr_amount :: money
  cr_description :: description
  cr_category_id :: uuid
  cr_subcategory_id :: "uuid option"
  cr_frequency :: frequency
  cr_day_of_month :: day_of_month
  cr_started_at :: gotime
  cr_ended_at :: "gotime option"
  cr_installments_total :: installment_count

definition new_create_recurring_template ::
  "(string \<Rightarrow> uuid option) \<Rightarrow> raw_recurring_template \<Rightarrow> uuid \<Rightarrow>
   txn_error list + create_recurring_template" where
  "new_create_recurring_template parse raw user =
     (let dir = parse_direction (rrt_direction raw);
          pm = parse_payment_method_for_create (rrt_payment_method raw);
          amt = new_money (rrt_amount_cents raw);
          desc = new_description (rrt_description raw);
          cat = parse_id parse ErrInvalidCategoryID (rrt_category_id raw);
          freq = parse_frequency (rrt_frequency raw);
          dmo = new_day_of_month (rrt_day_of_month raw);
          inst = new_installment_count
                   (if rrt_installments_total raw > 0 then rrt_installments_total raw else 1);
          cid = parse_optional_id parse ErrInvalidCardID (rrt_card_id raw);
          sub = parse_optional_id parse ErrInvalidSubcategoryID (rrt_subcategory_id raw);
          errs = errs_of dir @ errs_of pm @ errs_of amt @ errs_of desc @ errs_of cat @
                 errs_of freq @ errs_of dmo @ errs_of inst @ fst cid @
                 err_if (pm = Inr CreditCard \<and> snd cid = None)
                   ErrCommandCreditCardRequiresCardID @
                 fst sub
      in case (dir, pm, amt, desc, cat, freq, dmo, inst) of
           (Inr d, Inr p, Inr a, Inr s, Inr c, Inr f, Inr dm, Inr n) \<Rightarrow>
             if errs = []
             then Inr \<lparr>cr_user_id = user, cr_direction = d, cr_payment_method = p,
                       cr_card_id = snd cid, cr_amount = a, cr_description = s,
                       cr_category_id = c, cr_subcategory_id = snd sub, cr_frequency = f,
                       cr_day_of_month = dm, cr_started_at = rrt_started_at raw,
                       cr_ended_at = rrt_ended_at raw, cr_installments_total = n\<rparr>
             else Inl errs
         | _ \<Rightarrow> Inl errs)"

record raw_update_recurring_template = raw_recurring_template +
  rur_template_id :: string
  rur_version :: int

record update_recurring_template_cmd = create_recurring_template +
  ur_template_id :: uuid
  ur_version :: int

definition new_update_recurring_template ::
  "(string \<Rightarrow> uuid option) \<Rightarrow> raw_update_recurring_template \<Rightarrow> uuid \<Rightarrow>
   txn_error list + update_recurring_template_cmd" where
  "new_update_recurring_template parse raw user =
     (let tid = parse_id parse ErrUUIDParse (rur_template_id raw)
      in case (tid, new_create_recurring_template parse
                      (raw_recurring_template.truncate raw) user) of
           (Inr i, Inr c) \<Rightarrow>
             Inr (create_recurring_template.extend c
                    (update_recurring_template_cmd.fields i (rur_version raw)))
         | (_, Inl es) \<Rightarrow> Inl (errs_of tid @ es)
         | (_, Inr c) \<Rightarrow> Inl (errs_of tid))"

section \<open>What the constructors accept\<close>

lemma parse_optional_id_errs [simp]:
  "fst (parse_optional_id parse e s) = [] \<longleftrightarrow> s = '''' \<or> parse s \<noteq> None"
  by (auto simp: parse_optional_id_def parse_id_def split: option.splits)

lemma parse_optional_id_value [simp]:
  "snd (parse_optional_id parse e s) = (if s = '''' then None else parse s)"
  by (auto simp: parse_optional_id_def parse_id_def split: option.splits)

lemma parse_optional_installment_count_errs [simp]:
  "fst (parse_optional_installment_count n) = [] \<longleftrightarrow> 0 \<le> n \<and> n \<le> 24"
  by (auto simp: parse_optional_installment_count_def new_installment_count_def)

lemma parse_optional_installment_count_value:
  "0 \<le> n \<Longrightarrow> n \<le> 24 \<Longrightarrow>
   snd (parse_optional_installment_count n) = (if n = 0 then None else Some (InstallmentCount n))"
  by (auto simp: parse_optional_installment_count_def new_installment_count_def)

lemma parse_id_Inr [simp]: "parse_id parse e s = Inr i \<longleftrightarrow> parse s = Some i"
  by (auto simp: parse_id_def split: option.splits)

lemma new_money_Inr [simp]: "new_money c = Inr m \<longleftrightarrow> 0 < c \<and> m = Money c"
  by (auto simp: new_money_def)

lemma new_description_Inr [simp]:
  "new_description s = Inr d \<longleftrightarrow> s \<noteq> '''' \<and> length s \<le> 500 \<and> d = Description s"
  by (auto simp: new_description_def)

definition command_ok :: "(string \<Rightarrow> uuid option) \<Rightarrow> raw_create_transaction \<Rightarrow> bool" where
  "command_ok parse raw \<longleftrightarrow>
     rct_direction raw \<in> range direction_string \<and>
     rct_payment_method raw \<in> range payment_method_string \<and>
     0 < rct_amount_cents raw \<and>
     rct_description raw \<noteq> '''' \<and> length (rct_description raw) \<le> 500 \<and>
     parse (rct_category_id raw) \<noteq> None \<and> \<not> is_zero (rct_occurred_at raw) \<and>
     (rct_subcategory_id raw = '''' \<or> parse (rct_subcategory_id raw) \<noteq> None) \<and>
     (rct_card_id raw = '''' \<or> parse (rct_card_id raw) \<noteq> None) \<and>
     0 \<le> rct_installments raw \<and> rct_installments raw \<le> 24 \<and>
     (rct_payment_method raw = ''credit_card'' \<longrightarrow>
        rct_card_id raw \<noteq> '''' \<and> rct_direction raw = ''outcome'')"

definition command_reads :: "(string \<Rightarrow> uuid option) \<Rightarrow> raw_create_transaction \<Rightarrow> create_transaction \<Rightarrow> bool" where
  "command_reads parse raw cmd \<longleftrightarrow>
     direction_string (ct_direction cmd) = rct_direction raw \<and>
     payment_method_string (ct_payment_method cmd) = rct_payment_method raw \<and>
     cents (ct_amount cmd) = rct_amount_cents raw \<and>
     text_of (ct_description cmd) = rct_description raw \<and>
     Some (ct_category_id cmd) = parse (rct_category_id raw) \<and>
     ct_subcategory_id cmd =
       (if rct_subcategory_id raw = '''' then None else parse (rct_subcategory_id raw)) \<and>
     ct_card_id cmd = (if rct_card_id raw = '''' then None else parse (rct_card_id raw)) \<and>
     ct_installments cmd =
       (if rct_installments raw = 0 then None
        else Some (InstallmentCount (rct_installments raw))) \<and>
     ct_occurred_at cmd = rct_occurred_at raw"

lemma parse_direction_Inr: "parse_direction s = Inr d \<longleftrightarrow> direction_string d = s"
  using direction_wire.parse_Inr_iff by simp

lemma parse_method_Inr:
  "parse_payment_method_for_create s = Inr p \<longleftrightarrow> payment_method_string p = s"
  using payment_wire.parse_Inr_iff by (simp add: parse_payment_method_for_create_def)

lemma credit_card_wire: "payment_method_string p = ''credit_card'' \<longleftrightarrow> p = CreditCard"
  by (cases p) simp_all

lemma outcome_wire: "direction_string d = ''outcome'' \<longleftrightarrow> d \<noteq> DirectionIncome"
  by (cases d) simp_all

lemma if_split_sum:
  "(if b then Inr x else Inl e) = Inr y \<longleftrightarrow> b \<and> x = y" by auto

lemma new_create_transaction_Inr:
  assumes "new_create_transaction parse raw user = Inr cmd"
  shows "command_ok parse raw" "command_reads parse raw cmd"
    "ct_user_id cmd = user"
proof -
  obtain d p a s c where r: "parse_direction (rct_direction raw) = Inr d"
    "parse_payment_method_for_create (rct_payment_method raw) = Inr p"
    "new_money (rct_amount_cents raw) = Inr a" "new_description (rct_description raw) = Inr s"
    "parse_id parse ErrInvalidCategoryID (rct_category_id raw) = Inr c"
    using assms by (auto simp: new_create_transaction_def Let_def split: sum.splits)
  have wire: "rct_direction raw = direction_string d"
    "rct_payment_method raw = payment_method_string p"
    using r(1,2) by (simp_all add: parse_direction_Inr parse_method_Inr)
  have vals: "0 < rct_amount_cents raw" "a = Money (rct_amount_cents raw)"
    "rct_description raw \<noteq> ''''" "length (rct_description raw) \<le> 500"
    "s = Description (rct_description raw)" "parse (rct_category_id raw) = Some c"
    using r(3-5) by simp_all
  note unfolded = assms [unfolded new_create_transaction_def r Let_def, simplified,
      unfolded if_split_sum]
  have rest: "\<not> is_zero (rct_occurred_at raw)"
    "rct_subcategory_id raw = '''' \<or> parse (rct_subcategory_id raw) \<noteq> None"
    "rct_card_id raw = '''' \<or> parse (rct_card_id raw) \<noteq> None"
    "0 \<le> rct_installments raw \<and> rct_installments raw \<le> 24"
    "validate_credit_card_constraints (Inr p)
       (if rct_card_id raw = '''' then None else parse (rct_card_id raw)) (Inr d) = []"
    using unfolded by blast+
  have "p = CreditCard \<Longrightarrow> rct_card_id raw \<noteq> '''' \<and> d \<noteq> DirectionIncome"
    using rest(5) by (auto simp: validate_credit_card_constraints_def split: if_splits)
  then show "command_ok parse raw"
    using rest(1-4) vals
    by (simp add: command_ok_def wire outcome_wire credit_card_wire)
  have "cmd = \<lparr>ct_user_id = user, ct_direction = d, ct_payment_method = p, ct_amount = a,
      ct_description = s, ct_category_id = c,
      ct_subcategory_id = (if rct_subcategory_id raw = '''' then None
                           else parse (rct_subcategory_id raw)),
      ct_card_id = (if rct_card_id raw = '''' then None else parse (rct_card_id raw)),
      ct_installments = snd (parse_optional_installment_count (rct_installments raw)),
      ct_occurred_at = rct_occurred_at raw\<rparr>"
    using unfolded [THEN conjunct2, symmetric] by simp
  then show "command_reads parse raw cmd" "ct_user_id cmd = user"
    using rest(4) vals
    by (simp_all add: command_reads_def wire parse_optional_installment_count_value)
qed

lemma new_create_transaction_ok:
  assumes "command_ok parse raw"
  shows "\<exists>cmd. new_create_transaction parse raw user = Inr cmd"
proof -
  obtain d p c where r: "parse_direction (rct_direction raw) = Inr d"
    "parse_payment_method_for_create (rct_payment_method raw) = Inr p"
    "parse (rct_category_id raw) = Some c"
    using assms by (auto simp: command_ok_def parse_direction_Inr parse_method_Inr)
  have "p = CreditCard \<Longrightarrow> d \<noteq> DirectionIncome \<and> rct_card_id raw \<noteq> ''''"
    using assms r outcome_wire [of d] credit_card_wire [of p]
    by (simp add: command_ok_def parse_direction_Inr parse_method_Inr)
  then have "validate_credit_card_constraints (Inr p)
       (if rct_card_id raw = '''' then None else parse (rct_card_id raw)) (Inr d) = []"
    using assms by (auto simp: validate_credit_card_constraints_def command_ok_def)
  moreover have vals: "new_money (rct_amount_cents raw) = Inr (Money (rct_amount_cents raw))"
    "new_description (rct_description raw) = Inr (Description (rct_description raw))"
    "parse_id parse ErrInvalidCategoryID (rct_category_id raw) = Inr c"
    using assms r(3) by (simp_all add: command_ok_def)
  ultimately show ?thesis
    using assms by (simp add: new_create_transaction_def Let_def r vals command_ok_def)
qed


end
