(* ===== verification/TxnWorkflow.thy ===== *)
theory TxnWorkflow
  imports TxnCommands
begin

text \<open>
  What creating, updating and deleting a transaction decides
  (\<open>internal/transactions/domain/services/transaction_workflow.go\<close>): the new state of the
  transaction, its invoice items, the change of the total of each invoice, and the event. A
  decision is \<open>None\<close> where the code would panic, indexing \<open>itemIDs\<close> out of range.
\<close>

section \<open>Decisions\<close>

record transaction_decision =
  dec_transaction :: transaction
  dec_items :: "card_invoice_item list"
  dec_invoice_deltas :: "(string \<times> int) list"
  dec_event :: transaction_event

definition installments_or_single :: "installment_count option \<Rightarrow> installment_count" where
  "installments_or_single o' =
     (case o' of Some n \<Rightarrow> n
      | None \<Rightarrow> (case new_installment_count 1 of Inr n \<Rightarrow> n | Inl _ \<Rightarrow> InstallmentCount 0))"

definition card_id_or_nil :: "uuid option \<Rightarrow> uuid" where
  "card_id_or_nil o' = (case o' of Some c \<Rightarrow> c | None \<Rightarrow> uuid_nil)"

fun dedupe_from :: "string list \<Rightarrow> ref_month list \<Rightarrow> ref_month list" where
  "dedupe_from seen [] = []"
| "dedupe_from seen (m # ms) =
     (if rm_value m \<in> set seen then dedupe_from seen ms
      else m # dedupe_from (rm_value m # seen) ms)"

definition dedupe_ref_months :: "ref_month list \<Rightarrow> ref_month list" where
  "dedupe_ref_months ms = dedupe_from [] ms"

definition sort_ref_months :: "ref_month list \<Rightarrow> ref_month list" where
  "sort_ref_months ms = sort_key rm_value ms"

definition build_items ::
  "uuid list \<Rightarrow> uuid \<Rightarrow> uuid \<Rightarrow> ref_month list \<Rightarrow> money list \<Rightarrow> gotime \<Rightarrow> card_invoice_item list" where
  "build_items ids tid user months amts now =
     map (\<lambda>i. new_card_invoice_item (ids ! i) uuid_nil tid user (months ! i) (int i + 1)
                (amts ! i) now) [0..<length amts]"

definition item_entry :: "card_invoice_item \<Rightarrow> string \<times> int" where
  "item_entry it = (rm_value (it_ref_month it), cents (it_amount it))"

definition created_event ::
  "create_transaction \<Rightarrow> uuid \<Rightarrow> uuid \<Rightarrow> gotime \<Rightarrow> ref_month \<Rightarrow> ref_month list \<Rightarrow>
   card_purchase_installment list \<Rightarrow> transaction_created" where
  "created_event cmd eid tid now rm affected inst =
     \<lparr>tc_event_id = eid, tc_aggregate_id = tid, tc_user_id = ct_user_id cmd,
      tc_occurred_at = now, tc_direction = ct_direction cmd,
      tc_payment_method = ct_payment_method cmd, tc_amount_cents = cents (ct_amount cmd),
      tc_ref_month = rm, tc_category_id = ct_category_id cmd,
      tc_subcategory_id = (case ct_subcategory_id cmd of Some s \<Rightarrow> s | None \<Rightarrow> uuid_nil),
      tc_ref_months_affected = affected, tc_installments = inst\<rparr>"

definition decide_create ::
  "create_transaction \<Rightarrow> card_billing_snapshot option \<Rightarrow> evidence \<Rightarrow> uuid \<Rightarrow> uuid \<Rightarrow>
   uuid list \<Rightarrow> gotime \<Rightarrow> transaction_decision option" where
  "decide_create cmd snap ev tid eid ids now =
     (let rm = ref_month_from_time (ct_occurred_at cmd) utc;
          tx = new_transaction tid (ct_user_id cmd) (ct_direction cmd) (ct_payment_method cmd)
                 (ct_amount cmd) (ct_description cmd) (ct_category_id cmd)
                 (ct_subcategory_id cmd) '''' '''' ev rm (ct_occurred_at cmd) now;
          plain = \<lparr>dec_transaction = tx, dec_items = [], dec_invoice_deltas = [],
                   dec_event = Created (created_event cmd eid tid now rm [rm] [])\<rparr>
      in case snap of
           None \<Rightarrow> Some plain
         | Some s \<Rightarrow>
             if ct_payment_method cmd \<noteq> CreditCard then Some plain
             else
               let n = installments_or_single (ct_installments cmd);
                   tx' = set_card_billing (card_id_or_nil (ct_card_id cmd)) n s tx;
                   amts = split_amount (ct_amount cmd) n;
                   months = fst (resolve (ct_occurred_at cmd) s n)
               in if length ids < length amts then None
                  else
                    let items = build_items ids tid (ct_user_id cmd) months amts now;
                        inst = map (\<lambda>it. \<lparr>cpi_item_id = it_id it, cpi_ref_month = it_ref_month it,
                                          cpi_amount_cents = cents (it_amount it),
                                          cpi_index = it_installment_index it\<rparr>) items
                    in Some \<lparr>dec_transaction = tx', dec_items = items,
                             dec_invoice_deltas = tally (map item_entry items),
                             dec_event = Created (created_event cmd eid tid now rm
                               (sort_ref_months (dedupe_ref_months months)) inst)\<rparr>)"

definition updated_event ::
  "update_transaction_cmd \<Rightarrow> uuid \<Rightarrow> uuid \<Rightarrow> gotime \<Rightarrow> ref_month \<Rightarrow> ref_month list \<Rightarrow>
   transaction_updated" where
  "updated_event cmd eid tid now rm affected =
     \<lparr>tu_event_id = eid, tu_aggregate_id = tid, tu_user_id = ct_user_id cmd,
      tu_occurred_at = now, tu_direction = ct_direction cmd,
      tu_payment_method = ct_payment_method cmd, tu_amount_cents = cents (ct_amount cmd),
      tu_ref_month = rm,
      tu_subcategory_id = (case ct_subcategory_id cmd of Some s \<Rightarrow> s | None \<Rightarrow> uuid_nil),
      tu_ref_months_affected = affected\<rparr>"

definition decide_update ::
  "transaction \<Rightarrow> card_invoice_item list \<Rightarrow> update_transaction_cmd \<Rightarrow> evidence \<Rightarrow> uuid \<Rightarrow>
   uuid list \<Rightarrow> gotime \<Rightarrow> transaction_decision option" where
  "decide_update cur items cmd ev eid ids now =
     (let rm = ref_month_from_time (ct_occurred_at cmd) utc;
          tx = update_transaction (ct_direction cmd) (ct_payment_method cmd) (ct_amount cmd)
                 (ct_description cmd) (ct_category_id cmd) (ct_subcategory_id cmd) '''' '''' ev
                 rm (ct_occurred_at cmd) now cur;
          plain = \<lparr>dec_transaction = tx, dec_items = [], dec_invoice_deltas = [],
                   dec_event = Updated (updated_event cmd eid (tx_id cur) now rm
                     (dedupe_ref_months [tx_ref_month cur, rm]))\<rparr>
      in case tx_billing_snapshot cur of
           None \<Rightarrow> Some plain
         | Some s \<Rightarrow>
             if ct_payment_method cmd \<noteq> CreditCard then Some plain
             else
               let n = installments_or_single (ct_installments cmd);
                   amts = split_amount (ct_amount cmd) n;
                   months = fst (resolve (ct_occurred_at cmd) s n);
                   old_by_ref = tally (map item_entry items);
                   new_by_ref = tally (zip (map rm_value months) (map cents amts));
                   affected = sort_ref_months
                     (dedupe_ref_months (map it_ref_month items @ months));
                   deltas = map (\<lambda>r. (rm_value r, i64 (value_at new_by_ref (rm_value r) -
                                                        value_at old_by_ref (rm_value r)))) affected;
                   cid = (if ct_card_id cmd = None \<and> tx_card_id cur \<noteq> None
                          then card_id_or_nil (tx_card_id cur)
                          else card_id_or_nil (ct_card_id cmd))
               in if length ids < length amts then None
                  else Some \<lparr>dec_transaction = set_card_billing cid n s tx,
                             dec_items = build_items ids (tx_id cur) (ct_user_id cmd) months amts now,
                             dec_invoice_deltas = deltas,
                             dec_event = Updated (updated_event cmd eid (tx_id cur) now rm affected)\<rparr>)"

definition decide_delete ::
  "transaction \<Rightarrow> card_invoice_item list \<Rightarrow> uuid \<Rightarrow> gotime \<Rightarrow> txn_error + transaction_decision" where
  "decide_delete cur items eid now =
     (case soft_delete now cur of
        Inl e \<Rightarrow> Inl e
      | Inr tx \<Rightarrow>
          let evt = (\<lambda>affected. Deleted
                \<lparr>td_event_id = eid, td_aggregate_id = tx_id tx, td_user_id = tx_user_id tx,
                 td_occurred_at = now, td_ref_month = tx_ref_month tx,
                 td_ref_months_affected = affected\<rparr>)
          in if items = []
             then Inr \<lparr>dec_transaction = tx, dec_items = [], dec_invoice_deltas = [],
                       dec_event = evt [tx_ref_month tx]\<rparr>
             else Inr \<lparr>dec_transaction = tx, dec_items = [],
                       dec_invoice_deltas =
                         tally (map (\<lambda>it. (rm_value (it_ref_month it), - cents (it_amount it))) items),
                       dec_event = evt (sort_ref_months
                         (dedupe_ref_months (map it_ref_month items)))\<rparr>)"

text \<open>\<open>newInvoiceItemIDs\<close>, with the generator of identifiers as a parameter.\<close>

definition new_invoice_item_ids ::
  "(nat \<Rightarrow> uuid) \<Rightarrow> payment_method \<Rightarrow> installment_count option \<Rightarrow> uuid list" where
  "new_invoice_item_ids fresh pm inst =
     (if pm \<noteq> CreditCard then []
      else map fresh [0..<nat (count (installments_or_single inst))])"

section \<open>Lemmas\<close>

lemma dedupe_from_set: "set (dedupe_from seen ms) = {m \<in> set ms. rm_value m \<notin> set seen}"
  by (induction seen ms rule: dedupe_from.induct) (auto dest: ref_month.expand)

lemma dedupe_from_distinct: "distinct (map rm_value (dedupe_from seen ms))"
  by (induction seen ms rule: dedupe_from.induct) (auto simp: dedupe_from_set)

lemma affected_months [simp]:
  "set (sort_ref_months (dedupe_ref_months ms)) = set ms"
  by (simp add: sort_ref_months_def dedupe_ref_months_def dedupe_from_set)

lemma affected_sorted: "sorted_wrt rm_before (sort_ref_months (dedupe_ref_months ms))"
proof -
  let ?ms = "sort_ref_months (dedupe_ref_months ms)"
  have "distinct (map rm_value ?ms)"
    using dedupe_from_distinct [of "[]" ms]
    by (simp add: sort_ref_months_def dedupe_ref_months_def distinct_map)
  moreover have "sorted (map rm_value ?ms)" by (simp add: sort_ref_months_def)
  ultimately have "sorted_wrt (<) (map rm_value ?ms)" by (simp add: strict_sorted_iff)
  then show ?thesis by (simp add: sorted_wrt_map rm_before_def [abs_def])
qed

lemma length_resolve [simp]: "length (fst (resolve p s n)) = nat (count n)"
  by (simp add: resolve_def Let_def)

lemma length_split_amount [simp]: "length (split_amount amt n) = nat (count n)"
  by (simp add: split_amount_def Let_def)

lemma length_build_items [simp]: "length (build_items ids t u ms amts now) = length amts"
  by (simp add: build_items_def)

lemma build_items_amounts [simp]:
  "map it_amount (build_items ids t u ms amts now) = amts"
  by (simp add: build_items_def comp_def map_nth)

lemma build_items_months:
  "length ms = length amts \<Longrightarrow> map it_ref_month (build_items ids t u ms amts now) = ms"
  using map_nth [of ms] by (simp add: build_items_def comp_def)

text \<open>The total of the items labelled with a month.\<close>

definition month_total :: "card_invoice_item list \<Rightarrow> string \<Rightarrow> int" where
  "month_total items k = sum_at (map item_entry items) k"

lemma month_total_build:
  "length ms = length amts \<Longrightarrow>
   month_total (build_items ids t u ms amts now) k =
     sum_at (zip (map rm_value ms) (map cents amts)) k"
proof -
  assume len: "length ms = length amts"
  let ?is = "build_items ids t u ms amts now"
  have "map item_entry ?is = zip (map rm_value (map it_ref_month ?is)) (map cents (map it_amount ?is))"
    by (simp add: item_entry_def zip_map_map zip_same_conv_map comp_def
        del: build_items_amounts)
  then show ?thesis by (simp add: month_total_def build_items_months [OF len])
qed

lemma sum_at_nonneg: "(\<And>kv. kv \<in> set xs \<Longrightarrow> 0 \<le> snd kv) \<Longrightarrow> 0 \<le> sum_at xs k"
  by (induction xs) auto

lemma sum_at_le:
  "(\<And>kv. kv \<in> set xs \<Longrightarrow> 0 \<le> snd kv) \<Longrightarrow> sum_at xs k \<le> sum_list (map snd xs)"
  by (induction xs) (auto simp: add_nonneg_nonneg sum_list_nonneg add_increasing)

definition items_ok :: "card_invoice_item list \<Rightarrow> bool" where
  "items_ok items \<longleftrightarrow> (\<forall>it \<in> set items. 0 \<le> cents (it_amount it)) \<and>
     in_i64 (sum_list (map (cents \<circ> it_amount) items))"

lemma month_total_range:
  assumes "items_ok items"
  shows "0 \<le> month_total items k" "in_i64 (month_total items k)"
proof -
  have nn: "0 \<le> snd kv" if "kv \<in> set (map item_entry items)" for kv
    using that assms by (auto simp: items_ok_def item_entry_def)
  have [simp]: "map snd (map item_entry items) = map (cents \<circ> it_amount) items"
    by (simp add: item_entry_def comp_def)
  have "month_total items k \<le> sum_list (map (cents \<circ> it_amount) items)"
    using sum_at_le [OF nn, of "map item_entry items" k]
    by (simp add: month_total_def del: map_map)
  moreover show "0 \<le> month_total items k"
    unfolding month_total_def using nn by (rule sum_at_nonneg)
  ultimately show "in_i64 (month_total items k)" using assms by (simp add: items_ok_def in_i64_def)
qed

lemma month_total_absent: "RefMonth k \<notin> it_ref_month ` set items \<Longrightarrow> month_total items k = 0"
  by (induction items) (auto simp: month_total_def item_entry_def)

lemma value_at_map:
  "value_at (map (\<lambda>r. (rm_value r, f (rm_value r))) rs) k =
    (if RefMonth k \<in> set rs then f k else 0)"
  by (induction rs) (simp_all, metis ref_month.collapse ref_month.sel)

definition amount_ok :: "create_transaction \<Rightarrow> bool" where
  "amount_ok cmd \<longleftrightarrow>
     0 < cents (ct_amount cmd) \<and> in_i64 (cents (ct_amount cmd)) \<and>
     1 \<le> count (installments_or_single (ct_installments cmd))"

lemma split_amounts_ok:
  assumes "0 < cents amt" "in_i64 (cents amt)" "1 \<le> count n"
  shows "items_ok (build_items ids t u ms (split_amount amt n) now)"
    "sum_list (map (cents \<circ> it_amount) (build_items ids t u ms (split_amount amt n) now)) = cents amt"
proof -
  let ?is = "build_items ids t u ms (split_amount amt n) now"
  have shares: "map (cents \<circ> it_amount) ?is = map (share (cents amt) (count n)) [0..<nat (count n)]"
    using split_amount_shares [of amt n] assms by (simp flip: map_map)
  show sum: "sum_list (map (cents \<circ> it_amount) ?is) = cents amt"
    unfolding shares using assms by (intro sum_shares) simp_all
  have "x \<in> set (map (cents \<circ> it_amount) ?is) \<Longrightarrow> 0 \<le> x" for x
    unfolding shares using share_bounds(1) [of "cents amt" "count n"] assms by auto
  then show "items_ok ?is" using assms sum by (auto simp: items_ok_def)
qed

lemma tally_items: "items_ok items \<Longrightarrow> value_at (tally (map item_entry items)) k = month_total items k"
  using month_total_range [of items k] by (simp add: value_at_tally i64_id month_total_def)


lemma decide_update_Some:
  assumes "decide_update cur items cmd ev eid ids now = Some d"
  shows "tx_id (dec_transaction d) = tx_id cur" "tx_user_id (dec_transaction d) = tx_user_id cur"
    "tx_version (dec_transaction d) = i64 (tx_version cur + 1)"
  using assms
  by (auto simp: decide_update_def Let_def update_transaction_def set_card_billing_def
      split: option.splits if_splits)

lemma decide_update_card:
  assumes "tx_billing_snapshot cur = Some s" "ct_payment_method cmd = CreditCard"
    "amount_ok (create_transaction.truncate cmd)" "items_ok items"
    "decide_update cur items cmd ev eid ids now = Some d"
  shows "value_at (dec_invoice_deltas d) k = month_total (dec_items d) k - month_total items k"
    "distinct (map fst (dec_invoice_deltas d))"
    "sum_list (map (cents \<circ> it_amount) (dec_items d)) = cents (ct_amount cmd)"
    "map it_installment_index (dec_items d) = map (\<lambda>i. int i + 1) [0..<length (dec_items d)]"
    "\<exists>e. dec_event d = Updated e \<and> sorted_wrt rm_before (tu_ref_months_affected e) \<and>
       set (tu_ref_months_affected e) = it_ref_month ` (set items \<union> set (dec_items d))"
    "tx_card_id (dec_transaction d) =
       Some (if ct_card_id cmd = None \<and> tx_card_id cur \<noteq> None then card_id_or_nil (tx_card_id cur)
             else card_id_or_nil (ct_card_id cmd))"
proof -
  let ?n = "installments_or_single (ct_installments cmd)"
  let ?months = "fst (resolve (ct_occurred_at cmd) s ?n)"
  let ?amts = "split_amount (ct_amount cmd) ?n"
  let ?is = "build_items ids (tx_id cur) (ct_user_id cmd) ?months ?amts now"
  let ?new = "tally (zip (map rm_value ?months) (map cents ?amts))"
  let ?old = "tally (map item_entry items)"
  let ?affected = "sort_ref_months (dedupe_ref_months (map it_ref_month items @ ?months))"
  let ?deltas = "map (\<lambda>r. (rm_value r, i64 (value_at ?new (rm_value r) -
      value_at ?old (rm_value r)))) ?affected"
  have ok: "items_ok ?is" "sum_list (map (cents \<circ> it_amount) ?is) = cents (ct_amount cmd)"
    using split_amounts_ok assms(3)
    by (simp_all add: amount_ok_def create_transaction.truncate_def)
  have new: "value_at ?new k = month_total ?is k" for k
    using month_total_range(2) [OF ok(1), of k]
    by (simp add: value_at_tally month_total_build i64_id)
  have months: "it_ref_month ` set ?is = set ?months"
    using build_items_months [of ?months ?amts] by (metis length_resolve length_split_amount list.set_map)
  have "in_i64 (month_total ?is k - month_total items k)"
    using month_total_range [OF ok(1), of k] month_total_range [OF assms(4), of k]
    by (auto simp: in_i64_def)
  moreover have "month_total ?is k - month_total items k = 0" if "RefMonth k \<notin> set ?affected"
    using that months by (simp add: month_total_absent image_iff)
  ultimately have deltas: "value_at ?deltas k = month_total ?is k - month_total items k"
    using value_at_map [of "\<lambda>k. i64 (value_at ?new k - value_at ?old k)" ?affected k]
    by (auto simp: new tally_items [OF assms(4)] i64_id simp del: affected_months split: if_splits)
  have "distinct (map rm_value ?affected)"
    using dedupe_from_distinct [of "[]" "map it_ref_month items @ ?months"]
    by (simp add: sort_ref_months_def dedupe_ref_months_def distinct_map)
  then have keys: "distinct (map fst ?deltas)" by (simp add: comp_def)
  have d: "dec_items d = ?is" "dec_invoice_deltas d = ?deltas"
      "dec_event d = Updated (updated_event cmd eid (tx_id cur)
         now (ref_month_from_time (ct_occurred_at cmd) utc) ?affected)"
      "tx_card_id (dec_transaction d) = Some (if ct_card_id cmd = None \<and> tx_card_id cur \<noteq> None
         then card_id_or_nil (tx_card_id cur) else card_id_or_nil (ct_card_id cmd))"
    using assms(1,2,5)
    by (auto simp: decide_update_def Let_def set_card_billing_def split: if_splits)
  show "value_at (dec_invoice_deltas d) k = month_total (dec_items d) k - month_total items k"
    using deltas by (simp only: d)
  show "distinct (map fst (dec_invoice_deltas d))" using keys by (simp only: d)
  show "sum_list (map (cents \<circ> it_amount) (dec_items d)) = cents (ct_amount cmd)"
    using ok(2) by (simp only: d)
  show "map it_installment_index (dec_items d) = map (\<lambda>i. int i + 1) [0..<length (dec_items d)]"
    by (simp add: d build_items_def)
  show "\<exists>e. dec_event d = Updated e \<and> sorted_wrt rm_before (tu_ref_months_affected e) \<and>
       set (tu_ref_months_affected e) = it_ref_month ` (set items \<union> set (dec_items d))"
    using months by (simp add: d updated_event_def affected_sorted image_Un)
  show "tx_card_id (dec_transaction d) =
       Some (if ct_card_id cmd = None \<and> tx_card_id cur \<noteq> None then card_id_or_nil (tx_card_id cur)
             else card_id_or_nil (ct_card_id cmd))"
    by (rule d(4))
qed

text \<open>
  C5: Updating a card purchase changes the total of every invoice month by exactly the difference
  between the new items and the old items of that month, so that applying the deltas to totals
  that agree with the old items yields totals that agree with the new ones. Every month the old
  or the new items touch is in the event, once and in order; the transaction keeps its identity,
  its card unless the command names another, and gets the next version.
\<close>

theorem decide_update_deltas:
  assumes "tx_billing_snapshot cur = Some s" "ct_payment_method cmd = CreditCard"
    "amount_ok (create_transaction.truncate cmd)" "items_ok items"
  shows "\<exists>d e. decide_update cur items cmd ev eid
      (new_invoice_item_ids fresh CreditCard (ct_installments cmd)) now = Some d \<and>
    (\<forall>k. value_at (dec_invoice_deltas d) k = month_total (dec_items d) k - month_total items k) \<and>
    sum_list (map (cents \<circ> it_amount) (dec_items d)) = cents (ct_amount cmd) \<and>
    dec_event d = Updated e \<and> sorted_wrt rm_before (tu_ref_months_affected e) \<and>
    set (tu_ref_months_affected e) = it_ref_month ` (set items \<union> set (dec_items d)) \<and>
    tx_id (dec_transaction d) = tx_id cur \<and>
    tx_version (dec_transaction d) = i64 (tx_version cur + 1) \<and>
    (ct_card_id cmd = None \<longrightarrow> tx_card_id cur \<noteq> None \<longrightarrow>
       tx_card_id (dec_transaction d) = tx_card_id cur)"
proof -
  let ?ids = "new_invoice_item_ids fresh CreditCard (ct_installments cmd)"
  have "\<exists>d. decide_update cur items cmd ev eid ?ids now = Some d"
    using assms(1,2) by (simp add: decide_update_def Let_def new_invoice_item_ids_def)
  then obtain d where d: "decide_update cur items cmd ev eid ?ids now = Some d" by blast
  note c = decide_update_card [OF assms d]
  have "ct_card_id cmd = None \<longrightarrow> tx_card_id cur \<noteq> None \<longrightarrow>
      tx_card_id (dec_transaction d) = tx_card_id cur"
    using c(6) by (auto simp: card_id_or_nil_def)
  moreover obtain e where "dec_event d = Updated e" "sorted_wrt rm_before (tu_ref_months_affected e)"
    "set (tu_ref_months_affected e) = it_ref_month ` (set items \<union> set (dec_items d))"
    using c(5) by blast
  ultimately show ?thesis
    using c(1,3) decide_update_Some(1,3) [OF d] by (intro exI [of _ d] exI [of _ e] conjI) (simp_all add: d)
qed

lemma decide_delete_total:
  assumes "items_ok items" "decide_delete cur items eid now = Inr d"
  shows "\<forall>k. value_at (dec_invoice_deltas d) k = - month_total items k"
proof -
  let ?m = "map (\<lambda>it. (rm_value (it_ref_month it), - cents (it_amount it))) items"
  have "sum_at ?m k = - month_total items k" for k
    by (induction items) (simp_all add: month_total_def item_entry_def)
  moreover have "in_i64 (- month_total items k)" for k
    using month_total_range [OF assms(1), of k] by (simp add: in_i64_def)
  ultimately have "value_at (tally ?m) k = - month_total items k" for k
    by (simp add: value_at_tally i64_id)
  then show ?thesis
    using assms(2)
    by (auto simp: decide_delete_def soft_delete_def Let_def month_total_def split: if_splits)
qed

lemma decide_delete_distinct:
  "decide_delete cur items eid now = Inr d \<Longrightarrow> distinct (map fst (dec_invoice_deltas d))"
  by (auto simp: decide_delete_def soft_delete_def Let_def distinct_tally split: if_splits)

text \<open>
  Deleting a transaction succeeds once: a live transaction is marked deleted at the instant
  of the deletion with the next version and takes the total of its items off every invoice month;
  a deleted one is refused, so the decision of a deletion cannot be taken twice.
\<close>

lemma decide_delete_spec:
  assumes "items_ok items"
  shows "case decide_delete cur items eid now of
      Inl e \<Rightarrow> e = ErrTransactionAlreadyDeleted \<and> tx_deleted_at cur \<noteq> None
    | Inr d \<Rightarrow> tx_deleted_at cur = None \<and>
        dec_transaction d = cur\<lparr>tx_deleted_at := Some now, tx_version := i64 (tx_version cur + 1),
                                tx_updated_at := now\<rparr> \<and>
        (\<forall>k. value_at (dec_invoice_deltas d) k = - month_total items k) \<and>
        (\<forall>items' eid' now'. decide_delete (dec_transaction d) items' eid' now' =
           Inl ErrTransactionAlreadyDeleted)"
proof (cases "decide_delete cur items eid now")
  case (Inl e)
  then show ?thesis by (auto simp: decide_delete_def soft_delete_def Let_def split: if_splits)
next
  case (Inr d)
  then have "tx_deleted_at cur = None" "dec_transaction d = cur\<lparr>tx_deleted_at := Some now,
      tx_version := i64 (tx_version cur + 1), tx_updated_at := now\<rparr>"
    by (auto simp: decide_delete_def soft_delete_def Let_def split: if_splits)
  then show ?thesis
    using decide_delete_total [OF assms Inr] Inr by (simp add: decide_delete_def soft_delete_def)
qed

section \<open>Examples\<close>

definition sample_evidence :: evidence where
  "sample_evidence =
     \<lparr>ev_root_category_id = 1, ev_subcategory_id = 2, ev_kind = ''expense'', ev_path = ''a/b'',
      ev_outcome = ''matched'', ev_score = Fin 1, ev_confidence = ''high'', ev_quality = ''exact'',
      ev_signal_type = ''alias'', ev_matched_term = ''tv'', ev_match_reason = ''alias'',
      ev_source = AutoMatched, ev_editorial_version = 1, ev_decided_at = midnight 2024 1 1 utc\<rparr>"

definition sample_snapshot :: card_billing_snapshot where
  "sample_snapshot =
     \<lparr>closing_day = \<lparr>dom_value = 30, dom_max = 31\<rparr>, due_day = \<lparr>dom_value = 5, dom_max = 31\<rparr>\<rparr>"

definition sample_purchase :: create_transaction where
  "sample_purchase =
     \<lparr>ct_user_id = 7, ct_direction = DirectionOutcome, ct_payment_method = CreditCard,
      ct_amount = Money 100, ct_description = Description ''tv'', ct_category_id = 1,
      ct_subcategory_id = Some 2, ct_card_id = Some 9,
      ct_installments = Some (InstallmentCount 3), ct_occurred_at = midnight 2024 1 31 utc\<rparr>"

definition sample_update :: update_transaction_cmd where
  "sample_update =
     create_transaction.extend (sample_purchase\<lparr>ct_amount := Money 90\<rparr>)
       (update_transaction_cmd.fields 5 1)"

definition sample_transaction :: transaction where
  "sample_transaction =
     set_card_billing 9 (InstallmentCount 3) sample_snapshot
       (new_transaction 5 7 DirectionOutcome CreditCard (Money 100) (Description ''tv'') 1 (Some 2)
          '''' '''' sample_evidence (RefMonth ''2024-01'') (midnight 2024 1 31 utc)
          (midnight 2024 1 31 utc))"

definition sample_items :: "card_invoice_item list" where
  "sample_items = [new_card_invoice_item 11 21 5 7 (RefMonth ''2024-02'') 1 (Money 100) zero_time]"

lemma sample_amount_ok:
  "amount_ok sample_purchase" "amount_ok (create_transaction.truncate sample_update)"
  by (simp_all add: amount_ok_def sample_purchase_def sample_update_def in_i64_def
      installments_or_single_def create_transaction.defs update_transaction_cmd.defs)

lemma sample_items_ok: "items_ok sample_items"
  by (simp add: items_ok_def sample_items_def in_i64_def)


theorem decide_update_deltas_witness:
  "\<exists>d. decide_update sample_transaction sample_items sample_update sample_evidence 6
        (new_invoice_item_ids of_nat CreditCard (ct_installments sample_update)) zero_time = Some d \<and>
     value_at (dec_invoice_deltas d) ''2024-02'' = month_total (dec_items d) ''2024-02'' - 100"
  using decide_update_deltas [OF _ _ sample_amount_ok(2) sample_items_ok,
      where cur = sample_transaction and s = sample_snapshot and ev = sample_evidence and
      eid = 6 and fresh = of_nat and now = zero_time]
  by (force simp: sample_update_def sample_purchase_def sample_transaction_def set_card_billing_def
      create_transaction.defs update_transaction_cmd.defs sample_items_def month_total_def
      item_entry_def)

lemma decide_delete_spec_witness:
  "\<exists>d. decide_delete sample_transaction sample_items 6 zero_time = Inr d \<and>
     value_at (dec_invoice_deltas d) ''2024-02'' = -100"
  using decide_delete_spec [OF sample_items_ok, where cur = sample_transaction and eid = 6 and
      now = zero_time]
  by (auto simp: decide_delete_def soft_delete_def sample_transaction_def set_card_billing_def
      new_transaction_def sample_items_def month_total_def item_entry_def Let_def)

end
