(* ===== verification/TxnLedger.thy ===== *)
theory TxnLedger
  imports TxnWorkflow
begin

text \<open>
  The persistence of transactions, invoices and invoice items
  (\<open>internal/transactions/infrastructure/repositories/postgres\<close>) as operations on a store of
  tables, and the write paths of the use cases (\<open>internal/transactions/application/usecases\<close>)
  over it. A use case runs in one database transaction: an error leaves the store as it was.
  The constraints the migrations put on the tables are checks of the model; identifiers drawn from
  \<open>uuid.New\<close> and the instants read from the clock are arguments.
\<close>

record ledger =
  lg_transactions :: "transaction list"
  lg_invoices :: "card_invoice list"
  lg_items :: "card_invoice_item list"

section \<open>The repository of invoices\<close>

definition invoice_key :: "uuid \<Rightarrow> uuid \<Rightarrow> ref_month \<Rightarrow> card_invoice \<Rightarrow> bool" where
  "invoice_key u c rm iv \<longleftrightarrow> inv_user_id iv = u \<and> inv_card_id iv = c \<and> inv_ref_month iv = rm"

definition scan_card_invoice :: "card_invoice \<Rightarrow> txn_error + card_invoice" where
  "scan_card_invoice row =
     (case new_ref_month (rm_value (inv_ref_month row)) of
        Inl e \<Rightarrow> Inl e
      | Inr rm \<Rightarrow>
          Inr (hydrate_version (inv_version row) (inv_items_total_cents row) (inv_updated_at row)
            (new_card_invoice (inv_id row) (inv_user_id row) (inv_card_id row) rm
               (inv_closing_at row) (inv_due_at row) (inv_created_at row))))"

definition upsert_by_month ::
  "uuid \<Rightarrow> gotime \<Rightarrow> uuid \<Rightarrow> uuid \<Rightarrow> ref_month \<Rightarrow> gotime \<Rightarrow> gotime \<Rightarrow> ledger \<Rightarrow>
   txn_error + card_invoice \<times> ledger" where
  "upsert_by_month new_id now u c rm closing due db =
     (if \<not> month_digits (rm_value rm) then Inl ErrCheckViolation
      else case find (invoice_key u c rm) (lg_invoices db) of
        Some iv \<Rightarrow>
          let row = iv\<lparr>inv_closing_at := closing, inv_due_at := due, inv_updated_at := now\<rparr>;
              db' = db\<lparr>lg_invoices := map (\<lambda>i. if invoice_key u c rm i then row else i)
                                        (lg_invoices db)\<rparr>
          in (case scan_card_invoice row of Inl e \<Rightarrow> Inl e | Inr i \<Rightarrow> Inr (i, db'))
      | None \<Rightarrow>
          if new_id \<in> inv_id ` set (lg_invoices db) then Inl ErrUniqueViolation
          else
            let row = new_card_invoice new_id u c rm closing due now;
                db' = db\<lparr>lg_invoices := lg_invoices db @ [row]\<rparr>
            in (case scan_card_invoice row of Inl e \<Rightarrow> Inl e | Inr i \<Rightarrow> Inr (i, db')))"

definition apply_delta ::
  "gotime \<Rightarrow> uuid \<Rightarrow> int \<Rightarrow> int \<Rightarrow> ledger \<Rightarrow> txn_error + ledger" where
  "apply_delta now iid delta expected db =
     (if delta = 0 then Inr db
      else let hit = (\<lambda>i. inv_id i = iid \<and> inv_version i = expected)
        in if filter hit (lg_invoices db) = [] then Inl ErrCardInvoiceVersionConflict
           else if \<exists>i \<in> set (filter hit (lg_invoices db)).
                     \<not> in_i64 (inv_items_total_cents i + delta) \<or> \<not> in_i64 (inv_version i + 1)
           then Inl ErrBigintOutOfRange
           else Inr (db\<lparr>lg_invoices :=
             map (\<lambda>i. if hit i
                      then i\<lparr>inv_items_total_cents := inv_items_total_cents i + delta,
                             inv_version := inv_version i + 1, inv_updated_at := now\<rparr>
                      else i) (lg_invoices db)\<rparr>))"

definition is_live :: "card_invoice_item \<Rightarrow> bool" where
  "is_live it \<longleftrightarrow> it_deleted_at it = None"

definition scan_card_invoice_item :: "card_invoice_item \<Rightarrow> card_invoice_item" where
  "scan_card_invoice_item row =
     new_card_invoice_item (it_id row) (it_invoice_id row) (it_purchase_id row) (it_user_id row)
       (it_ref_month row) (it_installment_index row) (it_amount row) (it_created_at row)"

definition get_by_month ::
  "uuid \<Rightarrow> uuid \<Rightarrow> ref_month \<Rightarrow> ledger \<Rightarrow>
   txn_error + (card_invoice \<times> card_invoice_item list) option" where
  "get_by_month u c rm db =
     (case find (invoice_key u c rm) (lg_invoices db) of
        None \<Rightarrow> Inr None
      | Some row \<Rightarrow>
          (case scan_card_invoice row of
             Inl e \<Rightarrow> Inl e
           | Inr iv \<Rightarrow>
               Inr (Some (iv, map scan_card_invoice_item (sort_key it_installment_index
                 (filter (\<lambda>it. it_invoice_id it = inv_id iv \<and> is_live it) (lg_items db)))))))"

section \<open>The repository of transactions\<close>

text \<open>
  A new row is refused when its identity is taken; when its origin (message, item and operation)
  is taken, nothing is inserted and the identity of the existing row is returned.
\<close>

definition same_origin :: "transaction \<Rightarrow> transaction \<Rightarrow> bool" where
  "same_origin t row \<longleftrightarrow>
     tx_has_origin t \<and> tx_has_origin row \<and> tx_origin_wamid row = tx_origin_wamid t \<and>
     tx_origin_item_seq row = tx_origin_item_seq t \<and> tx_origin_operation row = tx_origin_operation t"

text \<open>
  The row of a transaction: the subcategory column is that of the evidence, and the evidence is
  read back with the category of the row as its root. (The score column keeps four decimals and
  the instants microseconds; the model does not round.)
\<close>

definition stored :: "transaction \<Rightarrow> transaction" where
  "stored t =
     t\<lparr>tx_subcategory_id := Some (ev_subcategory_id (tx_evidence t)),
       tx_evidence := (tx_evidence t)\<lparr>ev_root_category_id := tx_category_id t\<rparr>\<rparr>"

definition create_row :: "transaction \<Rightarrow> ledger \<Rightarrow> txn_error + uuid \<times> bool \<times> ledger" where
  "create_row t db =
     (case find (same_origin t) (lg_transactions db) of
        Some row \<Rightarrow> Inr (tx_id row, False, db)
      | None \<Rightarrow>
          if tx_id t \<in> tx_id ` set (lg_transactions db) then Inl ErrUniqueViolation
          else Inr (tx_id t, True, db\<lparr>lg_transactions := lg_transactions db @ [stored t]\<rparr>))"

text \<open>Reading a row does not read its origin.\<close>

definition scan_transaction :: "transaction \<Rightarrow> transaction" where
  "scan_transaction t =
     reconstitute (tx_id t) (tx_user_id t) (tx_direction t) (tx_payment_method t) (tx_amount t)
       (tx_description t) (tx_category_id t) (tx_subcategory_id t) (tx_category_name_snapshot t)
       (tx_subcategory_name_snapshot t) (tx_evidence t) (tx_ref_month t) (tx_occurred_at t)
       (tx_card_id t) (tx_installments_total t) (tx_billing_snapshot t) (tx_version t)
       (tx_deleted_at t) (tx_created_at t) (tx_updated_at t)"

definition get_by_id :: "uuid \<Rightarrow> uuid \<Rightarrow> ledger \<Rightarrow> txn_error + transaction" where
  "get_by_id i u db =
     (case find (\<lambda>t. tx_id t = i \<and> tx_user_id t = u \<and> tx_deleted_at t = None) (lg_transactions db) of
        None \<Rightarrow> Inl ErrTransactionNotFound
      | Some t \<Rightarrow> Inr (scan_transaction t))"

definition live_row :: "uuid \<Rightarrow> uuid \<Rightarrow> int \<Rightarrow> transaction \<Rightarrow> bool" where
  "live_row i u v t \<longleftrightarrow>
     tx_id t = i \<and> tx_user_id t = u \<and> tx_version t = v \<and> tx_deleted_at t = None"

definition update_with_version :: "transaction \<Rightarrow> int \<Rightarrow> ledger \<Rightarrow> txn_error + ledger" where
  "update_with_version t expected db =
     (let hit = live_row (tx_id t) (tx_user_id t) expected
      in if filter hit (lg_transactions db) = [] then Inl ErrTransactionVersionConflict
         else Inr (db\<lparr>lg_transactions :=
           map (\<lambda>r. if hit r
                    then (stored t)\<lparr>tx_deleted_at := tx_deleted_at r, tx_created_at := tx_created_at r,
                           tx_origin_wamid := tx_origin_wamid r,
                           tx_origin_item_seq := tx_origin_item_seq r,
                           tx_origin_operation := tx_origin_operation r,
                           tx_has_origin := tx_has_origin r\<rparr>
                    else r) (lg_transactions db)\<rparr>))"

definition soft_delete_row ::
  "uuid \<Rightarrow> uuid \<Rightarrow> int \<Rightarrow> gotime \<Rightarrow> ledger \<Rightarrow> txn_error + ledger" where
  "soft_delete_row i u expected now db =
     (let hit = live_row i u expected
      in if filter hit (lg_transactions db) = [] then Inl ErrTransactionVersionConflict
         else Inr (db\<lparr>lg_transactions :=
           map (\<lambda>r. if hit r
                    then r\<lparr>tx_deleted_at := Some now, tx_version := tx_version r + 1,
                           tx_updated_at := now\<rparr>
                    else r) (lg_transactions db)\<rparr>))"

definition get_items_by_transaction_id :: "uuid \<Rightarrow> ledger \<Rightarrow> card_invoice_item list" where
  "get_items_by_transaction_id tid db =
     map scan_card_invoice_item (sort_key it_installment_index
       (filter (\<lambda>it. it_purchase_id it = tid \<and> is_live it) (lg_items db)))"

text \<open>
  Replacing the items of a transaction deletes its live rows softly and then inserts; an insertion
  whose transaction and index are those of a row, live or not, revives that row with the new
  invoice and amount, and leaves its reference month.
\<close>

definition item_slot :: "uuid \<Rightarrow> int \<Rightarrow> card_invoice_item \<Rightarrow> bool" where
  "item_slot tid idx row \<longleftrightarrow> it_purchase_id row = tid \<and> it_installment_index row = idx"

definition insert_item ::
  "gotime \<Rightarrow> uuid \<Rightarrow> card_invoice_item \<Rightarrow> card_invoice_item list \<Rightarrow>
   txn_error + card_invoice_item list" where
  "insert_item now tid it rows =
     (let slot = item_slot tid (it_installment_index it)
      in if cents (it_amount it) \<le> 0 \<or> \<not> month_digits (rm_value (it_ref_month it))
         then Inl ErrCheckViolation
         else if filter slot rows \<noteq> []
         then Inr (map (\<lambda>r. if slot r
                            then r\<lparr>it_invoice_id := it_invoice_id it, it_amount := it_amount it,
                                   it_deleted_at := None, it_updated_at := now\<rparr>
                            else r) rows)
         else if it_id it \<in> it_id ` set rows then Inl ErrUniqueViolation
         else Inr (rows @ [it\<lparr>it_purchase_id := tid, it_deleted_at := None,
                              it_updated_at := now\<rparr>]))"

fun insert_items ::
  "gotime \<Rightarrow> uuid \<Rightarrow> card_invoice_item list \<Rightarrow> card_invoice_item list \<Rightarrow>
   txn_error + card_invoice_item list" where
  "insert_items now tid [] rows = Inr rows"
| "insert_items now tid (it # its) rows =
     (case insert_item now tid it rows of
        Inl e \<Rightarrow> Inl e
      | Inr rows' \<Rightarrow> insert_items now tid its rows')"

definition retire_items ::
  "gotime \<Rightarrow> uuid \<Rightarrow> card_invoice_item list \<Rightarrow> card_invoice_item list" where
  "retire_items now tid rows =
     map (\<lambda>r. if it_purchase_id r = tid \<and> is_live r
              then r\<lparr>it_deleted_at := Some now, it_updated_at := now\<rparr> else r) rows"

definition replace_items ::
  "gotime \<Rightarrow> uuid \<Rightarrow> card_invoice_item list \<Rightarrow> ledger \<Rightarrow> txn_error + ledger" where
  "replace_items now tid its db =
     (case insert_items now tid its (retire_items now tid (lg_items db)) of
        Inl e \<Rightarrow> Inl e
      | Inr rows \<Rightarrow> Inr (db\<lparr>lg_items := rows\<rparr>))"

section \<open>Keeping invoices in step\<close>

text \<open>The identifier drawn for the invoice of installment \<open>i\<close>, if one has to be made, is \<open>fresh i\<close>.\<close>

definition with_invoice :: "uuid \<Rightarrow> card_invoice \<Rightarrow> card_invoice_item \<Rightarrow> card_invoice_item" where
  "with_invoice tid iv it =
     new_card_invoice_item (it_id it) (inv_id iv) tid (it_user_id it) (it_ref_month it)
       (it_installment_index it) (it_amount it) (it_created_at it)"

fun create_invoice_items ::
  "(int \<Rightarrow> uuid) \<Rightarrow> gotime \<Rightarrow> uuid \<Rightarrow> uuid \<Rightarrow> uuid \<Rightarrow> card_invoice_item list \<Rightarrow> gotime list \<Rightarrow>
   gotime list \<Rightarrow> ledger \<Rightarrow> txn_error + card_invoice_item list \<times> ledger" where
  "create_invoice_items fresh now u c tid [] cls dues db = Inr ([], db)"
| "create_invoice_items fresh now u c tid (it # its) (cl # cls) (du # dues) db =
     (case upsert_by_month (fresh (it_installment_index it)) now u c (it_ref_month it) cl du db of
        Inl e \<Rightarrow> Inl e
      | Inr (iv, db1) \<Rightarrow>
          (case apply_delta now (inv_id iv) (cents (it_amount it)) (inv_version iv) db1 of
             Inl e \<Rightarrow> Inl e
           | Inr db2 \<Rightarrow>
               (case create_invoice_items fresh now u c tid its cls dues db2 of
                  Inl e \<Rightarrow> Inl e
                | Inr (its', db3) \<Rightarrow> Inr (with_invoice tid iv it # its', db3))))"
| "create_invoice_items fresh now u c tid (it # its) cls dues db = Inl Panic"

fun rebuild_invoice_items ::
  "(int \<Rightarrow> uuid) \<Rightarrow> gotime \<Rightarrow> uuid \<Rightarrow> uuid \<Rightarrow> uuid \<Rightarrow> card_invoice_item list \<Rightarrow> gotime list \<Rightarrow>
   gotime list \<Rightarrow> ledger \<Rightarrow> txn_error + card_invoice_item list \<times> ledger" where
  "rebuild_invoice_items fresh now u c tid [] cls dues db = Inr ([], db)"
| "rebuild_invoice_items fresh now u c tid (it # its) (cl # cls) (du # dues) db =
     (case upsert_by_month (fresh (it_installment_index it)) now u c (it_ref_month it) cl du db of
        Inl e \<Rightarrow> Inl e
      | Inr (iv, db1) \<Rightarrow>
          (case rebuild_invoice_items fresh now u c tid its cls dues db1 of
             Inl e \<Rightarrow> Inl e
           | Inr (its', db2) \<Rightarrow> Inr (with_invoice tid iv it # its', db2)))"
| "rebuild_invoice_items fresh now u c tid (it # its) cls dues db = Inl Panic"

text \<open>
  The deltas are applied in the order of the list; the code iterates over a map, in any order. An
  invoice that does not exist reads as a nil pointer without an error, and is dereferenced.
\<close>

fun apply_invoice_deltas ::
  "gotime \<Rightarrow> uuid \<Rightarrow> uuid \<Rightarrow> (string \<times> int) list \<Rightarrow> ledger \<Rightarrow> txn_error + ledger" where
  "apply_invoice_deltas now u c [] db = Inr db"
| "apply_invoice_deltas now u c ((k, delta) # ds) db =
     (if delta = 0 then apply_invoice_deltas now u c ds db
      else case new_ref_month k of
        Inl e \<Rightarrow> Inl e
      | Inr rm \<Rightarrow>
          (case get_by_month u c rm db of
             Inl e \<Rightarrow> Inl e
           | Inr None \<Rightarrow> Inl Panic
           | Inr (Some (iv, items)) \<Rightarrow>
               (case apply_delta now (inv_id iv) delta (inv_version iv) db of
                  Inl e \<Rightarrow> Inl e
                | Inr db' \<Rightarrow> apply_invoice_deltas now u c ds db')))"

section \<open>The use cases\<close>

definition guard_subcategory_required :: "bool \<Rightarrow> txn_error list" where
  "guard_subcategory_required present = err_if (\<not> present) ErrTransactionRequiresSubcategory"

definition kind_for_direction :: "direction \<Rightarrow> string" where
  "kind_for_direction d = (if d = DirectionIncome then ''income'' else ''expense'')"

definition guard_category_kind_direction :: "direction \<Rightarrow> string \<Rightarrow> txn_error list" where
  "guard_category_kind_direction d kind =
     err_if (kind \<noteq> '''' \<and> kind \<noteq> kind_for_direction d) ErrCategoryKindDirectionMismatch"

definition guard_payment_method_migration :: "payment_method \<Rightarrow> payment_method \<Rightarrow> bool" where
  "guard_payment_method_migration old new \<longleftrightarrow> is_credit_card old = is_credit_card new"

record category_snapshot =
  cs_name :: string
  cs_parent_name :: string
  cs_kind :: string

definition snap_category_name :: "uuid option \<Rightarrow> category_snapshot \<Rightarrow> string" where
  "snap_category_name sub s =
     (if sub \<noteq> None \<and> cs_parent_name s \<noteq> '''' then cs_parent_name s else cs_name s)"

definition snap_subcategory_name :: "uuid option \<Rightarrow> category_snapshot \<Rightarrow> string" where
  "snap_subcategory_name sub s = (if sub = None then '''' else cs_name s)"

text \<open>
  Creating: \<open>applyInvoices\<close> and \<open>persist\<close>. The flag of the result says whether a row was made;
  otherwise the transaction returned is the one already recorded for that origin.
\<close>

definition apply_invoices ::
  "(int \<Rightarrow> uuid) \<Rightarrow> gotime \<Rightarrow> create_transaction \<Rightarrow> uuid \<Rightarrow> card_billing_snapshot \<Rightarrow> uuid \<Rightarrow>
   transaction_decision \<Rightarrow> ledger \<Rightarrow> txn_error + ledger" where
  "apply_invoices fresh now cmd user billing cid d db =
     (let n = installments_or_single (ct_installments cmd);
          (months, cls, dues) = resolve (ct_occurred_at cmd) billing n;
          tid = tx_id (dec_transaction d)
      in case create_invoice_items fresh now user cid tid (dec_items d) cls dues db of
           Inl e \<Rightarrow> Inl e
         | Inr (its, db') \<Rightarrow> replace_items now tid its db')"

definition create_persist ::
  "(int \<Rightarrow> uuid) \<Rightarrow> gotime \<Rightarrow> create_transaction \<Rightarrow> uuid \<Rightarrow> card_billing_snapshot \<Rightarrow> uuid \<Rightarrow>
   transaction_decision \<Rightarrow> ledger \<Rightarrow>
   txn_error + transaction \<times> bool \<times> ledger" where
  "create_persist fresh now cmd user billing cid d db =
     (case create_row (dec_transaction d) db of
        Inl e \<Rightarrow> Inl e
      | Inr (canonical, created, db1) \<Rightarrow>
          if \<not> created
          then (case get_by_id canonical user db1 of
                  Inl e \<Rightarrow> Inl e
                | Inr t \<Rightarrow> Inr (t, False, db1))
          else if dec_items d = [] then Inr (dec_transaction d, True, db1)
          else (case apply_invoices fresh now cmd user billing cid d db1 of
                  Inl e \<Rightarrow> Inl e
                | Inr db2 \<Rightarrow> Inr (dec_transaction d, True, db2)))"

text \<open>
  Updating: \<open>recomposeInvoices\<close> and \<open>persist\<close>. The category has the snapshot \<open>cs\<close>; its write is
  approved by \<open>approve\<close>, asked inside the database transaction.
\<close>

definition recompose_invoices ::
  "(int \<Rightarrow> uuid) \<Rightarrow> gotime \<Rightarrow> update_transaction_cmd \<Rightarrow> transaction_decision \<Rightarrow> ledger \<Rightarrow>
   txn_error + ledger" where
  "recompose_invoices fresh now cmd d db =
     (let n = installments_or_single (ct_installments cmd);
          snap = (case tx_billing_snapshot (dec_transaction d) of
                    Some s \<Rightarrow> s
                  | None \<Rightarrow> \<lparr>closing_day = \<lparr>dom_value = 0, dom_max = 0\<rparr>,
                             due_day = \<lparr>dom_value = 0, dom_max = 0\<rparr>\<rparr>);
          (months, cls, dues) = resolve (ct_occurred_at cmd) snap n;
          cid = card_id_or_nil (tx_card_id (dec_transaction d));
          tid = tx_id (dec_transaction d)
      in case rebuild_invoice_items fresh now (ct_user_id cmd) cid tid (dec_items d) cls dues db of
           Inl e \<Rightarrow> Inl e
         | Inr (its, db1) \<Rightarrow>
             (case replace_items now tid its db1 of
                Inl e \<Rightarrow> Inl e
              | Inr db2 \<Rightarrow>
                  apply_invoice_deltas now (ct_user_id cmd) cid (dec_invoice_deltas d) db2))"

definition update_persist ::
  "(nat \<Rightarrow> uuid) \<Rightarrow> (int \<Rightarrow> uuid) \<Rightarrow> gotime \<Rightarrow> update_transaction_cmd \<Rightarrow>
   (unit \<Rightarrow> txn_error + evidence) \<Rightarrow> category_snapshot \<Rightarrow> uuid \<Rightarrow> ledger \<Rightarrow>
   txn_error + transaction \<times> ledger" where
  "update_persist fresh_item fresh now cmd approve cs eid db =
     (case get_by_id (ut_transaction_id cmd) (ct_user_id cmd) db of
        Inl e \<Rightarrow> Inl e
      | Inr cur \<Rightarrow>
          if \<not> guard_payment_method_migration (tx_payment_method cur) (ct_payment_method cmd)
          then Inl ErrPaymentMethodMigrationNotAllowed
          else case approve () of
            Inl e \<Rightarrow> Inl e
          | Inr ev \<Rightarrow>
            (case decide_update cur (get_items_by_transaction_id (ut_transaction_id cmd) db) cmd ev eid
                    (new_invoice_item_ids fresh_item (ct_payment_method cmd) (ct_installments cmd))
                    now of
               None \<Rightarrow> Inl Panic
             | Some d0 \<Rightarrow>
                 let t = set_category_snapshots
                           (snap_category_name (ct_subcategory_id cmd) cs)
                           (snap_subcategory_name (ct_subcategory_id cmd) cs) (dec_transaction d0);
                     d = d0\<lparr>dec_transaction := t\<rparr>
                 in case update_with_version t (ut_version cmd) db of
                      Inl e \<Rightarrow> Inl e
                    | Inr db1 \<Rightarrow>
                        if dec_items d = [] then Inr (t, db1)
                        else (case recompose_invoices fresh now cmd d db1 of
                                Inl e \<Rightarrow> Inl e
                              | Inr db2 \<Rightarrow> Inr (t, db2))))"

definition delete_execute ::
  "uuid \<Rightarrow> uuid \<Rightarrow> int \<Rightarrow> uuid \<Rightarrow> gotime \<Rightarrow> ledger \<Rightarrow> txn_error + transaction_event \<times> ledger" where
  "delete_execute tid user version eid now db =
     (case get_by_id tid user db of
        Inl e \<Rightarrow> Inl e
      | Inr cur \<Rightarrow>
          let items = get_items_by_transaction_id tid db
          in case decide_delete cur items eid now of
               Inl e \<Rightarrow> Inl e
             | Inr d \<Rightarrow>
                 (case soft_delete_row tid user version now db of
                    Inl e \<Rightarrow> Inl e
                  | Inr db1 \<Rightarrow>
                      if items = [] then Inr (dec_event d, db1)
                      else (case apply_invoice_deltas now user (card_id_or_nil (tx_card_id cur))
                                   (dec_invoice_deltas d) db1 of
                              Inl e \<Rightarrow> Inl e
                            | Inr db2 \<Rightarrow>
                                (case replace_items now tid [] db2 of
                                   Inl e \<Rightarrow> Inl e
                                 | Inr db3 \<Rightarrow> Inr (dec_event d, db3)))))"

section \<open>Whole requests\<close>

text \<open>
  What the use cases ask of other modules: the categories module for the snapshot of a category
  and for the evidence of a write, the cards module for the billing days of a card of the user.
  \<open>approveUpdateCategory\<close> refuses a write without a leaf category before it asks the gate.
\<close>

definition approve_category ::
  "(direction \<Rightarrow> uuid \<Rightarrow> uuid \<Rightarrow> txn_error + evidence) \<Rightarrow> direction \<Rightarrow> uuid \<Rightarrow> uuid option \<Rightarrow>
   txn_error + evidence" where
  "approve_category gate d main sub =
     (case sub of None \<Rightarrow> Inl ErrCategoryEvidenceRequired | Some s \<Rightarrow> gate d main s)"

definition resolve_billing ::
  "(uuid \<Rightarrow> uuid \<Rightarrow> txn_error + card_billing_snapshot) \<Rightarrow> create_transaction \<Rightarrow> uuid \<Rightarrow>
   txn_error + card_billing_snapshot option \<times> card_billing_snapshot \<times> uuid" where
  "resolve_billing lookup cmd user =
     (let zero = \<lparr>closing_day = \<lparr>dom_value = 0, dom_max = 0\<rparr>, due_day = \<lparr>dom_value = 0, dom_max = 0\<rparr>\<rparr>
      in if ct_payment_method cmd \<noteq> CreditCard then Inr (None, zero, uuid_nil)
         else let c = card_id_or_nil (ct_card_id cmd)
           in case lookup c user of Inl e \<Rightarrow> Inl e | Inr s \<Rightarrow> Inr (Some s, s, c))"

definition create_execute ::
  "(string \<Rightarrow> uuid option) \<Rightarrow> (uuid \<Rightarrow> uuid option \<Rightarrow> txn_error + category_snapshot) \<Rightarrow>
   (direction \<Rightarrow> uuid \<Rightarrow> uuid \<Rightarrow> txn_error + evidence) \<Rightarrow>
   (uuid \<Rightarrow> uuid \<Rightarrow> txn_error + card_billing_snapshot) \<Rightarrow>
   (nat \<Rightarrow> uuid) \<Rightarrow> (int \<Rightarrow> uuid) \<Rightarrow> uuid \<Rightarrow> uuid \<Rightarrow> gotime \<Rightarrow>
   raw_create_transaction \<Rightarrow> string \<times> int \<times> string \<Rightarrow> uuid \<Rightarrow> ledger \<Rightarrow>
   txn_error list + transaction \<times> bool \<times> ledger" where
  "create_execute parse categories gate lookup fresh_item fresh tid eid now raw origin user db =
     (case new_create_transaction parse raw user of
        Inl es \<Rightarrow> Inl es
      | Inr cmd \<Rightarrow>
          if guard_subcategory_required (ct_subcategory_id cmd \<noteq> None) \<noteq> []
          then Inl (guard_subcategory_required (ct_subcategory_id cmd \<noteq> None))
          else case categories (ct_category_id cmd) (ct_subcategory_id cmd) of
            Inl e \<Rightarrow> Inl [e]
          | Inr cs \<Rightarrow>
              if guard_category_kind_direction (ct_direction cmd) (cs_kind cs) \<noteq> []
              then Inl (guard_category_kind_direction (ct_direction cmd) (cs_kind cs))
              else case resolve_billing lookup cmd user of
                Inl e \<Rightarrow> Inl [e]
              | Inr (snap, billing, cid) \<Rightarrow>
                  (case approve_category gate (ct_direction cmd) (ct_category_id cmd)
                          (ct_subcategory_id cmd) of
                     Inl e \<Rightarrow> Inl [e]
                   | Inr ev \<Rightarrow>
                       (case decide_create cmd snap ev tid eid
                               (new_invoice_item_ids fresh_item (ct_payment_method cmd)
                                  (ct_installments cmd)) now of
                          None \<Rightarrow> Inl [Panic]
                        | Some d0 \<Rightarrow>
                            let (wamid, seq, op) = origin;
                                t = set_category_snapshots
                                      (snap_category_name (ct_subcategory_id cmd) cs)
                                      (snap_subcategory_name (ct_subcategory_id cmd) cs)
                                      (dec_transaction d0);
                                t' = (if wamid \<noteq> '''' then set_origin wamid seq op t else t)
                            in case create_persist fresh now cmd user billing cid
                                      (d0\<lparr>dec_transaction := t'\<rparr>) db of
                                 Inl e \<Rightarrow> Inl [e]
                               | Inr r \<Rightarrow> Inr r)))"

definition update_execute ::
  "(string \<Rightarrow> uuid option) \<Rightarrow> (uuid \<Rightarrow> uuid option \<Rightarrow> txn_error + category_snapshot) \<Rightarrow>
   (direction \<Rightarrow> uuid \<Rightarrow> uuid \<Rightarrow> txn_error + evidence) \<Rightarrow>
   (nat \<Rightarrow> uuid) \<Rightarrow> (int \<Rightarrow> uuid) \<Rightarrow> uuid \<Rightarrow> gotime \<Rightarrow>
   raw_update_transaction \<Rightarrow> uuid \<Rightarrow> ledger \<Rightarrow> txn_error list + transaction \<times> ledger" where
  "update_execute parse categories gate fresh_item fresh eid now raw user db =
     (case new_update_transaction parse raw user of
        Inl es \<Rightarrow> Inl es
      | Inr cmd \<Rightarrow>
          if guard_subcategory_required (ct_subcategory_id cmd \<noteq> None) \<noteq> []
          then Inl (guard_subcategory_required (ct_subcategory_id cmd \<noteq> None))
          else case categories (ct_category_id cmd) (ct_subcategory_id cmd) of
            Inl e \<Rightarrow> Inl [e]
          | Inr cs \<Rightarrow>
              if guard_category_kind_direction (ct_direction cmd) (cs_kind cs) \<noteq> []
              then Inl (guard_category_kind_direction (ct_direction cmd) (cs_kind cs))
              else case update_persist fresh_item fresh now cmd
                          (\<lambda>u. approve_category gate (ct_direction cmd) (ct_category_id cmd)
                                 (ct_subcategory_id cmd)) cs eid db of
                Inl e \<Rightarrow> Inl [e]
              | Inr r \<Rightarrow> Inr r)"

definition delete_request ::
  "(string \<Rightarrow> uuid option) \<Rightarrow> string \<Rightarrow> uuid \<Rightarrow> int \<Rightarrow> uuid \<Rightarrow> gotime \<Rightarrow> ledger \<Rightarrow>
   txn_error + transaction_event \<times> ledger" where
  "delete_request parse raw_id user version eid now db =
     (case parse raw_id of
        None \<Rightarrow> Inl ErrUUIDParse
      | Some tid \<Rightarrow> delete_execute tid user version eid now db)"

end
