(* ===== verification/TxnBalance.thy ===== *)
theory TxnBalance
  imports TxnLedger "HOL-Library.Multiset"
begin

text \<open>
  The books of the transactions module balance: the total kept on every invoice is the sum of its
  live items. This theory states the invariant and follows it through the write paths of
  \<open>TxnLedger\<close>.
\<close>

section \<open>The invariant\<close>

definition total_of :: "ledger \<Rightarrow> uuid \<Rightarrow> int" where
  "total_of db j =
     (case find (\<lambda>i. inv_id i = j) (lg_invoices db) of
        Some i \<Rightarrow> inv_items_total_cents i | None \<Rightarrow> 0)"

definition live_total :: "card_invoice_item list \<Rightarrow> uuid \<Rightarrow> int" where
  "live_total rows j =
     sum_list (map (cents \<circ> it_amount) (filter (\<lambda>it. is_live it \<and> it_invoice_id it = j) rows))"

definition balanced :: "ledger \<Rightarrow> bool" where
  "balanced db \<longleftrightarrow> (\<forall>j. total_of db j = live_total (lg_items db) j)"

definition key_of :: "card_invoice \<Rightarrow> uuid \<times> uuid \<times> ref_month" where
  "key_of i = (inv_user_id i, inv_card_id i, inv_ref_month i)"

definition slot_of :: "card_invoice_item \<Rightarrow> uuid \<times> int" where
  "slot_of it = (it_purchase_id it, it_installment_index it)"

text \<open>The constraints of the tables: unique keys, and items that belong to a transaction.\<close>

definition ledger_wf :: "ledger \<Rightarrow> bool" where
  "ledger_wf db \<longleftrightarrow>
     distinct (map inv_id (lg_invoices db)) \<and> distinct (map key_of (lg_invoices db)) \<and>
     distinct (map slot_of (lg_items db)) \<and>
     it_purchase_id ` set (lg_items db) \<subseteq> tx_id ` set (lg_transactions db)"

definition invoice_at :: "ledger \<Rightarrow> uuid \<Rightarrow> uuid \<Rightarrow> ref_month \<Rightarrow> uuid option" where
  "invoice_at db u c rm = map_option inv_id (find (invoice_key u c rm) (lg_invoices db))"

text \<open>The live items of a transaction sit on the invoice of their month.\<close>

definition aligned :: "uuid \<Rightarrow> uuid \<Rightarrow> uuid \<Rightarrow> ledger \<Rightarrow> bool" where
  "aligned u c tid db \<longleftrightarrow>
     (\<forall>it \<in> set (lg_items db). it_purchase_id it = tid \<longrightarrow> is_live it \<longrightarrow>
        invoice_at db u c (it_ref_month it) = Some (it_invoice_id it))"

section \<open>Lists with unique keys\<close>

lemma find_map_same:
  "(\<And>x. P (f x) \<longleftrightarrow> P x) \<Longrightarrow> find P (map f xs) = map_option f (find P xs)"
  by (induction xs) auto

lemma find_append:
  "find P (xs @ ys) = (case find P xs of Some x \<Rightarrow> Some x | None \<Rightarrow> find P ys)"
  by (induction xs) auto

lemma find_unique:
  "distinct (map f xs) \<Longrightarrow> x \<in> set xs \<Longrightarrow> find (\<lambda>y. f y = f x) xs = Some x"
  by (induction xs) auto

lemma find_Some_D: "find P xs = Some x \<Longrightarrow> x \<in> set xs \<and> P x"
  by (induction xs) (auto split: if_splits)

lemma invoice_key_of: "invoice_key u c rm = (\<lambda>i. key_of i = (u, c, rm))"
  by (auto simp: fun_eq_iff invoice_key_def key_of_def)

lemma invoice_at_unique:
  assumes "ledger_wf db" "i \<in> set (lg_invoices db)"
  shows "invoice_at db u c rm = Some (inv_id i) \<longleftrightarrow> key_of i = (u, c, rm)"
proof
  assume "invoice_at db u c rm = Some (inv_id i)"
  then obtain x where x: "x \<in> set (lg_invoices db)" "key_of x = (u, c, rm)" "inv_id x = inv_id i"
    by (auto simp: invoice_at_def invoice_key_of dest: find_Some_D)
  then have "x = i" using assms by (auto simp: ledger_wf_def distinct_map inj_on_def)
  with x show "key_of i = (u, c, rm)" by simp
next
  assume k: "key_of i = (u, c, rm)"
  have "find (\<lambda>y. key_of y = key_of i) (lg_invoices db) = Some i"
    using assms by (intro find_unique) (simp_all add: ledger_wf_def)
  then show "invoice_at db u c rm = Some (inv_id i)"
    using k by (simp add: invoice_at_def invoice_key_of)
qed

lemma invoice_at_D:
  "invoice_at db u c rm = Some j \<Longrightarrow> \<exists>i \<in> set (lg_invoices db). inv_id i = j \<and> key_of i = (u, c, rm)"
  by (auto simp: invoice_at_def invoice_key_of dest: find_Some_D)

lemma invoice_at_inject:
  "ledger_wf db \<Longrightarrow> invoice_at db u c rm = Some j \<Longrightarrow> invoice_at db u c rm' = Some j \<Longrightarrow> rm = rm'"
  using invoice_at_D invoice_at_unique by (metis prod.inject)

lemma total_of_unique:
  "ledger_wf db \<Longrightarrow> i \<in> set (lg_invoices db) \<Longrightarrow> total_of db (inv_id i) = inv_items_total_cents i"
  using find_unique [of inv_id "lg_invoices db" i] by (simp add: total_of_def ledger_wf_def)

lemma total_of_absent: "j \<notin> inv_id ` set (lg_invoices db) \<Longrightarrow> total_of db j = 0"
  by (auto simp: total_of_def split: option.splits dest!: find_Some_D)

section \<open>The operations on invoices\<close>

text \<open>Two stores that differ in the contents of their invoices only.\<close>

definition same_keys :: "ledger \<Rightarrow> ledger \<Rightarrow> bool" where
  "same_keys db db' \<longleftrightarrow>
     map inv_id (lg_invoices db') = map inv_id (lg_invoices db) \<and>
     map key_of (lg_invoices db') = map key_of (lg_invoices db) \<and>
     lg_items db' = lg_items db \<and> lg_transactions db' = lg_transactions db"

lemma same_keys_refl [simp]: "same_keys db db"
  by (simp add: same_keys_def)

lemma same_keys_trans: "same_keys a b \<Longrightarrow> same_keys b c \<Longrightarrow> same_keys a c"
  by (simp add: same_keys_def)

lemma same_keys_wf: "same_keys db db' \<Longrightarrow> ledger_wf db \<Longrightarrow> ledger_wf db'"
  by (simp add: same_keys_def ledger_wf_def)

lemma find_by_keys:
  "map f xs = map f ys \<Longrightarrow> map g xs = map g ys \<Longrightarrow>
   map_option g (find (\<lambda>x. f x = k) xs) = map_option g (find (\<lambda>x. f x = k) ys)"
proof (induction xs arbitrary: ys)
  case (Cons x xs)
  then show ?case by (cases ys) auto
qed simp

lemma same_keys_invoice_at: "same_keys db db' \<Longrightarrow> invoice_at db' u c rm = invoice_at db u c rm"
  using find_by_keys [of key_of "lg_invoices db'" "lg_invoices db" inv_id]
  by (simp add: same_keys_def invoice_at_def invoice_key_of)

lemma apply_delta_spec:
  assumes "ledger_wf db" "apply_delta now iid delta v db = Inr db'"
  shows "same_keys db db'" "total_of db' j = total_of db j + (if j = iid then delta else 0)"
proof -
  show keys: "same_keys db db'"
    using assms(2) by (auto simp: apply_delta_def Let_def same_keys_def key_of_def split: if_splits)
  show "total_of db' j = total_of db j + (if j = iid then delta else 0)"
  proof (cases "delta = 0")
    case True
    then show ?thesis using assms(2) by (simp add: apply_delta_def)
  next
    case False
    let ?hit = "\<lambda>i. inv_id i = iid \<and> inv_version i = v"
    let ?f = "\<lambda>i. if ?hit i then i\<lparr>inv_items_total_cents := inv_items_total_cents i + delta,
        inv_version := inv_version i + 1, inv_updated_at := now\<rparr> else i"
    obtain i where i: "i \<in> set (lg_invoices db)" "?hit i"
      and db': "lg_invoices db' = map ?f (lg_invoices db)"
      using assms(2) False by (auto simp: apply_delta_def Let_def filter_empty_conv split: if_splits)
    have found: "find (\<lambda>x. inv_id x = j) (lg_invoices db') =
        map_option ?f (find (\<lambda>x. inv_id x = j) (lg_invoices db))" for j
      unfolding db' by (rule find_map_same) simp
    show ?thesis
    proof (cases "j = iid")
      case True
      have "find (\<lambda>x. inv_id x = iid) (lg_invoices db) = Some i"
        using find_unique [of inv_id "lg_invoices db" i] i assms(1) by (simp add: ledger_wf_def)
      then show ?thesis using found i True by (simp add: total_of_def)
    next
      case False
      then show ?thesis
        using found [of j]
        by (auto simp: total_of_def split: option.splits dest!: find_Some_D)
    qed
  qed
qed

lemma scan_card_invoice_Inr:
  "scan_card_invoice row = Inr i \<Longrightarrow>
   inv_id i = inv_id row \<and> key_of i = key_of row \<and> inv_version i = inv_version row"
  by (auto simp: scan_card_invoice_def new_ref_month_def hydrate_version_def new_card_invoice_def
      key_of_def split: sum.splits if_splits)

lemma upsert_spec:
  assumes "ledger_wf db" "upsert_by_month nid now u c rm cl du db = Inr (iv, db')"
  shows "ledger_wf db'" "total_of db' j = total_of db j" "lg_items db' = lg_items db"
    "lg_transactions db' = lg_transactions db" "invoice_at db' u c rm = Some (inv_id iv)"
    "invoice_at db u' c' rm' = Some j \<Longrightarrow> invoice_at db' u' c' rm' = Some j"
proof -
  have "ledger_wf db' \<and> total_of db' j = total_of db j \<and> lg_items db' = lg_items db \<and>
    lg_transactions db' = lg_transactions db \<and> invoice_at db' u c rm = Some (inv_id iv) \<and>
    (invoice_at db u' c' rm' = Some j \<longrightarrow> invoice_at db' u' c' rm' = Some j)"
  proof (cases "find (invoice_key u c rm) (lg_invoices db)")
    case (Some i)
    define row where "row = i\<lparr>inv_closing_at := cl, inv_due_at := du, inv_updated_at := now\<rparr>"
    let ?f = "\<lambda>x. if invoice_key u c rm x then row else x"
    have i: "i \<in> set (lg_invoices db)" "key_of i = (u, c, rm)"
      using find_Some_D [OF Some] by (simp_all add: invoice_key_of)
    have db': "db' = db\<lparr>lg_invoices := map ?f (lg_invoices db)\<rparr>" and "inv_id iv = inv_id i"
      using assms(2) Some scan_card_invoice_Inr [of row iv]
      by (auto simp: upsert_by_month_def Let_def row_def split: if_splits sum.splits)
    have same: "x = i" if "x \<in> set (lg_invoices db)" "invoice_key u c rm x" for x
      using that i assms(1)
      by (auto simp: invoice_key_of ledger_wf_def distinct_map inj_on_def)
    have row: "inv_id row = inv_id i" "key_of row = key_of i"
      "inv_items_total_cents row = inv_items_total_cents i"
      by (simp_all add: row_def key_of_def)
    have keys: "same_keys db db'"
      using same row by (auto simp: same_keys_def db')
    have "map inv_items_total_cents (lg_invoices db') = map inv_items_total_cents (lg_invoices db)"
      using same row by (auto simp: db')
    then have "map_option inv_items_total_cents (find (\<lambda>x. inv_id x = j) (lg_invoices db')) =
        map_option inv_items_total_cents (find (\<lambda>x. inv_id x = j) (lg_invoices db))"
      using keys by (intro find_by_keys) (simp_all add: same_keys_def)
    then have "total_of db' j = total_of db j"
      by (auto simp: total_of_def split: option.splits)
    moreover have "invoice_at db u c rm = Some (inv_id iv)"
      using Some \<open>inv_id iv = inv_id i\<close> by (simp add: invoice_at_def)
    ultimately show ?thesis
      using keys same_keys_wf [OF keys assms(1)] same_keys_invoice_at [OF keys]
      by (simp add: same_keys_def)
  next
    case None
    define row where "row = new_card_invoice nid u c rm cl du now"
    have new: "nid \<notin> inv_id ` set (lg_invoices db)"
      and db': "db' = db\<lparr>lg_invoices := lg_invoices db @ [row]\<rparr>" and "inv_id iv = inv_id row"
      using assms(2) None scan_card_invoice_Inr [of row iv]
      by (auto simp: upsert_by_month_def Let_def row_def split: if_splits sum.splits)
    have row: "inv_id row = nid" "key_of row = (u, c, rm)" "inv_items_total_cents row = 0"
      by (simp_all add: row_def new_card_invoice_def key_of_def)
    have absent: "(u, c, rm) \<notin> key_of ` set (lg_invoices db)"
      using None by (auto simp: find_None_iff invoice_key_of)
    have "ledger_wf db'" using assms(1) new absent row by (simp add: ledger_wf_def db')
    moreover have "total_of db' j = total_of db j"
      using row new total_of_absent [of nid db]
      by (auto simp: total_of_def db' find_append split: option.splits)
    moreover have "invoice_at db' u c rm = Some (inv_id iv)"
      using None row \<open>inv_id iv = inv_id row\<close>
      by (simp add: invoice_at_def db' find_append invoice_key_of)
    ultimately show ?thesis
      by (auto simp: db' invoice_at_def find_append split: option.splits)
  qed
  then show "ledger_wf db'" "total_of db' j = total_of db j" "lg_items db' = lg_items db"
    "lg_transactions db' = lg_transactions db" "invoice_at db' u c rm = Some (inv_id iv)"
    "invoice_at db u' c' rm' = Some j \<Longrightarrow> invoice_at db' u' c' rm' = Some j"
    by simp_all
qed

section \<open>The loops over items and deltas\<close>

definition invoice_sum :: "card_invoice_item list \<Rightarrow> uuid \<Rightarrow> int" where
  "invoice_sum its j = sum_list (map (cents \<circ> it_amount) (filter (\<lambda>it. it_invoice_id it = j) its))"

lemma invoice_sum_simps [simp]:
  "invoice_sum [] j = 0"
  "invoice_sum (it # its) j = (if it_invoice_id it = j then cents (it_amount it) else 0) +
     invoice_sum its j"
  by (simp_all add: invoice_sum_def)

lemma with_invoice_simps [simp]:
  "it_amount (with_invoice t i it) = it_amount it"
  "it_invoice_id (with_invoice t i it) = inv_id i"
  "it_ref_month (with_invoice t i it) = it_ref_month it"
  "it_installment_index (with_invoice t i it) = it_installment_index it"
  by (simp_all add: with_invoice_def)

text \<open>What both loops over the items of a decision leave: the items, each on the invoice of its month.\<close>

definition placed :: "uuid \<Rightarrow> uuid \<Rightarrow> card_invoice_item list \<Rightarrow> card_invoice_item list \<Rightarrow> ledger \<Rightarrow> bool" where
  "placed u c its its' db \<longleftrightarrow>
     map it_amount its' = map it_amount its \<and> map it_ref_month its' = map it_ref_month its \<and>
     map it_installment_index its' = map it_installment_index its \<and>
     (\<forall>it \<in> set its'. invoice_at db u c (it_ref_month it) = Some (it_invoice_id it))"

lemma create_invoice_items_spec:
  assumes "ledger_wf db" "create_invoice_items fresh now u c tid its cls dus db = Inr (its', db')"
  shows "ledger_wf db' \<and> lg_items db' = lg_items db \<and> lg_transactions db' = lg_transactions db \<and>
    (\<forall>j. total_of db' j = total_of db j + invoice_sum its' j) \<and> placed u c its its' db' \<and>
    (\<forall>u' c' rm j. invoice_at db u' c' rm = Some j \<longrightarrow> invoice_at db' u' c' rm = Some j)"
  using assms
proof (induction fresh now u c tid its cls dus db arbitrary: its' db'
    rule: create_invoice_items.induct)
  case (1 fresh now u c tid cls dus db)
  then show ?case by (simp add: placed_def)
next
  case (2 fresh now u c tid it its cl cls du dus db)
  obtain iv db1 where up: "upsert_by_month (fresh (it_installment_index it)) now u c
      (it_ref_month it) cl du db = Inr (iv, db1)"
    using "2.prems"(2) by (auto split: sum.splits)
  obtain db2 where ap: "apply_delta now (inv_id iv) (cents (it_amount it)) (inv_version iv) db1 = Inr db2"
    using "2.prems"(2) up by (auto split: sum.splits)
  obtain rest where rec: "create_invoice_items fresh now u c tid its cls dus db2 = Inr (rest, db')"
    and its': "its' = with_invoice tid iv it # rest"
    using "2.prems"(2) up ap by (auto split: sum.splits)
  note u = upsert_spec [OF "2.prems"(1) up]
  note a = apply_delta_spec [OF u(1) ap]
  have wf2: "ledger_wf db2" using a(1) u(1) by (rule same_keys_wf)
  have IH: "ledger_wf db' \<and> lg_items db' = lg_items db2 \<and> lg_transactions db' = lg_transactions db2 \<and>
    (\<forall>j. total_of db' j = total_of db2 j + invoice_sum rest j) \<and> placed u c its rest db' \<and>
    (\<forall>u' c' rm j. invoice_at db2 u' c' rm = Some j \<longrightarrow> invoice_at db' u' c' rm = Some j)"
    by (rule "2.IH" [OF up _ ap wf2 rec]) simp
  have at: "invoice_at db2 = invoice_at db1"
    using same_keys_invoice_at [OF a(1)] by (simp add: fun_eq_iff)
  show ?case
    using IH u a(1) by (auto simp: its' a(2) same_keys_def at placed_def)
qed simp_all

lemma rebuild_invoice_items_spec:
  assumes "ledger_wf db" "rebuild_invoice_items fresh now u c tid its cls dus db = Inr (its', db')"
  shows "ledger_wf db' \<and> lg_items db' = lg_items db \<and> lg_transactions db' = lg_transactions db \<and>
    (\<forall>j. total_of db' j = total_of db j) \<and> placed u c its its' db' \<and>
    (\<forall>u' c' rm j. invoice_at db u' c' rm = Some j \<longrightarrow> invoice_at db' u' c' rm = Some j)"
  using assms
proof (induction fresh now u c tid its cls dus db arbitrary: its' db'
    rule: rebuild_invoice_items.induct)
  case (1 fresh now u c tid cls dus db)
  then show ?case by (simp add: placed_def)
next
  case (2 fresh now u c tid it its cl cls du dus db)
  obtain iv db1 where up: "upsert_by_month (fresh (it_installment_index it)) now u c
      (it_ref_month it) cl du db = Inr (iv, db1)"
    using "2.prems"(2) by (auto split: sum.splits)
  obtain rest where rec: "rebuild_invoice_items fresh now u c tid its cls dus db1 = Inr (rest, db')"
    and its': "its' = with_invoice tid iv it # rest"
    using "2.prems"(2) up by (auto split: sum.splits)
  note u = upsert_spec [OF "2.prems"(1) up]
  have IH: "ledger_wf db' \<and> lg_items db' = lg_items db1 \<and> lg_transactions db' = lg_transactions db1 \<and>
    (\<forall>j. total_of db' j = total_of db1 j) \<and> placed u c its rest db' \<and>
    (\<forall>u' c' rm j. invoice_at db1 u' c' rm = Some j \<longrightarrow> invoice_at db' u' c' rm = Some j)"
    by (rule "2.IH" [OF up _ u(1) rec]) simp
  show ?case using IH u by (auto simp: its' placed_def)
qed simp_all

lemma get_by_month_Some:
  assumes "get_by_month u c rm db = Inr (Some (iv, its))"
  shows "invoice_at db u c rm = Some (inv_id iv)"
  using assms scan_card_invoice_Inr
  by (auto simp: get_by_month_def invoice_at_def split: option.splits sum.splits)

lemma value_at_absent: "k \<notin> fst ` set ds \<Longrightarrow> value_at ds k = 0"
  by (induction ds) auto

lemma apply_invoice_deltas_spec:
  assumes "ledger_wf db" "apply_invoice_deltas now u c ds db = Inr db'" "distinct (map fst ds)"
  shows "same_keys db db' \<and>
    (\<forall>k j. invoice_at db u c (RefMonth k) = Some j \<longrightarrow> total_of db' j = total_of db j + value_at ds k) \<and>
    (\<forall>j. (\<forall>k. invoice_at db u c (RefMonth k) \<noteq> Some j) \<longrightarrow> total_of db' j = total_of db j)"
  using assms
proof (induction now u c ds db arbitrary: db' rule: apply_invoice_deltas.induct)
  case (1 now u c db)
  then show ?case by simp
next
  case (2 now u c k delta ds db)
  have nk: "value_at ds k = 0" using "2.prems"(3) by (simp add: value_at_absent)
  show ?case
  proof (cases "delta = 0")
    case True
    then show ?thesis using 2 nk by auto
  next
    case False
    obtain iv its where g: "new_ref_month k = Inr (RefMonth k)"
      "get_by_month u c (RefMonth k) db = Inr (Some (iv, its))"
      using "2.prems"(2) False
      by (auto simp: new_ref_month_def split: sum.splits option.splits if_splits)
    obtain db1 where ap: "apply_delta now (inv_id iv) delta (inv_version iv) db = Inr db1"
      and rec: "apply_invoice_deltas now u c ds db1 = Inr db'"
      using "2.prems"(2) False g by (auto split: sum.splits)
    note a = apply_delta_spec [OF "2.prems"(1) ap]
    have at: "invoice_at db1 u c rm = invoice_at db u c rm" for rm
      using same_keys_invoice_at [OF a(1)] .
    have wf1: "ledger_wf db1" using a(1) "2.prems"(1) by (rule same_keys_wf)
    have IH: "same_keys db1 db' \<and>
      (\<forall>k j. invoice_at db1 u c (RefMonth k) = Some j \<longrightarrow> total_of db' j = total_of db1 j + value_at ds k) \<and>
      (\<forall>j. (\<forall>k. invoice_at db1 u c (RefMonth k) \<noteq> Some j) \<longrightarrow> total_of db' j = total_of db1 j)"
      using False g ap rec wf1 "2.prems"(3) by (intro "2.IH"(2)) simp_all
    have k: "invoice_at db u c (RefMonth k) = Some (inv_id iv)"
      using g(2) by (rule get_by_month_Some)
    have only: "k' = k" if "invoice_at db u c (RefMonth k') = Some (inv_id iv)" for k'
      using invoice_at_inject [OF "2.prems"(1) that k] by simp
    have "total_of db' j = total_of db j + value_at ((k, delta) # ds) k'"
      if "invoice_at db u c (RefMonth k') = Some j" for k' j
    proof -
      have "total_of db' j = total_of db1 j + value_at ds k'" using IH that by (simp add: at)
      moreover have "j = inv_id iv" if "k' = k"
        using k \<open>invoice_at db u c (RefMonth k') = Some j\<close> that by simp
      moreover have "j \<noteq> inv_id iv" if "k' \<noteq> k"
        using only [of k'] \<open>invoice_at db u c (RefMonth k') = Some j\<close> that by blast
      ultimately show ?thesis using a(2) [of j] nk by (cases "k' = k") simp_all
    qed
    moreover have "total_of db' j = total_of db j"
      if "\<forall>k'. invoice_at db u c (RefMonth k') \<noteq> Some j" for j
    proof -
      have "total_of db' j = total_of db1 j" using IH that by (simp add: at)
      moreover have "j \<noteq> inv_id iv" using that k by auto
      ultimately show ?thesis using a(2) [of j] by simp
    qed
    ultimately show ?thesis using same_keys_trans [OF a(1)] IH by blast
  qed
qed

lemma insert_item_spec:
  assumes "insert_item now tid it rows = Inr rows'" "distinct (map slot_of rows)"
    "\<And>r. r \<in> set rows \<Longrightarrow> slot_of r = (tid, it_installment_index it) \<Longrightarrow> \<not> is_live r"
  shows "distinct (map slot_of rows')"
    "set (map slot_of rows') = insert (tid, it_installment_index it) (set (map slot_of rows))"
    "live_total rows' j = live_total rows j + (if it_invoice_id it = j then cents (it_amount it) else 0)"
    "r \<in> set rows' \<Longrightarrow> slot_of r \<noteq> (tid, it_installment_index it) \<Longrightarrow> r \<in> set rows"
proof -
  let ?slot = "item_slot tid (it_installment_index it)"
  let ?f = "\<lambda>r. if ?slot r then r\<lparr>it_invoice_id := it_invoice_id it, it_amount := it_amount it,
      it_deleted_at := None, it_updated_at := now\<rparr> else r"
  have slot: "?slot r \<longleftrightarrow> slot_of r = (tid, it_installment_index it)" for r
    by (auto simp: item_slot_def slot_of_def)
  have fslot: "slot_of (?f r) = slot_of r" for r by (simp add: slot_of_def)
  have "distinct (map slot_of rows') \<and>
    set (map slot_of rows') = insert (tid, it_installment_index it) (set (map slot_of rows)) \<and>
    live_total rows' j = live_total rows j + (if it_invoice_id it = j then cents (it_amount it) else 0) \<and>
    (\<forall>r. r \<in> set rows' \<longrightarrow> slot_of r \<noteq> (tid, it_installment_index it) \<longrightarrow> r \<in> set rows)"
  proof (cases "filter ?slot rows = []")
    case True
    then have "(tid, it_installment_index it) \<notin> set (map slot_of rows)"
      by (auto simp: filter_empty_conv slot)
    moreover have "rows' = rows @ [it\<lparr>it_purchase_id := tid, it_deleted_at := None,
        it_updated_at := now\<rparr>]" (is "_ = rows @ [?row]")
      using True assms(1) by (auto simp: insert_item_def Let_def split: if_splits)
    moreover have "slot_of ?row = (tid, it_installment_index it)" by (simp add: slot_of_def)
    ultimately show ?thesis
      using assms(2) by (simp add: live_total_def is_live_def)
  next
    case False
    then have rows': "rows' = map ?f rows"
      using assms(1) by (auto simp: insert_item_def Let_def split: if_splits)
    obtain r where "r \<in> set rows" "?slot r" using False by (auto simp: filter_empty_conv)
    then obtain xs ys where split: "rows = xs @ r # ys" by (meson split_list)
    have other: "\<not> ?slot x" if "x \<in> set xs \<union> set ys" for x
      using that assms(2) \<open>?slot r\<close> by (auto simp: split slot image_iff)
    then have f: "map ?f xs = xs" "map ?f ys = ys" by (simp_all add: map_idI)
    have dead: "\<not> is_live r" using assms(3) \<open>?slot r\<close> by (simp add: split slot)
    have rows'': "rows' = xs @ ?f r # ys" using f by (simp add: rows' split)
    have "live_total rows' j = live_total rows j +
        (if it_invoice_id it = j then cents (it_amount it) else 0)"
      unfolding rows'' split using \<open>?slot r\<close> dead by (auto simp: live_total_def is_live_def)
    moreover have "map slot_of rows' = map slot_of rows" by (simp add: rows' fslot)
    moreover have "\<forall>r. r \<in> set rows' \<longrightarrow> slot_of r \<noteq> (tid, it_installment_index it) \<longrightarrow> r \<in> set rows"
      using \<open>?slot r\<close> fslot [of r] by (auto simp: rows'' split slot)
    ultimately show ?thesis
      using assms(2) \<open>?slot r\<close> \<open>r \<in> set rows\<close> by (force simp: slot)
  qed
  then show "distinct (map slot_of rows')"
    "set (map slot_of rows') = insert (tid, it_installment_index it) (set (map slot_of rows))"
    "live_total rows' j = live_total rows j + (if it_invoice_id it = j then cents (it_amount it) else 0)"
    "r \<in> set rows' \<Longrightarrow> slot_of r \<noteq> (tid, it_installment_index it) \<Longrightarrow> r \<in> set rows"
    by blast+
qed

lemma insert_items_spec:
  assumes "insert_items now tid its rows = Inr rows'" "distinct (map slot_of rows)"
    "distinct (map it_installment_index its)"
    "\<And>r. r \<in> set rows \<Longrightarrow> it_purchase_id r = tid \<Longrightarrow>
       it_installment_index r \<in> it_installment_index ` set its \<Longrightarrow> \<not> is_live r"
  shows "distinct (map slot_of rows') \<and>
    it_purchase_id ` set rows' \<subseteq> insert tid (it_purchase_id ` set rows) \<and>
    (\<forall>j. live_total rows' j = live_total rows j + invoice_sum its j)"
  using assms
proof (induction now tid its rows arbitrary: rows' rule: insert_items.induct)
  case (1 now tid rows)
  then show ?case by auto
next
  case (2 now tid it its rows)
  obtain rows1 where ins: "insert_item now tid it rows = Inr rows1"
    and rec: "insert_items now tid its rows1 = Inr rows'"
    using "2.prems"(1) by (auto split: sum.splits)
  have dead: "\<not> is_live r" if "r \<in> set rows" "slot_of r = (tid, it_installment_index it)" for r
    using "2.prems"(4) [of r] that by (simp add: slot_of_def)
  note one = insert_item_spec [OF ins "2.prems"(2) dead]
  have "\<not> is_live r" if "r \<in> set rows1" "it_purchase_id r = tid"
      "it_installment_index r \<in> it_installment_index ` set its" for r
  proof -
    have "slot_of r \<noteq> (tid, it_installment_index it)"
      using that(3) "2.prems"(3) by (auto simp: slot_of_def)
    then have "r \<in> set rows" using one(4) that(1) by blast
    then show ?thesis using "2.prems"(4) [of r] that by simp
  qed
  then have IH: "distinct (map slot_of rows') \<and>
      it_purchase_id ` set rows' \<subseteq> insert tid (it_purchase_id ` set rows1) \<and>
      (\<forall>j. live_total rows' j = live_total rows1 j + invoice_sum its j)"
    using "2.prems"(3) by (intro "2.IH" [OF ins rec one(1)]) simp_all
  have "it_purchase_id ` set rows1 = fst ` set (map slot_of rows1)"
    "it_purchase_id ` set rows = fst ` set (map slot_of rows)"
    by (simp_all add: image_image slot_of_def)
  then have "it_purchase_id ` set rows1 = insert tid (it_purchase_id ` set rows)"
    by (simp only: one(2)) simp
  moreover have "live_total rows1 j = live_total rows j +
      (if it_invoice_id it = j then cents (it_amount it) else 0)" for j
    by (rule one(3))
  ultimately show ?case using IH by auto
qed

definition items_of :: "uuid \<Rightarrow> ledger \<Rightarrow> card_invoice_item list" where
  "items_of tid db = filter (\<lambda>it. it_purchase_id it = tid \<and> is_live it) (lg_items db)"

lemma retire_items_total:
  "live_total (retire_items now tid rows) j =
   live_total rows j - invoice_sum (filter (\<lambda>it. it_purchase_id it = tid \<and> is_live it) rows) j"
  by (induction rows) (auto simp: retire_items_def live_total_def invoice_sum_def is_live_def)

lemma retire_items_slots: "map slot_of (retire_items now tid rows) = map slot_of rows"
  by (simp add: retire_items_def slot_of_def)

lemma retire_items_dead:
  "r \<in> set (retire_items now tid rows) \<Longrightarrow> it_purchase_id r = tid \<Longrightarrow> \<not> is_live r"
proof -
  assume r: "r \<in> set (retire_items now tid rows)" "it_purchase_id r = tid"
  then obtain x where x: "x \<in> set rows"
    "r = (if it_purchase_id x = tid \<and> is_live x
          then x\<lparr>it_deleted_at := Some now, it_updated_at := now\<rparr> else x)"
    unfolding retire_items_def set_map by blast
  show "\<not> is_live r"
  proof (cases "it_purchase_id x = tid \<and> is_live x")
    case True
    then show ?thesis by (simp add: x(2) is_live_def)
  next
    case False
    then show ?thesis using r(2) by (simp add: x(2) if_not_P)
  qed
qed

lemma replace_items_spec:
  assumes "ledger_wf db" "replace_items now tid its db = Inr db'"
    "distinct (map it_installment_index its)" "tid \<in> tx_id ` set (lg_transactions db)"
  shows "ledger_wf db' \<and> (\<forall>j. total_of db' j = total_of db j) \<and>
    (\<forall>j. live_total (lg_items db') j =
       live_total (lg_items db) j - invoice_sum (items_of tid db) j + invoice_sum its j) \<and>
    (\<forall>u c rm. invoice_at db' u c rm = invoice_at db u c rm)"
proof -
  let ?rows = "retire_items now tid (lg_items db)"
  obtain rows' where ins: "insert_items now tid its ?rows = Inr rows'"
    and db': "db' = db\<lparr>lg_items := rows'\<rparr>"
    using assms(2) by (auto simp: replace_items_def split: sum.splits)
  have "distinct (map slot_of rows') \<and>
      it_purchase_id ` set rows' \<subseteq> insert tid (it_purchase_id ` set ?rows) \<and>
      (\<forall>j. live_total rows' j = live_total ?rows j + invoice_sum its j)"
    using assms(1,3) by (intro insert_items_spec [OF ins])
      (auto simp: retire_items_slots ledger_wf_def dest: retire_items_dead)
  moreover have "map it_purchase_id ?rows = map it_purchase_id (lg_items db)"
    by (simp add: retire_items_def)
  then have "it_purchase_id ` set ?rows = it_purchase_id ` set (lg_items db)"
    by (metis list.set_map)
  moreover have "it_purchase_id ` set (lg_items db) \<subseteq> tx_id ` set (lg_transactions db)"
    using assms(1) by (simp add: ledger_wf_def)
  ultimately have "it_purchase_id ` set rows' \<subseteq> tx_id ` set (lg_transactions db)"
    "distinct (map slot_of rows')"
    "\<forall>j. live_total rows' j = live_total ?rows j + invoice_sum its j"
    using assms(4) by (blast, blast, blast)
  then show ?thesis
    using assms(1)
    by (simp add: db' ledger_wf_def total_of_def invoice_at_def retire_items_total items_of_def)
qed

section \<open>Months and invoices\<close>

lemma sum_list_sort_key: "sum_list (map f (sort_key k xs)) = sum_list (map f xs)"
  for f :: "'a \<Rightarrow> int"
  by (metis mset_map mset_sort sum_mset_sum_list)

lemma sum_at_map: "sum_at (map f xs) k = sum_list (map (\<lambda>x. if fst (f x) = k then snd (f x) else 0) xs)"
  by (induction xs) auto

lemma month_total_items:
  "month_total (get_items_by_transaction_id tid db) k =
   sum_list (map (cents \<circ> it_amount) (filter (\<lambda>it. rm_value (it_ref_month it) = k) (items_of tid db)))"
proof -
  have "month_total (get_items_by_transaction_id tid db) k =
      sum_list (map (\<lambda>it. if rm_value (it_ref_month it) = k then cents (it_amount it) else 0)
        (items_of tid db))"
    by (simp add: month_total_def get_items_by_transaction_id_def sum_at_map items_of_def
        item_entry_def scan_card_invoice_item_def comp_def sum_list_sort_key cong: if_cong)
  also have "\<dots> = sum_list (map (cents \<circ> it_amount)
      (filter (\<lambda>it. rm_value (it_ref_month it) = k) (items_of tid db)))"
    by (induction "items_of tid db") (simp_all add: sum_list_map_filter' comp_def)
  finally show ?thesis .
qed

lemma month_total_placed:
  "placed u c its its' db \<Longrightarrow> month_total its k =
   sum_list (map (cents \<circ> it_amount) (filter (\<lambda>it. rm_value (it_ref_month it) = k) its'))"
proof -
  assume "placed u c its its' db"
  then have "map item_entry its = map item_entry its'"
    by (auto simp: placed_def item_entry_def list_eq_iff_nth_eq map_equality_iff)
  moreover have "sum_at (map item_entry its') k =
      sum_list (map (cents \<circ> it_amount) (filter (\<lambda>it. rm_value (it_ref_month it) = k) its'))"
    by (induction its') (simp_all add: item_entry_def)
  ultimately show ?thesis by (simp add: month_total_def)
qed

text \<open>Items that sit on the invoices of their months: summing by month is summing by invoice.\<close>

lemma sum_by_month:
  assumes "ledger_wf db" "\<And>it. it \<in> set its \<Longrightarrow> invoice_at db u c (it_ref_month it) = Some (it_invoice_id it)"
  shows "invoice_at db u c (RefMonth k) = Some j \<Longrightarrow>
      sum_list (map (cents \<circ> it_amount) (filter (\<lambda>it. rm_value (it_ref_month it) = k) its)) =
      invoice_sum its j"
    "(\<And>k. invoice_at db u c (RefMonth k) \<noteq> Some j) \<Longrightarrow> invoice_sum its j = 0"
proof -
  assume k: "invoice_at db u c (RefMonth k) = Some j"
  have "rm_value (it_ref_month it) = k \<longleftrightarrow> it_invoice_id it = j" if "it \<in> set its" for it
    using assms(2) [OF that] k invoice_at_inject [OF assms(1) k]
    by (metis option.inject ref_month.collapse ref_month.sel)
  then show "sum_list (map (cents \<circ> it_amount)
      (filter (\<lambda>it. rm_value (it_ref_month it) = k) its)) = invoice_sum its j"
    by (simp add: invoice_sum_def cong: filter_cong)
next
  assume "\<And>k. invoice_at db u c (RefMonth k) \<noteq> Some j"
  then have "it_invoice_id it \<noteq> j" if "it \<in> set its" for it
    using assms(2) [OF that] by (metis ref_month.collapse)
  then show "invoice_sum its j = 0" by (simp add: invoice_sum_def filter_empty_conv)
qed

end
