(* ===== verification/TxnRecurring.thy ===== *)
theory TxnRecurring
  imports TxnWorkflow
begin

text \<open>
  The recurring templates of \<open>internal/transactions\<close>: the decision whether a template
  materialises on a day (\<open>domain/services/recurring_workflow.go\<close>) and the query that selects the
  templates of a day (\<open>FindActiveByDayOfMonth\<close>).
\<close>

section \<open>Recurring templates\<close>

record materialize_decision =
  md_should :: bool
  md_as_transaction :: bool
  md_as_card_purchase :: bool
  md_occurred_at :: gotime
  md_ref_month :: ref_month
  md_template_id :: uuid

definition no_materialize :: materialize_decision where
  "no_materialize =
     \<lparr>md_should = False, md_as_transaction = False, md_as_card_purchase = False,
      md_occurred_at = zero_time, md_ref_month = RefMonth '''', md_template_id = uuid_nil\<rparr>"

definition is_clamped_last_day :: "gotime \<Rightarrow> int \<Rightarrow> bool" where
  "is_clamped_last_day today template_day \<longleftrightarrow>
     (let last_day = day (midnight (year today) (month today + 1) 0 (loc today))
      in day today = last_day \<and> template_day > last_day)"

definition ended_before :: "recurring_template \<Rightarrow> gotime \<Rightarrow> bool" where
  "ended_before r today \<longleftrightarrow> (case rt_ended_at r of Some e \<Rightarrow> after today e | None \<Rightarrow> False)"

definition decide_materialize ::
  "recurring_template \<Rightarrow> gotime \<Rightarrow> location \<Rightarrow> materialize_decision" where
  "decide_materialize r today l =
     (if rt_deleted_at r \<noteq> None then no_materialize
      else if ended_before r today then no_materialize
      else if before today (rt_started_at r) then no_materialize
      else let here = in_loc today l; d = dom_value (rt_day_of_month r)
        in if day here \<noteq> d \<and> \<not> is_clamped_last_day here d then no_materialize
           else let occ = midnight (year here) (month here) (day here) l
             in \<lparr>md_should = True, md_as_transaction = rt_payment_method r \<noteq> CreditCard,
                 md_as_card_purchase = rt_payment_method r = CreditCard,
                 md_occurred_at = occ, md_ref_month = ref_month_from_time occ l,
                 md_template_id = rt_id r\<rparr>)"

text \<open>
  The clause by which \<open>FindActiveByDayOfMonth\<close> selects the templates of a day: exact, except on
  the last day of a short month, where later days of the month match too.
\<close>

definition day_filter :: "int \<Rightarrow> gotime \<Rightarrow> int \<Rightarrow> bool" where
  "day_filter d as_of template_day \<longleftrightarrow>
     (let last_day = day (midnight (year as_of) (month as_of + 1) 0 (loc as_of))
      in if d = last_day \<and> last_day < 31 then template_day \<ge> d else template_day = d)"

definition selected_by_day :: "int \<Rightarrow> gotime \<Rightarrow> recurring_template \<Rightarrow> bool" where
  "selected_by_day d as_of r \<longleftrightarrow>
     day_filter d as_of (dom_value (rt_day_of_month r)) \<and> rt_deleted_at r = None \<and>
     \<not> after (rt_started_at r) as_of \<and>
     (case rt_ended_at r of None \<Rightarrow> True | Some e \<Rightarrow> \<not> before e as_of)"

definition template_active :: "recurring_template \<Rightarrow> gotime \<Rightarrow> bool" where
  "template_active r t \<longleftrightarrow>
     rt_deleted_at r = None \<and> \<not> before t (rt_started_at r) \<and> \<not> ended_before r t"

definition due_day_of :: "recurring_template \<Rightarrow> int \<Rightarrow> int \<Rightarrow> int" where
  "due_day_of r y m = min (dom_value (rt_day_of_month r)) (days_in_month y m)"

lemma is_clamped_last_day_iff:
  "steady (loc t) off \<Longrightarrow>
   is_clamped_last_day t d \<longleftrightarrow>
     day t = days_in_month (year t) (month t) \<and> days_in_month (year t) (month t) < d"
  by (auto simp: is_clamped_last_day_def Let_def last_day_of_month [OF month_range])

lemma day_matches:
  assumes "steady (loc t) off"
  shows "day t = d \<or> is_clamped_last_day t d \<longleftrightarrow> day t = min d (days_in_month (year t) (month t))"
  using date_of_valid [of t] by (auto simp: is_clamped_last_day_iff [OF assms] valid_date_def)

lemma decide_materialize_should:
  assumes "steady l off"
  shows "md_should (decide_materialize r t l) \<longleftrightarrow>
    template_active r t \<and> day (in_loc t l) = due_day_of r (year (in_loc t l)) (month (in_loc t l))"
  using day_matches [of "in_loc t l" off "dom_value (rt_day_of_month r)"] assms
  by (auto simp: decide_materialize_def Let_def no_materialize_def template_active_def
      due_day_of_def)

text \<open>
  The selection made by the repository and the decision of the domain agree: for a template
  whose day is a day of the month, the query of the day returns it exactly when the decision is to
  materialise.
\<close>

lemma selection_agrees:
  assumes "steady l off" "dom_value (rt_day_of_month r) \<le> 31" "loc t = l"
  shows "selected_by_day (day t) t r \<longleftrightarrow> md_should (decide_materialize r t l)"
proof -
  let ?n = "days_in_month (year t) (month t)"
  have last: "day (midnight (year t) (month t + 1) 0 l) = ?n"
    using last_day_of_month [OF month_range assms(1)] .
  have "1 \<le> day t" "day t \<le> ?n" using date_of_valid [of t] by (auto simp: valid_date_def)
  then have "day_filter (day t) t (dom_value (rt_day_of_month r)) \<longleftrightarrow>
      day t = min (dom_value (rt_day_of_month r)) ?n"
    using assms(2,3) days_in_month_range [of "year t" "month t"]
    by (auto simp: day_filter_def Let_def last)
  then show ?thesis
    using assms
    by (auto simp: decide_materialize_should selected_by_day_def template_active_def due_day_of_def
        ended_before_def before_def after_def split: option.splits)
qed


section \<open>From a command to a template and back to a transaction\<close>

text \<open>
  The template the use case builds from an accepted command, and the request for a transaction it
  makes when the template is due. \<open>show_id\<close> stands for \<open>UUID.String\<close>; \<open>reread\<close> for formatting
  an instant as RFC 3339 and parsing it again.
\<close>

definition template_of_command ::
  "create_recurring_template \<Rightarrow> uuid \<Rightarrow> string \<Rightarrow> string \<Rightarrow> evidence \<Rightarrow> gotime \<Rightarrow>
   recurring_template" where
  "template_of_command c tid cname sname ev now =
     new_recurring_template tid (cr_user_id c) (cr_direction c) (cr_payment_method c)
       (cr_card_id c) (cr_amount c) (cr_description c) (cr_category_id c) (cr_subcategory_id c)
       cname sname ev (cr_frequency c) (cr_day_of_month c) (cr_installments_total c)
       (cr_started_at c) (cr_ended_at c) now"

definition id_text :: "(uuid \<Rightarrow> string) \<Rightarrow> uuid option \<Rightarrow> string" where
  "id_text show_id o' = (case o' of Some i \<Rightarrow> show_id i | None \<Rightarrow> '''')"

definition materialize_raw ::
  "(uuid \<Rightarrow> string) \<Rightarrow> (gotime \<Rightarrow> gotime) \<Rightarrow> recurring_template \<Rightarrow> gotime \<Rightarrow>
   raw_create_transaction" where
  "materialize_raw show_id reread r occurred =
     \<lparr>rct_direction = direction_string (rt_direction r),
      rct_payment_method = payment_method_string (rt_payment_method r),
      rct_amount_cents = cents (rt_amount r),
      rct_description = text_of (rt_description r),
      rct_category_id =
        (if rt_category_id r = uuid_nil then '''' else show_id (rt_category_id r)),
      rct_subcategory_id = id_text show_id (rt_subcategory_id r),
      rct_card_id = (if rt_payment_method r = CreditCard then id_text show_id (rt_card_id r)
                     else ''''),
      rct_installments = (if rt_payment_method r = CreditCard
                          then count (rt_installments_total r) else 0),
      rct_occurred_at = reread occurred\<rparr>"

lemma new_create_recurring_template_Inr:
  assumes "new_create_recurring_template parse raw user = Inr c"
  shows "0 < cents (cr_amount c)" "text_of (cr_description c) \<noteq> ''''"
    "length (text_of (cr_description c)) \<le> 500"
    "1 \<le> count (cr_installments_total c)" "count (cr_installments_total c) \<le> 24"
    "1 \<le> dom_value (cr_day_of_month c)" "dom_value (cr_day_of_month c) \<le> 31"
    "cr_payment_method c = CreditCard \<Longrightarrow> cr_card_id c \<noteq> None"
proof -
  obtain d p a s k f dm n where r: "parse_direction (rrt_direction raw) = Inr d"
    "parse_payment_method_for_create (rrt_payment_method raw) = Inr p"
    "new_money (rrt_amount_cents raw) = Inr a" "new_description (rrt_description raw) = Inr s"
    "parse_id parse ErrInvalidCategoryID (rrt_category_id raw) = Inr k"
    "parse_frequency (rrt_frequency raw) = Inr f" "new_day_of_month (rrt_day_of_month raw) = Inr dm"
    "new_installment_count (if rrt_installments_total raw > 0 then rrt_installments_total raw
                            else 1) = Inr n"
    using assms by (auto simp: new_create_recurring_template_def Let_def split: sum.splits)
  note u = assms [unfolded new_create_recurring_template_def r Let_def, simplified,
      unfolded if_split_sum]
  have c: "cr_amount c = a" "cr_description c = s" "cr_installments_total c = n"
    "cr_day_of_month c = dm" "cr_payment_method c = p"
    "cr_card_id c = snd (parse_optional_id parse ErrInvalidCardID (rrt_card_id raw))"
    using u [THEN conjunct2, symmetric] by simp_all
  show "0 < cents (cr_amount c)" "text_of (cr_description c) \<noteq> ''''"
    "length (text_of (cr_description c)) \<le> 500"
    using r(3,4) by (auto simp: c)
  show "1 \<le> count (cr_installments_total c)" "count (cr_installments_total c) \<le> 24"
    using r(8) by (auto simp: c new_installment_count_def split: if_splits)
  show "1 \<le> dom_value (cr_day_of_month c)" "dom_value (cr_day_of_month c) \<le> 31"
    using r(7) by (auto simp: c new_day_of_month_def split: if_splits)
  show "cr_payment_method c = CreditCard \<Longrightarrow> cr_card_id c \<noteq> None"
    using u [THEN conjunct1] by (auto simp: c split: if_splits)
qed

text \<open>
  Materialising an accepted template succeeds in making a transaction command exactly when the
  template is not an income paid by credit card: the command of a template checks that a credit
  card purchase names a card, but not, as the command of a transaction does, that it is an
  outcome.
\<close>

lemma materialize_accepted_iff:
  assumes "new_create_recurring_template parse raw user = Inr c"
    "\<And>i. parse (show_id i) = Some i" "cr_category_id c \<noteq> uuid_nil" "\<not> is_zero (reread occ)"
    "\<And>i. show_id i \<noteq> ''''"
  shows "(\<exists>cmd. new_create_transaction parse
       (materialize_raw show_id reread (template_of_command c tid cname sname ev now) occ) user =
         Inr cmd) \<longleftrightarrow>
    \<not> (cr_payment_method c = CreditCard \<and> cr_direction c = DirectionIncome)"
proof -
  note f = new_create_recurring_template_Inr [OF assms(1)]
  let ?r = "materialize_raw show_id reread (template_of_command c tid cname sname ev now) occ"
  have "(\<exists>cmd. new_create_transaction parse ?r user = Inr cmd) \<longleftrightarrow> command_ok parse ?r"
    using new_create_transaction_ok new_create_transaction_Inr(1) by blast
  also have "\<dots> \<longleftrightarrow> \<not> (cr_payment_method c = CreditCard \<and> cr_direction c = DirectionIncome)"
    using f assms(2-5)
    by (auto simp: command_ok_def materialize_raw_def template_of_command_def
        new_recurring_template_def id_text_def credit_card_wire outcome_wire split: option.splits)
  finally show ?thesis .
qed

section \<open>Examples\<close>

definition sample_raw_template :: raw_recurring_template where
  "sample_raw_template =
     \<lparr>rrt_direction = ''income'', rrt_payment_method = ''credit_card'', rrt_card_id = ''xx'',
      rrt_amount_cents = 100, rrt_description = ''tv'', rrt_category_id = ''xxx'',
      rrt_subcategory_id = '''', rrt_frequency = ''yearly'', rrt_day_of_month = 31,
      rrt_started_at = zero_time, rrt_ended_at = None, rrt_installments_total = 0\<rparr>"

definition sample_template :: recurring_template where
  "sample_template =
     new_recurring_template 3 7 DirectionOutcome Pix None (Money 100) (Description ''tv'') 1 (Some 2)
       ''a'' ''b'' sample_evidence FrequencyYearly \<lparr>dom_value = 31, dom_max = 31\<rparr>
       (InstallmentCount 1) zero_time None zero_time"

definition sample_parse :: "string \<Rightarrow> uuid option" where
  "sample_parse s = (if s = '''' then None else Some (of_nat (length s - 1)))"

definition sample_show :: "uuid \<Rightarrow> string" where
  "sample_show i = replicate (Suc (unat i)) CHR ''x''"

lemma sample_parse_show: "sample_parse (sample_show i) = Some i" "sample_show i \<noteq> ''''"
  by (simp_all add: sample_parse_def sample_show_def del: replicate_Suc)

lemma sample_template_fields [simp]:
  "dom_value (rt_day_of_month sample_template) = 31"
  "template_active sample_template t \<longleftrightarrow> 0 \<le> ns t"
  by (auto simp: sample_template_def new_recurring_template_def template_active_def before_def
      zero_time_def ended_before_def)

lemma days_february: "days_in_month 2024 2 = 29"
  by (simp add: days_in_month_def is_leap_def)

lemma selection_agrees_witness:
  "selected_by_day 29 (midnight 2024 2 29 utc) sample_template"
proof -
  have f: "year (midnight 2024 2 29 utc) = 2024" "month (midnight 2024 2 29 utc) = 2"
    "day (midnight 2024 2 29 utc) = 29"
    using midnight_fields [OF steady_utc, of 2024 2 29]
    by (simp_all add: valid_date_def days_february)
  have "0 \<le> ns (midnight 2024 2 29 utc)"
    by (simp add: ns_go_date [OF steady_utc]) code_simp
  then have "md_should (decide_materialize sample_template (midnight 2024 2 29 utc) utc)"
    using f by (simp add: decide_materialize_should [OF steady_utc] due_day_of_def days_february)
  then show ?thesis
    using selection_agrees [OF steady_utc, of sample_template "midnight 2024 2 29 utc"] f by simp
qed


lemma materialize_accepted_iff_witness:
  "\<exists>c. new_create_recurring_template sample_parse sample_raw_template 7 = Inr c \<and>
    (\<nexists>cmd. new_create_transaction sample_parse
       (materialize_raw sample_show (\<lambda>t. t)
          (template_of_command c 3 ''a'' ''b'' sample_evidence zero_time) (midnight 2024 1 31 utc)) 7 =
       Inr cmd)"
proof -
  obtain c where c: "new_create_recurring_template sample_parse sample_raw_template 7 = Inr c"
      "cr_category_id c = 2" "cr_payment_method c = CreditCard" "cr_direction c = DirectionIncome"
    by (auto simp: new_create_recurring_template_def sample_raw_template_def sample_parse_def
        Let_def parse_direction_def parse_payment_method_for_create_def parse_payment_method_def
        payment_method_by_string_def new_money_def new_description_def parse_id_def
        parse_frequency_def new_day_of_month_def new_installment_count_def parse_optional_id_def)
  have "\<not> is_zero (midnight 2024 1 31 utc)"
    by (simp add: is_zero_def ns_go_date [OF steady_utc]) code_simp
  then show ?thesis
    using materialize_accepted_iff [OF c(1) sample_parse_show(1) _ _ sample_parse_show(2),
        where reread = "\<lambda>t. t" and occ = "midnight 2024 1 31 utc"] c
    by auto
qed

end
