(* ===== verification/TxnBooks.thy ===== *)
theory TxnBooks
  imports TxnBalance TxnRecurring
begin

text \<open>
  The write paths keep the books: creating, updating and deleting a transaction preserve the
  constraints of the tables and the balance of the invoices. The last section runs a purchase
  through an update and a deletion, after which the books no longer balance.
\<close>

section \<open>Creating\<close>

lemma build_items_index:
  "map it_installment_index (build_items ids t u ms amts now) = map (\<lambda>i. int i + 1) [0..<length amts]"
  by (simp add: build_items_def)

lemma distinct_indexes:
  "map it_installment_index its = map (\<lambda>i. int i + 1) [0..<n] \<Longrightarrow>
   distinct (map it_installment_index its)"
  by (simp add: distinct_map inj_on_def)

lemma decide_create_items:
  assumes "decide_create cmd snap ev tid eid ids now = Some d"
  shows "tx_id (dec_transaction d) = tid" "distinct (map it_installment_index (dec_items d))"
    "tx_user_id (dec_transaction d) = ct_user_id cmd"
    "dec_items d \<noteq> [] \<Longrightarrow> tx_card_id (dec_transaction d) = Some (card_id_or_nil (ct_card_id cmd)) \<and>
       (\<exists>s. snap = Some s) \<and> ct_payment_method cmd = CreditCard"
  using assms build_items_index [THEN distinct_indexes]
  by (auto simp: decide_create_def Let_def new_transaction_def set_card_billing_def
      split: option.splits if_splits)

lemma create_row_Inr:
  assumes "ledger_wf db" "create_row t db = Inr (i, created, db')"
  shows "ledger_wf db'" "lg_items db' = lg_items db" "lg_invoices db' = lg_invoices db"
    "created \<Longrightarrow> i = tx_id t \<and> tx_id t \<notin> tx_id ` set (lg_transactions db) \<and>
       tx_id t \<in> tx_id ` set (lg_transactions db')"
proof -
  consider row where "find (same_origin t) (lg_transactions db) = Some row" "db' = db" "\<not> created"
    | "tx_id t \<notin> tx_id ` set (lg_transactions db)" "i = tx_id t"
      "db' = db\<lparr>lg_transactions := lg_transactions db @ [stored t]\<rparr>"
  proof (cases "find (same_origin t) (lg_transactions db)")
    case None
    then have "tx_id t \<notin> tx_id ` set (lg_transactions db)" "i = tx_id t"
      "db' = db\<lparr>lg_transactions := lg_transactions db @ [stored t]\<rparr>"
      using assms(2) by (auto simp: create_row_def split: if_splits)
    then show ?thesis by (rule that(2))
  next
    case (Some row)
    then have "db' = db" "\<not> created" using assms(2) by (simp_all add: create_row_def)
    with Some show ?thesis by (rule that(1))
  qed
  then have "ledger_wf db' \<and> lg_items db' = lg_items db \<and> lg_invoices db' = lg_invoices db \<and>
    (created \<longrightarrow> i = tx_id t \<and> tx_id t \<notin> tx_id ` set (lg_transactions db) \<and>
       tx_id t \<in> tx_id ` set (lg_transactions db'))"
    using assms(1) by cases (simp_all add: ledger_wf_def stored_def subset_insertI2)
  then show "ledger_wf db'" "lg_items db' = lg_items db" "lg_invoices db' = lg_invoices db"
    "created \<Longrightarrow> i = tx_id t \<and> tx_id t \<notin> tx_id ` set (lg_transactions db) \<and>
       tx_id t \<in> tx_id ` set (lg_transactions db')"
    by simp_all
qed

lemma total_of_invoices: "lg_invoices db' = lg_invoices db \<Longrightarrow> total_of db' = total_of db"
  by (simp add: total_of_def fun_eq_iff)

lemma placed_index: "placed u c its its' db \<Longrightarrow>
   map it_installment_index its' = map it_installment_index its"
  by (simp add: placed_def)

lemma create_persist_balanced:
  assumes "ledger_wf db" "balanced db" "distinct (map it_installment_index (dec_items d))"
    "create_persist fresh now cmd user billing cid d db = Inr (t, created, db')"
  shows "ledger_wf db'" "balanced db'"
proof -
  obtain x where "create_row (dec_transaction d) db = Inr x"
    using assms(4) by (cases "create_row (dec_transaction d) db") (simp_all add: create_persist_def)
  moreover obtain i made db1 where "x = (i, made, db1)" by (rule prod_cases3)
  ultimately have row: "create_row (dec_transaction d) db = Inr (i, made, db1)" by simp
  note r = create_row_Inr [OF assms(1) row]
  have b1: "balanced db1" using assms(2) r(2,3) by (simp add: balanced_def total_of_invoices [OF r(3)])
  have "ledger_wf db' \<and> balanced db'"
  proof (cases "made \<and> dec_items d \<noteq> []")
    case False
    have "db' = db1"
      using False assms(4) [unfolded create_persist_def row sum.case prod.case]
      by (cases made) (auto simp only: result_simps if_True if_False not_True_eq_False
          not_False_eq_True sum.inject prod.inject simp_thms)
    then show ?thesis using r(1) b1 by simp
  next
    case True
    let ?tid = "tx_id (dec_transaction d)"
    obtain months cls dus where res: "resolve (ct_occurred_at cmd) billing
        (installments_or_single (ct_installments cmd)) = (months, cls, dus)"
      by (rule prod_cases3)
    obtain its db2 where
        build: "create_invoice_items fresh now user cid ?tid (dec_items d) cls dus db1 = Inr (its, db2)"
      and repl: "replace_items now ?tid its db2 = Inr db'"
      using assms(4) row True res
      by (auto simp: create_persist_def apply_invoices_def Let_def result_simps)
    have c: "ledger_wf db2 \<and> lg_items db2 = lg_items db1 \<and> lg_transactions db2 = lg_transactions db1 \<and>
        (\<forall>j. total_of db2 j = total_of db1 j + invoice_sum its j) \<and>
        placed user cid (dec_items d) its db2"
      using create_invoice_items_spec [OF r(1) build] by blast
    have new: "?tid \<notin> tx_id ` set (lg_transactions db)" "?tid \<in> tx_id ` set (lg_transactions db1)"
      using r(4) True by simp_all
    have "it_purchase_id ` set (lg_items db) \<subseteq> tx_id ` set (lg_transactions db)"
      using assms(1) by (simp add: ledger_wf_def)
    then have "it_purchase_id it \<noteq> ?tid" if "it \<in> set (lg_items db)" for it
      using new(1) that by (metis image_subset_iff)
    then have none: "items_of ?tid db2 = []"
      using c r(2) by (simp add: items_of_def filter_empty_conv)
    have "distinct (map it_installment_index its)"
      using assms(3) c placed_index by metis
    then have "ledger_wf db' \<and> (\<forall>j. total_of db' j = total_of db2 j) \<and>
        (\<forall>j. live_total (lg_items db') j = live_total (lg_items db2) j + invoice_sum its j)"
      using replace_items_spec [OF _ repl] c new(2) none by simp
    then show ?thesis using b1 c by (simp add: balanced_def)
  qed
  then show "ledger_wf db'" "balanced db'" by simp_all
qed


section \<open>Deleting\<close>

lemma rows_only:
  assumes "lg_items db' = lg_items db" "lg_invoices db' = lg_invoices db"
    "tx_id ` set (lg_transactions db') = tx_id ` set (lg_transactions db)"
  shows "ledger_wf db' \<longleftrightarrow> ledger_wf db" "balanced db' \<longleftrightarrow> balanced db"
    "invoice_at db' = invoice_at db" "items_of i db' = items_of i db"
    "get_items_by_transaction_id i db' = get_items_by_transaction_id i db"
  using assms total_of_invoices [OF assms(2)]
  by (simp_all add: ledger_wf_def balanced_def invoice_at_def items_of_def
      get_items_by_transaction_id_def fun_eq_iff)

lemma map_ids: "(\<And>r. tx_id (f r) = tx_id r) \<Longrightarrow> tx_id ` set (map f rs) = tx_id ` set rs"
  by (simp add: image_image)

lemma soft_delete_row_Inr:
  assumes "soft_delete_row i u v now db = Inr db'"
  shows "lg_items db' = lg_items db" "lg_invoices db' = lg_invoices db"
    "tx_id ` set (lg_transactions db') = tx_id ` set (lg_transactions db)"
proof -
  let ?f = "\<lambda>r. if live_row i u v r
      then r\<lparr>tx_deleted_at := Some now, tx_version := tx_version r + 1, tx_updated_at := now\<rparr> else r"
  have db': "db' = db\<lparr>lg_transactions := map ?f (lg_transactions db)\<rparr>"
    using assms by (simp add: soft_delete_row_def Let_def split: if_splits)
  then show "lg_items db' = lg_items db" "lg_invoices db' = lg_invoices db" by simp_all
  have rows: "lg_transactions db' = map ?f (lg_transactions db)" by (simp add: db')
  have "tx_id ` set (map ?f (lg_transactions db)) = tx_id ` set (lg_transactions db)"
    by (rule map_ids) simp
  then show "tx_id ` set (lg_transactions db') = tx_id ` set (lg_transactions db)"
    by (simp only: rows)
qed

lemma update_with_version_Inr:
  assumes "update_with_version t v db = Inr db'"
  shows "lg_items db' = lg_items db" "lg_invoices db' = lg_invoices db"
    "tx_id ` set (lg_transactions db') = tx_id ` set (lg_transactions db)"
proof -
  let ?f = "\<lambda>r. if live_row (tx_id t) (tx_user_id t) v r
      then (stored t)\<lparr>tx_deleted_at := tx_deleted_at r, tx_created_at := tx_created_at r,
             tx_origin_wamid := tx_origin_wamid r, tx_origin_item_seq := tx_origin_item_seq r,
             tx_origin_operation := tx_origin_operation r, tx_has_origin := tx_has_origin r\<rparr>
      else r"
  have db': "db' = db\<lparr>lg_transactions := map ?f (lg_transactions db)\<rparr>"
    using assms by (simp add: update_with_version_def Let_def split: if_splits)
  then show "lg_items db' = lg_items db" "lg_invoices db' = lg_invoices db" by simp_all
  have rows: "lg_transactions db' = map ?f (lg_transactions db)" by (simp add: db')
  have "tx_id ` set (map ?f (lg_transactions db)) = tx_id ` set (lg_transactions db)"
    by (rule map_ids) (simp add: live_row_def stored_def)
  then show "tx_id ` set (lg_transactions db') = tx_id ` set (lg_transactions db)"
    by (simp only: rows)
qed

lemma get_by_id_Inr:
  assumes "get_by_id i u db = Inr t"
  shows "tx_id t = i" "tx_user_id t = u" "tx_deleted_at t = None"
    "i \<in> tx_id ` set (lg_transactions db)"
proof -
  obtain r where "find (\<lambda>t. tx_id t = i \<and> tx_user_id t = u \<and> tx_deleted_at t = None)
      (lg_transactions db) = Some r" "t = scan_transaction r"
    using assms by (auto simp: get_by_id_def split: option.splits)
  then show "tx_id t = i" "tx_user_id t = u" "tx_deleted_at t = None"
    "i \<in> tx_id ` set (lg_transactions db)"
    using find_Some_D by (fastforce simp: scan_transaction_def reconstitute_def)+
qed

lemma items_of_scanned: "get_items_by_transaction_id i db = [] \<longleftrightarrow> items_of i db = []"
  by (metis get_items_by_transaction_id_def items_of_def length_0_conv length_map length_sort)

text \<open>
  Applying deltas that are, month by month, the change of the total of the items of a transaction
  moves the totals of the invoices from its old items to its new ones.
\<close>

lemma deltas_move_totals:
  assumes "ledger_wf db" "apply_invoice_deltas now u c ds db = Inr db'" "distinct (map fst ds)"
    "\<And>it. it \<in> set old \<union> set new \<Longrightarrow> invoice_at db u c (it_ref_month it) = Some (it_invoice_id it)"
    "\<And>k. value_at ds k =
       sum_list (map (cents \<circ> it_amount) (filter (\<lambda>it. rm_value (it_ref_month it) = k) new)) -
       sum_list (map (cents \<circ> it_amount) (filter (\<lambda>it. rm_value (it_ref_month it) = k) old))"
  shows "same_keys db db'" "total_of db' j = total_of db j + invoice_sum new j - invoice_sum old j"
proof -
  note a = apply_invoice_deltas_spec [OF assms(1-3)]
  show "same_keys db db'" using a by blast
  have new: "it \<in> set new \<Longrightarrow> invoice_at db u c (it_ref_month it) = Some (it_invoice_id it)"
    and old: "it \<in> set old \<Longrightarrow> invoice_at db u c (it_ref_month it) = Some (it_invoice_id it)" for it
    using assms(4) by simp_all
  show "total_of db' j = total_of db j + invoice_sum new j - invoice_sum old j"
  proof (cases "\<exists>k. invoice_at db u c (RefMonth k) = Some j")
    case True
    then obtain k where k: "invoice_at db u c (RefMonth k) = Some j" by blast
    then show ?thesis
      using a assms(5) [of k] sum_by_month(1) [OF assms(1) new k] sum_by_month(1) [OF assms(1) old k]
      by simp
  next
    case False
    then show ?thesis
      using a sum_by_month(2) [OF assms(1) new, where j = j] sum_by_month(2) [OF assms(1) old, where j = j]
      by auto
  qed
qed


section \<open>Updating\<close>

lemma decide_update_plain:
  "decide_update cur items cmd ev eid ids now = Some d \<Longrightarrow> dec_items d \<noteq> [] \<Longrightarrow>
   ct_payment_method cmd = CreditCard \<and> (\<exists>s. tx_billing_snapshot cur = Some s)"
  by (auto simp: decide_update_def Let_def split: option.splits if_splits)

lemma update_persist_balanced:
  assumes "ledger_wf db" "balanced db"
    "update_persist fresh_item fresh now cmd approve cs eid db = Inr (t', db')"
    "get_by_id (ut_transaction_id cmd) (ct_user_id cmd) db = Inr t"
    "aligned (ct_user_id cmd) (card_id_or_nil (tx_card_id t)) (ut_transaction_id cmd) db"
    "items_ok (get_items_by_transaction_id (ut_transaction_id cmd) db)"
    "amount_ok (create_transaction.truncate cmd)"
    "ct_card_id cmd = None \<or> ct_card_id cmd = tx_card_id t"
  shows "ledger_wf db' \<and> balanced db'"
proof -
  let ?tid = "ut_transaction_id cmd" and ?u = "ct_user_id cmd" and ?c = "card_id_or_nil (tx_card_id t)"
  let ?its = "get_items_by_transaction_id ?tid db"
  obtain ev d0 where ev: "approve () = Inr ev"
    and d0: "decide_update t ?its cmd ev eid (new_invoice_item_ids fresh_item
      (ct_payment_method cmd) (ct_installments cmd)) now = Some d0"
    using assms(3,4) by (auto simp: update_persist_def result_simps)
  define tx where "tx = set_category_snapshots (snap_category_name (ct_subcategory_id cmd) cs)
      (snap_subcategory_name (ct_subcategory_id cmd) cs) (dec_transaction d0)"
  define d where "d = d0\<lparr>dec_transaction := tx\<rparr>"
  have tx: "tx_id tx = ?tid" "tx_card_id tx = tx_card_id (dec_transaction d0)"
    using decide_update_Some(1) [OF d0] get_by_id_Inr(1) [OF assms(4)]
    by (simp_all add: tx_def set_category_snapshots_def)
  have "\<exists>db1. update_with_version tx (ut_version cmd) db = Inr db1 \<and>
      (if dec_items d = [] then db' = db1 else recompose_invoices fresh now cmd d db1 = Inr db')"
    using assms(3,4) ev d0
    by (auto simp: update_persist_def Let_def result_simps tx_def d_def split: if_splits)
  then obtain db1 where row: "update_with_version tx (ut_version cmd) db = Inr db1"
    and rest: "if dec_items d = [] then db' = db1 else recompose_invoices fresh now cmd d db1 = Inr db'"
    by blast
  note r = rows_only [OF update_with_version_Inr [OF row]]
  have wf1: "ledger_wf db1" and b1: "balanced db1" using r assms(1,2) by simp_all
  show ?thesis
  proof (cases "dec_items d = []")
    case True
    then show ?thesis using rest wf1 b1 by simp
  next
    case False
    then obtain s where s: "ct_payment_method cmd = CreditCard" "tx_billing_snapshot t = Some s"
      using decide_update_plain [OF d0] by (auto simp: d_def)
    note c = decide_update_card [OF s(2,1) assms(7,6) d0]
    have card: "card_id_or_nil (tx_card_id (dec_transaction d)) = ?c"
      using c(6) assms(8) by (auto simp: d_def tx card_id_or_nil_def)
    have tid: "tx_id (dec_transaction d) = ?tid" by (simp add: d_def tx)
    obtain cls dus its db2 db3 where
        build: "rebuild_invoice_items fresh now ?u ?c ?tid (dec_items d) cls dus db1 = Inr (its, db2)"
      and repl: "replace_items now ?tid its db2 = Inr db3"
      and ap: "apply_invoice_deltas now ?u ?c (dec_invoice_deltas d) db3 = Inr db'"
      using rest False
      by (auto simp: recompose_invoices_def Let_def card tid result_simps case_prod_unfold)
    have b: "ledger_wf db2" "lg_items db2 = lg_items db1" "lg_transactions db2 = lg_transactions db1"
      "\<And>j. total_of db2 j = total_of db1 j" "placed ?u ?c (dec_items d) its db2"
      "\<And>u' c' rm j. invoice_at db1 u' c' rm = Some j \<Longrightarrow> invoice_at db2 u' c' rm = Some j"
      using rebuild_invoice_items_spec [OF wf1 build] by auto
    have "?tid \<in> tx_id ` set (lg_transactions db2)"
      using get_by_id_Inr(4) [OF assms(4)] update_with_version_Inr(3) [OF row] b(3) by simp
    moreover have "distinct (map it_installment_index its)"
      using c(4) placed_index [OF b(5)]
      by (intro distinct_indexes [of its "length (dec_items d0)"]) (simp add: d_def)
    ultimately have p: "ledger_wf db3" "\<And>j. total_of db3 j = total_of db2 j"
      "\<And>j. live_total (lg_items db3) j =
         live_total (lg_items db2) j - invoice_sum (items_of ?tid db2) j + invoice_sum its j"
      "\<And>u c rm. invoice_at db3 u c rm = invoice_at db2 u c rm"
      using replace_items_spec [OF b(1) repl] by auto
    have same: "items_of ?tid db2 = items_of ?tid db" using b(2) r(4) by (simp add: items_of_def)
    have "invoice_at db3 ?u ?c (it_ref_month it) = Some (it_invoice_id it)"
      if "it \<in> set (items_of ?tid db) \<union> set its" for it
    proof (cases "it \<in> set its")
      case True
      then show ?thesis using b(5) p(4) by (simp add: placed_def)
    next
      case False
      then have "it \<in> set (items_of ?tid db)" using that by simp
      then have "invoice_at db ?u ?c (it_ref_month it) = Some (it_invoice_id it)"
        using assms(5) by (simp add: aligned_def items_of_def)
      then show ?thesis using b(6) p(4) r(3) by simp
    qed
    moreover have "value_at (dec_invoice_deltas d) k =
        sum_list (map (cents \<circ> it_amount) (filter (\<lambda>it. rm_value (it_ref_month it) = k) its)) -
        sum_list (map (cents \<circ> it_amount) (filter (\<lambda>it. rm_value (it_ref_month it) = k) (items_of ?tid db)))"
      for k
      using c(1) [of k] month_total_placed [OF b(5), of k] by (simp add: d_def month_total_items)
    moreover have "distinct (map fst (dec_invoice_deltas d))" using c(2) by (simp add: d_def)
    ultimately have m: "same_keys db3 db'"
      "\<And>j. total_of db' j = total_of db3 j + invoice_sum its j - invoice_sum (items_of ?tid db) j"
      using deltas_move_totals [OF p(1) ap, of "items_of ?tid db" its] by simp_all
    have "lg_items db' = lg_items db3" using m(1) by (simp add: same_keys_def)
    then show ?thesis
      using same_keys_wf [OF m(1) p(1)] b1 b(2) m(2) p(2,3) b(4) same by (simp add: balanced_def)
  qed
qed

lemma new_update_transaction_Inr:
  assumes "new_update_transaction parse raw user = Inr cmd"
  shows "parse (rut_transaction_id raw) = Some (ut_transaction_id cmd)"
    "new_create_transaction parse (raw_create_transaction.truncate raw) user =
       Inr (create_transaction.truncate cmd)"
    "ct_user_id cmd = user"
proof -
  obtain i c where "parse (rut_transaction_id raw) = Some i"
    "new_create_transaction parse (raw_create_transaction.truncate raw) user = Inr c"
    "cmd = create_transaction.extend c (update_transaction_cmd.fields i (rut_version raw))"
    using assms by (auto simp: new_update_transaction_def Let_def split: sum.splits)
  then show "parse (rut_transaction_id raw) = Some (ut_transaction_id cmd)"
    "new_create_transaction parse (raw_create_transaction.truncate raw) user =
       Inr (create_transaction.truncate cmd)" "ct_user_id cmd = user"
    using new_create_transaction_Inr(3) [of parse "raw_create_transaction.truncate raw" user c]
    by (simp_all add: create_transaction.defs update_transaction_cmd.defs)
qed

lemma command_amount_ok:
  assumes "new_create_transaction parse raw user = Inr cmd" "in_i64 (rct_amount_cents raw)"
  shows "amount_ok cmd"
  using new_create_transaction_Inr [OF assms(1)] assms(2)
  by (auto simp: amount_ok_def command_ok_def command_reads_def installments_or_single_def
      new_installment_count_def)

text \<open>
  C2: Updating a transaction keeps the books when its live items sit on the invoices of their
  months and the request names no other card: the totals of the invoices move exactly with the
  items, whichever months, amounts and numbers of installments the old and the new purchase have.
\<close>

theorem update_keeps_books:
  assumes "ledger_wf db" "balanced db"
    "update_execute parse categories gate fresh_item fresh eid now raw user db = Inr (t', db')"
    "parse (rut_transaction_id raw) = Some tid" "get_by_id tid user db = Inr t"
    "aligned user (card_id_or_nil (tx_card_id t)) tid db"
    "items_ok (get_items_by_transaction_id tid db)" "in_i64 (rct_amount_cents raw)"
    "rct_card_id raw = '''' \<or> parse (rct_card_id raw) = tx_card_id t"
  shows "ledger_wf db' \<and> balanced db'"
proof -
  obtain cmd approve cs where cmd: "new_update_transaction parse raw user = Inr cmd"
    and up: "update_persist fresh_item fresh now cmd approve cs eid db = Inr (t', db')"
    using assms(3) by (auto simp: update_execute_def result_simps)
  note n = new_update_transaction_Inr [OF cmd]
  have fields: "rct_amount_cents (raw_create_transaction.truncate raw) = rct_amount_cents raw"
    "rct_card_id (raw_create_transaction.truncate raw) = rct_card_id raw"
    "ct_card_id (create_transaction.truncate cmd) = ct_card_id cmd"
    by (simp_all add: raw_create_transaction.defs create_transaction.defs)
  have "ct_card_id cmd = None \<or> ct_card_id cmd = tx_card_id t"
    using new_create_transaction_Inr(2) [OF n(2)] assms(9) by (auto simp: command_reads_def fields)
  then show ?thesis
    using update_persist_balanced [OF assms(1,2) up] command_amount_ok [OF n(2)] n assms fields
    by simp
qed

section \<open>Where the books break\<close>

text \<open>
  A purchase of the end of January, on the invoice of February, is first moved to the end of March
  and then deleted. Reviving its row keeps the reference month of February on the item although it
  now sits on the invoice of April, and the deletion takes the amount off the invoice of February.
\<close>

definition stale_update :: update_transaction_cmd where
  "stale_update =
     create_transaction.extend
       (sample_purchase\<lparr>ct_installments := Some (InstallmentCount 1),
          ct_occurred_at := midnight 2024 3 31 utc\<rparr>)
       (update_transaction_cmd.fields 5 1)"

definition stale_ledger :: ledger where
  "stale_ledger =
     \<lparr>lg_transactions = [sample_transaction],
      lg_invoices = [hydrate_version 2 100 zero_time
        (new_card_invoice 21 7 9 (RefMonth ''2024-02'') zero_time zero_time zero_time)],
      lg_items = [new_card_invoice_item 11 21 5 7 (RefMonth ''2024-02'') 1 (Money 100) zero_time]\<rparr>"

definition stale_category :: category_snapshot where
  "stale_category = \<lparr>cs_name = ''a'', cs_parent_name = '''', cs_kind = ''expense''\<rparr>"

lemma stale_resolve:
  "\<exists>cl du. resolve (midnight 2024 3 31 utc) sample_snapshot (InstallmentCount 1) =
     ([RefMonth ''2024-04''], [cl], [du])"
proof -
  have "valid_date 2024 3 31" by (simp add: valid_date_def days_in_month_def)
  note f = midnight_fields [OF steady_utc this]
  have "first_cycle (midnight 2024 3 31 utc) 30 = nth_month 24291"
    using first_cycle_nth [of "midnight 2024 3 31 utc" 0 30]
    by (simp add: first_month_def f month_count_def)
  moreover obtain rm cl du where c: "cycle_at utc 30 5 (nth_month 24291) 0 = (rm, cl, du)"
    by (rule prod_cases3)
  moreover have "rm = RefMonth ''2024-04''"
    using cycle_at_fields(1) [OF steady_utc c]
    by (simp add: nth_month_def month_string_explicit label_ok_def digit_char_literals)
  ultimately show ?thesis
    by (simp add: resolve_def Let_def sample_snapshot_def)
qed

lemma stale_split: "split_amount (Money 100) (InstallmentCount 1) = [Money 100]"
  by (simp add: split_amount_def new_money_def sdiv_nonneg smod_nonneg)

lemma stale_months: "month_digits ''2024-04''" "month_digits ''2024-02''"
  by code_simp+

lemma stale_get: "get_by_id 5 7 stale_ledger = Inr (scan_transaction sample_transaction)"
  by (simp add: get_by_id_def stale_ledger_def sample_transaction_def set_card_billing_def
      new_transaction_def)

lemma stale_items:
  "get_items_by_transaction_id 5 stale_ledger =
     [new_card_invoice_item 11 21 5 7 (RefMonth ''2024-02'') 1 (Money 100) zero_time]"
  by (simp add: get_items_by_transaction_id_def stale_ledger_def is_live_def
      new_card_invoice_item_def scan_card_invoice_item_def)

lemma stale_decide:
  "\<exists>d. decide_update (scan_transaction sample_transaction)
       (get_items_by_transaction_id 5 stale_ledger) stale_update sample_evidence 6 [12] zero_time =
       Some d \<and>
     tx_id (dec_transaction d) = 5 \<and> tx_user_id (dec_transaction d) = 7 \<and>
     tx_card_id (dec_transaction d) = Some 9 \<and> tx_version (dec_transaction d) = 2 \<and>
     tx_deleted_at (dec_transaction d) = None \<and>
     tx_billing_snapshot (dec_transaction d) = Some sample_snapshot \<and>
     dec_items d = [new_card_invoice_item 12 0 5 7 (RefMonth ''2024-04'') 1 (Money 100) zero_time] \<and>
     dec_invoice_deltas d = [(''2024-02'', -100), (''2024-04'', 100)]"
  using stale_resolve
  by (clarsimp simp: decide_update_def Let_def stale_update_def sample_purchase_def
      create_transaction.defs update_transaction_cmd.defs scan_transaction_def reconstitute_def
      sample_transaction_def set_card_billing_def new_transaction_def installments_or_single_def
      stale_split stale_items build_items_def dedupe_ref_months_def sort_ref_months_def tally_def
      item_entry_def i64_def update_transaction_def card_id_or_nil_def)

definition stale_persist :: "txn_error + transaction \<times> ledger" where
  "stale_persist =
      update_persist (\<lambda>i. 12) (\<lambda>i. 22) zero_time stale_update (\<lambda>u. Inr sample_evidence) stale_category 6 stale_ledger"
lemma stale_cmd:
  "ut_transaction_id stale_update = 5" "ct_user_id stale_update = 7"
  "ct_payment_method stale_update = CreditCard" "ut_version stale_update = 1"
  "ct_installments stale_update = Some (InstallmentCount 1)"
  "ct_occurred_at stale_update = midnight 2024 3 31 utc"
  by (simp_all add: stale_update_def sample_purchase_def create_transaction.defs update_transaction_cmd.defs)

lemma stale_persist_run:
  "\<exists>t db1 r. stale_persist = Inr (t, db1) \<and> lg_transactions db1 = [r] \<and> tx_id r = 5 \<and> tx_user_id r = 7 \<and> tx_card_id r = Some 9 \<and>
    tx_version r = 2 \<and> tx_deleted_at r = None \<and> 
    (\<exists>a b. lg_invoices db1 = [a, b] \<and> inv_id a = 21 \<and> inv_id b = 22 \<and> inv_items_total_cents a = 0 \<and> inv_items_total_cents b = 100 \<and>
       key_of a = (7, 9, RefMonth ''2024-02'') \<and> key_of b = (7, 9, RefMonth ''2024-04'') \<and> inv_version a = 3) \<and>
    (\<exists>it. lg_items db1 = [it] \<and> it_purchase_id it = 5 \<and> it_installment_index it = 1 \<and> it_invoice_id it = 22 \<and> it_amount it = Money 100 \<and> it_ref_month it = RefMonth ''2024-02'' \<and> is_live it)"
proof -
  obtain d where d: "decide_update (scan_transaction sample_transaction)
       (get_items_by_transaction_id 5 stale_ledger) stale_update sample_evidence 6 [12] zero_time =
       Some d"
     "tx_id (dec_transaction d) = 5" "tx_user_id (dec_transaction d) = 7"
     "tx_card_id (dec_transaction d) = Some 9" "tx_version (dec_transaction d) = 2"
     "tx_deleted_at (dec_transaction d) = None"
     "tx_billing_snapshot (dec_transaction d) = Some sample_snapshot"
     "dec_items d = [new_card_invoice_item 12 0 5 7 (RefMonth ''2024-04'') 1 (Money 100) zero_time]"
     "dec_invoice_deltas d = [(''2024-02'', -100), (''2024-04'', 100)]"
    using stale_decide by blast
  have pm: "guard_payment_method_migration (tx_payment_method (scan_transaction sample_transaction)) CreditCard"
    "new_invoice_item_ids (\<lambda>i. 12) CreditCard (Some (InstallmentCount 1)) = [12]"
    "tx_deleted_at sample_transaction = None" "live_row 5 7 1 sample_transaction"
    by (simp_all add: guard_payment_method_migration_def scan_transaction_def reconstitute_def new_invoice_item_ids_def
       sample_transaction_def set_card_billing_def new_transaction_def is_credit_card_def installments_or_single_def live_row_def)
  obtain cl du where res: "resolve (midnight 2024 3 31 utc) sample_snapshot (InstallmentCount 1) = ([RefMonth ''2024-04''], [cl], [du])"
    using stale_resolve by blast
  show ?thesis
    unfolding stale_persist_def
    by (simp add: update_persist_def stale_cmd stale_get pm(1,2) d(1) Let_def)
      (simp add: stale_cmd pm d Let_def update_with_version_def set_category_snapshots_def
       stale_ledger_def recompose_invoices_def res installments_or_single_def card_id_or_nil_def
       upsert_by_month_def stale_months invoice_key_def hydrate_version_def new_card_invoice_def
       scan_card_invoice_def new_ref_month_def with_invoice_def replace_items_def retire_items_def insert_item_def item_slot_def
       is_live_def new_card_invoice_item_def get_by_month_def apply_delta_def in_i64_def key_of_def stored_def)
qed

lemma stale_ledger_ok:
  "ledger_wf stale_ledger" "balanced stale_ledger" "aligned 7 9 5 stale_ledger"
  by (simp_all add: stale_ledger_def hydrate_version_def new_card_invoice_def
      new_card_invoice_item_def sample_transaction_def set_card_billing_def new_transaction_def
      ledger_wf_def balanced_def total_of_def live_total_def is_live_def aligned_def invoice_at_def
      invoice_key_def)

definition sample_raw_update :: raw_update_transaction where
  "sample_raw_update =
     \<lparr>rct_direction = ''outcome'', rct_payment_method = ''credit_card'', rct_amount_cents = 100,
      rct_description = ''tv'', rct_category_id = ''xx'', rct_subcategory_id = ''xxx'',
      rct_card_id = ''xxxxxxxxxx'', rct_installments = 1, rct_occurred_at = midnight 2024 3 31 utc,
      rut_transaction_id = ''xxxxxx'', rut_version = 1\<rparr>"

definition sample_raw_create :: raw_create_transaction where
  "sample_raw_create = raw_create_transaction.truncate sample_raw_update"

lemma midnight_not_zero: "\<not> is_zero (midnight 2024 3 31 utc)"
  by (simp add: is_zero_def ns_go_date [OF steady_utc]) code_simp

lemmas command_run =
  new_create_transaction_def parse_direction_def parse_payment_method_for_create_def
  parse_payment_method_def payment_method_by_string_def new_money_def new_description_def
  parse_id_def parse_optional_id_def parse_optional_installment_count_def
  new_installment_count_def validate_credit_card_constraints_def sample_parse_def

lemma sample_update_command:
  "new_update_transaction sample_parse sample_raw_update 7 = Inr stale_update"
  by (simp add: new_update_transaction_def command_run Let_def sample_raw_update_def
      raw_create_transaction.defs midnight_not_zero stale_update_def sample_purchase_def
      create_transaction.defs update_transaction_cmd.defs)

lemma sample_create_command:
  "new_create_transaction sample_parse sample_raw_create 7 =
     Inr (create_transaction.truncate stale_update)"
  using new_update_transaction_Inr(2) [OF sample_update_command]
  by (simp add: sample_raw_create_def)

lemma sample_update_execute:
  "update_execute sample_parse (\<lambda>c s. Inr stale_category) (\<lambda>d c s. Inr sample_evidence)
     (\<lambda>i. 12) (\<lambda>i. 22) 6 zero_time sample_raw_update 7 stale_ledger = Inr (t, db) \<longleftrightarrow>
   stale_persist = Inr (t, db)"
  by (simp add: update_execute_def sample_update_command stale_persist_def result_simps
      guard_subcategory_required_def guard_category_kind_direction_def err_if_def
      approve_category_def)
    (auto simp: stale_update_def sample_purchase_def create_transaction.defs
      update_transaction_cmd.defs stale_category_def kind_for_direction_def)

text \<open>
  The books can be broken by an update that moves a purchase to another month followed by its
  deletion, both accepted: the item revived by the update keeps its old reference month, so the
  deletion takes its amount off an invoice it is no longer on.
\<close>

lemma moved_purchase_breaks_books:
  "ledger_wf stale_ledger \<and> balanced stale_ledger \<and> aligned 7 9 5 stale_ledger \<and>
   (\<exists>t db1 e db2.
      update_execute sample_parse (\<lambda>c s. Inr stale_category) (\<lambda>d c s. Inr sample_evidence)
        (\<lambda>i. 12) (\<lambda>i. 22) 6 zero_time sample_raw_update 7 stale_ledger = Inr (t, db1) \<and>
      balanced db1 \<and> \<not> aligned 7 9 5 db1 \<and>
      delete_execute 5 7 2 6 zero_time db1 = Inr (e, db2) \<and> \<not> balanced db2)"
proof -
  obtain t db1 r a b it where u: "stale_persist = Inr (t, db1)" "lg_transactions db1 = [r]"
    "tx_id r = 5" "tx_user_id r = 7" "tx_card_id r = Some 9" "tx_version r = 2"
    "tx_deleted_at r = None" "lg_invoices db1 = [a, b]" "inv_id a = 21" "inv_id b = 22"
    "inv_items_total_cents a = 0" "inv_items_total_cents b = 100"
    "key_of a = (7, 9, RefMonth ''2024-02'')" "key_of b = (7, 9, RefMonth ''2024-04'')"
    "inv_version a = 3" "lg_items db1 = [it]" "it_purchase_id it = 5"
    "it_invoice_id it = 22" "it_amount it = Money 100" "it_ref_month it = RefMonth ''2024-02''"
    "is_live it"
    using stale_persist_run by blast
  have bal: "balanced db1" "\<not> aligned 7 9 5 db1"
    by (simp_all add: balanced_def total_of_def live_total_def u aligned_def invoice_at_def
        invoice_key_of)
  have get: "get_by_id 5 7 db1 = Inr (scan_transaction r)"
    by (simp add: get_by_id_def u)
  have items: "get_items_by_transaction_id 5 db1 = [scan_card_invoice_item it]"
    by (simp add: get_items_by_transaction_id_def u)
  have scanned: "it_ref_month (scan_card_invoice_item it) = RefMonth ''2024-02''"
    "it_amount (scan_card_invoice_item it) = Money 100"
    by (simp_all add: scan_card_invoice_item_def u)
  have row: "tx_deleted_at (scan_transaction r) = None" "tx_card_id (scan_transaction r) = Some 9"
    "live_row 5 7 2 r"
    by (simp_all add: scan_transaction_def reconstitute_def u live_row_def)
  have "inv_ref_month a = RefMonth ''2024-02''" using u(13) by (simp add: key_of_def)
  then have "\<exists>i. scan_card_invoice a = Inr i"
    by (simp add: scan_card_invoice_def new_ref_month_def stale_months)
  then obtain i where scan: "scan_card_invoice a = Inr i" by blast
  then have iv: "inv_id i = 21" "inv_version i = 3"
    using scan_card_invoice_Inr [of a i] u(9,15) by simp_all
  have "\<exists>e db2. delete_execute 5 7 2 6 zero_time db1 = Inr (e, db2) \<and>
      lg_invoices db2 = [a\<lparr>inv_items_total_cents := -100, inv_version := 4,
                            inv_updated_at := zero_time\<rparr>, b] \<and>
      filter is_live (lg_items db2) = []"
    by (simp add: delete_execute_def get items decide_delete_def soft_delete_def row Let_def
        soft_delete_row_def u scanned tally_def i64_def new_ref_month_def stale_months
        get_by_month_def invoice_key_of scan iv card_id_or_nil_def apply_delta_def in_i64_def
        replace_items_def retire_items_def) (simp add: is_live_def)
  then obtain e db2 where del: "delete_execute 5 7 2 6 zero_time db1 = Inr (e, db2)"
    "lg_invoices db2 = [a\<lparr>inv_items_total_cents := -100, inv_version := 4,
                          inv_updated_at := zero_time\<rparr>, b]"
    "filter is_live (lg_items db2) = []" by blast
  have "live_total (lg_items db2) 21 = 0"
    using del(3) by (simp add: live_total_def filter_empty_conv)
  moreover have "total_of db2 21 = -100" by (simp add: total_of_def del(2) u)
  ultimately have "\<not> balanced db2"
    by (auto simp: balanced_def intro!: exI [of _ 21])
  then show ?thesis
    using stale_ledger_ok u(1) bal del(1) sample_update_execute by blast
qed

section \<open>Examples\<close>


theorem update_keeps_books_witness:
  "\<exists>t' db'. update_execute sample_parse (\<lambda>c s. Inr stale_category)
       (\<lambda>d c s. Inr sample_evidence) (\<lambda>i. 12) (\<lambda>i. 22) 6 zero_time sample_raw_update 7
       stale_ledger = Inr (t', db') \<and> ledger_wf db' \<and> balanced db'"
proof -
  obtain t' db' where u: "update_execute sample_parse (\<lambda>c s. Inr stale_category)
       (\<lambda>d c s. Inr sample_evidence) (\<lambda>i. 12) (\<lambda>i. 22) 6 zero_time sample_raw_update 7
       stale_ledger = Inr (t', db')"
    using stale_persist_run sample_update_execute by blast
  have "tx_card_id (scan_transaction sample_transaction) = Some 9"
    by (simp add: scan_transaction_def reconstitute_def sample_transaction_def
        set_card_billing_def new_transaction_def)
  moreover have "items_ok (get_items_by_transaction_id 5 stale_ledger)"
    by (simp add: stale_items items_ok_def in_i64_def)
  ultimately show ?thesis
    using update_keeps_books [OF stale_ledger_ok(1,2) u _ stale_get] stale_ledger_ok(3) u
    by (auto simp: card_id_or_nil_def sample_raw_update_def sample_parse_def in_i64_def)
qed

definition empty_ledger :: ledger where
  "empty_ledger = \<lparr>lg_transactions = [], lg_invoices = [], lg_items = []\<rparr>"


end
