(* ===== verification/BudgetValues.thy ===== *)
theory BudgetValues
  imports Months
begin

text \<open>
  The value objects of \<open>internal/budgets/domain/valueobjects\<close>: the five root categories,
  competences (months), thresholds, basis points, mutation kinds and external identifiers, and
  the choice of a competence from what a user says about a month (\<open>month_reference.go\<close>).
\<close>

section \<open>Errors\<close>

text \<open>
  The sentinel errors of the module, its commands and its repositories; wrapping keeps the
  sentinel, and \<open>errors.Join\<close> is a list.
\<close>

datatype budget_error =
    ErrCompetenceInvalid
  | ErrMonthRefKindUnknown
  | ErrClarifyReasonUnknown
  | ErrRootSlugUnknown
  | ErrThresholdUnknown
  | ErrMutationKindUnknown
  | ErrCentsNonPositive
  | ErrBasisPointsOutOfRange
  | ErrProducerSourceEmpty
  | ErrExternalTransactionIDInvalid
  | ErrBudgetTotalMustBePositive
  | ErrBudgetAllocationSumMustBe10000
  | ErrBudgetAlreadyActive
  | ErrBudgetNotActive
  | ErrCategoryPercentageTargetNotFound
  | ErrCategoryPercentageNoAllocations
  | ErrCategoryPercentageSumInvalid
  | ErrRecurrenceSourceInvalid
  | ErrRecurrenceCloneInvalidSource
  | ErrRecurrenceSourceNegativeTotal
  | ErrRecurrenceSourceAutoDraftWithoutAllocs
  | ErrRecurrenceSourceDraftWithoutFullAllocs
  | ErrExpenseVersionMismatch
  | ErrExpenseAlreadyDeleted
  | ErrExpenseInvalidAmount
  | ErrExpenseCommittedInvalid
  | ErrPendingStateTransitionInvalid
  | ErrThresholdPlannedZero
  | ErrCommandInvalidUserID
  | ErrCommandInvalidSubcategory
  | ErrCommandInvalidCompetence
  | ErrCommandInvalidSource
  | ErrCommandInvalidExternalID
  | ErrCommandInvalidAmount
  | ErrCommandExplicitVersion
  | ErrCommandVersionRequired
  | ErrCommandInvalidTotalCents
  | ErrCommandInvalidAllocation
  | ErrCommandInvalidMonths
  | ErrInputInvalidUserID
  | ErrInputInvalidSource
  | ErrInputInvalidExternalID
  | ErrInputInvalidSubcategory
  | ErrInputInvalidCompetence
  | ErrInputAmountCentsInvalid
  | ErrInputExpectedVersion
  | ErrBudgetNotFound
  | ErrBudgetConflict
  | ErrExpenseNotFound
  | ErrExpenseConflict
  | ErrExpenseTombstoneConflict
  | ErrBudgetDatabase
  | ErrPayloadInvalid
  | ErrPendingEventNotFound
  | ErrPendingEventDuplicate
  | ErrSubcategoryInvalid

section \<open>Root categories\<close>

datatype root_slug = CustoFixo | Conhecimento | Prazeres | Metas | LiberdadeFinanceira

definition canonical_order :: "root_slug list" where
  "canonical_order = [CustoFixo, Conhecimento, Prazeres, Metas, LiberdadeFinanceira]"

definition parse_root_slug :: "string \<Rightarrow> budget_error + root_slug" where
  "parse_root_slug s =
     (if s = ''expense.custo_fixo'' then Inr CustoFixo
      else if s = ''expense.conhecimento'' then Inr Conhecimento
      else if s = ''expense.prazeres'' then Inr Prazeres
      else if s = ''expense.metas'' then Inr Metas
      else if s = ''expense.liberdade_financeira'' then Inr LiberdadeFinanceira
      else Inl ErrRootSlugUnknown)"

fun root_slug_string :: "root_slug \<Rightarrow> string" where
  "root_slug_string CustoFixo = ''expense.custo_fixo''"
| "root_slug_string Conhecimento = ''expense.conhecimento''"
| "root_slug_string Prazeres = ''expense.prazeres''"
| "root_slug_string Metas = ''expense.metas''"
| "root_slug_string LiberdadeFinanceira = ''expense.liberdade_financeira''"

lemma canonical_order_all: "set canonical_order = UNIV"
  by (auto simp: canonical_order_def intro: root_slug.exhaust)

lemma canonical_order_distinct: "distinct canonical_order"
  by (simp add: canonical_order_def)

interpretation root_slug_wire: wire_enum "\<lambda>_. True" root_slug_string parse_root_slug
proof
  fix x show "parse_root_slug (root_slug_string x) = Inr x"
    by (cases x) (simp_all add: parse_root_slug_def)
  fix s assume "parse_root_slug s = Inr x"
  then show "True \<and> root_slug_string x = s" by (auto simp: parse_root_slug_def split: if_splits)
qed

section \<open>Thresholds and mutation kinds\<close>

datatype threshold = Threshold80 | Threshold100

definition parse_threshold :: "int \<Rightarrow> budget_error + threshold" where
  "parse_threshold v =
     (if v = 80 then Inr Threshold80 else if v = 100 then Inr Threshold100
      else Inl ErrThresholdUnknown)"

fun threshold_int :: "threshold \<Rightarrow> int" where
  "threshold_int Threshold80 = 80"
| "threshold_int Threshold100 = 100"

interpretation threshold_wire: wire_enum "\<lambda>_. True" threshold_int parse_threshold
proof
  fix x show "parse_threshold (threshold_int x) = Inr x" by (cases x) (simp_all add: parse_threshold_def)
  fix v assume "parse_threshold v = Inr x"
  then show "True \<and> threshold_int x = v" by (auto simp: parse_threshold_def split: if_splits)
qed

text \<open>\<open>MutationZero\<close> stands for the numbers that are no declared constant, 0 among them.\<close>

datatype mutation_kind = MutationZero | MutationCreate | MutationUpdate | MutationDelete

definition parse_mutation_kind :: "string \<Rightarrow> budget_error + mutation_kind" where
  "parse_mutation_kind s =
     (if s = ''create'' then Inr MutationCreate else if s = ''update'' then Inr MutationUpdate
      else if s = ''delete'' then Inr MutationDelete else Inl ErrMutationKindUnknown)"

fun mutation_kind_string :: "mutation_kind \<Rightarrow> string" where
  "mutation_kind_string MutationCreate = ''create''"
| "mutation_kind_string MutationUpdate = ''update''"
| "mutation_kind_string MutationDelete = ''delete''"
| "mutation_kind_string MutationZero = ''''"

interpretation mutation_wire:
  wire_enum "\<lambda>k. k \<noteq> MutationZero" mutation_kind_string parse_mutation_kind
proof
  fix x :: mutation_kind assume "x \<noteq> MutationZero"
  then show "parse_mutation_kind (mutation_kind_string x) = Inr x"
    by (cases x) (simp_all add: parse_mutation_kind_def)
next
  fix s x assume "parse_mutation_kind s = Inr x"
  then show "x \<noteq> MutationZero \<and> mutation_kind_string x = s"
    by (auto simp: parse_mutation_kind_def split: if_splits)
qed

section \<open>Basis points, sources, external identifiers\<close>

datatype basis_points = BasisPoints (bp_int: int)

definition new_basis_points :: "int \<Rightarrow> budget_error + basis_points" where
  "new_basis_points v =
     (if v < 0 \<or> v > 10000 then Inl ErrBasisPointsOutOfRange else Inr (BasisPoints v))"

definition bp_add :: "basis_points \<Rightarrow> basis_points \<Rightarrow> budget_error + basis_points" where
  "bp_add a b = new_basis_points (bp_int a + bp_int b)"

definition new_producer_source :: "string \<Rightarrow> budget_error + string" where
  "new_producer_source raw = (if raw = '''' then Inl ErrProducerSourceEmpty else Inr raw)"

text \<open>
  The two regular expressions of an external identifier: a version 4 UUID in lower case, and 26
  characters of Crockford's base 32 in upper case.
\<close>

definition is_hex_lower :: "char \<Rightarrow> bool" where
  "is_hex_lower c \<longleftrightarrow> is_digit c \<or> (CHR ''a'' \<le> c \<and> c \<le> CHR ''f'')"

definition uuid_v4_text :: "string \<Rightarrow> bool" where
  "uuid_v4_text s \<longleftrightarrow>
     length s = 36 \<and>
     list_all (\<lambda>i. if i \<in> {8, 13, 18, 23} then s ! i = CHR ''-''
                   else if i = 14 then s ! i = CHR ''4''
                   else if i = 19 then s ! i \<in> set ''89ab''
                   else is_hex_lower (s ! i)) [0..<36]"

definition ulid_text :: "string \<Rightarrow> bool" where
  "ulid_text s \<longleftrightarrow> length s = 26 \<and>
     list_all (\<lambda>c. is_digit c \<or> (CHR ''A'' \<le> c \<and> c \<le> CHR ''H'') \<or> c = CHR ''J'' \<or>
                   c = CHR ''K'' \<or> c = CHR ''M'' \<or> c = CHR ''N'' \<or>
                   (CHR ''P'' \<le> c \<and> c \<le> CHR ''T'') \<or> (CHR ''V'' \<le> c \<and> c \<le> CHR ''Z'')) s"

definition new_external_transaction_id :: "string \<Rightarrow> budget_error + string" where
  "new_external_transaction_id raw =
     (if uuid_v4_text raw then Inr raw else if ulid_text raw then Inr raw
      else Inl ErrExternalTransactionIDInvalid)"

section \<open>Competences\<close>

datatype competence = Competence (comp_value: string)

definition new_competence :: "string \<Rightarrow> budget_error + competence" where
  "new_competence raw =
     (if month_digits raw then Inr (Competence raw) else Inl ErrCompetenceInvalid)"

definition competence_from_time :: "gotime \<Rightarrow> location \<Rightarrow> competence" where
  "competence_from_time t l =
     (let br = in_loc t l in Competence (month_string (year br) (month br)))"

definition comp_before :: "competence \<Rightarrow> competence \<Rightarrow> bool" where
  "comp_before a b \<longleftrightarrow> comp_value a < comp_value b"

definition comp_is_zero :: "competence \<Rightarrow> bool" where
  "comp_is_zero c \<longleftrightarrow> comp_value c = ''''"

definition comp_next :: "competence \<Rightarrow> competence" where
  "comp_next c = Competence (month_label_add (comp_value c) 1)"

definition comp_prev :: "competence \<Rightarrow> competence" where
  "comp_prev c = Competence (month_label_add (comp_value c) (- 1))"

interpretation competence_label: month_label Competence comp_value comp_next comp_before
  by unfold_locales (simp_all add: comp_next_def comp_before_def)

definition month_names_pt_br :: "string list" where
  "month_names_pt_br =
     ['''', ''janeiro'', ''fevereiro'', ''mar'' @ bytes_of [0xC3, 0xA7] @ ''o'', ''abril'',
      ''maio'', ''junho'', ''julho'', ''agosto'', ''setembro'', ''outubro'', ''novembro'',
      ''dezembro'']"

definition format_competence_pt_br :: "competence \<Rightarrow> string" where
  "format_competence_pt_br c =
     (if comp_is_zero c then '''' else if \<not> month_digits (comp_value c) then ''''
      else let t = parse_month (comp_value c)
        in month_names_pt_br ! nat (month t) @ '' de '' @ format_int (year t))"

section \<open>What a user says about a month\<close>

text \<open>\<open>MonthRefOther n\<close> is a number that is no declared constant.\<close>

datatype month_ref_kind =
    MonthRefCurrent | MonthRefPrevious | MonthRefNext | MonthRefExplicit
  | MonthRefNamedWithoutYear | MonthRefUnknown | MonthRefOther int

fun month_ref_kind_string :: "month_ref_kind \<Rightarrow> string" where
  "month_ref_kind_string MonthRefCurrent = ''current''"
| "month_ref_kind_string MonthRefPrevious = ''previous''"
| "month_ref_kind_string MonthRefNext = ''next''"
| "month_ref_kind_string MonthRefExplicit = ''explicit''"
| "month_ref_kind_string MonthRefNamedWithoutYear = ''named_without_year''"
| "month_ref_kind_string MonthRefUnknown = ''unknown''"
| "month_ref_kind_string (MonthRefOther n) = ''''"

fun month_ref_kind_is_valid :: "month_ref_kind \<Rightarrow> bool" where
  "month_ref_kind_is_valid (MonthRefOther n) = False"
| "month_ref_kind_is_valid _ = True"

definition parse_month_ref_kind :: "string \<Rightarrow> budget_error + month_ref_kind" where
  "parse_month_ref_kind s =
     (if s = ''current'' then Inr MonthRefCurrent
      else if s = ''previous'' then Inr MonthRefPrevious
      else if s = ''next'' then Inr MonthRefNext
      else if s = ''explicit'' then Inr MonthRefExplicit
      else if s = ''named_without_year'' then Inr MonthRefNamedWithoutYear
      else if s = ''unknown'' then Inr MonthRefUnknown
      else Inl ErrMonthRefKindUnknown)"

interpretation month_ref_kind_wire:
  wire_enum month_ref_kind_is_valid month_ref_kind_string parse_month_ref_kind
proof
  fix x assume "month_ref_kind_is_valid x"
  then show "parse_month_ref_kind (month_ref_kind_string x) = Inr x"
    by (cases x) (simp_all add: parse_month_ref_kind_def)
next
  fix s x assume "parse_month_ref_kind s = Inr x"
  then show "month_ref_kind_is_valid x \<and> month_ref_kind_string x = s"
    by (auto simp: parse_month_ref_kind_def split: if_splits)
qed

datatype clarify_reason = ClarifyNone | ClarifyMissingYear | ClarifyUnrecognized

record month_reference =
  mr_kind :: month_ref_kind
  mr_year :: int
  mr_month :: int

definition decide_competence ::
  "month_reference \<Rightarrow> gotime \<Rightarrow> budget_error + competence \<times> clarify_reason" where
  "decide_competence ref now =
     (let zero = Competence ''''; this = competence_from_time now (loc now)
      in case mr_kind ref of
           MonthRefCurrent \<Rightarrow> Inr (this, ClarifyNone)
         | MonthRefPrevious \<Rightarrow> Inr (comp_prev this, ClarifyNone)
         | MonthRefNext \<Rightarrow> Inr (comp_next this, ClarifyNone)
         | MonthRefExplicit \<Rightarrow>
             if mr_year ref \<le> 0 then Inr (zero, ClarifyMissingYear)
             else (case new_competence (month_string (mr_year ref) (mr_month ref)) of
                     Inl e \<Rightarrow> Inl e
                   | Inr c \<Rightarrow> Inr (c, ClarifyNone))
         | MonthRefNamedWithoutYear \<Rightarrow> Inr (zero, ClarifyMissingYear)
         | MonthRefUnknown \<Rightarrow> Inr (zero, ClarifyUnrecognized)
         | MonthRefOther n \<Rightarrow> Inl ErrMonthRefKindUnknown)"

section \<open>Which labels an explicit month gives\<close>

lemma pad0_digits: "\<forall>c \<in> set (pad0 w (dec n)). is_digit c"
  using dec_digits [of n] by (auto simp: pad0_def char_zero)

lemma pad0_length: "w \<le> length (pad0 w s)"
  by (simp add: pad0_def)

lemma undec_pad0: "undec (pad0 w s) = undec s"
proof -
  have "undec (replicate k CHR ''0'' @ s) = undec s" for k
  proof (induction k)
    case (Suc k)
    then show ?case by (simp add: undec_Cons) (simp add: char_zero)
  qed simp
  then show ?thesis by (simp add: pad0_def)
qed

lemma dash_not_digit: "\<not> is_digit CHR ''-''"
  by (simp add: is_digit_def less_eq_char_def)

lemma month_digits_label:
  assumes "0 \<le> y"
  shows "month_digits (month_string y m) \<longleftrightarrow> label_ok y m"
proof
  let ?u = "pad0 4 (dec (nat y))" and ?v = "sprintf_0d 2 m"
  assume d: "month_digits (month_string y m)"
  have s: "month_string y m = ?u @ CHR ''-'' # ?v"
    using assms by (simp add: month_string_def sprintf_0d_def)
  have u: "length ?u = 4"
  proof (rule ccontr)
    assume "length ?u \<noteq> 4"
    then have "4 < length ?u" using pad0_length [of 4 "dec (nat y)"] by simp
    then have "is_digit (month_string y m ! 4)"
      using pad0_digits [of 4 "nat y"] by (simp add: s nth_append)
    with d show False by (simp add: month_digits_def dash_not_digit)
  qed
  with d have len: "length ?v = 2" by (simp add: month_digits_def s)
  then have t: "take 2 ?v = ?v" by simp
  have v: "length ?v = 2" "is_digit (?v ! 0)" "''01'' \<le> ?v" "?v \<le> ''12''"
    using d u by (simp_all add: month_digits_def s nth_append t)
  have m: "0 \<le> m"
  proof (rule ccontr)
    assume "\<not> 0 \<le> m"
    then have "?v ! 0 = CHR ''-''" by (simp add: sprintf_0d_def)
    with v(2) show False by (simp add: dash_not_digit)
  qed
  have dv: "\<forall>c \<in> set ?v. is_digit c" "undec ?v = nat m"
    using m pad0_digits [of 2 "nat m"] by (simp_all add: sprintf_0d_def undec_pad0)
  have lit: "''01'' = [digit_char 0, digit_char 1]" "''12'' = [digit_char 1, digit_char 2]"
    by (simp_all add: digit_char_literals)
  have d12: "\<forall>c \<in> set ''01''. is_digit c" "\<forall>c \<in> set ''12''. is_digit c"
    "undec ''01'' = 1" "undec ''12'' = 12"
    by (simp_all only: lit) simp_all
  have len2: "length ?v = length ''01''" "length ''12'' = length ?v" using v(1) by simp_all
  have "\<not> undec ?v < 1"
    using digit_string_less [OF len2(1) dv(1) d12(1)] leD [OF v(3)] d12(3) by (simp only: simp_thms)
  moreover have "\<not> 12 < undec ?v"
    using digit_string_less [OF len2(2) d12(2) dv(1)] leD [OF v(4)] d12(4) by (simp only: simp_thms)
  ultimately have "1 \<le> nat m" "nat m \<le> 12" by (simp_all add: dv(2))
  moreover have "nat y < 10000"
    using undec_bound [OF pad0_digits [of 4 "nat y"]] u by (simp add: undec_pad0)
  ultimately show "label_ok y m" using assms unfolding label_ok_def by linarith
qed (rule month_string_digits)

lemma month_string_shift:
  assumes "label_ok y m" "label_ok (y + (m + k - 1) div 12) ((m + k - 1) mod 12 + 1)"
  shows "month_digits (month_label_add (month_string y m) k)"
    "month_index (month_label_add (month_string y m) k) = month_index (month_string y m) + k"
  using assms by (simp_all add: month_label_add month_string_digits month_index_string)

text \<open>The index of the month a reference names, seen from an instant.\<close>

fun month_meant :: "month_reference \<Rightarrow> gotime \<Rightarrow> int option" where
  "month_meant ref now =
     (case mr_kind ref of
        MonthRefCurrent \<Rightarrow> Some (12 * year now + month now - 1)
      | MonthRefPrevious \<Rightarrow> Some (12 * year now + month now - 2)
      | MonthRefNext \<Rightarrow> Some (12 * year now + month now)
      | MonthRefExplicit \<Rightarrow>
          if label_ok (mr_year ref) (mr_month ref) \<and> 0 < mr_year ref
          then Some (12 * mr_year ref + mr_month ref - 1) else None
      | _ \<Rightarrow> None)"

text \<open>
  The competence decided from what a user says about a month is the month meant: the current
  one, its neighbours, or an explicit one; where no month is meant, or it does not exist, no
  competence is given without an error or a reason to ask again.
\<close>

lemma decide_competence_month:
  assumes "1 \<le> year now" "year now \<le> 9998"
  shows "(\<exists>c. decide_competence ref now = Inr (c, ClarifyNone) \<and>
            month_digits (comp_value c) \<and> month_index (comp_value c) = k)
         \<longleftrightarrow> month_meant ref now = Some k"
    (is "?L \<longleftrightarrow> ?R")
proof -
  let ?y = "year now" and ?m = "month now"
  have m: "1 \<le> ?m" "?m \<le> 12" by (rule month_range)+
  have ok: "label_ok ?y ?m" using assms m by (simp add: label_ok_def)
  have this_label: "comp_value (competence_from_time now (loc now)) = month_string ?y ?m"
    by (simp add: competence_from_time_def Let_def)
  have "label_ok (?y + (?m + j - 1) div 12) ((?m + j - 1) mod 12 + 1)" if "j = 1 \<or> j = - 1" for j
  proof -
    have "(?m + j - 1) div 12 = - 1 \<or> (?m + j - 1) div 12 = 0 \<or> (?m + j - 1) div 12 = 1"
      using m that by auto
    then show ?thesis using assms by (auto simp: label_ok_def)
  qed
  note shift = month_string_shift [OF ok this]
  show ?thesis
  proof (cases "mr_kind ref")
    case MonthRefCurrent
    then show ?thesis
      using ok by (auto simp: decide_competence_def this_label month_string_digits month_index_string)
  next
    case MonthRefPrevious
    then show ?thesis
      using shift [of "- 1"] ok
      by (auto simp: decide_competence_def comp_prev_def this_label month_index_string)
  next
    case MonthRefNext
    then show ?thesis
      using shift [of 1] ok
      by (auto simp: decide_competence_def comp_next_def this_label month_index_string)
  next
    case MonthRefExplicit
    then show ?thesis
      using month_digits_label [of "mr_year ref" "mr_month ref"]
      by (auto simp: decide_competence_def new_competence_def month_index_string)
  qed (simp_all add: decide_competence_def)
qed

lemma decide_competence_month_witness:
  "(\<exists>c. decide_competence \<lparr>mr_kind = MonthRefPrevious, mr_year = 0, mr_month = 0\<rparr>
          (midnight 2025 1 1 utc) = Inr (c, ClarifyNone) \<and>
        month_digits (comp_value c) \<and> month_index (comp_value c) = 12 * 2024 + 11)"
proof -
  have "year (midnight 2025 1 1 utc) = 2025" "month (midnight 2025 1 1 utc) = 1"
    using month_fields [OF _ _ steady_utc, of 1 2025] by simp_all
  then show ?thesis
    using decide_competence_month [of "midnight 2025 1 1 utc"
      "\<lparr>mr_kind = MonthRefPrevious, mr_year = 0, mr_month = 0\<rparr>" "12 * 2024 + 11"] by simp
qed

end
