(* ===== verification/PlatformMoney.thy ===== *)
theory PlatformMoney
  imports Prelude
begin

text \<open>
  Amounts of money as \<open>internal/platform/money\<close> computes and prints them: cents in an
  \<open>int64\<close>, shares in basis points rounded half to even, and the Brazilian notation
  \<open>R$ 1.234,56\<close>.
\<close>

section \<open>Operations\<close>

datatype amount = Amount (amount_cents: int)

definition amount_add :: "amount \<Rightarrow> amount \<Rightarrow> amount" where
  "amount_add a b = Amount (i64 (amount_cents a + amount_cents b))"

definition amount_sub :: "amount \<Rightarrow> amount \<Rightarrow> amount" where
  "amount_sub a b = Amount (i64 (amount_cents a - amount_cents b))"

definition amount_abs :: "amount \<Rightarrow> amount" where
  "amount_abs a = (if amount_cents a < 0 then Amount (i64 (- amount_cents a)) else a)"

definition amount_is_zero :: "amount \<Rightarrow> bool" where
  "amount_is_zero a \<longleftrightarrow> amount_cents a = 0"

definition round_half_even_div :: "int \<Rightarrow> int \<Rightarrow> int" where
  "round_half_even_div numerator denominator =
     (if denominator = 0 then 0
      else let n = (if denominator < 0 then i64 (- numerator) else numerator);
               d = (if denominator < 0 then i64 (- denominator) else denominator);
               negative = n < 0;
               magnitude = (if negative then i64 (- n) else n);
               quotient = magnitude sdiv d;
               remainder = magnitude smod d;
               twice = i64 (remainder * 2);
               rounded = (if twice > d \<or> (twice = d \<and> quotient smod 2 = 1)
                          then i64 (quotient + 1) else quotient)
           in if negative then i64 (- rounded) else rounded)"

definition apply_basis_points :: "amount \<Rightarrow> int \<Rightarrow> amount" where
  "apply_basis_points a bp = Amount (round_half_even_div (i64 (amount_cents a * bp)) 10000)"

definition basis_points_of :: "amount \<Rightarrow> amount \<Rightarrow> int" where
  "basis_points_of a whole =
     (if amount_cents whole = 0 then 0
      else round_half_even_div (i64 (amount_cents a * 10000)) (amount_cents whole))"

text \<open>The loop of \<open>groupThousands\<close> starts where a multiple of three digits is left.\<close>

fun group_from :: "string \<Rightarrow> string" where
  "group_from (a # b # c # d # s) = a # b # c # CHR ''.'' # group_from (d # s)"
| "group_from s = s"

definition group_thousands :: "int \<Rightarrow> string" where
  "group_thousands n =
     (let s = format_int n; r = length s mod 3
      in if length s \<le> 3 then s
         else (if r > 0 then take r s @ ''.'' else []) @ group_from (drop r s))"

definition amount_text :: "amount \<Rightarrow> string" where
  "amount_text a =
     (let c = (if amount_cents a < 0 then i64 (- amount_cents a) else amount_cents a)
      in group_thousands (c sdiv 100) @ '','' @ sprintf_0d 2 (c smod 100))"

definition brl :: "amount \<Rightarrow> string" where
  "brl a = ''R$ '' @ amount_text a"

section \<open>Rounding\<close>

text \<open>
  The values for which no intermediate result wraps: a numerator strictly inside the range, and a
  denominator whose double is.
\<close>

definition ratio_fits :: "int \<Rightarrow> int \<Rightarrow> bool" where
  "ratio_fits n d \<longleftrightarrow> \<bar>n\<bar> < 2 ^ 62 \<and> d \<noteq> 0 \<and> \<bar>d\<bar> < 2 ^ 62"

lemma in_i64_abs: "\<bar>x\<bar> < 2 ^ 63 \<Longrightarrow> in_i64 x"
  by (auto simp: in_i64_def abs_less_iff)

lemma i64_abs: "\<bar>x\<bar> < 2 ^ 63 \<Longrightarrow> i64 x = x"
  by (simp add: i64_id in_i64_abs)

definition half_even :: "int \<Rightarrow> int \<Rightarrow> int" where
  "half_even m d =
     (if 2 * (m mod d) > d \<or> (2 * (m mod d) = d \<and> odd (m div d)) then m div d + 1 else m div d)"

lemma half_even_bounds:
  assumes "0 < d"
  shows "2 * \<bar>half_even m d * d - m\<bar> \<le> d"
    "2 * \<bar>half_even m d * d - m\<bar> = d \<Longrightarrow> even (half_even m d)"
proof -
  have m: "m = m div d * d + m mod d" and r: "0 \<le> m mod d" "m mod d < d"
    using assms by simp_all
  have "(m div d + 1) * d - m = d - m mod d" "m div d * d - m = - (m mod d)"
    using m by (simp_all add: algebra_simps)
  then show "2 * \<bar>half_even m d * d - m\<bar> \<le> d"
    "2 * \<bar>half_even m d * d - m\<bar> = d \<Longrightarrow> even (half_even m d)"
    using r by (auto simp: half_even_def split: if_splits)
qed

lemma half_even_nonneg: "0 \<le> m \<Longrightarrow> 0 < d \<Longrightarrow> 0 \<le> half_even m d"
  by (simp add: half_even_def pos_imp_zdiv_nonneg_iff)

lemma round_half_even_pos:
  assumes "\<bar>n\<bar> < 2 ^ 62" "0 < d" "d < 2 ^ 62"
  shows "round_half_even_div n d = (if n < 0 then - half_even (- n) d else half_even n d)"
proof -
  have core: "(let q = m sdiv d; r = m smod d; t = i64 (r * 2)
      in if t > d \<or> (t = d \<and> q smod 2 = 1) then i64 (q + 1) else q) = half_even m d"
    and small: "\<bar>half_even m d\<bar> < 2 ^ 63"
    if m: "0 \<le> m" "m < 2 ^ 62" for m
  proof -
    have d: "m sdiv d = m div d" "m smod d = m mod d" "(m div d) smod 2 = m div d mod 2"
      using m assms(2) by (simp_all add: sdiv_nonneg smod_nonneg pos_imp_zdiv_nonneg_iff)
    have "0 \<le> m mod d" "m mod d < d" using assms(2) by simp_all
    then have t: "i64 (m mod d * 2) = 2 * (m mod d)" using assms(3) by (subst i64_abs) simp_all
    have "m div d \<le> m" using m(1) assms(2) by (metis int_one_le_iff_zero_less div_by_1 zdiv_mono2 zero_less_one)
    then have q: "0 \<le> m div d" "m div d < 2 ^ 62"
      using m assms(2) by (simp_all add: pos_imp_zdiv_nonneg_iff)
    then have s: "i64 (m div d + 1) = m div d + 1" by (intro i64_abs) simp
    show "(let q = m sdiv d; r = m smod d; t = i64 (r * 2)
        in if t > d \<or> (t = d \<and> q smod 2 = 1) then i64 (q + 1) else q) = half_even m d"
      by (simp add: half_even_def d t s odd_iff_mod_2_eq_one Let_def)
    show "\<bar>half_even m d\<bar> < 2 ^ 63" using q by (simp add: half_even_def)
  qed
  show ?thesis
  proof (cases "n < 0")
    case True
    define m where "m = - n"
    have m: "0 \<le> m" "m < 2 ^ 62" "i64 m = m" "- n = m"
      using True assms(1) by (simp_all add: m_def i64_abs)
    have "i64 (- half_even m d) = - half_even m d"
      using small [OF m(1,2)] by (intro i64_abs) simp
    then show ?thesis
      using True core [OF m(1,2)] assms(2)
      by (auto simp: round_half_even_div_def Let_def m(3,4) split: if_splits)
  next
    case False
    then show ?thesis using core [of n] assms
      by (auto simp: round_half_even_div_def Let_def split: if_splits)
  qed
qed

lemma round_half_even_neg:
  assumes "ratio_fits n d" "d < 0"
  shows "round_half_even_div n d = round_half_even_div (- n) (- d)"
proof -
  have "i64 (- n) = - n" "i64 (- d) = - d"
    using assms by (simp_all add: ratio_fits_def i64_abs)
  then show ?thesis using assms(2) by (simp add: round_half_even_div_def)
qed

lemma round_half_even_near:
  assumes "\<bar>n\<bar> < 2 ^ 62" "0 < d" "d < 2 ^ 62"
  shows "2 * \<bar>round_half_even_div n d * d - n\<bar> \<le> d \<and>
    (2 * \<bar>round_half_even_div n d * d - n\<bar> = d \<longrightarrow> even (round_half_even_div n d))"
proof (cases "n < 0")
  case True
  have "\<bar>- half_even (- n) d * d - n\<bar> = \<bar>half_even (- n) d * d - (- n)\<bar>" by linarith
  then show ?thesis
    using half_even_bounds [OF assms(2), of "- n"] True
    by (simp only: round_half_even_pos [OF assms] if_True even_minus) blast
next
  case False
  then show ?thesis
    using half_even_bounds [OF assms(2), of n] by (simp add: round_half_even_pos [OF assms])
qed

text \<open>
  \<open>RoundHalfEvenDiv\<close> gives the integer nearest to the quotient, and of two equally near ones
  the even one, whatever the signs of its arguments.
\<close>

lemma round_half_even_nearest:
  assumes "ratio_fits n d"
  shows "2 * \<bar>round_half_even_div n d * d - n\<bar> \<le> \<bar>d\<bar> \<and>
    (2 * \<bar>round_half_even_div n d * d - n\<bar> = \<bar>d\<bar> \<longrightarrow> even (round_half_even_div n d))"
proof (cases "d < 0")
  case True
  have "\<bar>q * - d - - n\<bar> = \<bar>q * d - n\<bar>" for q by linarith
  moreover have "\<bar>- n\<bar> < 2 ^ 62" "0 < - d" "- d < 2 ^ 62" "\<bar>d\<bar> = - d"
    using assms True by (simp_all add: ratio_fits_def)
  ultimately show ?thesis
    using round_half_even_near [of "- n" "- d"] by (simp only: round_half_even_neg [OF assms True]) blast
next
  case False
  then show ?thesis using round_half_even_near [of n d] assms by (simp add: ratio_fits_def)
qed

lemma round_half_even_nearest_witness:
  "2 * \<bar>round_half_even_div (- 25) 10 * 10 - (- 25)\<bar> \<le> \<bar>10 :: int\<bar> \<and>
   even (round_half_even_div (- 25) 10)"
proof -
  have f: "ratio_fits (- 25) 10" by (simp add: ratio_fits_def)
  have "2 * \<bar>round_half_even_div (- 25) 10 * 10 - (- 25)\<bar> = \<bar>10 :: int\<bar>" by code_simp
  then show ?thesis using round_half_even_nearest [OF f] by simp
qed

section \<open>Printing\<close>

lemma group_from_groups:
  assumes "length s = 3 * Suc k"
  obtains g gs where "group_from s = g @ concat (map ((#) CHR ''.'') gs)" "s = g @ concat gs"
    "length g = 3" "\<forall>h \<in> set gs. length h = 3"
  using assms
proof (induction k arbitrary: s thesis)
  case 0
  then show ?case by (auto simp: numeral_eq_Suc length_Suc_conv intro: "0.prems"(1) [of s "[]"])
next
  case (Suc k)
  then obtain a b c d t where s: "s = a # b # c # d # t" "length (d # t) = 3 * Suc k"
    by (auto simp: numeral_eq_Suc length_Suc_conv)
  obtain g gs where g: "group_from (d # t) = g @ concat (map ((#) CHR ''.'') gs)"
      "d # t = g @ concat gs" "length g = 3" "\<forall>h \<in> set gs. length h = 3"
    using Suc.IH s(2) by blast
  have "group_from s = a # b # c # CHR ''.'' # group_from (d # t)" by (simp add: s(1))
  then have "group_from s = [a, b, c] @ concat (map ((#) CHR ''.'') (g # gs))" by (simp add: g(1))
  moreover have "s = [a, b, c] @ concat (g # gs)" by (simp add: s(1) g(2))
  moreover have "length [a, b, c] = 3" "\<forall>h \<in> set (g # gs). length h = 3" using g(3,4) by simp_all
  ultimately show ?case by (rule Suc.prems(1))
qed

text \<open>A number printed in groups: a first group of at most three digits, then groups of three.\<close>

definition grouped :: "string \<Rightarrow> string \<Rightarrow> bool" where
  "grouped digits s \<longleftrightarrow>
     (\<exists>g gs. s = g @ concat (map ((#) CHR ''.'') gs) \<and> digits = g @ concat gs \<and>
        1 \<le> length g \<and> length g \<le> 3 \<and> (\<forall>h \<in> set gs. length h = 3))"

lemma grouped_thousands:
  assumes "0 \<le> n"
  shows "grouped (dec (nat n)) (group_thousands n)"
proof -
  let ?s = "dec (nat n)" and ?r = "length (dec (nat n)) mod 3"
  have s: "format_int n = ?s" using assms by (simp add: format_int_def)
  show ?thesis
  proof (cases "length ?s \<le> 3")
    case True
    then have "group_thousands n = ?s" by (simp add: group_thousands_def s Let_def)
    moreover have "1 \<le> length ?s" by (simp add: Suc_le_eq)
    ultimately show ?thesis
      unfolding grouped_def using True by (intro exI [of _ ?s] exI [of _ "[]"]) simp
  next
    case False
    obtain k where k: "length (drop ?r ?s) = 3 * Suc k"
    proof
      have "length (drop ?r ?s) = 3 * (length ?s div 3)" by (simp add: minus_mod_eq_mult_div)
      moreover have "length ?s div 3 = Suc (length ?s div 3 - 1)" using False by simp
      ultimately show "length (drop ?r ?s) = 3 * Suc (length ?s div 3 - 1)" by metis
    qed
    obtain g gs where g: "group_from (drop ?r ?s) = g @ concat (map ((#) CHR ''.'') gs)"
        "drop ?r ?s = g @ concat gs" "length g = 3" "\<forall>h \<in> set gs. length h = 3"
      using group_from_groups [OF k] by blast
    show ?thesis
    proof (cases "?r = 0")
      case True
      then have "group_thousands n = g @ concat (map ((#) CHR ''.'') gs)"
        using False s g(1) by (simp add: group_thousands_def Let_def)
      moreover have "?s = g @ concat gs" using g(2) True by simp
      ultimately show ?thesis unfolding grouped_def using g(3,4) by force
    next
      case nz: False
      have "?s = take ?r ?s @ g @ concat gs" using g(2) by (metis append_take_drop_id)
      moreover have "group_thousands n = take ?r ?s @ ''.'' @ group_from (drop ?r ?s)"
        using False nz s by (simp add: group_thousands_def Let_def)
      moreover have "1 \<le> length (take ?r ?s)" "length (take ?r ?s) \<le> 3"
        using nz False mod_less_divisor [of 3 "length ?s"] by simp_all
      ultimately show ?thesis
        unfolding grouped_def using g
        by (intro exI [of _ "take ?r ?s"] exI [of _ "g # gs"]) simp
    qed
  qed
qed



end
