(* ===== verification/BudgetPlan.thy ===== *)
theory BudgetPlan
  imports BudgetValues PlatformMoney
begin

text \<open>
  Budgets and how they are divided: \<open>domain/entities/{budget,allocation}.go\<close> and the pure services
  of \<open>internal/budgets/domain/services\<close> that share a total among categories, change the share of
  one category and prepare a month from another.
\<close>

section \<open>Budgets and allocations\<close>

record allocation =
  al_budget_id :: uuid
  al_root_slug :: root_slug
  al_basis_points :: int
  al_planned_cents :: int

datatype budget_state = BudgetDraft | BudgetActive

record budget =
  bu_id :: uuid
  bu_user_id :: uuid
  bu_competence :: competence
  bu_total_cents :: int
  bu_state :: budget_state
  bu_activated_at :: "gotime option"
  bu_auto_draft :: bool
  bu_allocations :: "allocation list"
  bu_created_at :: gotime
  bu_updated_at :: gotime

definition new_budget :: "uuid \<Rightarrow> uuid \<Rightarrow> competence \<Rightarrow> int \<Rightarrow> gotime \<Rightarrow> budget" where
  "new_budget i user c cents now =
     \<lparr>bu_id = i, bu_user_id = user, bu_competence = c, bu_total_cents = cents,
      bu_state = BudgetDraft, bu_activated_at = None, bu_auto_draft = False,
      bu_allocations = [], bu_created_at = now, bu_updated_at = now\<rparr>"

definition new_auto_draft_budget :: "uuid \<Rightarrow> uuid \<Rightarrow> competence \<Rightarrow> gotime \<Rightarrow> budget" where
  "new_auto_draft_budget i user c now =
     \<lparr>bu_id = i, bu_user_id = user, bu_competence = c, bu_total_cents = 0,
      bu_state = BudgetDraft, bu_activated_at = None, bu_auto_draft = True,
      bu_allocations = [], bu_created_at = now, bu_updated_at = now\<rparr>"

definition hydrate_budget ::
  "uuid \<Rightarrow> uuid \<Rightarrow> competence \<Rightarrow> int \<Rightarrow> budget_state \<Rightarrow> gotime option \<Rightarrow> bool \<Rightarrow> allocation list \<Rightarrow>
   gotime \<Rightarrow> gotime \<Rightarrow> budget" where
  "hydrate_budget i user c cents st act auto allocs created updated =
     \<lparr>bu_id = i, bu_user_id = user, bu_competence = c, bu_total_cents = cents, bu_state = st,
      bu_activated_at = act, bu_auto_draft = auto, bu_allocations = allocs,
      bu_created_at = created, bu_updated_at = updated\<rparr>"

definition new_allocation :: "uuid \<Rightarrow> root_slug \<Rightarrow> int \<Rightarrow> int \<Rightarrow> allocation" where
  "new_allocation b s bp planned =
     \<lparr>al_budget_id = b, al_root_slug = s, al_basis_points = bp, al_planned_cents = planned\<rparr>"

text \<open>A sum accumulated in an \<open>int\<close> or an \<open>int64\<close>.\<close>

definition sum_i64 :: "int list \<Rightarrow> int" where
  "sum_i64 xs = foldl (\<lambda>s x. i64 (s + x)) 0 xs"

lemma i64_add_right: "i64 (a + i64 b) = i64 (a + b)"
  using i64_add_left [of b a] by (simp add: add.commute)

lemma sum_i64_eq: "sum_i64 xs = i64 (sum_list xs)"
proof (induction xs rule: rev_induct)
  case (snoc x xs)
  then show ?case by (simp add: sum_i64_def i64_add_left)
qed (simp add: sum_i64_def i64_abs)

definition bp_sum :: "allocation list \<Rightarrow> int" where
  "bp_sum allocs = sum_i64 (map al_basis_points allocs)"

definition set_allocations :: "allocation list \<Rightarrow> budget \<Rightarrow> budget" where
  "set_allocations allocs b = b\<lparr>bu_allocations := allocs\<rparr>"

definition add_allocation :: "allocation \<Rightarrow> budget \<Rightarrow> budget" where
  "add_allocation a b = b\<lparr>bu_allocations := bu_allocations b @ [a]\<rparr>"

definition rebalance_allocations ::
  "allocation list \<Rightarrow> gotime \<Rightarrow> budget \<Rightarrow> budget_error + budget" where
  "rebalance_allocations allocs now b =
     (if bu_state b \<noteq> BudgetActive then Inl ErrBudgetNotActive
      else if bp_sum allocs \<noteq> 10000 then Inl ErrBudgetAllocationSumMustBe10000
      else Inr (b\<lparr>bu_allocations := allocs, bu_updated_at := now\<rparr>))"

definition change_total ::
  "int \<Rightarrow> allocation list \<Rightarrow> gotime \<Rightarrow> budget \<Rightarrow> budget_error + budget" where
  "change_total cents allocs now b =
     (if bu_state b \<noteq> BudgetActive then Inl ErrBudgetNotActive
      else if cents \<le> 0 then Inl ErrBudgetTotalMustBePositive
      else if bp_sum allocs \<noteq> 10000 then Inl ErrBudgetAllocationSumMustBe10000
      else Inr (b\<lparr>bu_total_cents := cents, bu_allocations := allocs, bu_updated_at := now\<rparr>))"

definition activate :: "gotime \<Rightarrow> budget \<Rightarrow> budget_error + budget" where
  "activate now b =
     (if bu_state b = BudgetActive then Inl ErrBudgetAlreadyActive
      else if bu_total_cents b \<le> 0 then Inl ErrBudgetTotalMustBePositive
      else if bp_sum (bu_allocations b) \<noteq> 10000 then Inl ErrBudgetAllocationSumMustBe10000
      else Inr (b\<lparr>bu_state := BudgetActive, bu_activated_at := Some now, bu_updated_at := now\<rparr>))"

section \<open>Sharing a total\<close>

text \<open>A share is a category, its basis points and the cents planned for it.\<close>

type_synonym share = "root_slug \<times> int \<times> int"

abbreviation share_slug :: "share \<Rightarrow> root_slug" where
  "share_slug \<equiv> fst"

abbreviation share_cents :: "share \<Rightarrow> int" where
  "share_cents r \<equiv> snd (snd r)"

definition half_even_round :: "int \<Rightarrow> int \<Rightarrow> int" where
  "half_even_round q r =
     (if r = 0 then q
      else if r > 5000 then i64 (q + 1)
      else if r < 5000 then q
      else if q smod 2 = 0 then q else i64 (q + 1))"

fun bump :: "root_slug \<Rightarrow> int \<Rightarrow> share list \<Rightarrow> share list" where
  "bump slug step [] = []"
| "bump slug step ((s, bp, p) # rs) =
     (if s = slug then (s, bp, i64 (p + step)) # rs else (s, bp, p) # bump slug step rs)"

fun spread :: "int \<Rightarrow> int \<Rightarrow> root_slug list \<Rightarrow> share list \<Rightarrow> share list" where
  "spread step left [] rs = rs"
| "spread step left (s # ss) rs =
     (if left \<le> 0 then rs
      else if s \<in> set (map share_slug rs) then spread step (left - 1) ss (bump s step rs)
      else spread step left ss rs)"

definition raw_share :: "int \<Rightarrow> root_slug \<times> int \<Rightarrow> share" where
  "raw_share cents inp =
     (let raw = i64 (cents * snd inp)
      in (fst inp, snd inp, half_even_round (raw sdiv 10000) (raw smod 10000)))"

definition distribute :: "int \<Rightarrow> (root_slug \<times> int) list \<Rightarrow> share list" where
  "distribute cents inputs =
     (let rs = map (raw_share cents) inputs;
          diff = i64 (cents - sum_i64 (map share_cents rs))
      in if diff = 0 then rs
         else if diff > 0 then spread 1 diff canonical_order rs
         else spread (- 1) (i64 (- diff)) canonical_order rs)"

text \<open>The plans a budget may be asked to share: no intermediate result of \<open>Distribute\<close> wraps.\<close>

definition sharable :: "int \<Rightarrow> (root_slug \<times> int) list \<Rightarrow> bool" where
  "sharable cents inputs \<longleftrightarrow>
     0 \<le> cents \<and> cents * 10000 < 2 ^ 62 \<and> distinct (map fst inputs) \<and>
     (\<forall>bp \<in> set (map snd inputs). 0 \<le> bp \<and> bp \<le> 10000) \<and> sum_list (map snd inputs) = 10000"

lemma half_even_round_eq:
  assumes "0 \<le> raw" "raw < 2 ^ 62"
  shows "half_even_round (raw sdiv 10000) (raw smod 10000) = half_even raw 10000"
proof -
  have q: "raw sdiv 10000 = raw div 10000" "raw smod 10000 = raw mod 10000"
    using assms(1) by (simp_all add: sdiv_nonneg smod_nonneg)
  have b: "0 \<le> raw div 10000" "raw div 10000 < 2 ^ 62" using assms by (simp_all add: pos_imp_zdiv_nonneg_iff)
  then have "i64 (raw div 10000 + 1) = raw div 10000 + 1" by (intro i64_abs) simp
  then show ?thesis
    using b by (auto simp: half_even_round_def half_even_def q smod_nonneg odd_iff_mod_2_eq_one)
qed

lemma bump_slugs [simp]: "map share_slug (bump s step rs) = map share_slug rs"
  by (induction rs rule: bump.induct) auto

lemma spread_slugs [simp]: "map share_slug (spread step left ss rs) = map share_slug rs"
  by (induction step left ss rs rule: spread.induct) auto

lemma bump_points: "map (\<lambda>r. (fst r, fst (snd r))) (bump s step rs) = map (\<lambda>r. (fst r, fst (snd r))) rs"
  by (induction rs rule: bump.induct) auto

lemma spread_points:
  "map (\<lambda>r. (fst r, fst (snd r))) (spread step left ss rs) = map (\<lambda>r. (fst r, fst (snd r))) rs"
  by (induction step left ss rs rule: spread.induct) (auto simp: bump_points)

lemma distribute_points: "map (\<lambda>r. (fst r, fst (snd r))) (distribute cents inputs) = inputs"
  by (simp add: distribute_def Let_def spread_points raw_share_def comp_def Let_def)

text \<open>A pass over distinct categories moves one cent for each category that has a share, at most \<open>left\<close>.\<close>

definition cents_sum :: "share list \<Rightarrow> int" where
  "cents_sum rs = sum_list (map share_cents rs)"

definition small_shares :: "int \<Rightarrow> share list \<Rightarrow> bool" where
  "small_shares b rs \<longleftrightarrow> (\<forall>r \<in> set rs. \<bar>share_cents r\<bar> \<le> b)"

lemma bump_small:
  "small_shares b rs \<Longrightarrow> \<bar>step\<bar> \<le> 1 \<Longrightarrow> b < 2 ^ 62 \<Longrightarrow> small_shares (b + 1) (bump s step rs)"
proof (induction s step rs rule: bump.induct)
  case (2 slug step s bp p rs)
  then have "\<bar>p\<bar> \<le> b" "small_shares b rs" by (simp_all add: small_shares_def)
  then show ?case using 2 by (auto simp: small_shares_def i64_abs)
qed (simp add: small_shares_def)

lemma bump_sum:
  "small_shares b rs \<Longrightarrow> \<bar>step\<bar> \<le> 1 \<Longrightarrow> b < 2 ^ 62 \<Longrightarrow> s \<in> set (map share_slug rs) \<Longrightarrow>
   cents_sum (bump s step rs) = cents_sum rs + step"
proof (induction s step rs rule: bump.induct)
  case (2 slug step s bp p rs)
  then show ?case by (auto simp: small_shares_def cents_sum_def i64_abs)
qed simp

lemma spread_sum:
  assumes "distinct ss" "small_shares b rs" "\<bar>step\<bar> \<le> 1" "b + int (length ss) < 2 ^ 62"
    "0 \<le> left" "left \<le> int (card (set ss \<inter> set (map share_slug rs)))"
  shows "cents_sum (spread step left ss rs) = cents_sum rs + step * left"
  using assms
proof (induction step left ss rs arbitrary: b rule: spread.induct)
  case (2 step left s ss rs)
  show ?case
  proof (cases "left \<le> 0")
    case True
    then show ?thesis using "2.prems"(5) by simp
  next
    case pos: False
    show ?thesis
    proof (cases "s \<in> set (map share_slug rs)")
      case True
      have "set (s # ss) \<inter> set (map share_slug rs) =
          insert s (set ss \<inter> set (map share_slug rs))" using True by auto
      then have c: "left - 1 \<le> int (card (set ss \<inter> set (map share_slug (bump s step rs))))"
        using "2.prems"(1,6) by simp
      have "small_shares (b + 1) (bump s step rs)" "cents_sum (bump s step rs) = cents_sum rs + step"
        using "2.prems" bump_small bump_sum [OF "2.prems"(2,3) _ True] by auto
      then show ?thesis
        using "2.IH"(1) [OF pos True, of "b + 1"] "2.prems" c pos True by (simp add: algebra_simps)
    next
      case False
      then show ?thesis using "2.IH"(2) [OF pos False, of b] "2.prems" pos by simp
    qed
  qed
qed simp

lemma raw_share_near:
  assumes "0 \<le> cents" "cents * 10000 < 2 ^ 62" "0 \<le> bp" "bp \<le> 10000"
  shows "2 * \<bar>share_cents (raw_share cents (s, bp)) * 10000 - cents * bp\<bar> \<le> 10000"
    "0 \<le> share_cents (raw_share cents (s, bp))" "share_cents (raw_share cents (s, bp)) \<le> 2 ^ 52"
proof -
  have "cents * bp \<le> cents * 10000" using assms(1,4) by (rule mult_left_mono [rotated])
  then have b: "0 \<le> cents * bp" "cents * bp < 2 ^ 62" using assms by simp_all
  then have "share_cents (raw_share cents (s, bp)) = half_even (cents * bp) 10000"
    using half_even_round_eq [OF b] by (simp add: raw_share_def i64_abs)
  then show "2 * \<bar>share_cents (raw_share cents (s, bp)) * 10000 - cents * bp\<bar> \<le> 10000"
    "0 \<le> share_cents (raw_share cents (s, bp))" "share_cents (raw_share cents (s, bp)) \<le> 2 ^ 52"
    using half_even_bounds(1) [of 10000 "cents * bp"] half_even_nonneg [of "cents * bp" 10000] b
    by simp_all
qed

lemma raw_shares_sum:
  assumes "0 \<le> cents" "cents * 10000 < 2 ^ 62" "\<forall>bp \<in> set (map snd inputs). 0 \<le> bp \<and> bp \<le> 10000"
  shows "2 * \<bar>cents_sum (map (raw_share cents) inputs) * 10000 - cents * sum_list (map snd inputs)\<bar>
    \<le> 10000 * int (length inputs)"
  using assms(3)
proof (induction inputs)
  case (Cons inp inputs)
  obtain s bp where inp: "inp = (s, bp)" by (cases inp)
  let ?a = "share_cents (raw_share cents inp) * 10000 - cents * bp"
  let ?b = "cents_sum (map (raw_share cents) inputs) * 10000 - cents * sum_list (map snd inputs)"
  have "2 * \<bar>?a\<bar> \<le> 10000"
    using raw_share_near(1) [OF assms(1,2)] Cons.prems by (simp add: inp)
  moreover have "2 * \<bar>?b\<bar> \<le> 10000 * int (length inputs)" using Cons by simp
  moreover have "cents_sum (map (raw_share cents) (inp # inputs)) * 10000
      - cents * sum_list (map snd (inp # inputs)) = ?a + ?b"
    by (simp add: inp cents_sum_def algebra_simps)
  ultimately show ?case using abs_triangle_ineq [of ?a ?b] by simp
qed (simp add: cents_sum_def)

lemma distinct_card_slugs:
  assumes "distinct (map share_slug rs)"
  shows "card (set canonical_order \<inter> set (map share_slug rs)) = length rs"
  using distinct_card [OF assms] by (simp add: canonical_order_all)

lemma cancel_scale: "2 * \<bar>x * 10000 - c * 10000\<bar> \<le> 10000 * n \<Longrightarrow> 2 * \<bar>x - c\<bar> \<le> n" for x :: int
proof -
  assume le: "2 * \<bar>x * 10000 - c * 10000\<bar> \<le> 10000 * n"
  define a where "a = \<bar>x - c\<bar>"
  have "\<bar>x * 10000 - c * 10000\<bar> = a * 10000"
    unfolding a_def by (simp only: left_diff_distrib [symmetric] abs_mult abs_numeral)
  with le have "2 * (a * 10000) \<le> 10000 * n" by (simp only:)
  then have "2 * a \<le> n" by simp
  then show ?thesis by (simp only: a_def)
qed

lemma two_abs: "2 * \<bar>x\<bar> \<le> n \<Longrightarrow> x \<le> n \<and> - x \<le> n" for x n :: int
  by (auto simp: abs_if split: if_splits)

lemma distribute_sum:
  assumes "sharable cents inputs"
  shows "cents_sum (distribute cents inputs) = cents"
proof -
  let ?rs = "map (raw_share cents) inputs"
  have s: "0 \<le> cents" "cents * 10000 < 2 ^ 62" "distinct (map fst inputs)"
      "\<forall>bp \<in> set (map snd inputs). 0 \<le> bp \<and> bp \<le> 10000" "sum_list (map snd inputs) = 10000"
    using assms by (simp_all add: sharable_def)
  have slugs: "map share_slug ?rs = map fst inputs" by (simp add: raw_share_def comp_def Let_def)
  have five: "length inputs \<le> 5"
    using distinct_card [OF s(3)] card_mono [of "set canonical_order" "set (map fst inputs)"]
    by (simp add: canonical_order_all) (simp add: canonical_order_all [symmetric] canonical_order_def)
  have near: "2 * \<bar>cents_sum ?rs - cents\<bar> \<le> int (length inputs)"
    using raw_shares_sum [OF s(1,2,4)] unfolding s(5) by (rule cancel_scale)
  have small: "small_shares (2 ^ 52) ?rs"
    unfolding small_shares_def
  proof
    fix r assume "r \<in> set ?rs"
    then obtain sl bp where r: "r = raw_share cents (sl, bp)" "bp \<in> set (map snd inputs)" by force
    then show "\<bar>share_cents r\<bar> \<le> 2 ^ 52" using raw_share_near(2,3) [OF s(1,2), of bp sl] s(4) by auto
  qed
  have "i64 (cents_sum ?rs) = cents_sum ?rs" "i64 (cents - cents_sum ?rs) = cents - cents_sum ?rs"
    "i64 (- (cents - cents_sum ?rs)) = cents_sum ?rs - cents"
  proof -
    have "\<bar>cents_sum ?rs - cents\<bar> \<le> 5" using near five by simp
    then have "cents_sum ?rs - cents \<le> 5" "- 5 \<le> cents_sum ?rs - cents" by (simp_all add: abs_le_iff)
    then have "\<bar>cents_sum ?rs\<bar> < 2 ^ 63" "\<bar>cents - cents_sum ?rs\<bar> < 2 ^ 63"
      using s(1,2) by (simp_all add: abs_less_iff)
    then show "i64 (cents_sum ?rs) = cents_sum ?rs"
      "i64 (cents - cents_sum ?rs) = cents - cents_sum ?rs"
      "i64 (- (cents - cents_sum ?rs)) = cents_sum ?rs - cents"
      by (simp_all add: i64_abs abs_minus_commute)
  qed
  then have d: "i64 (cents - sum_i64 (map share_cents ?rs)) = cents - cents_sum ?rs"
    "i64 (- (cents - cents_sum ?rs)) = cents_sum ?rs - cents"
    by (simp_all add: sum_i64_eq cents_sum_def)
  have n: "card (set canonical_order \<inter> set (map share_slug ?rs)) = length inputs"
    using distinct_card_slugs [of ?rs] s(3) by (simp only: slugs length_map)
  have "cents_sum (spread step left canonical_order ?rs) = cents_sum ?rs + step * left"
    if "\<bar>step\<bar> \<le> 1" "0 \<le> left" "left \<le> int (length inputs)" for step left
    using spread_sum [OF canonical_order_distinct small that(1) _ that(2)] that(3) n
    by (simp add: canonical_order_def)
  note pass = this [of 1 "cents - cents_sum ?rs"] this [of "- 1" "cents_sum ?rs - cents"]
  have "cents - cents_sum ?rs \<le> int (length inputs)" "cents_sum ?rs - cents \<le> int (length inputs)"
    using two_abs [OF near] by simp_all
  then show ?thesis
    unfolding distribute_def Let_def d(1) d(2) using pass by simp
qed

text \<open>
  C10: Sharing a total among the categories of a plan that adds up to 100 per cent gives away the
  total to the cent, and keeps the order and the percentages of the plan.
\<close>

theorem distribute_exact:
  assumes "sharable cents inputs"
  shows "sum_list (map share_cents (distribute cents inputs)) = cents \<and>
    map (\<lambda>r. (share_slug r, fst (snd r))) (distribute cents inputs) = inputs"
  using distribute_sum [OF assms] distribute_points [of cents inputs] by (simp add: cents_sum_def)

theorem distribute_exact_witness:
  "sum_list (map share_cents (distribute 10001 [(CustoFixo, 5000), (Metas, 2500), (Prazeres, 2500)])) = 10001"
  using distribute_exact [of 10001 "[(CustoFixo, 5000), (Metas, 2500), (Prazeres, 2500)]"]
  by (simp add: sharable_def)

text \<open>
  The last cent may be taken from a category that has no share: three cents halved between two
  categories leave a third one, with no percentage at all, at minus one cent.
\<close>

lemma distribute_negative_share:
  "distribute 3 [(CustoFixo, 0), (Conhecimento, 5000), (Prazeres, 5000)] =
     [(CustoFixo, 0, - 1), (Conhecimento, 5000, 2), (Prazeres, 5000, 2)]"
  by code_simp

section \<open>Changing the share of one category\<close>

definition canonical_rank :: "root_slug \<Rightarrow> nat" where
  "canonical_rank s =
     length (takeWhile (\<lambda>x. x \<noteq> s) canonical_order)"

text \<open>
  The scan of \<open>largestOtherIndex\<close> from index \<open>i\<close> on: the best index so far with its points and
  its rank.
\<close>

fun best_other ::
  "root_slug \<Rightarrow> (root_slug \<times> int) list \<Rightarrow> nat \<Rightarrow> nat option \<Rightarrow> int \<Rightarrow> nat \<Rightarrow> nat option" where
  "best_other target [] i best bp rank = best"
| "best_other target ((s, b) # rs) i best bp rank =
     (if s = target then best_other target rs (Suc i) best bp rank
      else if b > bp \<or> (b = bp \<and> canonical_rank s < rank)
      then best_other target rs (Suc i) (Some i) b (canonical_rank s)
      else best_other target rs (Suc i) best bp rank)"

definition largest_other_index :: "(root_slug \<times> int) list \<Rightarrow> root_slug \<Rightarrow> nat option" where
  "largest_other_index rs target = best_other target rs 0 None (- 1) (length canonical_order)"

definition add_points :: "nat \<Rightarrow> int \<Rightarrow> (root_slug \<times> int) list \<Rightarrow> (root_slug \<times> int) list" where
  "add_points i k rs = rs[i := (fst (rs ! i), i64 (snd (rs ! i) + k))]"

fun add_to_target ::
  "root_slug \<Rightarrow> int \<Rightarrow> (root_slug \<times> int) list \<Rightarrow> (root_slug \<times> int) list" where
  "add_to_target target k [] = []"
| "add_to_target target k ((s, b) # rs) =
     (if s = target then (s, i64 (b + k)) # rs else (s, b) # add_to_target target k rs)"

fun take_from_target ::
  "root_slug \<Rightarrow> int \<Rightarrow> (root_slug \<times> int) list \<Rightarrow> (root_slug \<times> int) list" where
  "take_from_target target k [] = []"
| "take_from_target target k ((s, b) # rs) =
     (if s = target \<and> b \<ge> k then (s, i64 (b - k)) # rs else (s, b) # take_from_target target k rs)"

function take_back ::
  "root_slug \<Rightarrow> int \<Rightarrow> (root_slug \<times> int) list \<Rightarrow> int \<times> (root_slug \<times> int) list" where
  "take_back target deficit rs =
     (if deficit \<le> 0 then (deficit, rs)
      else case largest_other_index rs target of
             None \<Rightarrow> (deficit, rs)
           | Some i \<Rightarrow> if snd (rs ! i) = 0 then (deficit, rs)
                       else take_back target (deficit - 1) (add_points i (- 1) rs))"
  by pat_completeness auto
termination
  by (relation "measure (\<lambda>(target, deficit, rs). nat deficit)") auto

declare take_back.simps [simp del]

definition apply_leftover ::
  "(root_slug \<times> int) list \<Rightarrow> root_slug \<Rightarrow> int \<Rightarrow> (root_slug \<times> int) list" where
  "apply_leftover rs target leftover =
     (if leftover > 0
      then (case largest_other_index rs target of
              Some i \<Rightarrow> add_points i leftover rs
            | None \<Rightarrow> add_to_target target leftover rs)
      else let (deficit, rs') = take_back target (i64 (- leftover)) rs
        in if deficit > 0 then take_from_target target deficit rs' else rs')"

definition other_share :: "root_slug \<Rightarrow> int \<Rightarrow> int \<Rightarrow> root_slug \<times> int \<Rightarrow> int" where
  "other_share target rest others a =
     (if others > 0 then i64 (rest * snd a) sdiv others else 0)"

definition decide_edit_percentage ::
  "(root_slug \<times> int) list \<Rightarrow> root_slug \<Rightarrow> basis_points \<Rightarrow>
   budget_error + (root_slug \<times> int) list" where
  "decide_edit_percentage current target target_bp =
     (if current = [] then Inl ErrCategoryPercentageNoAllocations
      else if target \<notin> set (map fst current) then Inl ErrCategoryPercentageTargetNotFound
      else if sum_i64 (map snd current) \<noteq> 10000 then Inl ErrCategoryPercentageSumInvalid
      else
        let t = bp_int target_bp; rest = i64 (10000 - t);
            others = sum_i64 (map snd (filter (\<lambda>a. fst a \<noteq> target) current));
            result = map (\<lambda>a. if fst a = target then (fst a, t)
                              else (fst a, other_share target rest others a)) current;
            assigned = sum_i64 (map snd (filter (\<lambda>a. fst a \<noteq> target) result));
            leftover = i64 (rest - assigned)
        in Inr (if leftover \<noteq> 0 then apply_leftover result target leftover else result))"

section \<open>Preparing a month from another\<close>

definition validate_recurrence_source :: "budget \<Rightarrow> budget_error option" where
  "validate_recurrence_source b =
     (if bu_total_cents b \<le> 0 then Some ErrRecurrenceSourceNegativeTotal
      else if bu_auto_draft b \<and> bu_allocations b = []
      then Some ErrRecurrenceSourceAutoDraftWithoutAllocs
      else if bu_state b = BudgetDraft \<and> bp_sum (bu_allocations b) \<noteq> 10000
      then Some ErrRecurrenceSourceDraftWithoutFullAllocs
      else None)"

definition alloc_inputs :: "budget \<Rightarrow> (root_slug \<times> int) list" where
  "alloc_inputs b = map (\<lambda>a. (al_root_slug a, al_basis_points a)) (bu_allocations b)"

definition shared_allocations :: "uuid \<Rightarrow> int \<Rightarrow> (root_slug \<times> int) list \<Rightarrow> allocation list" where
  "shared_allocations b cents inputs =
     map (\<lambda>(s, bp, p). new_allocation b s bp p) (distribute cents inputs)"

definition rebuild_allocations :: "uuid \<Rightarrow> budget \<Rightarrow> allocation list" where
  "rebuild_allocations b source = shared_allocations b (bu_total_cents source) (alloc_inputs source)"

definition clone_budget ::
  "uuid \<Rightarrow> budget \<Rightarrow> competence \<Rightarrow> uuid \<Rightarrow> gotime \<Rightarrow> budget_error list + budget" where
  "clone_budget i source target user now =
     (case validate_recurrence_source source of
        Some e \<Rightarrow> Inl [ErrRecurrenceCloneInvalidSource, e]
      | None \<Rightarrow>
          Inr (set_allocations (rebuild_allocations i source)
                 (new_budget i user target (bu_total_cents source) now)))"

section \<open>The percentages after an edit\<close>

lemma filter_key:
  "distinct (map fst xs) \<Longrightarrow> k \<in> fst ` set xs \<Longrightarrow> \<exists>v. filter (\<lambda>a. fst a = k) xs = [(k, v)] \<and> (k, v) \<in> set xs"
proof (induction xs)
  case (Cons x xs)
  show ?case
  proof (cases "fst x = k")
    case True
    then have "k \<notin> fst ` set xs" using Cons.prems(1) by simp
    then have "filter (\<lambda>a. fst a = k) xs = []" by (auto simp: filter_empty_conv image_iff)
    then show ?thesis using True by (cases x) auto
  qed (use Cons in \<open>auto simp: image_iff\<close>)
qed simp

lemma best_other_index:
  "best_other target rs i best bp rank = Some j \<Longrightarrow>
   best = Some j \<or> (i \<le> j \<and> j - i < length rs \<and> fst (rs ! (j - i)) \<noteq> target)"
proof (induction target rs i best bp rank rule: best_other.induct)
  case (2 target s b rs i best bp rank)
  have step: "i \<le> j \<and> j - i < length ((s, b) # rs) \<and> fst (((s, b) # rs) ! (j - i)) \<noteq> target"
    if "Suc i \<le> j \<and> j - Suc i < length rs \<and> fst (rs ! (j - Suc i)) \<noteq> target"
  proof -
    have "j - i = Suc (j - Suc i)" using that by linarith
    then show ?thesis using that by simp
  qed
  show ?case using 2 step by (auto split: if_splits)
qed simp

lemma best_other_found:
  "best \<noteq> None \<or> (\<exists>r \<in> set rs. fst r \<noteq> target \<and> snd r > bp) \<Longrightarrow>
   best_other target rs i best bp rank \<noteq> None"
  by (induction target rs i best bp rank rule: best_other.induct) auto

lemma add_points_sum:
  "i < length rs \<Longrightarrow> \<bar>snd (rs ! i) + k\<bar> < 2 ^ 63 \<Longrightarrow>
   sum_list (map snd (add_points i k rs)) = sum_list (map snd rs) + k"
  using sum_list_nth_update [of i "map snd rs"] by (simp add: add_points_def map_update i64_abs)

lemma add_points_slugs [simp]: "map fst (add_points i k rs) = map fst rs"
  by (cases "i < length rs")
    (simp_all add: add_points_def map_update list_update_same_conv list_update_beyond)

lemma add_to_target_slugs [simp]: "map fst (add_to_target target k rs) = map fst rs"
  by (induction target k rs rule: add_to_target.induct) auto

lemma add_to_target_sum:
  "target \<in> fst ` set rs \<Longrightarrow> \<forall>r \<in> set rs. \<bar>snd r + k\<bar> < 2 ^ 63 \<Longrightarrow>
   sum_list (map snd (add_to_target target k rs)) = sum_list (map snd rs) + k"
  by (induction target k rs rule: add_to_target.induct) (auto simp: i64_abs)

lemma add_to_target_nonneg:
  "\<forall>r \<in> set rs. 0 \<le> snd r \<and> snd r + k < 2 ^ 63 \<Longrightarrow> 0 \<le> k \<Longrightarrow>
   \<forall>r \<in> set (add_to_target target k rs). 0 \<le> snd r"
  by (induction target k rs rule: add_to_target.induct) (auto simp: i64_abs)

lemma floor_shares:
  fixes xs :: "(root_slug \<times> int) list"
  assumes "0 < others" "0 \<le> rest" "\<forall>a \<in> set xs. 0 \<le> snd a"
  shows "sum_list (map (\<lambda>a. rest * snd a div others) xs) * others \<le> rest * sum_list (map snd xs)"
    "0 \<le> sum_list (map (\<lambda>a. rest * snd a div others) xs)"
proof -
  show "sum_list (map (\<lambda>a. rest * snd a div others) xs) * others \<le> rest * sum_list (map snd xs)"
    using assms(3)
  proof (induction xs)
    case (Cons a xs)
    have "rest * snd a div others * others \<le> rest * snd a"
      using assms(1) div_mult_mod_eq [of "rest * snd a" others] pos_mod_sign [of others "rest * snd a"]
      by linarith
    with Cons show ?case by (simp add: algebra_simps)
  qed simp
  show "0 \<le> sum_list (map (\<lambda>a. rest * snd a div others) xs)"
    using assms by (intro sum_list_nonneg) (auto simp: pos_imp_zdiv_nonneg_iff)
qed

text \<open>The plans \<open>DecideEditCategoryPercentage\<close> is asked to change: rows of one budget.\<close>

definition full_plan :: "(root_slug \<times> int) list \<Rightarrow> bool" where
  "full_plan plan \<longleftrightarrow>
     distinct (map fst plan) \<and> (\<forall>a \<in> set plan. 0 \<le> snd a \<and> snd a \<le> 10000) \<and>
     sum_list (map snd plan) = 10000"

definition reshare :: "root_slug \<Rightarrow> int \<Rightarrow> (root_slug \<times> int) list \<Rightarrow> (root_slug \<times> int) list" where
  "reshare target t plan =
     (let others = sum_list (map snd (filter (\<lambda>a. fst a \<noteq> target) plan))
      in map (\<lambda>a. if fst a = target then (fst a, t)
                  else (fst a, if others > 0 then (10000 - t) * snd a div others else 0)) plan)"

lemma reshare_slugs [simp]: "map fst (reshare target t plan) = map fst plan"
  by (auto simp: reshare_def Let_def)

lemma reshare_bounds:
  assumes "full_plan plan" "0 \<le> t" "t \<le> 10000" "target \<in> fst ` set plan"
  defines "rs \<equiv> reshare target t plan"
  shows "\<forall>r \<in> set rs. 0 \<le> snd r" "sum_list (map snd (filter (\<lambda>a. fst a \<noteq> target) rs)) \<le> 10000 - t"
    "(target, t) \<in> set rs"
    "sum_list (map snd rs) = t + sum_list (map snd (filter (\<lambda>a. fst a \<noteq> target) rs))"
proof -
  define xs where "xs = filter (\<lambda>a. fst a \<noteq> target) plan"
  define others where "others = sum_list (map snd xs)"
  have pos: "\<forall>a \<in> set xs. 0 \<le> snd a" using assms(1) by (auto simp: xs_def full_plan_def)
  have o: "0 \<le> others" unfolding others_def using pos by (intro sum_list_nonneg) auto
  have rs: "rs = map (\<lambda>a. if fst a = target then (fst a, t)
      else (fst a, if others > 0 then (10000 - t) * snd a div others else 0)) plan"
    by (simp add: rs_def reshare_def others_def xs_def Let_def)
  have part: "map snd (filter (\<lambda>a. fst a \<noteq> target) rs) =
      map (\<lambda>a. if others > 0 then (10000 - t) * snd a div others else 0) xs"
    unfolding rs xs_def by (induction plan) auto
  show nn: "\<forall>r \<in> set rs. 0 \<le> snd r"
    using assms(1-3) o by (auto simp: rs full_plan_def pos_imp_zdiv_nonneg_iff)
  show "sum_list (map snd (filter (\<lambda>a. fst a \<noteq> target) rs)) \<le> 10000 - t"
  proof (cases "others > 0")
    case True
    then have "sum_list (map snd (filter (\<lambda>a. fst a \<noteq> target) rs)) * others \<le> (10000 - t) * others"
      using floor_shares(1) [OF True _ pos, of "10000 - t"] assms(3) by (simp add: part others_def)
    then show ?thesis using True by simp
  qed (use assms(3) part in simp)
  have "target \<in> fst ` set rs" "distinct (map fst rs)"
    using assms(1,4) by (simp_all add: rs_def full_plan_def flip: set_map)
  then obtain v where v: "filter (\<lambda>a. fst a = target) rs = [(target, v)]" "(target, v) \<in> set rs"
    using filter_key by metis
  moreover from v(2) have "v = t" by (auto simp: rs)
  ultimately show "(target, t) \<in> set rs"
    "sum_list (map snd rs) = t + sum_list (map snd (filter (\<lambda>a. fst a \<noteq> target) rs))"
    using sum_list_filter_split [of snd rs "\<lambda>a. fst a = target"] by simp_all
qed

lemma full_plan_sums:
  assumes "full_plan plan"
  shows "sum_i64 (map snd plan) = 10000"
    "sum_i64 (map snd (filter P plan)) = sum_list (map snd (filter P plan))"
proof -
  have nn: "0 \<le> sum_list (map snd (filter Q plan))" for Q
    using assms by (intro sum_list_nonneg) (auto simp: full_plan_def)
  show "sum_i64 (map snd plan) = 10000" using assms by (simp add: full_plan_def sum_i64_eq i64_abs)
  have "sum_list (map snd plan) = sum_list (map snd (filter P plan)) + sum_list (map snd (filter (\<lambda>a. \<not> P a) plan))"
    by (rule sum_list_filter_split)
  then have "sum_list (map snd (filter P plan)) \<le> 10000"
    using nn [of "\<lambda>a. \<not> P a"] assms by (simp add: full_plan_def)
  then show "sum_i64 (map snd (filter P plan)) = sum_list (map snd (filter P plan))"
    using nn [of P] by (simp add: sum_i64_eq i64_abs)
qed

lemma reshare_eq:
  assumes "full_plan plan" "0 \<le> t" "t \<le> 10000"
  shows "map (\<lambda>a. if fst a = target then (fst a, t)
      else (fst a, other_share target (i64 (10000 - t))
        (sum_i64 (map snd (filter (\<lambda>a. fst a \<noteq> target) plan))) a)) plan = reshare target t plan"
proof -
  have r: "i64 (10000 - t) = 10000 - t" using assms(2,3) by (simp add: i64_abs)
  have "other_share target (10000 - t) others a =
      (if others > 0 then (10000 - t) * snd a div others else 0)" if "a \<in> set plan" for a others
  proof -
    have a: "0 \<le> snd a" "snd a \<le> 10000" using assms(1) that by (simp_all add: full_plan_def)
    have "0 \<le> (10000 - t) * snd a" "(10000 - t) * snd a \<le> 10000 * 10000"
      using a assms(2,3) by (simp, intro mult_mono) simp_all
    then show ?thesis by (simp add: other_share_def i64_abs sdiv_nonneg)
  qed
  then show ?thesis
    unfolding reshare_def Let_def r full_plan_sums(2) [OF assms(1)] by (intro map_cong) auto
qed

lemma apply_leftover_full:
  assumes "\<forall>r \<in> set rs. 0 \<le> snd r \<and> snd r \<le> 10000" "0 < k" "k \<le> 10000" "target \<in> fst ` set rs"
  shows "map fst (apply_leftover rs target k) = map fst rs"
    "sum_list (map snd (apply_leftover rs target k)) = sum_list (map snd rs) + k"
    "\<forall>r \<in> set (apply_leftover rs target k). 0 \<le> snd r"
    "(\<exists>r \<in> set rs. fst r \<noteq> target) \<Longrightarrow> (target, t) \<in> set rs \<Longrightarrow>
     (target, t) \<in> set (apply_leftover rs target k)"
proof -
  have small: "\<forall>r \<in> set rs. 0 \<le> snd r \<and> snd r + k < 2 ^ 63" using assms(1,3) by fastforce
  show "map fst (apply_leftover rs target k) = map fst rs"
    "sum_list (map snd (apply_leftover rs target k)) = sum_list (map snd rs) + k"
    "\<forall>r \<in> set (apply_leftover rs target k). 0 \<le> snd r"
    "(\<exists>r \<in> set rs. fst r \<noteq> target) \<Longrightarrow> (target, t) \<in> set rs \<Longrightarrow>
     (target, t) \<in> set (apply_leftover rs target k)"
  proof (atomize (full), cases "largest_other_index rs target")
    case None
    then have "\<not> (\<exists>r \<in> set rs. fst r \<noteq> target \<and> snd r > - 1)"
      using best_other_found [of None rs target "- 1" 0 "length canonical_order"]
      by (auto simp: largest_other_index_def)
    then have "\<not> (\<exists>r \<in> set rs. fst r \<noteq> target)" using assms(1) by fastforce
    moreover have "apply_leftover rs target k = add_to_target target k rs"
      using None assms(2) by (simp add: apply_leftover_def)
    ultimately show "(map fst (apply_leftover rs target k) = map fst rs \<and>
       sum_list (map snd (apply_leftover rs target k)) = sum_list (map snd rs) + k) \<and>
       (\<forall>r \<in> set (apply_leftover rs target k). 0 \<le> snd r) \<and>
       ((\<exists>r \<in> set rs. fst r \<noteq> target) \<longrightarrow> (target, t) \<in> set rs \<longrightarrow>
        (target, t) \<in> set (apply_leftover rs target k))"
      using add_to_target_sum [OF assms(4), of k] add_to_target_nonneg [OF small] small assms(2)
      by (auto simp: abs_less_iff)
  next
    case (Some i)
    then have i: "i < length rs" "fst (rs ! i) \<noteq> target"
      using best_other_index [of target rs 0 None "- 1" _ i] by (auto simp: largest_other_index_def)
    have "apply_leftover rs target k = add_points i k rs"
      using Some assms(2) by (simp add: apply_leftover_def)
    moreover have "sum_list (map snd (add_points i k rs)) = sum_list (map snd rs) + k"
      using add_points_sum [OF i(1), of k] small assms(2) i(1) by simp
    moreover have "\<forall>r \<in> set (add_points i k rs). 0 \<le> snd r"
      using small assms(2) i(1) set_update_subset_insert [of rs i] by (fastforce simp: add_points_def i64_abs)
    moreover have "(target, t) \<in> set (add_points i k rs)" if mem: "(target, t) \<in> set rs"
    proof -
      obtain j where "j < length rs" "rs ! j = (target, t)" 
        using mem by (auto simp: in_set_conv_nth)
      moreover from this have "j \<noteq> i" using i(2) by auto
      ultimately have "add_points i k rs ! j = (target, t)" "j < length (add_points i k rs)"
        by (simp_all add: add_points_def)
      then show ?thesis using nth_mem by fastforce
    qed
    ultimately show "(map fst (apply_leftover rs target k) = map fst rs \<and>
       sum_list (map snd (apply_leftover rs target k)) = sum_list (map snd rs) + k) \<and>
       (\<forall>r \<in> set (apply_leftover rs target k). 0 \<le> snd r) \<and>
       ((\<exists>r \<in> set rs. fst r \<noteq> target) \<longrightarrow> (target, t) \<in> set rs \<longrightarrow>
        (target, t) \<in> set (apply_leftover rs target k))" by simp
  qed
qed

lemma list_sum_bound:
  fixes rs :: "(root_slug \<times> int) list"
  assumes "\<forall>r \<in> set rs. 0 \<le> snd r" "r \<in> set rs"
  shows "snd r \<le> sum_list (map snd rs)"
  using assms by (intro member_le_sum_list) auto

lemma edit_plan:
  assumes "full_plan plan" "target \<in> fst ` set plan" "0 \<le> bp_int bp" "bp_int bp \<le> 10000"
  shows "\<exists>plan'. decide_edit_percentage plan target bp = Inr plan' \<and>
    map fst plan' = map fst plan \<and> full_plan plan' \<and>
    ((\<exists>a \<in> set plan. fst a \<noteq> target) \<longrightarrow> (target, bp_int bp) \<in> set plan')"
proof -
  define t where "t = bp_int bp"
  note assms = assms [folded t_def]
  have bp: "bp = BasisPoints t" by (simp add: t_def)
  define rs where "rs = reshare target t plan"
  define assigned where "assigned = sum_list (map snd (filter (\<lambda>a. fst a \<noteq> target) rs))"
  define k where "k = 10000 - t - assigned"
  note b = reshare_bounds [OF assms(1,3,4,2), folded rs_def, folded assigned_def]
  have slugs: "map fst rs = map fst plan" by (simp add: rs_def)
  have "plan \<noteq> []" using assms(2) by auto
  have a: "0 \<le> assigned" unfolding assigned_def using b(1) by (intro sum_list_nonneg) auto
  have k: "0 \<le> k" "k \<le> 10000" using a b(2) assms(3) by (simp_all add: k_def)
  have tot: "sum_list (map snd rs) = t + assigned" by (rule b(4))
  have le: "\<forall>r \<in> set rs. 0 \<le> snd r \<and> snd r \<le> 10000"
    using list_sum_bound [OF b(1)] b(1,2) tot by fastforce
  have "sum_i64 (map snd (filter (\<lambda>a. fst a \<noteq> target) rs)) = assigned"
    using a b(2) assms(3) by (simp add: sum_i64_eq assigned_def [symmetric] i64_abs)
  moreover have "i64 (i64 (10000 - t) - assigned) = k"
    using a b(2) assms(3,4) by (simp add: k_def i64_abs)
  ultimately have d: "decide_edit_percentage plan target (BasisPoints t) =
      Inr (if k \<noteq> 0 then apply_leftover rs target k else rs)"
    using \<open>plan \<noteq> []\<close> assms(2) full_plan_sums(1) [OF assms(1)]
    unfolding decide_edit_percentage_def Let_def reshare_eq [OF assms(1,3,4)] basis_points.sel
    by (simp add: rs_def [symmetric] reshare_eq [OF assms(1,3,4)])
  have tin: "target \<in> fst ` set rs" using assms(2) slugs by (metis list.set_map)
  have other: "(\<exists>a \<in> set plan. fst a \<noteq> target) \<longleftrightarrow> (\<exists>a \<in> set rs. fst a \<noteq> target)"
    using slugs by (metis (no_types, lifting) imageE image_eqI list.set_map)
  let ?r = "if k \<noteq> 0 then apply_leftover rs target k else rs"
  have res: "map fst ?r = map fst rs" "sum_list (map snd ?r) = 10000" "\<forall>r \<in> set ?r. 0 \<le> snd r"
    "(\<exists>r \<in> set rs. fst r \<noteq> target) \<Longrightarrow> (target, t) \<in> set ?r"
    using apply_leftover_full [OF le _ k(2) tin] b(1,3) tot k
    by (auto simp: k_def)
  have "full_plan ?r"
    unfolding full_plan_def using res(1-3) list_sum_bound [OF res(3)] slugs assms(1)
    by (auto simp: full_plan_def)
  then show ?thesis using d res(1,4) slugs other by (auto simp: bp)
qed

text \<open>
  Editing the percentage of a category of a full plan gives a full plan again: the same
  categories in the same order, no negative share, 100 per cent in all, and the target at the
  percentage asked for (a plan of one category keeps its 100 per cent).
\<close>

lemma edit_percentage_full:
  assumes "full_plan plan" "target \<in> fst ` set plan" "0 \<le> t" "t \<le> 10000"
  shows "\<exists>plan'. decide_edit_percentage plan target (BasisPoints t) = Inr plan' \<and>
    map fst plan' = map fst plan \<and> full_plan plan' \<and>
    ((\<exists>a \<in> set plan. fst a \<noteq> target) \<longrightarrow> (target, t) \<in> set plan')"
  using edit_plan [of plan target "BasisPoints t"] assms by simp

lemma edit_percentage_full_witness:
  "\<exists>plan'. decide_edit_percentage [(CustoFixo, 5000), (Prazeres, 3000), (Metas, 2000)] Prazeres
     (BasisPoints 4999) = Inr plan' \<and> full_plan plan' \<and> (Prazeres, 4999) \<in> set plan'"
  using edit_percentage_full
    [of "[(CustoFixo, 5000), (Prazeres, 3000), (Metas, 2000)]" Prazeres 4999]
  by (auto simp: full_plan_def)

end
