(* ===== verification/BudgetStore.thy ===== *)
theory BudgetStore
  imports BudgetPlan "HOL-Library.Multiset"
begin

text \<open>
  The tables of budgets and allocations (\<open>budget_repository.go\<close>) and the use cases of
  \<open>internal/budgets/application/usecases\<close> that change them: creating a draft, activating it,
  changing its total or the share of a category, preparing later months, deleting a draft. Every
  use case runs in one database transaction: on an error nothing it wrote remains.
\<close>

section \<open>The tables\<close>

text \<open>The rows of \<open>budgets\<close> carry no allocations; those are rows of their own table.\<close>

record plan_db =
  db_budgets :: "budget list"
  db_allocs :: "allocation list"

definition alloc_key :: "allocation \<Rightarrow> uuid \<times> root_slug" where
  "alloc_key a = (al_budget_id a, al_root_slug a)"

definition scan_budget :: "plan_db \<Rightarrow> budget \<Rightarrow> budget" where
  "scan_budget db row =
     row\<lparr>bu_allocations := sort_key (\<lambda>a. root_slug_string (al_root_slug a))
           (filter (\<lambda>a. al_budget_id a = bu_id row) (db_allocs db))\<rparr>"

definition get_by_user_competence :: "uuid \<Rightarrow> competence \<Rightarrow> plan_db \<Rightarrow> budget_error + budget" where
  "get_by_user_competence u c db =
     (case find (\<lambda>b. bu_user_id b = u \<and> bu_competence b = c) (db_budgets db) of
        None \<Rightarrow> Inl ErrBudgetNotFound
      | Some b \<Rightarrow> Inr (scan_budget db b))"

definition get_active_by_user_competence ::
  "uuid \<Rightarrow> competence \<Rightarrow> plan_db \<Rightarrow> budget_error + budget" where
  "get_active_by_user_competence u c db =
     (case find (\<lambda>b. bu_user_id b = u \<and> bu_competence b = c \<and> bu_state b = BudgetActive)
             (db_budgets db) of
        None \<Rightarrow> Inl ErrBudgetNotFound
      | Some b \<Rightarrow> Inr (scan_budget db b))"

definition upsert_allocation :: "allocation \<Rightarrow> plan_db \<Rightarrow> budget_error + plan_db" where
  "upsert_allocation a db =
     (if al_basis_points a < 0 \<or> al_basis_points a > 10000 \<or>
         al_budget_id a \<notin> bu_id ` set (db_budgets db)
      then Inl ErrBudgetDatabase
      else if alloc_key a \<in> alloc_key ` set (db_allocs db)
      then Inr (db\<lparr>db_allocs :=
             map (\<lambda>r. if alloc_key r = alloc_key a
                      then r\<lparr>al_basis_points := al_basis_points a,
                             al_planned_cents := al_planned_cents a\<rparr>
                      else r) (db_allocs db)\<rparr>)
      else Inr (db\<lparr>db_allocs := db_allocs db @ [a]\<rparr>))"

fun upsert_allocations :: "allocation list \<Rightarrow> plan_db \<Rightarrow> budget_error + plan_db" where
  "upsert_allocations [] db = Inr db"
| "upsert_allocations (a # as) db =
     (case upsert_allocation a db of Inl e \<Rightarrow> Inl e | Inr db' \<Rightarrow> upsert_allocations as db')"

definition create_draft :: "budget \<Rightarrow> plan_db \<Rightarrow> budget_error + plan_db" where
  "create_draft b db =
     (if bu_id b \<in> bu_id ` set (db_budgets db) \<or>
         (bu_user_id b, bu_competence b) \<in> (\<lambda>r. (bu_user_id r, bu_competence r)) ` set (db_budgets db)
      then Inl ErrBudgetConflict
      else if \<not> month_digits (comp_value (bu_competence b)) then Inl ErrBudgetDatabase
      else upsert_allocations (bu_allocations b)
             (db\<lparr>db_budgets := db_budgets db @ [b\<lparr>bu_allocations := []\<rparr>]\<rparr>))"

definition activate_row :: "budget \<Rightarrow> plan_db \<Rightarrow> budget_error + plan_db" where
  "activate_row b db =
     (let hit = (\<lambda>r. bu_id r = bu_id b \<and> bu_user_id r = bu_user_id b)
      in if filter hit (db_budgets db) = [] then Inl ErrBudgetNotFound
         else upsert_allocations (bu_allocations b)
           (db\<lparr>db_budgets :=
              map (\<lambda>r. if hit r
                       then r\<lparr>bu_state := bu_state b, bu_total_cents := bu_total_cents b,
                              bu_activated_at := bu_activated_at b, bu_updated_at := bu_updated_at b\<rparr>
                       else r) (db_budgets db)\<rparr>))"

definition delete_draft :: "uuid \<Rightarrow> competence \<Rightarrow> plan_db \<Rightarrow> budget_error + plan_db" where
  "delete_draft u c db =
     (let hit = (\<lambda>r. bu_user_id r = u \<and> bu_competence r = c \<and> bu_state r = BudgetDraft);
          gone = bu_id ` set (filter hit (db_budgets db))
      in if filter hit (db_budgets db) = [] then Inl ErrBudgetNotFound
         else Inr (db\<lparr>db_budgets := filter (\<lambda>r. \<not> hit r) (db_budgets db),
                      db_allocs := filter (\<lambda>a. al_budget_id a \<notin> gone) (db_allocs db)\<rparr>))"

definition list_future :: "uuid \<Rightarrow> competence \<Rightarrow> plan_db \<Rightarrow> budget list" where
  "list_future u from db =
     map (scan_budget db)
       (sort_key (\<lambda>b. comp_value (bu_competence b))
         (filter (\<lambda>b. bu_user_id b = u \<and> comp_before from (bu_competence b)) (db_budgets db)))"

section \<open>The use cases\<close>

record create_budget_cmd =
  cb_user_id :: uuid
  cb_competence :: competence
  cb_total_cents :: int
  cb_allocations :: "(root_slug \<times> int) list"

text \<open>An allocation the command cannot read is an error of its own and adds no points.\<close>

fun read_allocations ::
  "(string \<times> int) list \<Rightarrow> budget_error list \<times> (root_slug \<times> int) list" where
  "read_allocations [] = ([], [])"
| "read_allocations ((s, bp) # as) =
     (let (errs, items) = read_allocations as
      in case (parse_root_slug s, new_basis_points bp) of
           (Inr slug, Inr b) \<Rightarrow> (errs, (slug, bp_int b) # items)
         | _ \<Rightarrow> (ErrCommandInvalidAllocation # errs, items))"

definition new_create_budget_command ::
  "(string \<Rightarrow> uuid option) \<Rightarrow> string \<Rightarrow> string \<Rightarrow> int \<Rightarrow> (string \<times> int) list \<Rightarrow>
   budget_error list + create_budget_cmd" where
  "new_create_budget_command parse user raw_comp cents allocs =
     (let (aerrs, items) = read_allocations allocs;
          errs = err_if (parse user = None) ErrCommandInvalidUserID @
                 err_if (\<not> month_digits raw_comp) ErrCommandInvalidCompetence @
                 err_if (cents \<le> 0) ErrCommandInvalidTotalCents @ aerrs @
                 err_if (sum_i64 (map snd items) \<noteq> 10000) ErrCommandInvalidAllocation
      in case parse user of
           Some u \<Rightarrow> if errs = []
             then Inr \<lparr>cb_user_id = u, cb_competence = Competence raw_comp, cb_total_cents = cents,
                       cb_allocations = items\<rparr>
             else Inl errs
         | None \<Rightarrow> Inl errs)"

text \<open>The loop that adds the allocations of the command, with nothing planned yet.\<close>

fun add_plan :: "(root_slug \<times> int) list \<Rightarrow> budget \<Rightarrow> budget" where
  "add_plan [] b = b"
| "add_plan ((s, bp) # items) b = add_plan items (add_allocation (new_allocation (bu_id b) s bp 0) b)"

definition create_budget_persist ::
  "uuid \<Rightarrow> gotime \<Rightarrow> create_budget_cmd \<Rightarrow> plan_db \<Rightarrow> budget_error + budget \<times> plan_db" where
  "create_budget_persist i now cmd db =
     (let b = add_plan (cb_allocations cmd)
                (new_budget i (cb_user_id cmd) (cb_competence cmd) (cb_total_cents cmd) now)
      in case create_draft b db of Inl e \<Rightarrow> Inl e | Inr db' \<Rightarrow> Inr (b, db'))"

definition activate_persist ::
  "gotime \<Rightarrow> uuid \<Rightarrow> competence \<Rightarrow> plan_db \<Rightarrow> budget_error + budget \<times> plan_db" where
  "activate_persist now u c db =
     (case get_by_user_competence u c db of
        Inl e \<Rightarrow> Inl e
      | Inr b \<Rightarrow>
          if bu_state b = BudgetActive then Inl ErrBudgetAlreadyActive
          else case activate now (set_allocations
                      (shared_allocations (bu_id b) (bu_total_cents b) (alloc_inputs b)) b) of
            Inl e \<Rightarrow> Inl e
          | Inr b' \<Rightarrow> (case activate_row b' db of Inl e \<Rightarrow> Inl e | Inr db' \<Rightarrow> Inr (b', db')))"

definition get_active_or_any :: "uuid \<Rightarrow> competence \<Rightarrow> plan_db \<Rightarrow> budget_error + budget" where
  "get_active_or_any u c db =
     (case get_active_by_user_competence u c db of
        Inl e \<Rightarrow> if e = ErrBudgetNotFound then get_by_user_competence u c db else Inl e
      | Inr b \<Rightarrow> Inr b)"

text \<open>
  A change refused because the budget is a draft activates the draft with the new numbers; both
  editing use cases end this way.
\<close>

definition or_activate_draft ::
  "gotime \<Rightarrow> budget \<Rightarrow> int \<Rightarrow> allocation list \<Rightarrow> budget_error + budget \<Rightarrow> budget_error + budget" where
  "or_activate_draft now b cents allocs changed =
     (case changed of
        Inr b' \<Rightarrow> Inr b'
      | Inl e \<Rightarrow>
          if bu_state b \<noteq> BudgetActive
          then activate now (hydrate_budget (bu_id b) (bu_user_id b) (bu_competence b) cents
                 BudgetDraft None (bu_auto_draft b) allocs (bu_created_at b) now)
          else Inl e)"

definition edit_total_persist ::
  "gotime \<Rightarrow> uuid \<Rightarrow> competence \<Rightarrow> int \<Rightarrow> plan_db \<Rightarrow> budget_error + budget \<times> plan_db" where
  "edit_total_persist now u c cents db =
     (case get_active_or_any u c db of
        Inl e \<Rightarrow> Inl e
      | Inr b \<Rightarrow>
          let allocs = shared_allocations (bu_id b) cents (alloc_inputs b)
          in case or_activate_draft now b cents allocs (change_total cents allocs now b) of
               Inl e \<Rightarrow> Inl e
             | Inr b' \<Rightarrow> (case activate_row b' db of Inl e \<Rightarrow> Inl e | Inr db' \<Rightarrow> Inr (b', db')))"

definition edit_percentage_persist ::
  "gotime \<Rightarrow> uuid \<Rightarrow> competence \<Rightarrow> root_slug \<Rightarrow> basis_points \<Rightarrow> plan_db \<Rightarrow>
   budget_error + budget \<times> plan_db" where
  "edit_percentage_persist now u c slug bp db =
     (case get_active_or_any u c db of
        Inl e \<Rightarrow> Inl e
      | Inr b \<Rightarrow>
          (case decide_edit_percentage (alloc_inputs b) slug bp of
             Inl e \<Rightarrow> Inl e
           | Inr plan \<Rightarrow>
               let allocs = shared_allocations (bu_id b) (bu_total_cents b) plan
               in case or_activate_draft now b (bu_total_cents b) allocs
                         (rebalance_allocations allocs now b) of
                    Inl e \<Rightarrow> Inl e
                  | Inr b' \<Rightarrow> (case activate_row b' db of Inl e \<Rightarrow> Inl e | Inr db' \<Rightarrow> Inr (b', db'))))"

definition delete_draft_persist :: "uuid \<Rightarrow> competence \<Rightarrow> plan_db \<Rightarrow> budget_error + plan_db" where
  "delete_draft_persist u c db =
     (case get_by_user_competence u c db of
        Inl e \<Rightarrow> Inl e
      | Inr b \<Rightarrow> if bu_state b = BudgetActive then Inl ErrBudgetAlreadyActive
                 else delete_draft u c db)"

definition ensure_exists ::
  "uuid \<Rightarrow> gotime \<Rightarrow> uuid \<Rightarrow> competence \<Rightarrow> plan_db \<Rightarrow> budget_error + plan_db" where
  "ensure_exists i now u c db =
     (case get_by_user_competence u c db of
        Inr b \<Rightarrow> Inr db
      | Inl e \<Rightarrow>
          if e \<noteq> ErrBudgetNotFound then Inl e
          else case create_draft (new_auto_draft_budget i u c now) db of
            Inl e' \<Rightarrow> if e' = ErrBudgetConflict then Inr db else Inl e'
          | Inr db' \<Rightarrow> Inr db')"

section \<open>Later months\<close>

datatype recurrence_status =
  RecurrenceCreated | RecurrenceUpdated | RecurrenceCompletedFromDraft | RecurrenceConflict
  | RecurrenceFailure

text \<open>The draft a later month becomes when it is rewritten from a source.\<close>

definition rebased_draft :: "gotime \<Rightarrow> budget \<Rightarrow> budget \<Rightarrow> budget" where
  "rebased_draft now source b =
     hydrate_budget (bu_id b) (bu_user_id b) (bu_competence b) (bu_total_cents source) BudgetDraft
       None (bu_auto_draft b) (rebuild_allocations (bu_id b) source) (bu_created_at b) now"

definition process_month ::
  "uuid \<Rightarrow> gotime \<Rightarrow> uuid \<Rightarrow> competence \<Rightarrow> budget \<Rightarrow> plan_db \<Rightarrow> recurrence_status \<times> plan_db" where
  "process_month i now u c source db =
     (case get_by_user_competence u c db of
        Inr b \<Rightarrow>
          if bu_state b = BudgetActive then (RecurrenceConflict, db)
          else (case activate_row (rebased_draft now source b) db of
                  Inl e \<Rightarrow> (RecurrenceFailure, db)
                | Inr db' \<Rightarrow>
                    (if bu_auto_draft b then RecurrenceCompletedFromDraft else RecurrenceUpdated, db'))
      | Inl e \<Rightarrow>
          if e \<noteq> ErrBudgetNotFound then (RecurrenceFailure, db)
          else (case clone_budget i source c u now of
                  Inl es \<Rightarrow> (RecurrenceFailure, db)
                | Inr b \<Rightarrow>
                    (case create_draft b db of
                       Inl e' \<Rightarrow> if e' = ErrBudgetConflict then (RecurrenceConflict, db)
                                 else (RecurrenceFailure, db)
                     | Inr db' \<Rightarrow> (RecurrenceCreated, db'))))"

fun process_months ::
  "(nat \<Rightarrow> uuid) \<Rightarrow> gotime \<Rightarrow> uuid \<Rightarrow> competence \<Rightarrow> budget \<Rightarrow> nat \<Rightarrow> plan_db \<Rightarrow>
   (competence \<times> recurrence_status) list \<times> plan_db" where
  "process_months fresh now u c source 0 db = ([], db)"
| "process_months fresh now u c source (Suc n) db =
     (let c' = comp_next c;
          (st, db1) = process_month (fresh n) now u c' source db;
          (rest, db2) = process_months fresh now u c' source n db1
      in ((c', st) # rest, db2))"

definition create_recurrence ::
  "(nat \<Rightarrow> uuid) \<Rightarrow> gotime \<Rightarrow> uuid \<Rightarrow> competence \<Rightarrow> int \<Rightarrow> plan_db \<Rightarrow>
   budget_error + (competence \<times> recurrence_status) list \<times> plan_db" where
  "create_recurrence fresh now u c months db =
     (case get_by_user_competence u c db of
        Inl e \<Rightarrow> Inl ErrRecurrenceSourceInvalid
      | Inr source \<Rightarrow>
          (case validate_recurrence_source source of
             Some e \<Rightarrow> Inl e
           | None \<Rightarrow> Inr (process_months fresh now u c source (nat months) db)))"

fun sync_months ::
  "gotime \<Rightarrow> budget \<Rightarrow> budget list \<Rightarrow> plan_db \<Rightarrow> budget_error + string list \<times> string list \<times> plan_db" where
  "sync_months now source [] db = Inr ([], [], db)"
| "sync_months now source (b # bs) db =
     (if bu_state b = BudgetActive
      then (case sync_months now source bs db of
              Inl e \<Rightarrow> Inl e
            | Inr (upd, skip, db') \<Rightarrow> Inr (upd, comp_value (bu_competence b) # skip, db'))
      else (case activate_row (rebased_draft now source b) db of
              Inl e \<Rightarrow> Inl e
            | Inr db1 \<Rightarrow>
                (case sync_months now source bs db1 of
                   Inl e \<Rightarrow> Inl e
                 | Inr (upd, skip, db') \<Rightarrow> Inr (comp_value (bu_competence b) # upd, skip, db'))))"

definition sync_future_budgets ::
  "gotime \<Rightarrow> uuid \<Rightarrow> competence \<Rightarrow> plan_db \<Rightarrow> budget_error + string list \<times> string list \<times> plan_db" where
  "sync_future_budgets now u c db =
     (case get_active_by_user_competence u c db of
        Inl e \<Rightarrow> Inl e
      | Inr source \<Rightarrow>
          (case validate_recurrence_source source of
             Some e \<Rightarrow> Inl e
           | None \<Rightarrow> sync_months now source (list_future u c db) db))"

section \<open>The invariant of the tables\<close>

definition plan_of :: "plan_db \<Rightarrow> uuid \<Rightarrow> allocation list" where
  "plan_of db i = filter (\<lambda>a. al_budget_id a = i) (db_allocs db)"

definition plan_wf :: "plan_db \<Rightarrow> bool" where
  "plan_wf db \<longleftrightarrow>
     distinct (map bu_id (db_budgets db)) \<and>
     distinct (map (\<lambda>b. (bu_user_id b, bu_competence b)) (db_budgets db)) \<and>
     distinct (map alloc_key (db_allocs db)) \<and>
     (\<forall>a \<in> set (db_allocs db). 0 \<le> al_basis_points a \<and> al_basis_points a \<le> 10000 \<and>
        al_budget_id a \<in> bu_id ` set (db_budgets db))"

text \<open>
  A plan in force: a positive total, the percentages at 100 and, where the total is not so large
  that the arithmetic wraps, the planned cents adding up to the total.
\<close>

definition plan_in_force :: "int \<Rightarrow> allocation list \<Rightarrow> bool" where
  "plan_in_force cents allocs \<longleftrightarrow>
     0 < cents \<and> sum_list (map al_basis_points allocs) = 10000 \<and>
     (cents * 10000 < 2 ^ 62 \<longrightarrow> sum_list (map al_planned_cents allocs) = cents)"

definition active_ok :: "plan_db \<Rightarrow> bool" where
  "active_ok db \<longleftrightarrow>
     (\<forall>b \<in> set (db_budgets db). bu_state b = BudgetActive \<longrightarrow>
        plan_in_force (bu_total_cents b) (plan_of db (bu_id b)))"

lemma sum_list_mset_cong:
  "mset xs = mset ys \<Longrightarrow> sum_list (map f xs) = sum_list (map f ys)" for f :: "'a \<Rightarrow> int"
  by (metis mset_map sum_mset_sum_list)

lemma plan_in_force_mset: "mset xs = mset ys \<Longrightarrow> plan_in_force c xs \<longleftrightarrow> plan_in_force c ys"
  using sum_list_mset_cong [of xs ys al_basis_points] sum_list_mset_cong [of xs ys al_planned_cents]
  by (simp add: plan_in_force_def)

lemma upsert_allocation_spec:
  assumes "upsert_allocation a db = Inr db'" "plan_wf db"
  shows "db_budgets db' = db_budgets db" "plan_wf db'"
    "mset (plan_of db' i) =
       (if al_budget_id a = i
        then {#a#} + mset (filter (\<lambda>r. al_root_slug r \<noteq> al_root_slug a) (plan_of db i))
        else mset (plan_of db i))"
proof -
  have bp: "0 \<le> al_basis_points a" "al_basis_points a \<le> 10000"
      "al_budget_id a \<in> bu_id ` set (db_budgets db)"
    and res: "db' = db\<lparr>db_allocs :=
        if alloc_key a \<in> alloc_key ` set (db_allocs db)
        then map (\<lambda>r. if alloc_key r = alloc_key a
                      then r\<lparr>al_basis_points := al_basis_points a,
                             al_planned_cents := al_planned_cents a\<rparr> else r) (db_allocs db)
        else db_allocs db @ [a]\<rparr>"
    using assms(1) by (auto simp: upsert_allocation_def split: if_splits)
  show "db_budgets db' = db_budgets db" by (simp add: res)
  have new: "plan_wf db' \<and> mset (plan_of db' i) =
       (if al_budget_id a = i
        then {#a#} + mset (filter (\<lambda>r. al_root_slug r \<noteq> al_root_slug a) (plan_of db i))
        else mset (plan_of db i))"
  proof (cases "alloc_key a \<in> alloc_key ` set (db_allocs db)")
    case True
    then obtain r xs ys where split: "db_allocs db = xs @ r # ys" "alloc_key r = alloc_key a"
      by (metis imageE split_list)
    have "distinct (map alloc_key (xs @ r # ys))" using assms(2) split(1) by (simp add: plan_wf_def)
    then have others: "\<forall>x \<in> set xs \<union> set ys. alloc_key x \<noteq> alloc_key a"
      using split(2) by (auto simp: image_iff)
    have same: "r\<lparr>al_basis_points := al_basis_points a, al_planned_cents := al_planned_cents a\<rparr> = a"
      using split(2) by (simp add: alloc_key_def)
    have keep: "map (\<lambda>r. if alloc_key r = alloc_key a
        then r\<lparr>al_basis_points := al_basis_points a, al_planned_cents := al_planned_cents a\<rparr>
        else r) zs = zs" if "\<forall>x \<in> set zs. alloc_key x \<noteq> alloc_key a" for zs
      using that by (intro map_idI) auto
    have "db_allocs db' = xs @ a # ys"
      using True others by (simp add: res split same keep)
    moreover have "filter (\<lambda>r. al_budget_id r = i \<and> al_root_slug r \<noteq> al_root_slug a) zs =
        filter (\<lambda>r. al_budget_id r = i) zs"
      if "\<forall>x \<in> set zs. alloc_key x \<noteq> alloc_key a" "al_budget_id a = i" for zs
      using that by (intro filter_cong) (auto simp: alloc_key_def)
    ultimately show ?thesis
      using assms(2) bp split others
      by (auto simp: plan_wf_def plan_of_def res alloc_key_def conj_commute)
  next
    case False
    then have "filter (\<lambda>r. al_budget_id r = i \<and> al_root_slug r \<noteq> al_root_slug a) (db_allocs db) =
        filter (\<lambda>r. al_budget_id r = i) (db_allocs db)" if "al_budget_id a = i"
      using that by (intro filter_cong) (auto simp: alloc_key_def image_iff)
    then show ?thesis
      using False assms(2) bp by (auto simp: plan_wf_def plan_of_def res conj_commute)
  qed
  then show "plan_wf db'" "mset (plan_of db' i) =
       (if al_budget_id a = i
        then {#a#} + mset (filter (\<lambda>r. al_root_slug r \<noteq> al_root_slug a) (plan_of db i))
        else mset (plan_of db i))" by blast+
qed

lemma upsert_allocations_wf:
  assumes "upsert_allocations as db = Inr db'" "plan_wf db"
  shows "db_budgets db' = db_budgets db" "plan_wf db'"
    "i \<notin> al_budget_id ` set as \<Longrightarrow> mset (plan_of db' i) = mset (plan_of db i)"
proof -
  have "db_budgets db' = db_budgets db \<and> plan_wf db' \<and>
      (i \<notin> al_budget_id ` set as \<longrightarrow> mset (plan_of db' i) = mset (plan_of db i))"
    using assms
  proof (induction as arbitrary: db)
    case (Cons a as)
    then obtain d where d: "upsert_allocation a db = Inr d" "upsert_allocations as d = Inr db'"
      by (auto simp: result_simps)
    note s = upsert_allocation_spec [OF d(1) Cons.prems(2)]
    show ?case using s(1) s(3) [of i] Cons.IH [OF d(2) s(2)] by auto
  qed simp
  then show "db_budgets db' = db_budgets db" "plan_wf db'"
    "i \<notin> al_budget_id ` set as \<Longrightarrow> mset (plan_of db' i) = mset (plan_of db i)" by blast+
qed

lemma upsert_allocations_plan:
  assumes "upsert_allocations as db = Inr db'" "plan_wf db" "distinct (map al_root_slug as)"
    "\<forall>a \<in> set as. al_budget_id a = i"
  shows "mset (plan_of db' i) =
    mset as + mset (filter (\<lambda>r. al_root_slug r \<notin> al_root_slug ` set as) (plan_of db i))"
  using assms
proof (induction as arbitrary: db)
  case (Cons a as)
  obtain d where d: "upsert_allocation a db = Inr d" "upsert_allocations as d = Inr db'"
    using Cons.prems(1) by (auto simp: result_simps)
  note s = upsert_allocation_spec [OF d(1) Cons.prems(2)]
  have p: "mset (plan_of d i) =
      {#a#} + mset (filter (\<lambda>r. al_root_slug r \<noteq> al_root_slug a) (plan_of db i))"
    using s(3) [of i] Cons.prems(4) by simp
  have "mset (filter P (plan_of d i)) = filter_mset P (mset (plan_of d i))" for P by simp
  then have "mset (filter (\<lambda>r. al_root_slug r \<notin> al_root_slug ` set as) (plan_of d i)) =
      {#a#} + mset (filter (\<lambda>r. al_root_slug r \<notin> al_root_slug ` set (a # as)) (plan_of db i))"
    using Cons.prems(3) unfolding p
    by (simp add: filter_filter_mset conj_commute)
  moreover have "mset (plan_of db' i) =
      mset as + mset (filter (\<lambda>r. al_root_slug r \<notin> al_root_slug ` set as) (plan_of d i))"
    using Cons.prems by (intro Cons.IH [OF d(2) s(2)]) auto
  ultimately show ?case by simp
qed simp

text \<open>What writing a budget that is active asks of the budget that is written.\<close>

definition writable :: "plan_db \<Rightarrow> budget \<Rightarrow> bool" where
  "writable db b \<longleftrightarrow>
     (\<forall>a \<in> set (bu_allocations b). al_budget_id a = bu_id b) \<and>
     (bu_state b = BudgetActive \<longrightarrow>
        distinct (map al_root_slug (bu_allocations b)) \<and>
        al_root_slug ` set (plan_of db (bu_id b)) \<subseteq> al_root_slug ` set (bu_allocations b) \<and>
        plan_in_force (bu_total_cents b) (bu_allocations b))"

lemma plan_of_budgets [simp]: "plan_of (db\<lparr>db_budgets := bs\<rparr>) i = plan_of db i"
  by (simp add: plan_of_def)

lemma write_allocations_ok:
  assumes "upsert_allocations (bu_allocations b) db = Inr db'" "plan_wf db" "writable db b"
    "\<forall>r \<in> set (db_budgets db). bu_state r = BudgetActive \<longrightarrow>
       (if bu_id r = bu_id b then bu_state b = BudgetActive \<and> bu_total_cents r = bu_total_cents b
        else plan_in_force (bu_total_cents r) (plan_of db (bu_id r)))"
  shows "plan_wf db' \<and> active_ok db'"
proof -
  note w = upsert_allocations_wf [OF assms(1,2)]
  have "plan_in_force (bu_total_cents r) (plan_of db' (bu_id r))"
    if r: "r \<in> set (db_budgets db)" "bu_state r = BudgetActive" for r
  proof (cases "bu_id r = bu_id b")
    case True
    then have act: "bu_state b = BudgetActive" "bu_total_cents r = bu_total_cents b"
      using assms(4) r by (metis (full_types))+
    then have "mset (plan_of db' (bu_id r)) = mset (bu_allocations b)"
      using upsert_allocations_plan [OF assms(1,2), of "bu_id b"] assms(3) True
      by (auto simp: writable_def filter_empty_conv subset_iff)
    from plan_in_force_mset [OF this] show ?thesis
      using assms(3) act by (simp add: writable_def)
  next
    case False
    then have "bu_id r \<notin> al_budget_id ` set (bu_allocations b)"
      using assms(3) by (auto simp: writable_def)
    then have "mset (plan_of db' (bu_id r)) = mset (plan_of db (bu_id r))" by (rule w(3))
    from plan_in_force_mset [OF this] show ?thesis using assms(4) r False by simp
  qed
  then show ?thesis using w(1,2) by (simp add: active_ok_def)
qed

lemma activate_row_ok:
  assumes "activate_row b db = Inr db'" "plan_wf db" "active_ok db" "writable db b"
  shows "plan_wf db' \<and> active_ok db'"
proof -
  define hit where "hit r \<longleftrightarrow> bu_id r = bu_id b \<and> bu_user_id r = bu_user_id b" for r :: budget
  define f where "f r = (if hit r
      then r\<lparr>bu_state := bu_state b, bu_total_cents := bu_total_cents b,
             bu_activated_at := bu_activated_at b, bu_updated_at := bu_updated_at b\<rparr> else r)" for r
  define d where "d = db\<lparr>db_budgets := map f (db_budgets db)\<rparr>"
  have hits: "\<exists>r \<in> set (db_budgets db). hit r"
    and up: "upsert_allocations (bu_allocations b) d = Inr db'"
    using assms(1)
    by (auto simp: activate_row_def Let_def d_def f_def [abs_def] hit_def filter_empty_conv
        split: if_splits)
  have f [simp]: "bu_id (f r) = bu_id r" "bu_user_id (f r) = bu_user_id r"
    "bu_competence (f r) = bu_competence r" "hit r \<Longrightarrow> bu_state (f r) = bu_state b"
    "hit r \<Longrightarrow> bu_total_cents (f r) = bu_total_cents b" "\<not> hit r \<Longrightarrow> f r = r" for r
    by (simp_all add: f_def)
  have wf: "plan_wf d" using assms(2) by (simp add: plan_wf_def d_def comp_def image_image)
  have one: "hit r" if "r \<in> set (db_budgets db)" "bu_id r = bu_id b" for r
    using that hits assms(2) by (auto simp: plan_wf_def distinct_map inj_on_def hit_def)
  show ?thesis
  proof (rule write_allocations_ok [OF up wf])
    show "writable d b" using assms(4) by (simp add: writable_def d_def)
    show "\<forall>r \<in> set (db_budgets d). bu_state r = BudgetActive \<longrightarrow>
       (if bu_id r = bu_id b then bu_state b = BudgetActive \<and> bu_total_cents r = bu_total_cents b
        else plan_in_force (bu_total_cents r) (plan_of d (bu_id r)))"
    proof
      fix r' assume "r' \<in> set (db_budgets d)"
      then obtain r where r: "r \<in> set (db_budgets db)" "r' = f r" by (auto simp: d_def)
      show "bu_state r' = BudgetActive \<longrightarrow>
       (if bu_id r' = bu_id b then bu_state b = BudgetActive \<and> bu_total_cents r' = bu_total_cents b
        else plan_in_force (bu_total_cents r') (plan_of d (bu_id r')))"
        using one [OF r(1)] r assms(3)
        by (cases "hit r") (auto simp: d_def active_ok_def hit_def)
    qed
  qed
qed

lemma create_draft_ok:
  assumes "create_draft b db = Inr db'" "plan_wf db" "active_ok db" "bu_state b = BudgetDraft"
    "\<forall>a \<in> set (bu_allocations b). al_budget_id a = bu_id b"
  shows "plan_wf db' \<and> active_ok db'"
proof -
  let ?db = "db\<lparr>db_budgets := db_budgets db @ [b\<lparr>bu_allocations := []\<rparr>]\<rparr>"
  have new: "bu_id b \<notin> bu_id ` set (db_budgets db)"
      "(bu_user_id b, bu_competence b) \<notin> (\<lambda>r. (bu_user_id r, bu_competence r)) ` set (db_budgets db)"
    and up: "upsert_allocations (bu_allocations b) ?db = Inr db'"
    using assms(1) by (simp_all add: create_draft_def split: if_splits)
  have wf: "plan_wf ?db" using assms(2) new by (auto simp: plan_wf_def)
  show ?thesis
  proof (rule write_allocations_ok [OF up wf])
    show "writable ?db b" using assms(4,5) by (simp add: writable_def)
    show "\<forall>r \<in> set (db_budgets ?db). bu_state r = BudgetActive \<longrightarrow>
       (if bu_id r = bu_id b then bu_state b = BudgetActive \<and> bu_total_cents r = bu_total_cents b
        else plan_in_force (bu_total_cents r) (plan_of ?db (bu_id r)))"
      using assms(3,4) new(1) by (auto simp: active_ok_def image_iff)
  qed
qed

lemma delete_draft_ok:
  assumes "delete_draft u c db = Inr db'" "plan_wf db" "active_ok db"
  shows "plan_wf db' \<and> active_ok db'"
proof -
  let ?hit = "\<lambda>r. bu_user_id r = u \<and> bu_competence r = c \<and> bu_state r = BudgetDraft"
  let ?gone = "bu_id ` set (filter ?hit (db_budgets db))"
  have db': "db' = db\<lparr>db_budgets := filter (\<lambda>r. \<not> ?hit r) (db_budgets db),
      db_allocs := filter (\<lambda>a. al_budget_id a \<notin> ?gone) (db_allocs db)\<rparr>"
    using assms(1) by (simp add: delete_draft_def Let_def split: if_splits)
  have kept: "bu_id r \<notin> ?gone" if "r \<in> set (db_budgets db)" "\<not> ?hit r" for r
    using that assms(2) by (auto simp: plan_wf_def distinct_map inj_on_def)
  have "plan_wf db'"
    using assms(2) by (auto simp: plan_wf_def db' distinct_map_filter image_iff)
  moreover have "plan_of db' (bu_id r) = plan_of db (bu_id r)"
    if "r \<in> set (db_budgets db)" "\<not> ?hit r" for r
    using kept [OF that] by (simp add: plan_of_def db') (metis (mono_tags, lifting))
  then have "active_ok db'" using assms(3) by (auto simp: active_ok_def db')
  ultimately show ?thesis by simp
qed

section \<open>What the use cases read\<close>

lemma scan_budget_fields [simp]:
  "bu_id (scan_budget db r) = bu_id r" "bu_state (scan_budget db r) = bu_state r"
  "bu_user_id (scan_budget db r) = bu_user_id r" "bu_competence (scan_budget db r) = bu_competence r"
  "bu_total_cents (scan_budget db r) = bu_total_cents r"
  "set (bu_allocations (scan_budget db r)) = set (plan_of db (bu_id r))"
  by (simp_all add: scan_budget_def plan_of_def)

text \<open>A budget read from the tables, with the allocations that are stored for it.\<close>

definition read_from :: "plan_db \<Rightarrow> budget \<Rightarrow> bool" where
  "read_from db b \<longleftrightarrow> (\<exists>r \<in> set (db_budgets db). b = scan_budget db r)"

lemma get_read:
  "get_by_user_competence u c db = Inr b \<Longrightarrow> read_from db b"
  "get_active_by_user_competence u c db = Inr b \<Longrightarrow> read_from db b"
  "get_active_or_any u c db = Inr b \<Longrightarrow> read_from db b"
  unfolding get_active_or_any_def get_by_user_competence_def get_active_by_user_competence_def
    read_from_def
  by (auto simp: find_Some_iff split: option.splits sum.splits if_splits)

lemma read_allocs:
  assumes "plan_wf db" "read_from db b"
  shows "distinct (map fst (alloc_inputs b))"
    "\<forall>a \<in> set (alloc_inputs b). 0 \<le> snd a \<and> snd a \<le> 10000"
    "fst ` set (alloc_inputs b) = al_root_slug ` set (plan_of db (bu_id b))"
proof -
  obtain r where r: "b = scan_budget db r" using assms(2) by (auto simp: read_from_def)
  have "distinct (map alloc_key (plan_of db (bu_id r)))"
    using assms(1) by (simp add: plan_wf_def plan_of_def distinct_map_filter)
  then have "inj_on al_root_slug (set (plan_of db (bu_id r)))" "distinct (plan_of db (bu_id r))"
    by (auto simp: distinct_map inj_on_def alloc_key_def plan_of_def)
  then show "distinct (map fst (alloc_inputs b))"
    by (simp add: alloc_inputs_def comp_def distinct_map r)
      (simp add: scan_budget_def plan_of_def)
  show "\<forall>a \<in> set (alloc_inputs b). 0 \<le> snd a \<and> snd a \<le> 10000"
    using assms(1) by (auto simp: alloc_inputs_def r plan_wf_def plan_of_def)
  show "fst ` set (alloc_inputs b) = al_root_slug ` set (plan_of db (bu_id b))"
    by (auto simp: alloc_inputs_def r image_image)
qed

lemma shared_facts:
  "map al_root_slug (shared_allocations i c inputs) = map fst inputs"
  "map al_basis_points (shared_allocations i c inputs) = map snd inputs"
  "map al_planned_cents (shared_allocations i c inputs) = map share_cents (distribute c inputs)"
  "\<forall>a \<in> set (shared_allocations i c inputs). al_budget_id a = i"
proof -
  have p: "map fst (map (\<lambda>r. (fst r, fst (snd r))) (distribute c inputs)) = map fst inputs"
    "map snd (map (\<lambda>r. (fst r, fst (snd r))) (distribute c inputs)) = map snd inputs"
    by (simp_all only: distribute_points)
  show "map al_root_slug (shared_allocations i c inputs) = map fst inputs"
    "map al_basis_points (shared_allocations i c inputs) = map snd inputs"
    using p by (simp_all add: shared_allocations_def new_allocation_def comp_def case_prod_unfold)
  show "map al_planned_cents (shared_allocations i c inputs) = map share_cents (distribute c inputs)"
    "\<forall>a \<in> set (shared_allocations i c inputs). al_budget_id a = i"
    by (auto simp: shared_allocations_def new_allocation_def)
qed

lemma shared_in_force:
  assumes "full_plan inputs" "0 < c"
  shows "plan_in_force c (shared_allocations i c inputs)"
proof -
  have "sum_list (map share_cents (distribute c inputs)) = c" if "c * 10000 < 2 ^ 62"
    using distribute_sum [of c inputs] that assms by (auto simp: sharable_def full_plan_def cents_sum_def)
  then show ?thesis using assms by (simp add: plan_in_force_def shared_facts full_plan_def)
qed

text \<open>A plan over distinct categories has at most five shares, so its sum does not wrap.\<close>

lemma plan_sum:
  fixes p :: "(root_slug \<times> int) list"
  assumes "distinct (map fst p)" "\<forall>a \<in> set p. 0 \<le> snd a \<and> snd a \<le> 10000"
  shows "sum_i64 (map snd p) = sum_list (map snd p)"
proof -
  have five: "length p \<le> 5"
    using distinct_card [OF assms(1)] card_mono [of "set canonical_order" "set (map fst p)"]
    by (simp add: canonical_order_all) (simp add: canonical_order_all [symmetric] canonical_order_def)
  have "0 \<le> sum_list (map snd p)" using assms(2) by (intro sum_list_nonneg) auto
  moreover have "sum_list (map snd p) \<le> 10000 * int (length p)"
    using assms(2) by (induction p) auto
  ultimately show ?thesis using five by (simp add: sum_i64_eq i64_abs)
qed

lemma full_plan_checked:
  assumes "distinct (map fst p)" "\<forall>a \<in> set p. 0 \<le> snd a \<and> snd a \<le> 10000" "sum_i64 (map snd p) = 10000"
  shows "full_plan p"
  using assms plan_sum [OF assms(1,2)] by (simp add: full_plan_def)

lemma bp_sum_shared: "bp_sum (shared_allocations i c inputs) = sum_i64 (map snd inputs)"
  by (simp add: bp_sum_def shared_facts)

section \<open>Every use case keeps the invariant\<close>

definition store_ok :: "plan_db \<Rightarrow> bool" where
  "store_ok db \<longleftrightarrow> plan_wf db \<and> active_ok db"

text \<open>The budget a use case has prepared from one it read, and is about to write.\<close>

lemma prepared_writable:
  assumes "plan_wf db" "read_from db b" "bu_id b' = bu_id b"
    "bu_allocations b' = shared_allocations (bu_id b) c inputs"
    "fst ` set (alloc_inputs b) \<subseteq> fst ` set inputs" "distinct (map fst inputs)"
    "\<forall>a \<in> set inputs. 0 \<le> snd a \<and> snd a \<le> 10000"
    "bu_state b' = BudgetActive \<Longrightarrow> bu_total_cents b' = c \<and> 0 < c \<and> sum_i64 (map snd inputs) = 10000"
  shows "writable db b'"
proof -
  have slugs: "al_root_slug ` set (bu_allocations b') = fst ` set inputs"
    using arg_cong [OF shared_facts(1) [of "bu_id b" c inputs], of set] by (simp add: assms(4))
  show ?thesis
    unfolding writable_def
    using assms(3-8) read_allocs(3) [OF assms(1,2)] slugs shared_facts(4) [of "bu_id b" c inputs]
      shared_facts(1) [of "bu_id b" c inputs]
      shared_in_force [OF full_plan_checked [OF assms(6,7)], of c "bu_id b"]
    by auto
qed

lemma activate_persist_ok:
  assumes "activate_persist now u c db = Inr (b', db')" "store_ok db"
  shows "store_ok db'"
proof -
  obtain b where b: "get_by_user_competence u c db = Inr b"
    and act: "activate now (set_allocations
        (shared_allocations (bu_id b) (bu_total_cents b) (alloc_inputs b)) b) = Inr b'"
    and row: "activate_row b' db = Inr db'"
    using assms(1) by (auto simp: activate_persist_def result_simps split: if_splits)
  have wf: "plan_wf db" using assms(2) by (simp add: store_ok_def)
  note r = get_read(1) [OF b]
  have "writable db b'"
    using act read_allocs [OF wf r]
    by (intro prepared_writable [OF wf r, of _ "bu_total_cents b" "alloc_inputs b"])
      (auto simp: activate_def set_allocations_def bp_sum_shared split: if_splits)
  then show ?thesis using activate_row_ok [OF row] assms(2) by (simp add: store_ok_def)
qed

lemma changed_writable:
  assumes "plan_wf db" "read_from db b" "fst ` set (alloc_inputs b) \<subseteq> fst ` set inputs"
    "distinct (map fst inputs)" "\<forall>a \<in> set inputs. 0 \<le> snd a \<and> snd a \<le> 10000"
    "or_activate_draft now b c (shared_allocations (bu_id b) c inputs) r = Inr b'"
    "r = change_total c (shared_allocations (bu_id b) c inputs) now b \<or>
     r = rebalance_allocations (shared_allocations (bu_id b) c inputs) now b \<and>
       c = bu_total_cents b \<and> (bu_state b = BudgetActive \<longrightarrow> 0 < bu_total_cents b)"
  shows "writable db b'"
  using assms(6,7)
  by (intro prepared_writable [OF assms(1,2) _ _ assms(3-5), of _ c])
    (auto simp: or_activate_draft_def change_total_def rebalance_allocations_def activate_def
      hydrate_budget_def bp_sum_shared split: if_splits)

lemma edit_total_persist_ok:
  assumes "edit_total_persist now u c cents db = Inr (b', db')" "store_ok db"
  shows "store_ok db'"
proof -
  obtain b where b: "get_active_or_any u c db = Inr b"
    and ch: "or_activate_draft now b cents (shared_allocations (bu_id b) cents (alloc_inputs b))
        (change_total cents (shared_allocations (bu_id b) cents (alloc_inputs b)) now b) = Inr b'"
    and row: "activate_row b' db = Inr db'"
    using assms(1) by (auto simp: edit_total_persist_def result_simps Let_def)
  have wf: "plan_wf db" using assms(2) by (simp add: store_ok_def)
  note r = get_read(3) [OF b]
  have "writable db b'"
    by (rule changed_writable [OF wf r _ read_allocs(1,2) [OF wf r] ch]) simp_all
  then show ?thesis using activate_row_ok [OF row] assms(2) by (simp add: store_ok_def)
qed

lemma edit_percentage_persist_ok:
  assumes "edit_percentage_persist now u c slug bp db = Inr (b', db')" "store_ok db"
    "0 \<le> bp_int bp" "bp_int bp \<le> 10000"
  shows "store_ok db'"
proof -
  obtain b plan where b: "get_active_or_any u c db = Inr b"
    and pl: "decide_edit_percentage (alloc_inputs b) slug bp = Inr plan"
    and ch: "or_activate_draft now b (bu_total_cents b)
        (shared_allocations (bu_id b) (bu_total_cents b) plan)
        (rebalance_allocations (shared_allocations (bu_id b) (bu_total_cents b) plan) now b) = Inr b'"
    and row: "activate_row b' db = Inr db'"
    using assms(1) by (auto simp: edit_percentage_persist_def result_simps Let_def)
  have wf: "plan_wf db" using assms(2) by (simp add: store_ok_def)
  note r = get_read(3) [OF b]
  have full: "full_plan (alloc_inputs b)" "slug \<in> fst ` set (alloc_inputs b)"
    using pl read_allocs [OF wf r]
    by (auto simp: decide_edit_percentage_def Let_def full_plan_checked split: if_splits)
  have plan: "map fst plan = map fst (alloc_inputs b)" "full_plan plan"
    using edit_plan [OF full assms(3,4)] pl by auto
  have "bu_state b = BudgetActive \<longrightarrow> 0 < bu_total_cents b"
    using r assms(2) by (auto simp: read_from_def store_ok_def active_ok_def plan_in_force_def)
  moreover have "fst ` set (alloc_inputs b) = fst ` set plan"
    using arg_cong [OF plan(1), of set] by simp
  ultimately have "writable db b'"
    using plan(2) by (intro changed_writable [OF wf r _ _ _ ch]) (simp_all add: full_plan_def)
  then show ?thesis using activate_row_ok [OF row] assms(2) by (simp add: store_ok_def)
qed

lemma add_plan_facts:
  "bu_id (add_plan items b) = bu_id b" "bu_state (add_plan items b) = bu_state b"
  "\<forall>a \<in> set (bu_allocations b). al_budget_id a = bu_id b \<Longrightarrow>
   \<forall>a \<in> set (bu_allocations (add_plan items b)). al_budget_id a = bu_id b"
  by (induction items b rule: add_plan.induct) (simp_all add: add_allocation_def new_allocation_def)

lemma create_budget_persist_ok:
  assumes "create_budget_persist i now cmd db = Inr (b, db')" "store_ok db"
  shows "store_ok db'"
proof -
  let ?b = "new_budget i (cb_user_id cmd) (cb_competence cmd) (cb_total_cents cmd) now"
  have cd: "create_draft b db = Inr db'" and b: "b = add_plan (cb_allocations cmd) ?b"
    using assms(1) by (auto simp: create_budget_persist_def Let_def result_simps)
  have "bu_state b = BudgetDraft" "\<forall>a \<in> set (bu_allocations b). al_budget_id a = bu_id b"
    using add_plan_facts [where b = ?b] by (simp_all add: b new_budget_def)
  then show ?thesis using create_draft_ok [OF cd] assms(2) by (simp add: store_ok_def)
qed

lemma ensure_exists_ok:
  assumes "ensure_exists i now u c db = Inr db'" "store_ok db"
  shows "store_ok db'"
proof -
  have "db' = db \<or> create_draft (new_auto_draft_budget i u c now) db = Inr db'"
    using assms(1) by (auto simp: ensure_exists_def split: sum.splits if_splits)
  then show ?thesis
    using create_draft_ok [of "new_auto_draft_budget i u c now" db db'] assms(2)
    by (auto simp: store_ok_def new_auto_draft_budget_def)
qed

lemma delete_draft_persist_ok:
  "delete_draft_persist u c db = Inr db' \<Longrightarrow> store_ok db \<Longrightarrow> store_ok db'"
  using delete_draft_ok [of u c db db']
  by (auto simp: delete_draft_persist_def store_ok_def result_simps)

lemma rebased_writable: "writable db (rebased_draft now source b)"
  by (simp add: writable_def rebased_draft_def hydrate_budget_def rebuild_allocations_def shared_facts)

lemma process_month_ok:
  assumes "process_month i now u c source db = (st, db')" "store_ok db"
  shows "store_ok db'"
proof -
  have draft: "bu_state b = BudgetDraft \<and> (\<forall>a \<in> set (bu_allocations b). al_budget_id a = bu_id b)"
    if "clone_budget i source c u now = Inr b" for b
    using that by (auto simp: clone_budget_def set_allocations_def new_budget_def
        rebuild_allocations_def shared_facts split: option.splits)
  consider "db' = db" | b where "activate_row (rebased_draft now source b) db = Inr db'"
    | b where "clone_budget i source c u now = Inr b" "create_draft b db = Inr db'"
    using assms(1) by (auto simp: process_month_def split: sum.splits if_splits)
  then show ?thesis
  proof cases
    case 2
    then show ?thesis using activate_row_ok [OF 2 _ _ rebased_writable] assms(2) by (simp add: store_ok_def)
  next
    case 3
    then show ?thesis using create_draft_ok [OF 3(2)] draft [OF 3(1)] assms(2) by (simp add: store_ok_def)
  qed (use assms(2) in simp)
qed

lemma process_months_ok:
  "process_months fresh now u c source n db = (rs, db') \<Longrightarrow> store_ok db \<Longrightarrow> store_ok db'"
proof (induction n arbitrary: c db rs)
  case (Suc n)
  then show ?case by (auto simp: Let_def split: prod.splits dest: process_month_ok)
qed simp

lemma sync_months_ok:
  "sync_months now source bs db = Inr (upd, skip, db') \<Longrightarrow> store_ok db \<Longrightarrow> store_ok db'"
proof (induction bs arbitrary: db upd skip)
  case (Cons b bs)
  show ?case
  proof (cases "bu_state b = BudgetActive")
    case True
    then show ?thesis using Cons by (auto simp: result_simps)
  next
    case False
    then obtain db1 upd' skip' where row: "activate_row (rebased_draft now source b) db = Inr db1"
        and rest: "sync_months now source bs db1 = Inr (upd', skip', db')"
      using Cons.prems(1) by (auto simp: result_simps)
    have "store_ok db1"
      using activate_row_ok [OF row _ _ rebased_writable] Cons.prems(2) by (simp add: store_ok_def)
    then show ?thesis by (rule Cons.IH [OF rest])
  qed
qed simp

section \<open>The reachable tables\<close>

text \<open>One committed request; what was read, decided and written is what the use cases say.\<close>

inductive plan_step :: "plan_db \<Rightarrow> plan_db \<Rightarrow> bool" where
  create: "create_budget_persist i now cmd db = Inr (b, db') \<Longrightarrow> plan_step db db'"
| ensure: "ensure_exists i now u c db = Inr db' \<Longrightarrow> plan_step db db'"
| activates: "activate_persist now u c db = Inr (b, db') \<Longrightarrow> plan_step db db'"
| edit_total: "edit_total_persist now u c cents db = Inr (b, db') \<Longrightarrow> plan_step db db'"
| edit_share: "new_basis_points v = Inr bp \<Longrightarrow>
    edit_percentage_persist now u c slug bp db = Inr (b, db') \<Longrightarrow> plan_step db db'"
| delete: "delete_draft_persist u c db = Inr db' \<Longrightarrow> plan_step db db'"
| recur: "create_recurrence fresh now u c months db = Inr (rs, db') \<Longrightarrow> plan_step db db'"
| sync: "sync_future_budgets now u c db = Inr (upd, skip, db') \<Longrightarrow> plan_step db db'"

definition empty_plan_db :: plan_db where
  "empty_plan_db = \<lparr>db_budgets = [], db_allocs = []\<rparr>"

inductive plan_reachable :: "plan_db \<Rightarrow> bool" where
  start: "plan_reachable empty_plan_db"
| step: "plan_reachable db \<Longrightarrow> plan_step db db' \<Longrightarrow> plan_reachable db'"

lemma plan_step_ok: "plan_step db db' \<Longrightarrow> store_ok db \<Longrightarrow> store_ok db'"
proof (induction rule: plan_step.induct)
  case (create i now cmd db b db')
  then show ?case by (rule create_budget_persist_ok)
next
  case (ensure i now u c db db')
  then show ?case by (rule ensure_exists_ok)
next
  case (activates now u c db b db')
  then show ?case by (rule activate_persist_ok)
next
  case (edit_total now u c cents db b db')
  then show ?case by (rule edit_total_persist_ok)
next
  case (edit_share v bp now u c slug db b db')
  then show ?case
    by (intro edit_percentage_persist_ok [OF edit_share(2,3)])
      (auto simp: new_basis_points_def split: if_splits)
next
  case (delete u c db db')
  then show ?case by (rule delete_draft_persist_ok)
next
  case (recur fresh now u c months db rs db')
  then show ?case
    by (auto simp: create_recurrence_def split: sum.splits option.splits dest: process_months_ok)
next
  case (sync now u c db upd skip db')
  then show ?case
    by (auto simp: sync_future_budgets_def split: sum.splits option.splits dest: sync_months_ok)
qed

lemma plan_reachable_store: "plan_reachable db \<Longrightarrow> store_ok db"
proof (induction rule: plan_reachable.induct)
  case start
  then show ?case by (simp add: store_ok_def plan_wf_def active_ok_def empty_plan_db_def)
next
  case (step db db')
  then show ?case by (blast intro: plan_step_ok)
qed

text \<open>
  C9: Whatever requests have been served, every active budget has a positive total and
  allocations of exactly 100 per cent whose planned cents add up to it; no user has two budgets
  for a month, and no budget two allocations for a category.
\<close>

theorem reachable_plans_in_force:
  assumes "plan_reachable db"
  shows "plan_wf db \<and>
    (\<forall>b \<in> set (db_budgets db). bu_state b = BudgetActive \<longrightarrow>
       plan_in_force (bu_total_cents b) (plan_of db (bu_id b)))"
  using plan_reachable_store [OF assms] by (simp add: store_ok_def active_ok_def)

definition sample_cmd :: create_budget_cmd where
  "sample_cmd =
     \<lparr>cb_user_id = 1, cb_competence = Competence ''2025-03'', cb_total_cents = 10001,
      cb_allocations = [(CustoFixo, 5000), (Metas, 5000)]\<rparr>"

definition sample_draft :: budget where
  "sample_draft = new_budget 7 1 (Competence ''2025-03'') 10001 zero_time"

definition sample_drafts :: plan_db where
  "sample_drafts =
     \<lparr>db_budgets = [sample_draft],
      db_allocs = [new_allocation 7 CustoFixo 5000 0, new_allocation 7 Metas 5000 0]\<rparr>"

definition sample_plans :: plan_db where
  "sample_plans =
     \<lparr>db_budgets = [sample_draft\<lparr>bu_state := BudgetActive, bu_activated_at := Some zero_time\<rparr>],
      db_allocs = [new_allocation 7 CustoFixo 5000 5001, new_allocation 7 Metas 5000 5000]\<rparr>"

lemma sample_created: "\<exists>b. create_budget_persist 7 zero_time sample_cmd empty_plan_db = Inr (b, sample_drafts)"
  by (simp add: create_budget_persist_def sample_cmd_def create_draft_def empty_plan_db_def
      sample_drafts_def sample_draft_def new_budget_def add_allocation_def new_allocation_def
      upsert_allocation_def alloc_key_def Let_def month_digits_def is_digit_def less_eq_char_def
      less_le less_char_def)

lemma sample_shares: "distribute 10001 [(CustoFixo, 5000), (Metas, 5000)] =
    [(CustoFixo, 5000, 5001), (Metas, 5000, 5000)]"
  by code_simp

lemma sample_activated:
  "\<exists>b. activate_persist zero_time 1 (Competence ''2025-03'') sample_drafts = Inr (b, sample_plans)"
  by (simp add: activate_persist_def get_by_user_competence_def sample_drafts_def sample_draft_def
      new_budget_def scan_budget_def new_allocation_def alloc_inputs_def shared_allocations_def
      sample_shares set_allocations_def activate_def bp_sum_def sum_i64_def i64_abs
      activate_row_def Let_def upsert_allocation_def alloc_key_def sample_plans_def
      less_le less_char_def)

lemma sample_reachable: "plan_reachable sample_plans"
proof -
  have "plan_reachable sample_drafts"
    using sample_created by (blast intro: plan_reachable.intros plan_step.create)
  then show ?thesis
    using sample_activated by (blast intro: plan_reachable.step plan_step.activates)
qed

theorem reachable_plans_in_force_witness:
  "plan_wf sample_plans \<and> plan_in_force 10001 (plan_of sample_plans 7)"
  using reachable_plans_in_force [OF sample_reachable]
  by (simp add: sample_plans_def sample_draft_def new_budget_def)

section \<open>What a prepared month is good for\<close>

lemma upsert_allocations_succeed:
  assumes "\<forall>a \<in> set as. 0 \<le> al_basis_points a \<and> al_basis_points a \<le> 10000 \<and>
      al_budget_id a \<in> bu_id ` set (db_budgets db)"
  shows "\<exists>db'. upsert_allocations as db = Inr db'"
  using assms
proof (induction as arbitrary: db)
  case (Cons a as)
  then obtain d where d: "upsert_allocation a db = Inr d" "db_budgets d = db_budgets db"
    by (cases "alloc_key a \<in> alloc_key ` set (db_allocs db)") (simp_all add: upsert_allocation_def)
  then show ?case using Cons by simp
qed simp

lemma activate_row_succeeds:
  assumes "r0 \<in> set (db_budgets db)" "bu_id r0 = bu_id b" "bu_user_id r0 = bu_user_id b"
    "\<forall>a \<in> set (bu_allocations b). 0 \<le> al_basis_points a \<and> al_basis_points a \<le> 10000 \<and>
       al_budget_id a = bu_id b"
  shows "\<exists>db'. activate_row b db = Inr db'"
proof -
  define hit where "hit r \<longleftrightarrow> bu_id r = bu_id b \<and> bu_user_id r = bu_user_id b" for r :: budget
  define f where "f r = (if hit r
      then r\<lparr>bu_state := bu_state b, bu_total_cents := bu_total_cents b,
             bu_activated_at := bu_activated_at b, bu_updated_at := bu_updated_at b\<rparr> else r)" for r
  have f: "bu_id (f r) = bu_id r" for r by (simp add: f_def)
  have "bu_id b \<in> bu_id ` set (map f (db_budgets db))"
    using assms(1) imageI [OF assms(1), of "\<lambda>r. bu_id (f r)"] by (simp add: image_image f assms(2))
  then have "\<exists>db'. upsert_allocations (bu_allocations b)
      (db\<lparr>db_budgets := map f (db_budgets db)\<rparr>) = Inr db'"
    using assms(4) by (intro upsert_allocations_succeed) simp
  moreover have "filter hit (db_budgets db) \<noteq> []"
    using assms(1-3) by (auto simp: filter_empty_conv hit_def)
  ultimately show ?thesis
    by (simp add: activate_row_def Let_def f_def [abs_def] hit_def [abs_def])
qed

lemma mset_alloc_inputs:
  "mset (alloc_inputs (scan_budget db r)) =
   mset (map (\<lambda>a. (al_root_slug a, al_basis_points a)) (plan_of db (bu_id r)))"
  by (simp add: alloc_inputs_def scan_budget_def plan_of_def)

lemma activate_persist_succeeds:
  assumes "store_ok db" "get_by_user_competence u c db = Inr b" "bu_state b = BudgetDraft"
    "0 < bu_total_cents b" "sum_list (map snd (alloc_inputs b)) = 10000"
  shows "\<exists>b' db'. activate_persist now u c db = Inr (b', db')"
proof -
  let ?allocs = "shared_allocations (bu_id b) (bu_total_cents b) (alloc_inputs b)"
  let ?b = "(set_allocations ?allocs b)\<lparr>bu_state := BudgetActive, bu_activated_at := Some now,
      bu_updated_at := now\<rparr>"
  have wf: "plan_wf db" using assms(1) by (simp add: store_ok_def)
  note r = get_read(1) [OF assms(2)]
  note a = read_allocs [OF wf r]
  have "sum_i64 (map snd (alloc_inputs b)) = 10000" using plan_sum [OF a(1,2)] assms(5) by simp
  then have act: "activate now (set_allocations ?allocs b) = Inr ?b"
    using assms(3,4) by (simp add: activate_def set_allocations_def bp_sum_shared)
  obtain r0 where r0: "r0 \<in> set (db_budgets db)" "bu_id r0 = bu_id b" "bu_user_id r0 = bu_user_id b"
    using r by (auto simp: read_from_def)
  have bps: "0 \<le> al_basis_points x \<and> al_basis_points x \<le> 10000" if "x \<in> set ?allocs" for x
  proof -
    have "al_basis_points x \<in> set (map al_basis_points ?allocs)" using that by simp
    then show ?thesis using a(2) by (auto simp: shared_facts)
  qed
  have "\<exists>db'. activate_row ?b db = Inr db'"
    using bps shared_facts(4) [of "bu_id b" "bu_total_cents b" "alloc_inputs b"] r0(2,3)
    by (intro activate_row_succeeds [OF r0(1)]) (auto simp: set_allocations_def)
  then show ?thesis using assms(2,3) act by (auto simp: activate_persist_def)
qed

lemma find_snoc: "find P (xs @ [x]) = (case find P xs of None \<Rightarrow> find P [x] | Some y \<Rightarrow> Some y)"
  by (induction xs) auto

lemma shared_inputs:
  "map (\<lambda>a. (al_root_slug a, al_basis_points a)) (shared_allocations i c inputs) = inputs"
proof -
  have "map (\<lambda>a. (al_root_slug a, al_basis_points a)) xs = zip (map al_root_slug xs) (map al_basis_points xs)"
    for xs by (induction xs) auto
  note this [of "shared_allocations i c inputs", unfolded shared_facts(1,2) zip_map_fst_snd]
  then show ?thesis .
qed

lemma create_draft_reads:
  assumes "create_draft n db = Inr db'" "plan_wf db" "distinct (map al_root_slug (bu_allocations n))"
    "\<forall>a \<in> set (bu_allocations n). al_budget_id a = bu_id n"
  shows "get_by_user_competence (bu_user_id n) (bu_competence n) db' =
      Inr (scan_budget db' (n\<lparr>bu_allocations := []\<rparr>))"
    "mset (plan_of db' (bu_id n)) = mset (bu_allocations n)"
proof -
  let ?db = "db\<lparr>db_budgets := db_budgets db @ [n\<lparr>bu_allocations := []\<rparr>]\<rparr>"
  have new: "bu_id n \<notin> bu_id ` set (db_budgets db)"
      "(bu_user_id n, bu_competence n) \<notin> (\<lambda>r. (bu_user_id r, bu_competence r)) ` set (db_budgets db)"
    and up: "upsert_allocations (bu_allocations n) ?db = Inr db'"
    using assms(1) by (simp_all add: create_draft_def split: if_splits)
  have wf: "plan_wf ?db" using assms(2) new by (auto simp: plan_wf_def)
  have "find (\<lambda>b. bu_user_id b = bu_user_id n \<and> bu_competence b = bu_competence n) (db_budgets db) = None"
    using new(2) by (auto simp: find_None_iff image_iff)
  then show "get_by_user_competence (bu_user_id n) (bu_competence n) db' =
      Inr (scan_budget db' (n\<lparr>bu_allocations := []\<rparr>))"
    using upsert_allocations_wf(1) [OF up wf] by (simp add: get_by_user_competence_def find_snoc)
  have "\<forall>a \<in> set (db_allocs db). al_budget_id a \<noteq> bu_id n"
    using assms(2) new(1) unfolding plan_wf_def by metis
  then have "plan_of db (bu_id n) = []" by (simp add: plan_of_def filter_empty_conv)
  then show "mset (plan_of db' (bu_id n)) = mset (bu_allocations n)"
    using upsert_allocations_plan [OF up wf assms(3,4)] by simp
qed

lemma valid_source:
  assumes "store_ok db" "read_from db b" "validate_recurrence_source b = None"
  shows "0 < bu_total_cents b" "sum_list (map snd (alloc_inputs b)) = 10000"
proof -
  have wf: "plan_wf db" using assms(1) by (simp add: store_ok_def)
  obtain r where r: "r \<in> set (db_budgets db)" "b = scan_budget db r"
    using assms(2) by (auto simp: read_from_def)
  show "0 < bu_total_cents b"
    using assms(3) by (simp add: validate_recurrence_source_def split: if_splits)
  show "sum_list (map snd (alloc_inputs b)) = 10000"
  proof (cases "bu_state b")
    case BudgetDraft
    then have "bp_sum (bu_allocations b) = 10000"
      using assms(3) by (simp add: validate_recurrence_source_def split: if_splits)
    then show ?thesis
      using plan_sum [OF read_allocs(1,2) [OF wf assms(2)]]
      by (simp add: bp_sum_def alloc_inputs_def comp_def)
  next
    case BudgetActive
    then have "sum_list (map al_basis_points (plan_of db (bu_id r))) = 10000"
      using assms(1) r by (auto simp: store_ok_def active_ok_def plan_in_force_def)
    then show ?thesis
      using sum_list_mset_cong [OF mset_alloc_inputs [of db r], of snd] r(2) by (simp add: comp_def)
  qed
qed

lemma activate_persist_fields:
  assumes "activate_persist now u c db = Inr (b', db')" "get_by_user_competence u c db = Inr b"
  shows "bu_total_cents b' = bu_total_cents b" "alloc_inputs b' = alloc_inputs b"
  using assms shared_inputs [of "bu_id b" "bu_total_cents b" "alloc_inputs b"]
  by (auto simp: activate_persist_def activate_def set_allocations_def alloc_inputs_def result_simps
      split: if_splits)

text \<open>
  C11: A month that recurrence reports as created is ready to use: activating it succeeds, with
  the total and the percentages of the source.
\<close>

theorem created_month_activates:
  assumes "store_ok db" "read_from db source"
    "process_month i now u c source db = (RecurrenceCreated, db')"
  shows "\<exists>b db''. activate_persist later u c db' = Inr (b, db'') \<and>
    bu_total_cents b = bu_total_cents source \<and>
    mset (alloc_inputs b) = mset (alloc_inputs source)"
proof -
  let ?as = "rebuild_allocations i source"
  define n where "n = set_allocations ?as (new_budget i u c (bu_total_cents source) now)"
  have cd: "create_draft n db = Inr db'" and v: "validate_recurrence_source source = None"
    using assms(3)
    by (auto simp: process_month_def clone_budget_def n_def
        split: sum.splits if_splits option.splits)
  have n: "bu_id n = i" "bu_user_id n = u" "bu_competence n = c" "bu_state n = BudgetDraft"
      "bu_total_cents n = bu_total_cents source" "bu_allocations n = ?as"
    by (simp_all add: n_def set_allocations_def new_budget_def)
  have wf: "plan_wf db" using assms(1) by (simp add: store_ok_def)
  have as: "distinct (map al_root_slug ?as)" "\<forall>a \<in> set ?as. al_budget_id a = i"
    using read_allocs(1) [OF wf assms(2)] by (simp_all add: rebuild_allocations_def shared_facts)
  have ok': "store_ok db'"
    using create_draft_ok [OF cd wf] assms(1) as(2) by (simp add: store_ok_def n)
  let ?r = "n\<lparr>bu_allocations := []\<rparr>"
  have got: "get_by_user_competence u c db' = Inr (scan_budget db' ?r)"
    and "mset (plan_of db' i) = mset ?as"
    using create_draft_reads [OF cd wf] as by (simp_all add: n)
  then have "mset (alloc_inputs (scan_budget db' ?r)) =
      mset (map (\<lambda>a. (al_root_slug a, al_basis_points a)) ?as)"
    unfolding mset_alloc_inputs by (simp add: n)
  then have same: "mset (alloc_inputs (scan_budget db' ?r)) = mset (alloc_inputs source)"
    by (simp only: rebuild_allocations_def shared_inputs)
  have "\<exists>b' db''. activate_persist later u c db' = Inr (b', db'')"
    using valid_source [OF assms(1,2) v] sum_list_mset_cong [OF same, of snd]
    by (intro activate_persist_succeeds [OF ok' got]) (simp_all add: n)
  then obtain b db'' where act: "activate_persist later u c db' = Inr (b, db'')" by blast
  then show ?thesis using activate_persist_fields [OF act got] same by (auto simp: n)
qed

definition sample_source :: budget where
  "sample_source = scan_budget sample_plans (hd (db_budgets sample_plans))"

lemma sample_source_read: "read_from sample_plans sample_source"
  unfolding read_from_def sample_source_def
  by (rule bexI [where x = "hd (db_budgets sample_plans)"]) (simp_all add: sample_plans_def)

lemma sample_source_fields:
  "sample_source = sample_draft\<lparr>bu_state := BudgetActive, bu_activated_at := Some zero_time,
     bu_allocations := [new_allocation 7 CustoFixo 5000 5001, new_allocation 7 Metas 5000 5000]\<rparr>"
  by (simp add: sample_source_def scan_budget_def sample_plans_def sample_draft_def new_budget_def
      new_allocation_def less_le less_char_def)

lemmas sample_simps =
  sample_source_fields sample_draft_def new_budget_def new_allocation_def rebuild_allocations_def
  shared_allocations_def alloc_inputs_def sample_shares

definition sample_clone :: budget where
  "sample_clone = (new_budget 9 1 (Competence ''2025-04'') 10001 zero_time)
     \<lparr>bu_allocations := [new_allocation 9 CustoFixo 5000 5001, new_allocation 9 Metas 5000 5000]\<rparr>"

lemma sample_cloned:
  "clone_budget 9 sample_source (Competence ''2025-04'') 1 zero_time = Inr sample_clone"
  by (simp add: clone_budget_def validate_recurrence_source_def sample_simps set_allocations_def
      sample_clone_def)

lemma sample_april: "get_by_user_competence 1 (Competence ''2025-04'') sample_plans = Inl ErrBudgetNotFound"
  by (simp add: get_by_user_competence_def sample_plans_def sample_draft_def new_budget_def)

lemma april_digits: "month_digits ''2025-04''"
  by code_simp

lemma sample_clone_created: "\<exists>db'. create_draft sample_clone sample_plans = Inr db'"
  by (simp add: create_draft_def sample_clone_def sample_plans_def sample_draft_def new_budget_def
      april_digits upsert_allocation_def new_allocation_def alloc_key_def)

theorem created_month_activates_witness:
  "\<exists>b db''. activate_persist zero_time 1 (Competence ''2025-04'')
      (snd (process_month 9 zero_time 1 (Competence ''2025-04'') sample_source sample_plans)) =
      Inr (b, db'') \<and> bu_total_cents b = 10001"
proof -
  obtain db' where db': "create_draft sample_clone sample_plans = Inr db'"
    using sample_clone_created by blast
  have created: "process_month 9 zero_time 1 (Competence ''2025-04'') sample_source sample_plans =
      (RecurrenceCreated, db')"
    by (simp add: process_month_def sample_april sample_cloned db')
  have "bu_total_cents sample_source = 10001" by (simp add: sample_simps)
  then show ?thesis
    using created_month_activates [OF plan_reachable_store [OF sample_reachable] sample_source_read
        created, of zero_time] created by auto
qed

definition stale_plans :: plan_db where
  "stale_plans =
     \<lparr>db_budgets = db_budgets sample_plans @ [new_budget 8 1 (Competence ''2025-04'') 500 zero_time],
      db_allocs = db_allocs sample_plans @ [new_allocation 8 Prazeres 10000 0]\<rparr>"

definition stuck_plans :: plan_db where
  "stuck_plans =
     \<lparr>db_budgets = db_budgets sample_plans @ [new_budget 8 1 (Competence ''2025-04'') 10001 zero_time],
      db_allocs = db_allocs stale_plans @
        [new_allocation 8 CustoFixo 5000 5001, new_allocation 8 Metas 5000 5000]\<rparr>"

lemma stale_rebased:
  "process_month 9 zero_time 1 (Competence ''2025-04'') sample_source stale_plans =
   (RecurrenceUpdated, stuck_plans)"
  by (simp add: process_month_def get_by_user_competence_def stale_plans_def stuck_plans_def
      sample_plans_def sample_simps scan_budget_def rebased_draft_def hydrate_budget_def
      activate_row_def Let_def upsert_allocation_def alloc_key_def)

lemma stuck_shares: "bp_sum (shared_allocations 8 10001 [(CustoFixo, 5000), (Metas, 5000), (Prazeres, 10000)]) = 20000"
  by code_simp

text \<open>
  A later month that was a draft of its own keeps the allocations the source does not name:
  recurrence reports it as updated, but its percentages add up to 200 and it cannot be activated.
\<close>

lemma updated_month_stuck:
  "case process_month 9 zero_time 1 (Competence ''2025-04'') sample_source stale_plans of
     (st, db') \<Rightarrow> st = RecurrenceUpdated \<and>
       activate_persist zero_time 1 (Competence ''2025-04'') db' = Inl ErrBudgetAllocationSumMustBe10000"
proof -
  let ?b = "(new_budget 8 1 (Competence ''2025-04'') 10001 zero_time)
     \<lparr>bu_allocations := [new_allocation 8 CustoFixo 5000 5001, new_allocation 8 Metas 5000 5000,
        new_allocation 8 Prazeres 10000 0]\<rparr>"
  have "get_by_user_competence 1 (Competence ''2025-04'') stuck_plans = Inr ?b"
    by (simp add: get_by_user_competence_def stuck_plans_def stale_plans_def sample_plans_def
        sample_draft_def new_budget_def scan_budget_def new_allocation_def less_le less_char_def)
  then show ?thesis
    using stuck_shares
    by (simp add: stale_rebased activate_persist_def activate_def set_allocations_def new_budget_def
        alloc_inputs_def new_allocation_def)
qed

end
