(* ===== verification/BudgetExpenses.thy ===== *)
theory BudgetExpenses
  imports BudgetStore
begin

text \<open>
  The expenses of a budget: the versioned entity with its soft deletion
  (\<open>entities/expense.go\<close>), its table, the use cases that create, edit and delete it, and
  the events each of them leaves in the outbox; then the events that arrive ahead of their
  predecessors and wait (\<open>entities/pending_event.go\<close>, \<open>apply_pending_event.go\<close>). A use
  case returns its result and the state of the transaction, which \<open>do_tx\<close> commits or rolls
  back.
\<close>

section \<open>The entity\<close>

record expense =
  e_id :: uuid
  e_user_id :: uuid
  e_source :: string
  e_ext_id :: string
  e_subcategory_id :: uuid
  e_root_slug :: root_slug
  e_competence :: competence
  e_amount_cents :: int
  e_occurred_at :: gotime
  e_version :: int
  e_tombstone_version :: "int option"
  e_deleted_at :: "gotime option"
  e_created_at :: gotime
  e_updated_at :: gotime

type_synonym expense_identity = "uuid \<times> string \<times> string"

definition e_identity :: "expense \<Rightarrow> expense_identity" where
  "e_identity e = (e_user_id e, e_source e, e_ext_id e)"

definition is_deleted :: "expense \<Rightarrow> bool" where
  "is_deleted e \<longleftrightarrow> e_deleted_at e \<noteq> None"

definition new_expense ::
  "uuid \<Rightarrow> expense_identity \<Rightarrow> uuid \<Rightarrow> root_slug \<Rightarrow> competence \<Rightarrow> int \<Rightarrow> gotime \<Rightarrow> gotime \<Rightarrow>
   budget_error + expense" where
  "new_expense i k sub slug c amount occurred now =
     (if amount \<le> 0 then Inl ErrExpenseInvalidAmount
      else Inr \<lparr>e_id = i, e_user_id = fst k, e_source = fst (snd k), e_ext_id = snd (snd k),
                e_subcategory_id = sub, e_root_slug = slug, e_competence = c,
                e_amount_cents = amount, e_occurred_at = occurred, e_version = 1,
                e_tombstone_version = None, e_deleted_at = None, e_created_at = now,
                e_updated_at = now\<rparr>)"

definition edit_expense ::
  "uuid \<Rightarrow> root_slug \<Rightarrow> competence \<Rightarrow> int \<Rightarrow> gotime \<Rightarrow> int \<Rightarrow> gotime \<Rightarrow> expense \<Rightarrow>
   budget_error + expense" where
  "edit_expense sub slug c amount occurred expected now e =
     (if is_deleted e then Inl ErrExpenseAlreadyDeleted
      else if e_version e \<noteq> expected then Inl ErrExpenseVersionMismatch
      else if amount \<le> 0 then Inl ErrExpenseInvalidAmount
      else Inr (e\<lparr>e_subcategory_id := sub, e_root_slug := slug, e_competence := c,
                  e_amount_cents := amount, e_occurred_at := occurred,
                  e_version := i64 (e_version e + 1), e_updated_at := now\<rparr>))"

definition soft_delete_entity :: "int \<Rightarrow> gotime \<Rightarrow> expense \<Rightarrow> budget_error + int \<times> expense" where
  "soft_delete_entity expected now e =
     (if is_deleted e then Inl ErrExpenseAlreadyDeleted
      else if e_version e \<noteq> expected then Inl ErrExpenseVersionMismatch
      else let v = i64 (e_version e + 1)
           in Inr (v, e\<lparr>e_version := v, e_tombstone_version := Some v, e_deleted_at := Some now,
                        e_updated_at := now\<rparr>))"

text \<open>A tombstone that is not there has version 0.\<close>

record expense_tombstone =
  et_identity :: expense_identity
  et_version :: int
  et_deleted_at :: gotime

definition no_tombstone :: expense_tombstone where
  "no_tombstone = \<lparr>et_identity = (uuid_nil, [], []), et_version = 0, et_deleted_at = zero_time\<rparr>"

definition tombstone_is_present :: "expense_tombstone \<Rightarrow> bool" where
  "tombstone_is_present t \<longleftrightarrow> 0 < et_version t"

section \<open>The event of a committed change\<close>

record expense_committed =
  ec_expense_id :: uuid
  ec_user_id :: uuid
  ec_subcategory_id :: uuid
  ec_root_slug :: root_slug
  ec_competence :: competence
  ec_mutation :: mutation_kind
  ec_committed_at :: gotime
  ec_cutoff :: competence

definition new_expense_committed ::
  "uuid \<Rightarrow> uuid \<Rightarrow> uuid \<Rightarrow> root_slug \<Rightarrow> competence \<Rightarrow> mutation_kind \<Rightarrow> gotime \<Rightarrow> competence \<Rightarrow>
   budget_error list + expense_committed" where
  "new_expense_committed i u sub slug c kind committed cutoff =
     (let errs = err_if (i = uuid_nil) ErrExpenseCommittedInvalid @
                 err_if (u = uuid_nil) ErrExpenseCommittedInvalid @
                 err_if (sub = uuid_nil) ErrExpenseCommittedInvalid @
                 err_if (mutation_kind_string kind = []) ErrExpenseCommittedInvalid @
                 err_if (is_zero committed) ErrExpenseCommittedInvalid @
                 err_if (comp_is_zero c) ErrExpenseCommittedInvalid @
                 err_if (comp_is_zero cutoff) ErrExpenseCommittedInvalid
      in if errs \<noteq> [] then Inl errs
         else Inr \<lparr>ec_expense_id = i, ec_user_id = u, ec_subcategory_id = sub, ec_root_slug = slug,
                   ec_competence = c, ec_mutation = kind, ec_committed_at = committed,
                   ec_cutoff = cutoff\<rparr>)"

section \<open>The table and the outbox\<close>

text \<open>
  The plans of the months, the rows of \<open>budgets_expenses\<close> and the events published so far, the
  oldest first.
\<close>

record expense_db =
  ex_plans :: plan_db
  ex_rows :: "expense list"
  ex_outbox :: "expense_committed list"

definition get_by_identity ::
  "expense_identity \<Rightarrow> expense_db \<Rightarrow> budget_error + expense \<times> expense_tombstone" where
  "get_by_identity k db =
     (case find (\<lambda>e. e_identity e = k) (ex_rows db) of
        None \<Rightarrow> Inl ErrExpenseNotFound
      | Some e \<Rightarrow>
          (case (e_deleted_at e, e_tombstone_version e) of
             (Some t, Some v) \<Rightarrow> Inr (e, \<lparr>et_identity = k, et_version = v, et_deleted_at = t\<rparr>)
           | _ \<Rightarrow> Inr (e, no_tombstone)))"

definition insert_expense :: "expense \<Rightarrow> expense_db \<Rightarrow> budget_error + expense_db" where
  "insert_expense e db =
     (if e_id e \<in> e_id ` set (ex_rows db) \<or> e_identity e \<in> e_identity ` set (ex_rows db)
      then Inl ErrExpenseConflict
      else if e_amount_cents e \<le> 0 \<or> \<not> month_digits (comp_value (e_competence e))
      then Inl ErrBudgetDatabase
      else Inr (db\<lparr>ex_rows := ex_rows db @ [e]\<rparr>))"

definition row_at :: "expense \<Rightarrow> int \<Rightarrow> expense \<Rightarrow> bool" where
  "row_at e expected r \<longleftrightarrow>
     e_id r = e_id e \<and> e_user_id r = e_user_id e \<and> e_version r = expected \<and> e_deleted_at r = None"

definition update_expense :: "expense \<Rightarrow> int \<Rightarrow> expense_db \<Rightarrow> budget_error + expense_db" where
  "update_expense e expected db =
     (if filter (row_at e expected) (ex_rows db) = [] then Inl ErrExpenseConflict
      else if e_amount_cents e \<le> 0 \<or> \<not> month_digits (comp_value (e_competence e))
      then Inl ErrBudgetDatabase
      else Inr (db\<lparr>ex_rows := map (\<lambda>r. if row_at e expected r
             then r\<lparr>e_subcategory_id := e_subcategory_id e, e_root_slug := e_root_slug e,
                    e_competence := e_competence e, e_amount_cents := e_amount_cents e,
                    e_occurred_at := e_occurred_at e, e_version := e_version e,
                    e_updated_at := e_updated_at e\<rparr>
             else r) (ex_rows db)\<rparr>))"

definition soft_delete_expense :: "expense \<Rightarrow> int \<Rightarrow> expense_db \<Rightarrow> budget_error + expense_db" where
  "soft_delete_expense e expected db =
     (if filter (row_at e expected) (ex_rows db) = [] then Inl ErrExpenseConflict
      else Inr (db\<lparr>ex_rows := map (\<lambda>r. if row_at e expected r
             then r\<lparr>e_version := e_version e, e_tombstone_version := e_tombstone_version e,
                    e_deleted_at := e_deleted_at e, e_updated_at := e_updated_at e\<rparr>
             else r) (ex_rows db)\<rparr>))"

text \<open>\<open>SUM ... GROUP BY root_slug\<close>: a category without an expense has no row.\<close>

definition sum_by_root :: "uuid \<Rightarrow> competence \<Rightarrow> expense_db \<Rightarrow> root_slug \<Rightarrow> int option" where
  "sum_by_root u c db slug =
     (let rows = filter (\<lambda>e. e_user_id e = u \<and> e_competence e = c \<and> e_deleted_at e = None \<and>
                   e_root_slug e = slug) (ex_rows db)
      in if rows = [] then None else Some (sum_list (map e_amount_cents rows)))"

definition publish :: "expense_committed \<Rightarrow> expense_db \<Rightarrow> expense_db" where
  "publish evt db = db\<lparr>ex_outbox := ex_outbox db @ [evt]\<rparr>"

section \<open>Commands\<close>

text \<open>
  What the use cases take from elsewhere: parsing and printing identifiers (a third-party
  package), the root category of a subcategory (the categories module), and, for one call, the
  clock, the zone of the budgets and the identifiers it draws.
\<close>

record expense_ports =
  po_parse :: "string \<Rightarrow> uuid option"
  po_show :: "uuid \<Rightarrow> string"
  po_root_of :: "uuid \<Rightarrow> budget_error + string"

record expense_call =
  ca_now :: gotime
  ca_loc :: location
  ca_expense_id :: uuid
  ca_budget_id :: uuid

record upsert_input =
  ui_user_id :: string
  ui_source :: string
  ui_ext_id :: string
  ui_subcategory_id :: string
  ui_competence :: string
  ui_amount_cents :: int
  ui_occurred_at :: gotime
  ui_expected_version :: "int option"
  ui_reconcile :: bool

definition bad_version :: "int option \<Rightarrow> bool" where
  "bad_version v = (case v of None \<Rightarrow> False | Some n \<Rightarrow> n \<le> 0)"

definition validate_upsert_input :: "expense_ports \<Rightarrow> upsert_input \<Rightarrow> budget_error list" where
  "validate_upsert_input po i =
     err_if (po_parse po (ui_user_id i) = None) ErrInputInvalidUserID @
     err_if (ui_source i = []) ErrInputInvalidSource @
     err_if (ui_ext_id i = []) ErrInputInvalidExternalID @
     err_if (po_parse po (ui_subcategory_id i) = None) ErrInputInvalidSubcategory @
     err_if (ui_competence i = []) ErrInputInvalidCompetence @
     err_if (ui_amount_cents i \<le> 0) ErrInputAmountCentsInvalid @
     err_if (bad_version (ui_expected_version i)) ErrInputExpectedVersion"

record upsert_cmd =
  xc_user_id :: uuid
  xc_subcategory_id :: uuid
  xc_source :: string
  xc_ext_id :: string
  xc_competence :: competence
  xc_amount_cents :: int
  xc_occurred_at :: gotime
  xc_expected_version :: "int option"
  xc_reconcile :: bool

definition upsert_identity :: "upsert_cmd \<Rightarrow> expense_identity" where
  "upsert_identity cmd = (xc_user_id cmd, xc_source cmd, xc_ext_id cmd)"

definition new_upsert_expense_command ::
  "expense_ports \<Rightarrow> upsert_input \<Rightarrow> budget_error list + upsert_cmd" where
  "new_upsert_expense_command po i =
     (let errs =
        err_if (po_parse po (ui_user_id i) = None) ErrCommandInvalidUserID @
        err_if (po_parse po (ui_subcategory_id i) = None) ErrCommandInvalidSubcategory @
        err_if (errs_of (new_producer_source (ui_source i)) \<noteq> []) ErrCommandInvalidSource @
        err_if (errs_of (new_external_transaction_id (ui_ext_id i)) \<noteq> []) ErrCommandInvalidExternalID @
        err_if (errs_of (new_competence (ui_competence i)) \<noteq> []) ErrCommandInvalidCompetence @
        err_if (ui_amount_cents i \<le> 0) ErrCommandInvalidAmount @
        err_if (bad_version (ui_expected_version i)) ErrCommandVersionRequired
      in case (po_parse po (ui_user_id i), po_parse po (ui_subcategory_id i),
               new_producer_source (ui_source i), new_external_transaction_id (ui_ext_id i),
               new_competence (ui_competence i)) of
           (Some u, Some sub, Inr src, Inr ext, Inr c) \<Rightarrow>
             if errs \<noteq> [] then Inl errs
             else Inr \<lparr>xc_user_id = u, xc_subcategory_id = sub, xc_source = src, xc_ext_id = ext,
                       xc_competence = c, xc_amount_cents = ui_amount_cents i,
                       xc_occurred_at = ui_occurred_at i,
                       xc_expected_version = ui_expected_version i,
                       xc_reconcile = ui_reconcile i\<rparr>
         | _ \<Rightarrow> Inl errs)"

record delete_input =
  di_user_id :: string
  di_source :: string
  di_ext_id :: string
  di_expected_version :: int

definition validate_delete_input :: "expense_ports \<Rightarrow> delete_input \<Rightarrow> budget_error list" where
  "validate_delete_input po i =
     err_if (po_parse po (di_user_id i) = None) ErrInputInvalidUserID @
     err_if (di_source i = []) ErrInputInvalidSource @
     err_if (di_ext_id i = []) ErrInputInvalidExternalID"

record delete_cmd =
  dc_identity :: expense_identity
  dc_expected_version :: int

definition new_delete_expense_command ::
  "expense_ports \<Rightarrow> delete_input \<Rightarrow> budget_error list + delete_cmd" where
  "new_delete_expense_command po i =
     (let errs =
        err_if (po_parse po (di_user_id i) = None) ErrCommandInvalidUserID @
        err_if (errs_of (new_producer_source (di_source i)) \<noteq> []) ErrCommandInvalidSource @
        err_if (errs_of (new_external_transaction_id (di_ext_id i)) \<noteq> []) ErrCommandInvalidExternalID
      in case (po_parse po (di_user_id i), new_producer_source (di_source i),
               new_external_transaction_id (di_ext_id i)) of
           (Some u, Inr src, Inr ext) \<Rightarrow>
             Inr \<lparr>dc_identity = (u, src, ext), dc_expected_version = di_expected_version i\<rparr>
         | _ \<Rightarrow> Inl errs)"

section \<open>Creating and editing\<close>

type_synonym 'a expense_step = "expense_db \<Rightarrow> (budget_error list + 'a) \<times> expense_db"

definition publish_committed ::
  "expense_call \<Rightarrow> uuid \<Rightarrow> uuid \<Rightarrow> uuid \<Rightarrow> root_slug \<Rightarrow> competence \<Rightarrow> mutation_kind \<Rightarrow> unit expense_step" where
  "publish_committed ca i u sub slug c kind db =
     (case new_expense_committed i u sub slug c kind (ca_now ca)
             (competence_from_time (ca_now ca) (ca_loc ca)) of
        Inl es \<Rightarrow> (Inl es, db)
      | Inr evt \<Rightarrow> (Inr (), publish evt db))"

definition create_expense ::
  "expense_call \<Rightarrow> upsert_cmd \<Rightarrow> root_slug \<Rightarrow> budget_error \<Rightarrow> expense expense_step" where
  "create_expense ca cmd slug get_err db =
     (if get_err \<noteq> ErrExpenseNotFound then (Inl [get_err], db)
      else if xc_expected_version cmd \<noteq> None then (Inl [ErrCommandExplicitVersion], db)
      else
        (let occurred = (if is_zero (xc_occurred_at cmd) then ca_now ca else xc_occurred_at cmd)
         in case new_expense (ca_expense_id ca) (upsert_identity cmd) (xc_subcategory_id cmd) slug
                   (xc_competence cmd) (xc_amount_cents cmd) occurred (ca_now ca) of
              Inl e \<Rightarrow> (Inl [e], db)
            | Inr x \<Rightarrow>
                (case ensure_exists (ca_budget_id ca) (ca_now ca) (xc_user_id cmd)
                        (xc_competence cmd) (ex_plans db) of
                   Inl e \<Rightarrow> (Inl [e], db)
                 | Inr plans \<Rightarrow>
                     (case insert_expense x (db\<lparr>ex_plans := plans\<rparr>) of
                        Inl e \<Rightarrow> (Inl [e], db\<lparr>ex_plans := plans\<rparr>)
                      | Inr db1 \<Rightarrow>
                          (case publish_committed ca (e_id x) (xc_user_id cmd)
                                  (xc_subcategory_id cmd) slug (xc_competence cmd)
                                  MutationCreate db1 of
                             (Inl es, db2) \<Rightarrow> (Inl es, db2)
                           | (Inr _, db2) \<Rightarrow> (Inr x, db2))))))"

definition update_expense_row ::
  "expense_call \<Rightarrow> upsert_cmd \<Rightarrow> root_slug \<Rightarrow> int \<Rightarrow> expense \<Rightarrow> expense expense_step" where
  "update_expense_row ca cmd slug expected existing db =
     (let occurred = (if is_zero (xc_occurred_at cmd) then e_occurred_at existing
                      else xc_occurred_at cmd)
      in case edit_expense (xc_subcategory_id cmd) slug (xc_competence cmd) (xc_amount_cents cmd)
                occurred expected (ca_now ca) existing of
           Inl e \<Rightarrow> (Inl [if e = ErrExpenseVersionMismatch then ErrExpenseConflict else e], db)
         | Inr x \<Rightarrow>
             (case update_expense x expected db of
                Inl e \<Rightarrow> (Inl [e], db)
              | Inr db1 \<Rightarrow>
                  (case publish_committed ca (e_id x) (xc_user_id cmd) (xc_subcategory_id cmd) slug
                          (xc_competence cmd) MutationUpdate db1 of
                     (Inl es, db2) \<Rightarrow> (Inl es, db2)
                   | (Inr _, db2) \<Rightarrow> (Inr x, db2))))"

definition upsert_in_tx :: "expense_call \<Rightarrow> upsert_cmd \<Rightarrow> root_slug \<Rightarrow> expense expense_step" where
  "upsert_in_tx ca cmd slug db =
     (case get_by_identity (upsert_identity cmd) db of
        Inl e \<Rightarrow> create_expense ca cmd slug e db
      | Inr (existing, tomb) \<Rightarrow>
          if tombstone_is_present tomb then (Inl [ErrExpenseTombstoneConflict], db)
          else if is_deleted existing then (Inl [ErrExpenseTombstoneConflict], db)
          else (case (if xc_reconcile cmd then Some (e_version existing)
                      else xc_expected_version cmd) of
                  None \<Rightarrow> (Inr existing, db)
                | Some v \<Rightarrow> update_expense_row ca cmd slug v existing db))"

definition resolve_root_slug :: "expense_ports \<Rightarrow> uuid \<Rightarrow> budget_error + root_slug" where
  "resolve_root_slug po sub =
     (case po_root_of po sub of Inl e \<Rightarrow> Inl e | Inr s \<Rightarrow> parse_root_slug s)"

definition expense_upsert_with_tx ::
  "expense_ports \<Rightarrow> expense_call \<Rightarrow> upsert_input \<Rightarrow> expense expense_step" where
  "expense_upsert_with_tx po ca i db =
     (case new_upsert_expense_command po i of
        Inl es \<Rightarrow> (Inl es, db)
      | Inr cmd \<Rightarrow>
          (case resolve_root_slug po (xc_subcategory_id cmd) of
             Inl e \<Rightarrow> (Inl [e], db)
           | Inr slug \<Rightarrow> upsert_in_tx ca cmd slug db))"

definition expense_upsert_execute ::
  "expense_ports \<Rightarrow> expense_call \<Rightarrow> upsert_input \<Rightarrow> expense expense_step" where
  "expense_upsert_execute po ca i db =
     (if validate_upsert_input po i \<noteq> [] then (Inl (validate_upsert_input po i), db)
      else do_tx (expense_upsert_with_tx po ca i) db)"

section \<open>Deleting\<close>

text \<open>
  Both deletions end alike: the entity, the row, the event. They differ in the version they
  expect, which for a deletion by identity is the current one, and in what a missing expense means.
\<close>

definition delete_existing :: "expense_call \<Rightarrow> uuid \<Rightarrow> int \<Rightarrow> expense \<Rightarrow> unit expense_step" where
  "delete_existing ca u expected existing db =
     (case soft_delete_entity expected (ca_now ca) existing of
        Inl e \<Rightarrow> (Inl [if e = ErrExpenseVersionMismatch then ErrExpenseConflict else e], db)
      | Inr (_, x) \<Rightarrow>
          (case soft_delete_expense x expected db of
             Inl e \<Rightarrow> (Inl [e], db)
           | Inr db1 \<Rightarrow>
               publish_committed ca (e_id x) u (e_subcategory_id x) (e_root_slug x)
                 (e_competence x) MutationDelete db1))"

definition delete_in_tx :: "expense_call \<Rightarrow> delete_cmd \<Rightarrow> unit expense_step" where
  "delete_in_tx ca cmd db =
     (case get_by_identity (dc_identity cmd) db of
        Inl e \<Rightarrow> (Inl [e], db)
      | Inr (existing, tomb) \<Rightarrow>
          if tombstone_is_present tomb \<or> is_deleted existing then (Inr (), db)
          else delete_existing ca (fst (dc_identity cmd)) (dc_expected_version cmd) existing db)"

definition delete_by_identity_in_tx :: "expense_call \<Rightarrow> expense_identity \<Rightarrow> unit expense_step" where
  "delete_by_identity_in_tx ca k db =
     (case get_by_identity k db of
        Inl e \<Rightarrow> if e = ErrExpenseNotFound then (Inr (), db) else (Inl [e], db)
      | Inr (existing, tomb) \<Rightarrow>
          if tombstone_is_present tomb \<or> is_deleted existing then (Inr (), db)
          else delete_existing ca (e_user_id existing) (e_version existing) existing db)"

definition expense_delete_with_tx ::
  "expense_ports \<Rightarrow> expense_call \<Rightarrow> delete_input \<Rightarrow> unit expense_step" where
  "expense_delete_with_tx po ca i db =
     (case new_delete_expense_command po i of
        Inl es \<Rightarrow> (Inl es, db)
      | Inr cmd \<Rightarrow> delete_in_tx ca cmd db)"

definition expense_delete_execute ::
  "expense_ports \<Rightarrow> expense_call \<Rightarrow> delete_input \<Rightarrow> unit expense_step" where
  "expense_delete_execute po ca i db =
     (if validate_delete_input po i \<noteq> [] then (Inl (validate_delete_input po i), db)
      else do_tx (expense_delete_with_tx po ca i) db)"

definition delete_by_external_id ::
  "expense_ports \<Rightarrow> expense_call \<Rightarrow> string \<Rightarrow> string \<Rightarrow> string \<Rightarrow> unit expense_step" where
  "delete_by_external_id po ca user source ext db =
     (case po_parse po user of
        None \<Rightarrow> (Inl [ErrCommandInvalidUserID], db)
      | Some u \<Rightarrow>
          (case new_producer_source source of
             Inl e \<Rightarrow> (Inl [ErrCommandInvalidSource], db)
           | Inr src \<Rightarrow>
               (case new_external_transaction_id ext of
                  Inl e \<Rightarrow> (Inl [e], db)
                | Inr x \<Rightarrow> do_tx (delete_by_identity_in_tx ca (u, src, x)) db)))"

section \<open>Events that wait for their predecessors\<close>

datatype pending_state = PendingStatePending | PendingStateApplied | PendingStateFailed | PendingStateExpired

text \<open>
  The payload is a JSON document; \<open>pe_payload\<close> is what \<open>json.Unmarshal\<close> reads from it,
  \<open>None\<close> when it cannot.
\<close>

record pending_payload =
  pp_subcategory_id :: string
  pp_competence :: string
  pp_amount_cents :: int
  pp_occurred_at :: gotime

record pending_event =
  pe_id :: uuid
  pe_event_id :: uuid
  pe_identity :: expense_identity
  pe_expected_version :: int
  pe_mutation :: mutation_kind
  pe_payload :: "pending_payload option"
  pe_state :: pending_state
  pe_received_at :: gotime
  pe_transitioned_at :: "gotime option"
  pe_reason :: string

definition new_pending_event ::
  "uuid \<Rightarrow> uuid \<Rightarrow> expense_identity \<Rightarrow> int \<Rightarrow> mutation_kind \<Rightarrow> pending_payload option \<Rightarrow> gotime \<Rightarrow>
   pending_event" where
  "new_pending_event i event_id k expected kind payload now =
     \<lparr>pe_id = i, pe_event_id = event_id, pe_identity = k, pe_expected_version = expected,
      pe_mutation = kind, pe_payload = payload, pe_state = PendingStatePending,
      pe_received_at = now, pe_transitioned_at = None, pe_reason = []\<rparr>"

definition pending_is_terminal :: "pending_event \<Rightarrow> bool" where
  "pending_is_terminal p \<longleftrightarrow>
     pe_state p = PendingStateApplied \<or> pe_state p = PendingStateFailed \<or>
     pe_state p = PendingStateExpired"

definition pending_is_expired :: "int \<Rightarrow> gotime \<Rightarrow> pending_event \<Rightarrow> bool" where
  "pending_is_expired ttl now p \<longleftrightarrow> sub_time now (pe_received_at p) > ttl"

fun valid_pending_target :: "pending_state \<Rightarrow> bool" where
  "valid_pending_target PendingStateApplied = True"
| "valid_pending_target PendingStateFailed = True"
| "valid_pending_target PendingStateExpired = True"
| "valid_pending_target _ = False"

definition pending_transition ::
  "pending_state \<Rightarrow> string \<Rightarrow> gotime \<Rightarrow> pending_event \<Rightarrow> budget_error + pending_event" where
  "pending_transition to reason now p =
     (if pending_is_terminal p then Inl ErrPendingStateTransitionInvalid
      else if \<not> valid_pending_target to then Inl ErrPendingStateTransitionInvalid
      else Inr (p\<lparr>pe_state := to, pe_reason := reason, pe_transitioned_at := Some now\<rparr>))"

datatype outcome_kind =
  OutcomeReject | OutcomeNoop | OutcomeCreate | OutcomeUpdate | OutcomeDelete | OutcomeDefer

definition decide_pending :: "pending_event \<Rightarrow> expense option \<Rightarrow> outcome_kind \<times> int" where
  "decide_pending evt current =
     (if pe_mutation evt = MutationCreate
      then if current \<noteq> None then (OutcomeNoop, 0)
           else if pe_expected_version evt \<noteq> 1 then (OutcomeNoop, 0)
           else (OutcomeCreate, 0)
      else case current of
             None \<Rightarrow> (OutcomeDefer, 0)
           | Some x \<Rightarrow>
               if pe_expected_version evt \<le> e_version x then (OutcomeNoop, 0)
               else if pe_expected_version evt > i64 (e_version x + 1) then (OutcomeDefer, 0)
               else if pe_mutation evt = MutationDelete then (OutcomeDelete, e_version x)
               else (OutcomeUpdate, e_version x))"

datatype pending_outcome =
  PendingOutcomeApplied | PendingOutcomeObsolete | PendingOutcomeStillPending | PendingOutcomeExpired

definition load_current :: "pending_event \<Rightarrow> expense_db \<Rightarrow> budget_error + expense option" where
  "load_current evt db =
     (case get_by_identity (pe_identity evt) db of
        Inl e \<Rightarrow> if e = ErrExpenseNotFound then Inr None else Inl e
      | Inr (x, _) \<Rightarrow> Inr (Some x))"

definition pending_upsert_input ::
  "expense_ports \<Rightarrow> pending_event \<Rightarrow> pending_payload \<Rightarrow> int option \<Rightarrow> upsert_input" where
  "pending_upsert_input po evt p expected =
     \<lparr>ui_user_id = po_show po (fst (pe_identity evt)), ui_source = fst (snd (pe_identity evt)),
      ui_ext_id = snd (snd (pe_identity evt)), ui_subcategory_id = pp_subcategory_id p,
      ui_competence = pp_competence p, ui_amount_cents = pp_amount_cents p,
      ui_occurred_at = pp_occurred_at p, ui_expected_version = expected, ui_reconcile = False\<rparr>"

definition pending_delete_input :: "expense_ports \<Rightarrow> pending_event \<Rightarrow> int \<Rightarrow> delete_input" where
  "pending_delete_input po evt expected =
     \<lparr>di_user_id = po_show po (fst (pe_identity evt)), di_source = fst (snd (pe_identity evt)),
      di_ext_id = snd (snd (pe_identity evt)), di_expected_version = expected\<rparr>"

definition apply_upsert ::
  "expense_ports \<Rightarrow> expense_call \<Rightarrow> pending_event \<Rightarrow> int option \<Rightarrow> pending_outcome expense_step" where
  "apply_upsert po ca evt expected db =
     (case pe_payload evt of
        None \<Rightarrow> (Inl [ErrPayloadInvalid], db)
      | Some p \<Rightarrow>
          (case expense_upsert_with_tx po ca (pending_upsert_input po evt p expected) db of
             (Inl es, db') \<Rightarrow> (Inl es, db')
           | (Inr _, db') \<Rightarrow> (Inr PendingOutcomeApplied, db')))"

definition apply_delete ::
  "expense_ports \<Rightarrow> expense_call \<Rightarrow> pending_event \<Rightarrow> int \<Rightarrow> pending_outcome expense_step" where
  "apply_delete po ca evt expected db =
     (case expense_delete_with_tx po ca (pending_delete_input po evt expected) db of
        (Inl es, db') \<Rightarrow> (Inl es, db')
      | (Inr _, db') \<Rightarrow> (Inr PendingOutcomeApplied, db'))"

definition apply_pending ::
  "expense_ports \<Rightarrow> expense_call \<Rightarrow> int \<Rightarrow> pending_event \<Rightarrow> pending_outcome expense_step" where
  "apply_pending po ca ttl evt db =
     (if pending_is_expired ttl (ca_now ca) evt then (Inr PendingOutcomeExpired, db)
      else case load_current evt db of
             Inl e \<Rightarrow> (Inl [e], db)
           | Inr current \<Rightarrow>
               (case decide_pending evt current of
                  (OutcomeNoop, _) \<Rightarrow> (Inr PendingOutcomeObsolete, db)
                | (OutcomeDefer, _) \<Rightarrow> (Inr PendingOutcomeStillPending, db)
                | (OutcomeCreate, _) \<Rightarrow> apply_upsert po ca evt None db
                | (OutcomeUpdate, v) \<Rightarrow> apply_upsert po ca evt (Some v) db
                | (OutcomeDelete, v) \<Rightarrow> apply_delete po ca evt v db
                | (OutcomeReject, _) \<Rightarrow> (Inr PendingOutcomeStillPending, db)))"

text \<open>The rows of the waiting events, and one pass of the reaper over a batch of them.\<close>

definition pending_insert :: "pending_event \<Rightarrow> pending_event list \<Rightarrow> budget_error + pending_event list" where
  "pending_insert p rows =
     (if pe_id p \<in> pe_id ` set rows \<or> pe_event_id p \<in> pe_event_id ` set rows
      then Inl ErrPendingEventDuplicate
      else if pe_mutation p = MutationZero then Inl ErrBudgetDatabase
      else Inr (rows @ [p]))"

definition list_ready :: "nat \<Rightarrow> pending_event list \<Rightarrow> pending_event list" where
  "list_ready limit rows =
     take limit (sort_key (\<lambda>p. ns (pe_received_at p)) (filter (\<lambda>p. pe_state p = PendingStatePending) rows))"

definition pending_set_state ::
  "gotime \<Rightarrow> pending_event \<Rightarrow> pending_state \<Rightarrow> string \<Rightarrow> pending_event list \<Rightarrow>
   budget_error + pending_event list" where
  "pending_set_state now evt to reason rows =
     (let hit = (\<lambda>p. pe_id p = pe_id evt \<and> fst (pe_identity p) = fst (pe_identity evt))
      in if filter hit rows = [] then Inl ErrPendingEventNotFound
         else Inr (map (\<lambda>p. if hit p
                 then p\<lparr>pe_state := to, pe_reason := reason, pe_transitioned_at := Some now\<rparr>
                 else p) rows))"

fun outcome_target :: "pending_outcome \<Rightarrow> (pending_state \<times> string) option" where
  "outcome_target PendingOutcomeApplied = Some (PendingStateApplied, ''applied'')"
| "outcome_target PendingOutcomeExpired = Some (PendingStateExpired, ''ttl_exceeded'')"
| "outcome_target PendingOutcomeObsolete = Some (PendingStateApplied, ''obsolete_idempotent'')"
| "outcome_target PendingOutcomeStillPending = None"

definition process_one ::
  "expense_ports \<Rightarrow> expense_call \<Rightarrow> int \<Rightarrow> pending_event \<Rightarrow> expense_db \<times> pending_event list \<Rightarrow>
   (budget_error list + unit) \<times> expense_db \<times> pending_event list" where
  "process_one po ca ttl evt st =
     (let (db, rows) = st
      in case apply_pending po ca ttl evt db of
           (Inl es, db') \<Rightarrow> (Inl es, db', rows)
         | (Inr outcome, db') \<Rightarrow>
             (case outcome_target outcome of
                None \<Rightarrow> (Inr (), db', rows)
              | Some (to, reason) \<Rightarrow>
                  (case pending_set_state (ca_now ca) evt to reason rows of
                     Inl e \<Rightarrow> (Inl [e], db', rows)
                   | Inr rows' \<Rightarrow> (Inr (), db', rows'))))"

text \<open>An event that fails is logged, and the batch goes on from whatever the failure left.\<close>

fun process_batch ::
  "expense_ports \<Rightarrow> (nat \<Rightarrow> expense_call) \<Rightarrow> int \<Rightarrow> pending_event list \<Rightarrow>
   expense_db \<times> pending_event list \<Rightarrow> expense_db \<times> pending_event list" where
  "process_batch po calls ttl [] st = st"
| "process_batch po calls ttl (evt # evts) st =
     process_batch po calls ttl evts (snd (process_one po (calls (length evts)) ttl evt st))"

definition reap_pending ::
  "expense_ports \<Rightarrow> (nat \<Rightarrow> expense_call) \<Rightarrow> int \<Rightarrow> expense_db \<times> pending_event list \<Rightarrow>
   expense_db \<times> pending_event list" where
  "reap_pending po calls ttl st = process_batch po calls ttl (list_ready 200 (snd st)) st"

section \<open>The invariant of the expenses\<close>

text \<open>
  The outbox tells the life of each expense: it is created once, edited any number of times and
  deleted at most once, last. The version of a row is the number of its events.
\<close>

definition log_of :: "uuid \<Rightarrow> expense_db \<Rightarrow> mutation_kind list" where
  "log_of i db = map ec_mutation (filter (\<lambda>v. ec_expense_id v = i) (ex_outbox db))"

definition life :: "bool \<Rightarrow> mutation_kind list \<Rightarrow> bool" where
  "life gone ms \<longleftrightarrow>
     (\<exists>n. ms = MutationCreate # replicate n MutationUpdate @ (if gone then [MutationDelete] else []))"

definition row_ok :: "expense_db \<Rightarrow> expense \<Rightarrow> bool" where
  "row_ok db e \<longleftrightarrow>
     0 < e_amount_cents e \<and> month_digits (comp_value (e_competence e)) \<and>
     e_tombstone_version e = (if is_deleted e then Some (e_version e) else None) \<and>
     e_version e = i64 (int (length (log_of (e_id e) db))) \<and> life (is_deleted e) (log_of (e_id e) db)"

definition expenses_wf :: "expense_db \<Rightarrow> bool" where
  "expenses_wf db \<longleftrightarrow>
     distinct (map e_id (ex_rows db)) \<and> distinct (map e_identity (ex_rows db)) \<and>
     (\<forall>e \<in> set (ex_rows db). row_ok db e) \<and>
     (\<forall>v \<in> set (ex_outbox db). ec_expense_id v \<in> e_id ` set (ex_rows db))"

lemma life_update: "life False ms \<Longrightarrow> life False (ms @ [MutationUpdate])"
  by (auto simp: life_def replicate_append_same [symmetric] intro: exI [where x = "Suc _"])

lemma life_delete: "life False ms \<Longrightarrow> life True (ms @ [MutationDelete])"
  by (auto simp: life_def)

lemma get_by_identity_row:
  assumes "get_by_identity k db = Inr (e, t)"
  shows "e \<in> set (ex_rows db)" "e_identity e = k"
  using assms
  by (auto simp: get_by_identity_def find_Some_iff split: option.splits)

lemma one_row:
  "expenses_wf db \<Longrightarrow> e \<in> set (ex_rows db) \<Longrightarrow> r \<in> set (ex_rows db) \<Longrightarrow> e_id r = e_id e \<Longrightarrow> r = e"
  unfolding expenses_wf_def by (meson eq_key_imp_eq_value inj_on_eq_iff distinct_map)

text \<open>Replacing a row by a later version of itself and announcing it.\<close>

definition replace_row :: "expense \<Rightarrow> expense list \<Rightarrow> expense list" where
  "replace_row x rows = map (\<lambda>r. if e_id r = e_id x then x else r) rows"

lemma replace_row_ids [simp]: "map e_id (replace_row x rows) = map e_id rows"
  by (induction rows) (simp_all add: replace_row_def)

lemma log_publish:
  "log_of i (publish v db) = log_of i db @ (if ec_expense_id v = i then [ec_mutation v] else [])"
  by (simp add: log_of_def publish_def)

lemma log_rows [simp]: "log_of i (db\<lparr>ex_rows := rows\<rparr>) = log_of i db" "log_of i (db\<lparr>ex_plans := p\<rparr>) = log_of i db"
  by (simp_all add: log_of_def)

lemma replace_wf:
  assumes wf: "expenses_wf db" and e: "e \<in> set (ex_rows db)"
    and x: "e_id x = e_id e" "e_identity x = e_identity e"
    and v: "ec_expense_id v = e_id e"
    and ok: "row_ok (publish v db) x"
  shows "expenses_wf (publish v (db\<lparr>ex_rows := replace_row x (ex_rows db)\<rparr>))"
proof -
  let ?rows = "replace_row x (ex_rows db)"
  have "map e_identity ?rows = map e_identity (ex_rows db)"
    using one_row [OF wf e] by (auto simp: replace_row_def x)
  moreover have "row_ok (publish v (db\<lparr>ex_rows := ?rows\<rparr>)) r" if "r \<in> set ?rows" for r
  proof -
    from that have "r \<in> (\<lambda>r. if e_id r = e_id x then x else r) ` set (ex_rows db)"
      by (simp add: replace_row_def)
    then obtain r0 where r0: "r0 \<in> set (ex_rows db)" "r = (if e_id r0 = e_id x then x else r0)"
      by (rule imageE)
    have "row_ok (publish v db) r"
    proof (cases "e_id r0 = e_id x")
      case False
      then show ?thesis
        using wf r0 v x(1) by (auto simp: expenses_wf_def row_ok_def log_publish)
    qed (use ok r0 in simp)
    then show ?thesis by (simp add: row_ok_def log_publish)
  qed
  moreover have "e_id ` set ?rows = e_id ` set (ex_rows db)"
    by (metis list.set_map replace_row_ids)
  ultimately show ?thesis
    using wf e by (auto simp: expenses_wf_def publish_def v)
qed

section \<open>What the use cases do to the tables\<close>

lemma new_expense_committed_fields:
  "new_expense_committed i u sub slug c kind t c2 = Inr v \<Longrightarrow> ec_expense_id v = i \<and> ec_mutation v = kind"
  by (auto simp: new_expense_committed_def Let_def split: if_splits)

lemma publish_committed_Inr:
  assumes "publish_committed ca i u sub slug c kind db = (Inr x, db')"
  obtains v where "ec_expense_id v = i" "ec_mutation v = kind" "db' = publish v db"
  using assms
  by (auto simp: publish_committed_def split: sum.splits dest: new_expense_committed_fields)

lemma update_rows:
  assumes wf: "expenses_wf db" and e: "e \<in> set (ex_rows db)"
    and edit: "edit_expense sub slug c amount occurred v now e = Inr x"
    and up: "update_expense x v db = Inr db1"
  shows "db1 = db\<lparr>ex_rows := replace_row x (ex_rows db)\<rparr>" "e_id x = e_id e" "e_identity x = e_identity e"
    "\<not> is_deleted e" "\<not> is_deleted x" "e_version e = v" "e_version x = i64 (v + 1)"
    "0 < e_amount_cents x" "month_digits (comp_value (e_competence x))"
    "e_tombstone_version x = e_tombstone_version e"
proof -
  have x: "x = e\<lparr>e_subcategory_id := sub, e_root_slug := slug, e_competence := c,
      e_amount_cents := amount, e_occurred_at := occurred, e_version := i64 (v + 1),
      e_updated_at := now\<rparr>" and v: "e_version e = v" and live: "\<not> is_deleted e"
    using edit by (auto simp: edit_expense_def split: if_splits)
  show "e_id x = e_id e" "e_identity x = e_identity e" "\<not> is_deleted e" "\<not> is_deleted x"
      "e_version e = v" "e_version x = i64 (v + 1)" "e_tombstone_version x = e_tombstone_version e"
    using v live by (simp_all add: x e_identity_def is_deleted_def)
  have ok: "0 < e_amount_cents x \<and> month_digits (comp_value (e_competence x)) \<and>
      db1 = db\<lparr>ex_rows := map (\<lambda>r. if row_at x v r
             then r\<lparr>e_subcategory_id := e_subcategory_id x, e_root_slug := e_root_slug x,
                    e_competence := e_competence x, e_amount_cents := e_amount_cents x,
                    e_occurred_at := e_occurred_at x, e_version := e_version x,
                    e_updated_at := e_updated_at x\<rparr> else r) (ex_rows db)\<rparr>"
    using up by (simp add: update_expense_def not_le split: if_splits)
  then show "0 < e_amount_cents x" "month_digits (comp_value (e_competence x))" by simp_all
  have "(if row_at x v r
      then r\<lparr>e_subcategory_id := e_subcategory_id x, e_root_slug := e_root_slug x,
             e_competence := e_competence x, e_amount_cents := e_amount_cents x,
             e_occurred_at := e_occurred_at x, e_version := e_version x,
             e_updated_at := e_updated_at x\<rparr> else r) = (if e_id r = e_id x then x else r)"
    if "r \<in> set (ex_rows db)" for r
    using one_row [OF wf e that] v live by (auto simp: x row_at_def is_deleted_def)
  with ok show "db1 = db\<lparr>ex_rows := replace_row x (ex_rows db)\<rparr>"
    by (simp add: replace_row_def cong: map_cong)
qed

lemma soft_delete_rows:
  assumes wf: "expenses_wf db" and e: "e \<in> set (ex_rows db)"
    and del: "soft_delete_entity v now e = Inr (w, x)"
    and up: "soft_delete_expense x v db = Inr db1"
  shows "db1 = db\<lparr>ex_rows := replace_row x (ex_rows db)\<rparr>" "e_id x = e_id e" "e_identity x = e_identity e"
    "\<not> is_deleted e" "is_deleted x" "e_version e = v" "e_version x = i64 (v + 1)"
    "e_amount_cents x = e_amount_cents e" "e_competence x = e_competence e"
    "e_tombstone_version x = Some (e_version x)"
proof -
  have x: "x = e\<lparr>e_version := i64 (v + 1), e_tombstone_version := Some (i64 (v + 1)),
      e_deleted_at := Some now, e_updated_at := now\<rparr>" and v: "e_version e = v"
      and live: "\<not> is_deleted e"
    using del by (auto simp: soft_delete_entity_def Let_def split: if_splits)
  show "e_id x = e_id e" "e_identity x = e_identity e" "\<not> is_deleted e" "is_deleted x"
      "e_version e = v" "e_version x = i64 (v + 1)" "e_amount_cents x = e_amount_cents e"
      "e_competence x = e_competence e" "e_tombstone_version x = Some (e_version x)"
    using v live by (simp_all add: x e_identity_def is_deleted_def)
  have "(if row_at x v r
      then r\<lparr>e_version := e_version x, e_tombstone_version := e_tombstone_version x,
             e_deleted_at := e_deleted_at x, e_updated_at := e_updated_at x\<rparr> else r) =
      (if e_id r = e_id x then x else r)"
    if "r \<in> set (ex_rows db)" for r
    using one_row [OF wf e that] v live by (auto simp: x row_at_def is_deleted_def)
  with up show "db1 = db\<lparr>ex_rows := replace_row x (ex_rows db)\<rparr>"
    by (auto simp: soft_delete_expense_def replace_row_def split: if_splits cong: map_cong)
qed

lemma next_row_ok:
  assumes "row_ok db e" "\<not> is_deleted e" "ec_expense_id v = e_id e" "e_id x = e_id e"
    "e_version x = i64 (e_version e + 1)" "0 < e_amount_cents x"
    "month_digits (comp_value (e_competence x))"
    "e_tombstone_version x = (if is_deleted x then Some (e_version x) else None)"
    "ec_mutation v = (if is_deleted x then MutationDelete else MutationUpdate)"
  shows "row_ok (publish v db) x"
  using assms i64_add_left [of "int (length (log_of (e_id e) db))" 1]
  by (auto simp: row_ok_def log_publish add.commute life_update life_delete)

lemma update_expense_row_ok:
  assumes "update_expense_row ca cmd slug v e db = (Inr x, db')" "expenses_wf db" "e \<in> set (ex_rows db)"
  shows "expenses_wf db'" "ex_plans db' = ex_plans db" "x \<in> set (ex_rows db')"
    "e_identity x = e_identity e" "e_version x = i64 (v + 1)" "\<not> is_deleted x" "e_version e = v"
proof -
  let ?occ = "if is_zero (xc_occurred_at cmd) then e_occurred_at e else xc_occurred_at cmd"
  obtain db1 where edit: "edit_expense (xc_subcategory_id cmd) slug (xc_competence cmd)
        (xc_amount_cents cmd) ?occ v (ca_now ca) e = Inr x"
    and up: "update_expense x v db = Inr db1"
    and pub: "publish_committed ca (e_id x) (xc_user_id cmd) (xc_subcategory_id cmd) slug
        (xc_competence cmd) MutationUpdate db1 = (Inr (), db')"
    using assms(1) by (auto simp: update_expense_row_def Let_def split: sum.splits prod.splits)
  note rows = update_rows [OF assms(2,3) edit up]
  obtain v' where v': "ec_expense_id v' = e_id x" "ec_mutation v' = MutationUpdate"
      "db' = publish v' db1"
    using pub by (rule publish_committed_Inr)
  have "row_ok (publish v' db) x"
    using assms(2,3) rows v' by (intro next_row_ok [of db e]) (auto simp: expenses_wf_def row_ok_def)
  then show "expenses_wf db'"
    using replace_wf [OF assms(2,3) rows(2,3), of v'] v' rows(1,2) by simp
  show "ex_plans db' = ex_plans db" using v'(3) rows(1) by (simp add: publish_def)
  show "x \<in> set (ex_rows db')"
    using v'(3) rows(1,2) assms(3) by (auto simp: publish_def replace_row_def)
  show "e_identity x = e_identity e" "e_version x = i64 (v + 1)" "\<not> is_deleted x" "e_version e = v"
    by (fact rows)+
qed

lemma create_expense_ok:
  assumes "create_expense ca cmd slug ErrExpenseNotFound db = (Inr x, db')" "expenses_wf db"
  shows "expenses_wf db'" "plan_step (ex_plans db) (ex_plans db')" "ex_rows db' = ex_rows db @ [x]"
    "e_identity x = upsert_identity cmd" "e_version x = 1" "\<not> is_deleted x"
proof -
  let ?occ = "if is_zero (xc_occurred_at cmd) then ca_now ca else xc_occurred_at cmd"
  obtain plans db1 where new: "new_expense (ca_expense_id ca) (upsert_identity cmd)
        (xc_subcategory_id cmd) slug (xc_competence cmd) (xc_amount_cents cmd) ?occ (ca_now ca) = Inr x"
    and ens: "ensure_exists (ca_budget_id ca) (ca_now ca) (xc_user_id cmd) (xc_competence cmd)
        (ex_plans db) = Inr plans"
    and ins: "insert_expense x (db\<lparr>ex_plans := plans\<rparr>) = Inr db1"
    and pub: "publish_committed ca (e_id x) (xc_user_id cmd) (xc_subcategory_id cmd) slug
        (xc_competence cmd) MutationCreate db1 = (Inr (), db')"
    using assms(1)
    by (auto simp: create_expense_def Let_def split: sum.splits prod.splits if_splits)
  have x: "e_identity x = upsert_identity cmd" "e_version x = 1" "\<not> is_deleted x"
      "e_tombstone_version x = None"
    using new by (auto simp: new_expense_def e_identity_def is_deleted_def split: if_splits)
  have db1: "db1 = db\<lparr>ex_plans := plans, ex_rows := ex_rows db @ [x]\<rparr>"
    and fresh: "e_id x \<notin> e_id ` set (ex_rows db)" "e_identity x \<notin> e_identity ` set (ex_rows db)"
    and ok: "0 < e_amount_cents x" "month_digits (comp_value (e_competence x))"
    using ins by (auto simp: insert_expense_def split: if_splits)
  obtain v where v: "ec_expense_id v = e_id x" "ec_mutation v = MutationCreate"
      "db' = publish v db1"
    using pub by (rule publish_committed_Inr)
  have "\<forall>v \<in> set (ex_outbox db). ec_expense_id v \<noteq> e_id x"
    using assms(2) fresh(1) unfolding expenses_wf_def by metis
  then have no_log: "log_of (e_id x) db = []"
    by (simp add: log_of_def filter_empty_conv)
  have "row_ok db' x"
  proof -
    have "log_of (e_id x) db' = [MutationCreate]"
      using v(1,2) no_log by (simp add: v(3) log_publish db1)
    then show ?thesis using x ok by (simp add: row_ok_def life_def i64_def)
  qed
  moreover have "row_ok db' r" if "r \<in> set (ex_rows db)" for r
  proof -
    have "e_id r \<noteq> e_id x" using that fresh(1) by (metis imageI)
    then show ?thesis
      using assms(2) that v(1) by (simp add: v(3) db1 expenses_wf_def row_ok_def log_publish)
  qed
  ultimately show "expenses_wf db'"
    using assms(2) fresh v(1) by (auto simp: v(3) db1 publish_def expenses_wf_def)
  show "plan_step (ex_plans db) (ex_plans db')"
    using ens plan_step.ensure by (simp add: v(3) db1 publish_def)
  show "ex_rows db' = ex_rows db @ [x]" by (simp add: v(3) db1 publish_def)
  show "e_identity x = upsert_identity cmd" "e_version x = 1" "\<not> is_deleted x" by (fact x)+
qed

lemma delete_existing_ok:
  assumes "delete_existing ca u v e db = (Inr w, db')" "expenses_wf db" "e \<in> set (ex_rows db)"
  shows "expenses_wf db'" "ex_plans db' = ex_plans db"
    "\<exists>x. x \<in> set (ex_rows db') \<and> e_identity x = e_identity e \<and> is_deleted x \<and> e_version x = i64 (v + 1)"
proof -
  obtain w x db1 where del: "soft_delete_entity v (ca_now ca) e = Inr (w, x)"
    and up: "soft_delete_expense x v db = Inr db1"
    and pub: "publish_committed ca (e_id x) u (e_subcategory_id x) (e_root_slug x)
        (e_competence x) MutationDelete db1 = (Inr (), db')"
    using assms(1) by (auto simp: delete_existing_def split: sum.splits prod.splits)
  note rows = soft_delete_rows [OF assms(2,3) del up]
  obtain v' where v': "ec_expense_id v' = e_id x" "ec_mutation v' = MutationDelete"
      "db' = publish v' db1"
    using pub by (rule publish_committed_Inr)
  have "row_ok (publish v' db) x"
    using assms(2,3) rows v' by (intro next_row_ok [of db e]) (auto simp: expenses_wf_def row_ok_def)
  then show "expenses_wf db'"
    using replace_wf [OF assms(2,3) rows(2,3), of v'] v' rows(1,2) by simp
  show "ex_plans db' = ex_plans db" using v'(3) rows(1) by (simp add: publish_def)
  have "x \<in> set (ex_rows db')"
    using v'(3) rows(1,2) assms(3) by (auto simp: publish_def replace_row_def)
  then show "\<exists>x. x \<in> set (ex_rows db') \<and> e_identity x = e_identity e \<and> is_deleted x \<and>
      e_version x = i64 (v + 1)"
    using rows by blast
qed

lemma get_by_identity_error: "get_by_identity k db = Inl e \<Longrightarrow> e = ErrExpenseNotFound"
  by (auto simp: get_by_identity_def split: option.splits)

text \<open>What a successful create-or-edit leaves: the row it returns, under the identity asked for.\<close>

lemma upsert_in_tx_ok:
  assumes "upsert_in_tx ca cmd slug db = (Inr x, db')" "expenses_wf db"
  shows "expenses_wf db'"
    "ex_plans db' = ex_plans db \<or> plan_step (ex_plans db) (ex_plans db')"
    "x \<in> set (ex_rows db')" "e_identity x = upsert_identity cmd" "\<not> is_deleted x"
proof -
  have "expenses_wf db' \<and> (ex_plans db' = ex_plans db \<or> plan_step (ex_plans db) (ex_plans db')) \<and>
      x \<in> set (ex_rows db') \<and> e_identity x = upsert_identity cmd \<and> \<not> is_deleted x"
  proof (cases "get_by_identity (upsert_identity cmd) db")
    case (Inl e)
    then have "create_expense ca cmd slug ErrExpenseNotFound db = (Inr x, db')"
      using assms(1) get_by_identity_error [OF Inl] by (simp add: upsert_in_tx_def)
    from create_expense_ok [OF this assms(2)] show ?thesis by simp
  next
    case (Inr r)
    obtain e t where r: "r = (e, t)" by fastforce
    note e = get_by_identity_row [OF Inr [unfolded r]]
    show ?thesis
    proof (cases "if xc_reconcile cmd then Some (e_version e) else xc_expected_version cmd")
      case None
      then show ?thesis
        using assms Inr r e by (auto simp: upsert_in_tx_def split: if_splits)
    next
      case (Some v)
      then have "update_expense_row ca cmd slug v e db = (Inr x, db')"
        using assms(1) Inr r by (auto simp: upsert_in_tx_def split: if_splits)
      from update_expense_row_ok [OF this assms(2) e(1)] show ?thesis using e(2) by simp
    qed
  qed
  then show "expenses_wf db'" "ex_plans db' = ex_plans db \<or> plan_step (ex_plans db) (ex_plans db')"
    "x \<in> set (ex_rows db')" "e_identity x = upsert_identity cmd" "\<not> is_deleted x" by blast+
qed

lemma delete_found:
  assumes "get_by_identity k db = Inr (e, t)" "delete_existing ca u v e db = (Inr w, db')" "expenses_wf db"
  shows "expenses_wf db' \<and> ex_plans db' = ex_plans db"
  using delete_existing_ok(1,2) [OF assms(2,3) get_by_identity_row(1) [OF assms(1)]] by simp

lemma delete_in_tx_ok:
  assumes "delete_in_tx ca cmd db = (Inr w, db')" "expenses_wf db"
  shows "expenses_wf db' \<and> ex_plans db' = ex_plans db"
  using assms delete_found
  by (fastforce simp: delete_in_tx_def split: sum.splits if_splits)

lemma delete_by_identity_in_tx_ok:
  assumes "delete_by_identity_in_tx ca k db = (Inr w, db')" "expenses_wf db"
  shows "expenses_wf db' \<and> ex_plans db' = ex_plans db"
  using assms delete_found
  by (fastforce simp: delete_by_identity_in_tx_def split: sum.splits if_splits)

definition expenses_ok :: "expense_db \<Rightarrow> bool" where
  "expenses_ok db \<longleftrightarrow> expenses_wf db \<and> plan_reachable (ex_plans db)"

lemma expenses_okI:
  "expenses_wf db' \<Longrightarrow> ex_plans db' = ex_plans db \<or> plan_step (ex_plans db) (ex_plans db') \<Longrightarrow>
   expenses_ok db \<Longrightarrow> expenses_ok db'"
  by (auto simp: expenses_ok_def intro: plan_reachable.step)

lemma upsert_with_tx_ok:
  assumes "expense_upsert_with_tx po ca i db = (Inr x, db')" "expenses_ok db"
  shows "expenses_ok db'"
proof -
  obtain cmd slug where "upsert_in_tx ca cmd slug db = (Inr x, db')"
    using assms(1) by (auto simp: expense_upsert_with_tx_def split: sum.splits)
  then show ?thesis
    using upsert_in_tx_ok(1,2) assms(2) by (intro expenses_okI [of db' db]) (auto simp: expenses_ok_def)
qed

lemma delete_with_tx_ok:
  assumes "expense_delete_with_tx po ca i db = (Inr x, db')" "expenses_ok db"
  shows "expenses_ok db'"
  using assms delete_in_tx_ok
  by (auto simp: expense_delete_with_tx_def expenses_ok_def split: sum.splits)

lemma apply_pending_ok:
  assumes "apply_pending po ca ttl evt db = (Inr z, db')" "expenses_ok db"
  shows "expenses_ok db'"
  using assms upsert_with_tx_ok delete_with_tx_ok
  by (auto simp: apply_pending_def apply_upsert_def apply_delete_def
      split: if_splits sum.splits prod.splits outcome_kind.splits option.splits)

text \<open>One committed request, or one waiting event that the reaper applied.\<close>

inductive expense_step :: "expense_db \<Rightarrow> expense_db \<Rightarrow> bool" where
  plans: "plan_step (ex_plans db) plans \<Longrightarrow> expense_step db (db\<lparr>ex_plans := plans\<rparr>)"
| upserts: "expense_upsert_execute po ca i db = (r, db') \<Longrightarrow> expense_step db db'"
| deletes: "expense_delete_execute po ca j db = (w, db') \<Longrightarrow> expense_step db db'"
| external: "delete_by_external_id po ca user source ext db = (w, db') \<Longrightarrow> expense_step db db'"
| pending: "apply_pending po ca ttl evt db = (Inr z, db') \<Longrightarrow> expense_step db db'"

definition empty_expense_db :: expense_db where
  "empty_expense_db = \<lparr>ex_plans = empty_plan_db, ex_rows = [], ex_outbox = []\<rparr>"

inductive expense_reachable :: "expense_db \<Rightarrow> bool" where
  start: "expense_reachable empty_expense_db"
| step: "expense_reachable db \<Longrightarrow> expense_step db db' \<Longrightarrow> expense_reachable db'"

lemma expense_step_ok: "expense_step db db' \<Longrightarrow> expenses_ok db \<Longrightarrow> expenses_ok db'"
proof (induction rule: expense_step.induct)
  case (plans db plans)
  then have "row_ok (db\<lparr>ex_plans := plans\<rparr>) = row_ok db" by (simp add: row_ok_def [abs_def])
  with plans show ?case
    by (auto simp: expenses_ok_def expenses_wf_def intro: plan_reachable.step)
next
  case (upserts po ca i db r db')
  then show ?case
    by (auto simp: expense_upsert_execute_def split: if_splits
        elim: do_tx_ok [rotated 2] intro: upsert_with_tx_ok)
next
  case (deletes po ca j db w db')
  then show ?case
    by (auto simp: expense_delete_execute_def split: if_splits
        elim: do_tx_ok [rotated 2] intro: delete_with_tx_ok)
next
  case (external po ca user source ext db w db')
  have "expenses_ok s'" if "delete_by_identity_in_tx ca k db = (Inr x, s')" for k x s'
    using delete_by_identity_in_tx_ok [OF that] external(2) by (simp add: expenses_ok_def)
  with external show ?case
    by (auto simp: delete_by_external_id_def split: option.splits sum.splits
        elim: do_tx_ok [rotated 2])
next
  case (pending po ca ttl evt db z db')
  then show ?case by (rule apply_pending_ok)
qed


section \<open>A sample run\<close>

lemma now_is_a_month: "\<not> comp_is_zero (competence_from_time t l)"
  by (simp add: comp_is_zero_def competence_from_time_def Let_def month_string_def)

definition sample_ports :: expense_ports where
  "sample_ports = \<lparr>po_parse = (\<lambda>s. Some (of_nat (undec s))), po_show = (\<lambda>u. dec (unat u)),
     po_root_of = (\<lambda>_. Inr ''expense.metas'')\<rparr>"

definition sample_call :: expense_call where
  "sample_call = \<lparr>ca_now = \<lparr>ns = 1, loc = utc\<rparr>, ca_loc = utc, ca_expense_id = 5, ca_budget_id = 7\<rparr>"

abbreviation sample_ulid :: string where
  "sample_ulid \<equiv> ''01ARZ3NDEKTSV4RRFFQ69G5FAV''"

definition sample_event :: pending_event where
  "sample_event = new_pending_event 1 2 (1, ''api'', sample_ulid) 1 MutationCreate
     (Some \<lparr>pp_subcategory_id = ''2'', pp_competence = ''2025-03'', pp_amount_cents = 700,
            pp_occurred_at = zero_time\<rparr>) (ca_now sample_call)"

lemma sample_texts:
  "new_external_transaction_id sample_ulid = Inr sample_ulid"
  "new_competence ''2025-03'' = Inr (Competence ''2025-03'')"
  "month_digits ''2025-03''" "digit_val CHR ''2'' = 2" "parse_root_slug ''expense.metas'' = Inr Metas"
  by code_simp+

lemma sample_applied:
  "\<exists>db'. apply_pending sample_ports sample_call 0 sample_event empty_expense_db =
     (Inr PendingOutcomeApplied, db') \<and> length (ex_rows db') = 1"
  by (simp add: apply_pending_def sample_event_def new_pending_event_def pending_is_expired_def
      sub_time_def load_current_def get_by_identity_def empty_expense_db_def decide_pending_def
      apply_upsert_def expense_upsert_with_tx_def new_upsert_expense_command_def
      pending_upsert_input_def sample_ports_def sample_texts new_producer_source_def bad_version_def
      resolve_root_slug_def upsert_in_tx_def upsert_identity_def create_expense_def sample_call_def
      zero_time_def is_zero_def new_expense_def ensure_exists_def get_by_user_competence_def
      empty_plan_db_def create_draft_def new_auto_draft_budget_def insert_expense_def
      publish_committed_def new_expense_committed_def now_is_a_month comp_is_zero_def [of "Competence _"]
      Let_def publish_def err_if_def)


section \<open>Applying a waiting event twice\<close>

lemma get_by_identity_present:
  assumes "expenses_wf db" "x \<in> set (ex_rows db)" "e_identity x = k"
  obtains t where "get_by_identity k db = Inr (x, t)"
proof -
  obtain e t where e: "get_by_identity k db = Inr (e, t)"
  proof (cases "get_by_identity k db")
    case (Inl err)
    then have "\<not> (\<exists>e \<in> set (ex_rows db). e_identity e = k)"
      by (auto simp: get_by_identity_def find_None_iff split: option.splits)
    then show ?thesis using assms(2,3) by blast
  qed (metis surj_pair)
  have "inj_on e_identity (set (ex_rows db))" using assms(1) by (simp add: expenses_wf_def distinct_map)
  then have "e = x"
    using get_by_identity_row [OF e] assms(2,3) by (metis inj_onD)
  then show ?thesis using e that by blast
qed

lemma upsert_command_identity:
  "new_upsert_expense_command po i = Inr cmd \<Longrightarrow>
   po_parse po (ui_user_id i) = Some (xc_user_id cmd) \<and>
   upsert_identity cmd = (xc_user_id cmd, ui_source i, ui_ext_id i) \<and>
   xc_expected_version cmd = ui_expected_version i \<and> xc_reconcile cmd = ui_reconcile i"
  by (auto simp: new_upsert_expense_command_def Let_def upsert_identity_def new_producer_source_def
      new_external_transaction_id_def split: option.splits sum.splits if_splits)

lemma delete_command_identity:
  "new_delete_expense_command po i = Inr cmd \<Longrightarrow>
   \<exists>u. po_parse po (di_user_id i) = Some u \<and> dc_identity cmd = (u, di_source i, di_ext_id i) \<and>
     dc_expected_version cmd = di_expected_version i"
  by (auto simp: new_delete_expense_command_def Let_def new_producer_source_def
      new_external_transaction_id_def split: option.splits sum.splits if_splits)

lemma decided_noop:
  assumes "expenses_wf db" "x \<in> set (ex_rows db)" "e_identity x = pe_identity evt"
    "pe_mutation evt = MutationCreate \<or> pe_expected_version evt \<le> e_version x"
  shows "apply_pending po ca ttl evt db =
    (Inr (if pending_is_expired ttl (ca_now ca) evt then PendingOutcomeExpired
          else PendingOutcomeObsolete), db)"
proof -
  obtain t where "get_by_identity (pe_identity evt) db = Inr (x, t)"
    using get_by_identity_present [OF assms(1,2,3)] by blast
  then show ?thesis
    using assms(4) by (auto simp: apply_pending_def load_current_def decide_pending_def)
qed

lemma applied_upsert:
  assumes "apply_upsert po ca evt expected db = (Inr z, db')" "expenses_wf db"
    "po_parse po (po_show po (fst (pe_identity evt))) = Some (fst (pe_identity evt))"
  obtains cmd slug x where "upsert_in_tx ca cmd slug db = (Inr x, db')" "expenses_wf db'"
    "x \<in> set (ex_rows db')" "e_identity x = pe_identity evt" "upsert_identity cmd = pe_identity evt"
    "xc_expected_version cmd = expected" "\<not> xc_reconcile cmd"
proof -
  obtain p cmd slug x where p: "new_upsert_expense_command po (pending_upsert_input po evt p expected) = Inr cmd"
    and x: "upsert_in_tx ca cmd slug db = (Inr x, db')"
    using assms(1)
    by (auto simp: apply_upsert_def expense_upsert_with_tx_def split: option.splits sum.splits prod.splits)
  have cmd: "upsert_identity cmd = pe_identity evt" "xc_expected_version cmd = expected"
      "\<not> xc_reconcile cmd"
    using upsert_command_identity [OF p] assms(3) by (auto simp: pending_upsert_input_def prod_eq_iff)
  show ?thesis
    using that [OF x upsert_in_tx_ok(1) [OF x assms(2)] upsert_in_tx_ok(3) [OF x assms(2)]]
      upsert_in_tx_ok(4) [OF x assms(2)] cmd by simp
qed

text \<open>
  A waiting event that has been applied can be applied again, at any later time: nothing
  changes and nothing fails.
\<close>

lemma apply_pending_twice:
  assumes wf: "expenses_wf db"
    and codec: "po_parse po (po_show po (fst (pe_identity evt))) = Some (fst (pe_identity evt))"
    and applied: "apply_pending po ca ttl evt db = (Inr PendingOutcomeApplied, db')"
  shows "\<exists>z. apply_pending po later ttl evt db' = (Inr z, db') \<and> z \<noteq> PendingOutcomeStillPending"
proof -
  obtain current kind v where live: "\<not> pending_is_expired ttl (ca_now ca) evt"
    and cur: "load_current evt db = Inr current" and dec: "decide_pending evt current = (kind, v)"
    using applied by (auto simp: apply_pending_def split: if_splits sum.splits prod.splits)
  have again: ?thesis if "expenses_wf db'" "x \<in> set (ex_rows db')" "e_identity x = pe_identity evt"
    "pe_mutation evt = MutationCreate \<or> pe_expected_version evt \<le> e_version x" for x
    using decided_noop [OF that] by simp
  have next_version: "pe_expected_version evt \<le> i64 (e_version e + 1)"
    if "current = Some e" "kind = OutcomeUpdate \<or> kind = OutcomeDelete" for e
    using dec that by (auto simp: decide_pending_def split: if_splits)
  have version: "v = e_version e" if "current = Some e" "kind = OutcomeUpdate \<or> kind = OutcomeDelete" for e
    using dec that by (auto simp: decide_pending_def split: if_splits)
  have some: "\<exists>e. current = Some e" if "kind = OutcomeUpdate \<or> kind = OutcomeDelete"
    using dec that by (auto simp: decide_pending_def split: if_splits option.splits)
  have loaded: "\<exists>t. get_by_identity (pe_identity evt) db = Inr (e, t)" if "current = Some e" for e
    using cur that by (auto simp: load_current_def split: sum.splits if_splits)
  consider "kind = OutcomeCreate" "apply_upsert po ca evt None db = (Inr PendingOutcomeApplied, db')"
    | e where "current = Some e" "kind = OutcomeUpdate"
        "apply_upsert po ca evt (Some v) db = (Inr PendingOutcomeApplied, db')"
    | e where "current = Some e" "kind = OutcomeDelete"
        "apply_delete po ca evt v db = (Inr PendingOutcomeApplied, db')"
    using applied live cur dec some by (cases kind) (auto simp: apply_pending_def)
  then show ?thesis
  proof cases
    case 1
    obtain cmd slug x where "expenses_wf db'" "x \<in> set (ex_rows db')" "e_identity x = pe_identity evt"
      using applied_upsert [OF 1(2) wf codec] by metis
    moreover have "pe_mutation evt = MutationCreate"
      using dec 1(1) by (auto simp: decide_pending_def split: if_splits option.splits)
    ultimately show ?thesis by (intro again) simp_all
  next
    case (2 e)
    obtain t where got: "get_by_identity (pe_identity evt) db = Inr (e, t)" using loaded 2(1) by blast
    obtain cmd slug x where up: "upsert_in_tx ca cmd slug db = (Inr x, db')"
      and x: "expenses_wf db'" "x \<in> set (ex_rows db')" "e_identity x = pe_identity evt"
      and cmd: "upsert_identity cmd = pe_identity evt" "xc_expected_version cmd = Some v"
        "\<not> xc_reconcile cmd"
      using applied_upsert [OF 2(3) wf codec] by metis
    have "update_expense_row ca cmd slug v e db = (Inr x, db')"
      using up got cmd by (auto simp: upsert_in_tx_def split: if_splits)
    then have "e_version x = i64 (v + 1)"
      using update_expense_row_ok(5) [OF _ wf get_by_identity_row(1) [OF got]] by blast
    then have "pe_expected_version evt \<le> e_version x"
      using next_version [OF 2(1)] version [OF 2(1)] 2(2) by metis
    then show ?thesis by (intro again [OF x]) simp
  next
    case (3 e)
    obtain t where got: "get_by_identity (pe_identity evt) db = Inr (e, t)" using loaded 3(1) by blast
    obtain cmd where cmd: "new_delete_expense_command po (pending_delete_input po evt v) = Inr cmd"
      and del: "delete_in_tx ca cmd db = (Inr (), db')"
      using 3(3) by (auto simp: apply_delete_def expense_delete_with_tx_def split: sum.splits prod.splits)
    have ident: "dc_identity cmd = pe_identity evt"
      using delete_command_identity [OF cmd] codec by (auto simp: pending_delete_input_def prod_eq_iff)
    show ?thesis
    proof (cases "tombstone_is_present t \<or> is_deleted e")
      case True
      then have same: "db' = db" using del got ident by (simp add: delete_in_tx_def)
      have "delete_in_tx later cmd db = (Inr (), db)"
        using True got ident by (simp add: delete_in_tx_def)
      then show ?thesis
        using cur dec 3(2) cmd
        by (auto simp: same apply_pending_def apply_delete_def expense_delete_with_tx_def)
    next
      case False
      then have "delete_existing ca (fst (dc_identity cmd)) (dc_expected_version cmd) e db = (Inr (), db')"
        using del got ident by (simp add: delete_in_tx_def)
      from delete_existing_ok [OF this wf get_by_identity_row(1) [OF got]]
      obtain x where x: "expenses_wf db'" "x \<in> set (ex_rows db')" "e_identity x = pe_identity evt"
          "e_version x = i64 (dc_expected_version cmd + 1)"
        using get_by_identity_row(2) [OF got] by auto
      note x(4)
      moreover have "dc_expected_version cmd = v"
        using delete_command_identity [OF cmd] by (auto simp: pending_delete_input_def)
      ultimately have "pe_expected_version evt \<le> e_version x"
        using next_version [OF 3(1)] version [OF 3(1)] 3(2) by metis
      then show ?thesis by (intro again [OF x(1,2,3)]) simp
    qed
  qed
qed

lemma apply_pending_twice_witness:
  "\<exists>db z. apply_pending sample_ports sample_call 0 sample_event db = (Inr z, db) \<and>
     z \<noteq> PendingOutcomeStillPending \<and> length (ex_rows db) = 1"
proof -
  obtain db' where db': "apply_pending sample_ports sample_call 0 sample_event empty_expense_db =
      (Inr PendingOutcomeApplied, db')" "length (ex_rows db') = 1"
    using sample_applied by blast
  have "expenses_wf empty_expense_db" by (simp add: empty_expense_db_def expenses_wf_def)
  moreover have "po_parse sample_ports (po_show sample_ports u) = Some u" for u
    by (simp add: sample_ports_def)
  ultimately show ?thesis
    using apply_pending_twice [of empty_expense_db sample_ports sample_event, OF _ _ db'(1)] db'(2)
    by blast
qed

end
