(* ===== verification/BudgetFeed.thy ===== *)
theory BudgetFeed
  imports BudgetExpenses TxnWorkflow
begin

text \<open>
  The transactions module tells the budgets module what was spent: the three consumers of
  \<open>internal/budgets/infrastructure/messaging/database/consumers\<close> turn the events of a
  transaction into expenses. This is where the two modules meet: what a purchase on a card costs
  each month, and what its deletion gives back.
\<close>

section \<open>Payloads\<close>

text \<open>
  The events are marshalled to JSON by the producer and read back by the consumer; the two sides
  agree on the field names, so the payload of an event is the record of its fields in the types
  of the consumer: identifiers and months as strings, the direction as its number.
\<close>

fun direction_int :: "direction \<Rightarrow> int" where
  "direction_int DirectionIncome = 1"
| "direction_int DirectionOutcome = 2"

record installment_payload =
  ip_item_id :: string
  ip_ref_month :: string
  ip_amount_cents :: int
  ip_index :: int

record created_payload =
  cp_aggregate_id :: string
  cp_user_id :: string
  cp_occurred_at :: gotime
  cp_direction :: int
  cp_amount_cents :: int
  cp_ref_month :: string
  cp_subcategory_id :: string
  cp_installments :: "installment_payload list"

record updated_payload =
  up_aggregate_id :: string
  up_user_id :: string
  up_occurred_at :: gotime
  up_direction :: int
  up_amount_cents :: int
  up_ref_month :: string
  up_subcategory_id :: string

record deleted_payload =
  dp_aggregate_id :: string
  dp_user_id :: string
  dp_occurred_at :: gotime

definition created_wire :: "expense_ports \<Rightarrow> transaction_created \<Rightarrow> created_payload" where
  "created_wire po e =
     \<lparr>cp_aggregate_id = po_show po (tc_aggregate_id e), cp_user_id = po_show po (tc_user_id e),
      cp_occurred_at = tc_occurred_at e, cp_direction = direction_int (tc_direction e),
      cp_amount_cents = tc_amount_cents e, cp_ref_month = rm_value (tc_ref_month e),
      cp_subcategory_id = po_show po (tc_subcategory_id e),
      cp_installments = map (\<lambda>i. \<lparr>ip_item_id = po_show po (cpi_item_id i),
        ip_ref_month = rm_value (cpi_ref_month i), ip_amount_cents = cpi_amount_cents i,
        ip_index = cpi_index i\<rparr>) (tc_installments e)\<rparr>"

definition updated_wire :: "expense_ports \<Rightarrow> transaction_updated \<Rightarrow> updated_payload" where
  "updated_wire po e =
     \<lparr>up_aggregate_id = po_show po (tu_aggregate_id e), up_user_id = po_show po (tu_user_id e),
      up_occurred_at = tu_occurred_at e, up_direction = direction_int (tu_direction e),
      up_amount_cents = tu_amount_cents e, up_ref_month = rm_value (tu_ref_month e),
      up_subcategory_id = po_show po (tu_subcategory_id e)\<rparr>"

definition deleted_wire :: "expense_ports \<Rightarrow> transaction_deleted \<Rightarrow> deleted_payload" where
  "deleted_wire po e =
     \<lparr>dp_aggregate_id = po_show po (td_aggregate_id e), dp_user_id = po_show po (td_user_id e),
      dp_occurred_at = td_occurred_at e\<rparr>"

section \<open>The consumers\<close>

definition expense_source :: string where
  "expense_source = ''transactions''"

definition card_expense_source :: string where
  "card_expense_source = ''transactions_card''"

definition feed_input ::
  "string \<Rightarrow> string \<Rightarrow> string \<Rightarrow> string \<Rightarrow> string \<Rightarrow> int \<Rightarrow> gotime \<Rightarrow> bool \<Rightarrow> upsert_input" where
  "feed_input user source ext sub mon amount occurred reconcile =
     \<lparr>ui_user_id = user, ui_source = source, ui_ext_id = ext, ui_subcategory_id = sub,
      ui_competence = mon, ui_amount_cents = amount, ui_occurred_at = occurred,
      ui_expected_version = None, ui_reconcile = reconcile\<rparr>"

text \<open>An expense that was deleted before is skipped, not an error.\<close>

definition feed_one ::
  "expense_ports \<Rightarrow> expense_call \<Rightarrow> upsert_input \<Rightarrow> unit expense_step" where
  "feed_one po ca i db =
     (case expense_upsert_execute po ca i db of
        (Inr x, db') \<Rightarrow> (Inr (), db')
      | (Inl es, db') \<Rightarrow>
          if ErrExpenseTombstoneConflict \<in> set es then (Inr (), db') else (Inl es, db'))"

text \<open>
  Every installment is a transaction of its own; the errors are joined. Call \<open>n\<close> serves the
  installment that has \<open>n\<close> more behind it.
\<close>

fun errors_of :: "'e list + unit \<Rightarrow> 'e list" where
  "errors_of (Inl es) = es"
| "errors_of (Inr _) = []"

fun apply_installments ::
  "expense_ports \<Rightarrow> (nat \<Rightarrow> expense_call) \<Rightarrow> created_payload \<Rightarrow> installment_payload list \<Rightarrow>
   expense_db \<Rightarrow> budget_error list \<times> expense_db" where
  "apply_installments po calls p [] db = ([], db)"
| "apply_installments po calls p (i # is) db =
     (case feed_one po (calls (length is))
             (feed_input (cp_user_id p) card_expense_source (ip_item_id i) (cp_subcategory_id p)
                (ip_ref_month i) (ip_amount_cents i) (cp_occurred_at p) False) db of
        (r, db1) \<Rightarrow>
          (case apply_installments po calls p is db1 of
             (es, db2) \<Rightarrow> (errors_of r @ es, db2)))"

definition join_errors :: "'e list \<Rightarrow> 'e list + unit" where
  "join_errors es = (if es = [] then Inr () else Inl es)"

definition no_subcategory :: "expense_ports \<Rightarrow> string \<Rightarrow> bool" where
  "no_subcategory po s \<longleftrightarrow> s = [] \<or> s = po_show po uuid_nil"

definition handle_created ::
  "expense_ports \<Rightarrow> (nat \<Rightarrow> expense_call) \<Rightarrow> created_payload \<Rightarrow> unit expense_step" where
  "handle_created po calls p db =
     (if cp_direction p \<noteq> 2 then (Inr (), db)
      else if no_subcategory po (cp_subcategory_id p) then (Inr (), db)
      else if cp_installments p \<noteq> []
      then (case apply_installments po calls p (cp_installments p) db of (es, db') \<Rightarrow> (join_errors es, db'))
      else feed_one po (calls 0)
             (feed_input (cp_user_id p) expense_source (cp_aggregate_id p) (cp_subcategory_id p)
                (cp_ref_month p) (cp_amount_cents p) (cp_occurred_at p) False) db)"

definition handle_updated ::
  "expense_ports \<Rightarrow> expense_call \<Rightarrow> updated_payload \<Rightarrow> unit expense_step" where
  "handle_updated po ca p db =
     (if up_direction p \<noteq> 2 then (Inr (), db)
      else if no_subcategory po (up_subcategory_id p) then (Inr (), db)
      else feed_one po ca
             (feed_input (up_user_id p) expense_source (up_aggregate_id p) (up_subcategory_id p)
                (up_ref_month p) (up_amount_cents p) (up_occurred_at p) True) db)"

definition handle_deleted ::
  "expense_ports \<Rightarrow> expense_call \<Rightarrow> deleted_payload \<Rightarrow> unit expense_step" where
  "handle_deleted po ca p db =
     (if po_parse po (dp_aggregate_id p) = None then (Inl [ErrPayloadInvalid], db)
      else delete_by_external_id po ca (dp_user_id p) expense_source (dp_aggregate_id p) db)"

section \<open>What a month has cost\<close>

definition spent :: "uuid \<Rightarrow> competence \<Rightarrow> root_slug \<Rightarrow> expense_db \<Rightarrow> int" where
  "spent u c slug db = (case sum_by_root u c db slug of None \<Rightarrow> 0 | Some s \<Rightarrow> s)"

definition counts_for :: "uuid \<Rightarrow> competence \<Rightarrow> root_slug \<Rightarrow> expense \<Rightarrow> bool" where
  "counts_for u c slug e \<longleftrightarrow>
     e_user_id e = u \<and> e_competence e = c \<and> e_deleted_at e = None \<and> e_root_slug e = slug"

lemma spent_eq: "spent u c slug db = sum_list (map e_amount_cents (filter (counts_for u c slug) (ex_rows db)))"
  by (simp add: spent_def sum_by_root_def counts_for_def [abs_def] Let_def)

text \<open>An identifier the consumers can use: it is printed as a version 4 UUID and read back.\<close>

definition usable_id :: "expense_ports \<Rightarrow> uuid \<Rightarrow> bool" where
  "usable_id po i \<longleftrightarrow>
     po_parse po (po_show po i) = Some i \<and> uuid_v4_text (po_show po i) \<and> i \<noteq> uuid_nil"

lemma show_nonempty: "usable_id po i \<Longrightarrow> po_show po i \<noteq> []"
  by (auto simp: usable_id_def uuid_v4_text_def)

lemma ensure_exists_total:
  assumes "month_digits (comp_value c)"
  shows "\<exists>plans. ensure_exists i now u c db = Inr plans"
proof -
  have "get_by_user_competence u c db = Inl e \<Longrightarrow> e = ErrBudgetNotFound" for e
    by (auto simp: get_by_user_competence_def split: option.splits)
  then show ?thesis
    using assms
    by (auto simp: ensure_exists_def create_draft_def new_auto_draft_budget_def split: sum.splits)
qed

text \<open>What the first delivery of an expense needs, besides an identity that is new.\<close>

definition feedable ::
  "expense_ports \<Rightarrow> uuid \<Rightarrow> uuid \<Rightarrow> root_slug \<Rightarrow> bool" where
  "feedable po u sub slug \<longleftrightarrow>
     po_parse po (po_show po u) = Some u \<and> u \<noteq> uuid_nil \<and>
     po_parse po (po_show po sub) = Some sub \<and> sub \<noteq> uuid_nil \<and> po_show po sub \<noteq> [] \<and>
     po_parse po (po_show po uuid_nil) = Some uuid_nil \<and>
     resolve_root_slug po sub = Inr slug"

definition fresh_call :: "expense_call \<Rightarrow> expense_db \<Rightarrow> bool" where
  "fresh_call ca db \<longleftrightarrow>
     ca_expense_id ca \<notin> e_id ` set (ex_rows db) \<and> ca_expense_id ca \<noteq> uuid_nil \<and> \<not> is_zero (ca_now ca)"

lemma feed_command:
  assumes "feedable po u sub slug" "uuid_v4_text ext" "source \<noteq> []" "month_digits mon" "0 < amount"
  shows "validate_upsert_input po (feed_input (po_show po u) source ext (po_show po sub) mon amount t r) = []"
    "new_upsert_expense_command po (feed_input (po_show po u) source ext (po_show po sub) mon amount t r) =
      Inr \<lparr>xc_user_id = u, xc_subcategory_id = sub, xc_source = source, xc_ext_id = ext,
           xc_competence = Competence mon, xc_amount_cents = amount, xc_occurred_at = t,
           xc_expected_version = None, xc_reconcile = r\<rparr>"
proof -
  have "ext \<noteq> []" "mon \<noteq> []" using assms(2,4) by (auto simp: uuid_v4_text_def month_digits_def)
  then show "validate_upsert_input po (feed_input (po_show po u) source ext (po_show po sub) mon amount t r) = []"
    using assms by (simp add: validate_upsert_input_def feed_input_def bad_version_def feedable_def err_if_def)
  show "new_upsert_expense_command po (feed_input (po_show po u) source ext (po_show po sub) mon amount t r) =
      Inr \<lparr>xc_user_id = u, xc_subcategory_id = sub, xc_source = source, xc_ext_id = ext,
           xc_competence = Competence mon, xc_amount_cents = amount, xc_occurred_at = t,
           xc_expected_version = None, xc_reconcile = r\<rparr>"
    using assms
    by (simp add: new_upsert_expense_command_def feed_input_def bad_version_def feedable_def err_if_def
        new_producer_source_def new_external_transaction_id_def new_competence_def)
qed

lemma get_by_identity_absent:
  assumes "k \<notin> e_identity ` set (ex_rows db)"
  shows "get_by_identity k db = Inl ErrExpenseNotFound"
proof -
  have "find (\<lambda>e. e_identity e = k) (ex_rows db) = None"
    using assms unfolding find_None_iff by blast
  then show ?thesis by (simp add: get_by_identity_def)
qed

text \<open>The first delivery adds one live row with the amount, in its month and category.\<close>

definition charged :: "uuid \<Rightarrow> root_slug \<Rightarrow> string \<Rightarrow> string \<Rightarrow> string \<Rightarrow> int \<Rightarrow> expense \<Rightarrow> bool" where
  "charged u slug source ext mon amount x \<longleftrightarrow>
     e_identity x = (u, source, ext) \<and> e_amount_cents x = amount \<and>
     (\<forall>u' c s. counts_for u' c s x \<longleftrightarrow> u' = u \<and> c = Competence mon \<and> s = slug)"

lemma feed_creates:
  assumes f: "feedable po u sub slug" "uuid_v4_text ext" "source \<noteq> []" "month_digits mon" "0 < amount"
    and new: "(u, source, ext) \<notin> e_identity ` set (ex_rows db)" and fresh: "fresh_call ca db"
  shows "\<exists>x db'.
    feed_one po ca (feed_input (po_show po u) source ext (po_show po sub) mon amount t r) db = (Inr (), db') \<and>
    ex_rows db' = ex_rows db @ [x] \<and> e_id x = ca_expense_id ca \<and> charged u slug source ext mon amount x"
proof -
  let ?cmd = "\<lparr>xc_user_id = u, xc_subcategory_id = sub, xc_source = source, xc_ext_id = ext,
      xc_competence = Competence mon, xc_amount_cents = amount, xc_occurred_at = t,
      xc_expected_version = None, xc_reconcile = r\<rparr>"
  let ?x = "\<lparr>e_id = ca_expense_id ca, e_user_id = u, e_source = source, e_ext_id = ext,
      e_subcategory_id = sub, e_root_slug = slug, e_competence = Competence mon,
      e_amount_cents = amount, e_occurred_at = (if is_zero t then ca_now ca else t), e_version = 1,
      e_tombstone_version = None, e_deleted_at = None, e_created_at = ca_now ca,
      e_updated_at = ca_now ca\<rparr>"
  obtain plans where plans: "ensure_exists (ca_budget_id ca) (ca_now ca) u (Competence mon)
      (ex_plans db) = Inr plans"
    using ensure_exists_total [of "Competence mon"] f(4) by (metis competence.sel)
  have "mon \<noteq> []" using f(4) by (auto simp: month_digits_def)
  then have "\<exists>v. new_expense_committed (ca_expense_id ca) u sub slug (Competence mon)
      MutationCreate (ca_now ca) (competence_from_time (ca_now ca) (ca_loc ca)) = Inr v"
    using f(1) fresh now_is_a_month
    by (simp add: new_expense_committed_def feedable_def fresh_call_def Let_def err_if_def
        comp_is_zero_def [of "Competence _"])
  then obtain v where v: "new_expense_committed (ca_expense_id ca) u sub slug (Competence mon)
      MutationCreate (ca_now ca) (competence_from_time (ca_now ca) (ca_loc ca)) = Inr v"
    by blast
  from get_by_identity_absent [OF new] have "upsert_in_tx ca ?cmd slug db =
      (Inr ?x, publish v (db\<lparr>ex_plans := plans, ex_rows := ex_rows db @ [?x]\<rparr>))"
    using f(4,5) plans v fresh new
    by (simp add: upsert_in_tx_def upsert_identity_def create_expense_def new_expense_def Let_def
        insert_expense_def e_identity_def fresh_call_def publish_committed_def)
  then have "feed_one po ca (feed_input (po_show po u) source ext (po_show po sub) mon amount t r) db =
      (Inr (), publish v (db\<lparr>ex_plans := plans, ex_rows := ex_rows db @ [?x]\<rparr>))"
    using f(1) feed_command [OF f]
    by (simp add: feed_one_def expense_upsert_execute_def do_tx_def expense_upsert_with_tx_def feedable_def)
  then show ?thesis
    by (auto simp: e_identity_def counts_for_def charged_def publish_def)
qed

text \<open>
  The months and amounts an event charges, and the identities under which it does so: one per
  installment of a card purchase, one for anything else.
\<close>

definition charges :: "transaction_created \<Rightarrow> (ref_month \<times> int) list" where
  "charges e =
     (if tc_installments e = [] then [(tc_ref_month e, tc_amount_cents e)]
      else map (\<lambda>i. (cpi_ref_month i, cpi_amount_cents i)) (tc_installments e))"

definition charge_keys :: "expense_ports \<Rightarrow> transaction_created \<Rightarrow> (string \<times> string) list" where
  "charge_keys po e =
     (if tc_installments e = [] then [(expense_source, po_show po (tc_aggregate_id e))]
      else map (\<lambda>i. (card_expense_source, po_show po (cpi_item_id i))) (tc_installments e))"

definition charged_to :: "competence \<Rightarrow> (ref_month \<times> int) list \<Rightarrow> int" where
  "charged_to c cs = sum_list (map snd (filter (\<lambda>ma. Competence (rm_value (fst ma)) = c) cs))"

definition first_delivery ::
  "expense_ports \<Rightarrow> (nat \<Rightarrow> expense_call) \<Rightarrow> transaction_created \<Rightarrow> expense_db \<Rightarrow> bool" where
  "first_delivery po calls e db \<longleftrightarrow>
     (\<forall>k \<in> set (charge_keys po e). uuid_v4_text (snd k) \<and>
        (tc_user_id e, fst k, snd k) \<notin> e_identity ` set (ex_rows db)) \<and>
     distinct (charge_keys po e) \<and>
     (\<forall>ma \<in> set (charges e). month_digits (rm_value (fst ma)) \<and> 0 < snd ma) \<and>
     (\<forall>n < length (charges e). fresh_call (calls n) db) \<and>
     inj_on (\<lambda>n. ca_expense_id (calls n)) {..<length (charges e)}"

lemma feed_installments:
  assumes "feedable po u sub slug" "cp_user_id p = po_show po u" "cp_subcategory_id p = po_show po sub"
    "\<forall>i \<in> set is. uuid_v4_text (ip_item_id i) \<and> month_digits (ip_ref_month i) \<and> 0 < ip_amount_cents i \<and>
       (u, card_expense_source, ip_item_id i) \<notin> e_identity ` set (ex_rows db)"
    "distinct (map ip_item_id is)" "\<forall>n < length is. fresh_call (calls n) db"
    "inj_on (\<lambda>n. ca_expense_id (calls n)) {..<length is}"
  shows "\<exists>db' xs. apply_installments po calls p is db = ([], db') \<and> ex_rows db' = ex_rows db @ xs \<and>
    list_all2 (\<lambda>i. charged u slug card_expense_source (ip_item_id i) (ip_ref_month i) (ip_amount_cents i)) is xs"
  using assms(4-)
proof (induction "is" arbitrary: db)
  case (Cons i rest)
  have src: "card_expense_source \<noteq> []" by (simp add: card_expense_source_def)
  obtain x db1 where x: "feed_one po (calls (length rest)) (feed_input (po_show po u) card_expense_source
        (ip_item_id i) (po_show po sub) (ip_ref_month i) (ip_amount_cents i) (cp_occurred_at p) False) db =
        (Inr (), db1)"
      "ex_rows db1 = ex_rows db @ [x]" "e_id x = ca_expense_id (calls (length rest))"
      "charged u slug card_expense_source (ip_item_id i) (ip_ref_month i) (ip_amount_cents i) x"
    using feed_creates [OF assms(1) _ src, of "ip_item_id i" "ip_ref_month i" "ip_amount_cents i" db
        "calls (length rest)" "cp_occurred_at p" False] Cons.prems by auto
  have ident: "e_identity x = (u, card_expense_source, ip_item_id i)" using x(4) by (simp add: charged_def)
  have "fresh_call (calls n) db1" if "n < length rest" for n
  proof -
    have "ca_expense_id (calls n) \<noteq> ca_expense_id (calls (length rest))"
      using inj_onD [OF Cons.prems(4), of n "length rest"] that by auto
    then show ?thesis using Cons.prems(3) that x(2,3) by (auto simp: fresh_call_def)
  qed
  moreover have "\<forall>j \<in> set rest. uuid_v4_text (ip_item_id j) \<and> month_digits (ip_ref_month j) \<and>
      0 < ip_amount_cents j \<and> (u, card_expense_source, ip_item_id j) \<notin> e_identity ` set (ex_rows db1)"
  proof
    fix j assume j: "j \<in> set rest"
    then have "ip_item_id j \<noteq> ip_item_id i" using Cons.prems(2) by (metis distinct.simps(2) imageI list.set_map list.simps(9))
    then show "uuid_v4_text (ip_item_id j) \<and> month_digits (ip_ref_month j) \<and>
      0 < ip_amount_cents j \<and> (u, card_expense_source, ip_item_id j) \<notin> e_identity ` set (ex_rows db1)"
      using Cons.prems(1) j x(2) ident by simp
  qed
  moreover have "distinct (map ip_item_id rest)" using Cons.prems(2) by simp
  moreover have "inj_on (\<lambda>n. ca_expense_id (calls n)) {..<length rest}"
    using Cons.prems(4) by (rule inj_on_subset) auto
  ultimately obtain db' xs where
    "apply_installments po calls p rest db1 = ([], db')" "ex_rows db' = ex_rows db1 @ xs"
    "list_all2 (\<lambda>i. charged u slug card_expense_source (ip_item_id i) (ip_ref_month i) (ip_amount_cents i)) rest xs"
    using Cons.IH [of db1] by blast
  then show ?case using x(1,2,4) assms(2,3) by auto
qed simp

definition charge_row :: "uuid \<Rightarrow> root_slug \<Rightarrow> (string \<times> string) \<times> (ref_month \<times> int) \<Rightarrow> expense \<Rightarrow> bool" where
  "charge_row u slug kc = charged u slug (fst (fst kc)) (snd (fst kc)) (rm_value (fst (snd kc))) (snd (snd kc))"

lemma charge_keys_length [simp]: "length (charge_keys po e) = length (charges e)"
  by (simp add: charge_keys_def charges_def)

lemma fed:
  assumes "tc_direction e = DirectionOutcome" "feedable po (tc_user_id e) (tc_subcategory_id e) slug"
    "first_delivery po calls e db"
  shows "\<exists>db' xs. handle_created po calls (created_wire po e) db = (Inr (), db') \<and>
    ex_rows db' = ex_rows db @ xs \<and>
    list_all2 (charge_row (tc_user_id e) slug) (zip (charge_keys po e) (charges e)) xs"
proof -
  let ?p = "created_wire po e" and ?u = "tc_user_id e" and ?sub = "tc_subcategory_id e"
  have p: "cp_user_id ?p = po_show po ?u" "cp_subcategory_id ?p = po_show po ?sub"
      "cp_direction ?p = 2" "\<not> no_subcategory po (cp_subcategory_id ?p)"
    using assms(1,2) by (auto simp: created_wire_def no_subcategory_def feedable_def)
  show ?thesis
  proof (cases "tc_installments e = []")
    case True
    have "\<exists>x db'. feed_one po (calls 0) (feed_input (po_show po ?u) expense_source
        (po_show po (tc_aggregate_id e)) (po_show po ?sub) (rm_value (tc_ref_month e))
        (tc_amount_cents e) (tc_occurred_at e) False) db = (Inr (), db') \<and>
        ex_rows db' = ex_rows db @ [x] \<and> e_id x = ca_expense_id (calls 0) \<and>
        charged ?u slug expense_source (po_show po (tc_aggregate_id e)) (rm_value (tc_ref_month e))
          (tc_amount_cents e) x"
      using assms(3) True
      by (intro feed_creates [OF assms(2)])
        (simp_all add: first_delivery_def charges_def charge_keys_def expense_source_def)
    then show ?thesis
      using True p
      by (auto simp: handle_created_def created_wire_def charge_keys_def charges_def charge_row_def)
  next
    case False
    let ?is = "cp_installments ?p"
    have wire: "?is = map (\<lambda>i. \<lparr>ip_item_id = po_show po (cpi_item_id i),
        ip_ref_month = rm_value (cpi_ref_month i), ip_amount_cents = cpi_amount_cents i,
        ip_index = cpi_index i\<rparr>) (tc_installments e)"
      by (simp add: created_wire_def)
    have "distinct (map ip_item_id ?is)"
      using assms(3) False
      by (simp add: first_delivery_def charge_keys_def wire comp_def distinct_map inj_on_def)
    then obtain db' xs where "apply_installments po calls ?p ?is db = ([], db')" "ex_rows db' = ex_rows db @ xs"
      "list_all2 (\<lambda>i. charged ?u slug card_expense_source (ip_item_id i) (ip_ref_month i)
         (ip_amount_cents i)) ?is xs"
      using feed_installments [OF assms(2) p(1,2), of ?is db calls] assms(3) False
      by (auto simp: first_delivery_def charges_def charge_keys_def wire)
    moreover have "list_all2 (charge_row ?u slug) (zip (charge_keys po e) (charges e)) xs"
      if "list_all2 (\<lambda>i. charged ?u slug card_expense_source (ip_item_id i) (ip_ref_month i)
         (ip_amount_cents i)) ?is xs"
      using that False
      by (simp add: charge_keys_def charges_def wire zip_map_map list_all2_map1 charge_row_def
          zip_same_conv_map comp_def)
    ultimately show ?thesis
      using p False by (auto simp: handle_created_def join_errors_def wire)
  qed
qed

lemma charged_sum:
  "list_all2 (charge_row u slug) kcs xs \<Longrightarrow>
   sum_list (map e_amount_cents (filter (counts_for u c slug) xs)) = charged_to c (map snd kcs)"
  by (induction kcs xs rule: list_all2_induct)
    (auto simp: charged_to_def charge_row_def charged_def)

text \<open>
  C14: The first delivery of an expense charges every month what the transaction costs in it: the
  whole amount in its own month, or each installment of a card purchase in the month of its
  invoice; nothing else of the user, the month or the category changes.
\<close>

theorem created_charges_months:
  assumes "tc_direction e = DirectionOutcome" "feedable po (tc_user_id e) (tc_subcategory_id e) slug"
    "first_delivery po calls e db"
  shows "\<exists>db'. handle_created po calls (created_wire po e) db = (Inr (), db') \<and>
    (\<forall>u c s. spent u c s db' = spent u c s db +
       (if u = tc_user_id e \<and> s = slug then charged_to c (charges e) else 0))"
proof -
  obtain db' xs where fed: "handle_created po calls (created_wire po e) db = (Inr (), db')"
      "ex_rows db' = ex_rows db @ xs"
    and rows: "list_all2 (charge_row (tc_user_id e) slug) (zip (charge_keys po e) (charges e)) xs"
    using fed [OF assms] by blast
  have "sum_list (map e_amount_cents (filter (counts_for u c s) xs)) =
      (if u = tc_user_id e \<and> s = slug then charged_to c (charges e) else 0)" for u c s
  proof (cases "u = tc_user_id e \<and> s = slug")
    case True
    then show ?thesis using charged_sum [OF rows, of c] by simp
  next
    case False
    then have "filter (counts_for u c s) xs = []"
      using rows by (auto simp: filter_empty_conv charge_row_def charged_def list_all2_conv_all_nth in_set_conv_nth)
    then show ?thesis using False by auto
  qed
  then show ?thesis using fed by (simp add: spent_eq)
qed

lemma list_all2_left: "list_all2 P ks xs \<Longrightarrow> x \<in> set xs \<Longrightarrow> \<exists>k \<in> set ks. P k x"
  by (induction ks xs rule: list_all2_induct) auto

text \<open>The rows of a card purchase are under the identifiers of its items.\<close>

lemma card_only:
  assumes "tc_installments e \<noteq> []" "(u, expense_source, i) \<notin> e_identity ` set (ex_rows db)"
    "ex_rows db' = ex_rows db @ xs" "list_all2 (charge_row v slug) (zip (charge_keys po e) (charges e)) xs"
  shows "(u, expense_source, i) \<notin> e_identity ` set (ex_rows db')"
proof -
  have "fst (snd (e_identity x)) = card_expense_source" if x: "x \<in> set xs" for x
  proof -
    obtain kc where kc: "kc \<in> set (zip (charge_keys po e) (charges e))" "charge_row v slug kc x"
      using list_all2_left [OF assms(4) x] by blast
    then have "fst kc \<in> set (charge_keys po e)" by (metis set_zip_leftD surjective_pairing)
    then have "fst (fst kc) = card_expense_source" using assms(1) by (auto simp: charge_keys_def)
    then show ?thesis using kc(2) by (simp add: charge_row_def charged_def)
  qed
  then have "(u, expense_source, i) \<notin> e_identity ` set xs"
    by (auto simp: expense_source_def card_expense_source_def dest: arg_cong [of _ _ "fst \<circ> snd"])
  then show ?thesis using assms(2,3) by (simp add: image_Un)
qed

section \<open>Delivered again\<close>

definition valid_charges :: "expense_ports \<Rightarrow> transaction_created \<Rightarrow> bool" where
  "valid_charges po e \<longleftrightarrow>
     (\<forall>k \<in> set (charge_keys po e). uuid_v4_text (snd k)) \<and>
     (\<forall>ma \<in> set (charges e). month_digits (rm_value (fst ma)) \<and> 0 < snd ma)"

lemma feed_known:
  assumes "feedable po u sub slug" "uuid_v4_text ext" "source \<noteq> []" "month_digits mon" "0 < amount"
    "(u, source, ext) \<in> e_identity ` set (ex_rows db)"
  shows "feed_one po ca (feed_input (po_show po u) source ext (po_show po sub) mon amount t False) db = (Inr (), db)"
proof -
  obtain e0 where e0: "e0 \<in> set (ex_rows db)" "e_identity e0 = (u, source, ext)"
    using assms(6) by (metis imageE)
  obtain e tomb where got: "get_by_identity (u, source, ext) db = Inr (e, tomb)"
  proof (cases "get_by_identity (u, source, ext) db")
    case (Inl err)
    then show ?thesis
      using e0 by (auto simp: get_by_identity_def find_None_iff split: option.splits)
  qed (metis surj_pair)
  then show ?thesis
    using assms(1) feed_command [OF assms(1-5)]
    by (simp add: feed_one_def expense_upsert_execute_def do_tx_def expense_upsert_with_tx_def
        feedable_def upsert_in_tx_def upsert_identity_def)
qed

lemma installments_known:
  assumes "feedable po u sub slug" "cp_user_id p = po_show po u" "cp_subcategory_id p = po_show po sub"
    "\<forall>i \<in> set is. uuid_v4_text (ip_item_id i) \<and> month_digits (ip_ref_month i) \<and> 0 < ip_amount_cents i \<and>
       (u, card_expense_source, ip_item_id i) \<in> e_identity ` set (ex_rows db)"
  shows "apply_installments po calls p is db = ([], db)"
  using assms(4)
proof (induction "is")
  case (Cons i rest)
  have "feed_one po (calls (length rest)) (feed_input (po_show po u) card_expense_source
      (ip_item_id i) (po_show po sub) (ip_ref_month i) (ip_amount_cents i) (cp_occurred_at p) False) db =
      (Inr (), db)"
    using Cons.prems by (intro feed_known [OF assms(1)]) (simp_all add: card_expense_source_def)
  then show ?case using Cons by (simp add: assms(2,3))
qed simp

text \<open>
  Events are delivered at least once. A creation whose expenses are already there, live or
  deleted since, is acknowledged and changes nothing.
\<close>

lemma created_redelivered:
  assumes "feedable po (tc_user_id e) (tc_subcategory_id e) slug" "valid_charges po e"
    "\<forall>k \<in> set (charge_keys po e). (tc_user_id e, fst k, snd k) \<in> e_identity ` set (ex_rows db)"
  shows "handle_created po calls (created_wire po e) db = (Inr (), db)"
proof (cases "tc_direction e = DirectionOutcome \<and> \<not> no_subcategory po (po_show po (tc_subcategory_id e))")
  case False
  then show ?thesis by (cases "tc_direction e") (auto simp: handle_created_def created_wire_def)
next
  case outcome: True
  show ?thesis
  proof (cases "tc_installments e = []")
    case True
    have "feed_one po (calls 0) (feed_input (po_show po (tc_user_id e)) expense_source
        (po_show po (tc_aggregate_id e)) (po_show po (tc_subcategory_id e)) (rm_value (tc_ref_month e))
        (tc_amount_cents e) (tc_occurred_at e) False) db = (Inr (), db)"
      using assms(2,3) True
      by (intro feed_known [OF assms(1)])
        (simp_all add: valid_charges_def charges_def charge_keys_def expense_source_def)
    then show ?thesis using True outcome by (simp add: handle_created_def created_wire_def)
  next
    case False
    have "apply_installments po calls (created_wire po e) (cp_installments (created_wire po e)) db = ([], db)"
      using assms(2,3) False
      by (intro installments_known [OF assms(1)])
        (auto simp: created_wire_def valid_charges_def charges_def charge_keys_def)
    then show ?thesis
      using False outcome by (auto simp: handle_created_def created_wire_def join_errors_def)
  qed
qed

section \<open>Edits and deletions of an expense that is there\<close>

lemma sum_replace_row:
  assumes "distinct (map e_id rows)" "e \<in> set rows" "e_id x = e_id e"
  shows "sum_list (map f (filter P (replace_row x rows))) =
    sum_list (map f (filter P rows)) - (if P e then f e else 0) + (if P x then f x else (0 :: int))"
  using assms
proof (induction rows)
  case (Cons r rows)
  show ?case
  proof (cases "r = e")
    case True
    then have "\<forall>y \<in> set rows. e_id y \<noteq> e_id x" using Cons.prems by (metis distinct.simps(2) imageI list.set_map list.simps(9))
    then have "replace_row x rows = rows" by (simp add: replace_row_def map_idI)
    then show ?thesis using True Cons.prems(3) by (simp add: replace_row_def)
  next
    case False
    then have "e \<in> set rows" "e_id r \<noteq> e_id x" using Cons.prems by auto
    then show ?thesis using Cons by (simp add: replace_row_def)
  qed
qed simp

lemma spent_replace_row:
  assumes "expenses_wf db" "e \<in> set (ex_rows db)" "e_id x = e_id e"
    "ex_rows db' = replace_row x (ex_rows db)"
  shows "spent u c s db' = spent u c s db - (if counts_for u c s e then e_amount_cents e else 0) +
    (if counts_for u c s x then e_amount_cents x else 0)"
  using sum_replace_row [of "ex_rows db" e x e_amount_cents "counts_for u c s"] assms
  by (simp add: spent_eq expenses_wf_def)

lemma live_row:
  assumes "expenses_wf db" "e \<in> set (ex_rows db)" "e_identity e = k" "\<not> is_deleted e"
  shows "get_by_identity k db = Inr (e, no_tombstone)"
proof -
  obtain t where "get_by_identity k db = Inr (e, t)"
    using get_by_identity_present [OF assms(1,2,3)] by blast
  then show ?thesis
    using assms(4) by (auto simp: get_by_identity_def is_deleted_def split: option.splits)
qed

lemma no_tombstone_absent [simp]: "\<not> tombstone_is_present no_tombstone"
  by (simp add: tombstone_is_present_def no_tombstone_def)

text \<open>
  Editing a transaction that has an expense of its own moves the charge: what it cost in the
  old month and category is given back, and the new amount is charged to the new ones.
\<close>

lemma updated_moves_charge:
  assumes "expenses_wf db" "e \<in> set (ex_rows db)"
    "e_identity e = (tu_user_id w, expense_source, po_show po (tu_aggregate_id w))"
    "\<not> is_deleted e" "e_id e \<noteq> uuid_nil" "\<not> is_zero (ca_now ca)"
    "tu_direction w = DirectionOutcome" "feedable po (tu_user_id w) (tu_subcategory_id w) slug"
    "uuid_v4_text (po_show po (tu_aggregate_id w))" "month_digits (rm_value (tu_ref_month w))"
    "0 < tu_amount_cents w"
  shows "\<exists>db'. handle_updated po ca (updated_wire po w) db = (Inr (), db') \<and>
    (\<forall>u c s. spent u c s db' = spent u c s db
       - (if counts_for u c s e then e_amount_cents e else 0)
       + (if u = tu_user_id w \<and> c = Competence (rm_value (tu_ref_month w)) \<and> s = slug
          then tu_amount_cents w else 0))"
proof -
  let ?u = "tu_user_id w" and ?sub = "tu_subcategory_id w" and ?c = "Competence (rm_value (tu_ref_month w))"
  let ?t = "if is_zero (tu_occurred_at w) then e_occurred_at e else tu_occurred_at w"
  have src: "expense_source \<noteq> []" by (simp add: expense_source_def)
  note cmd = feed_command [OF assms(8,9) src assms(10,11), of "tu_occurred_at w" True]
  define x where "x = e\<lparr>e_subcategory_id := ?sub, e_root_slug := slug, e_competence := ?c,
      e_amount_cents := tu_amount_cents w, e_occurred_at := ?t,
      e_version := i64 (e_version e + 1), e_updated_at := ca_now ca\<rparr>"
  have edit: "edit_expense ?sub slug ?c (tu_amount_cents w) ?t (e_version e) (ca_now ca) e = Inr x"
    using assms(4,11) by (simp add: edit_expense_def x_def)
  have x: "e_id x = e_id e" "e_user_id x = ?u" "counts_for u c s x \<longleftrightarrow> u = ?u \<and> c = ?c \<and> s = slug"
    "e_amount_cents x = tu_amount_cents w" for u c s
    using assms(3,4) by (auto simp: x_def e_identity_def counts_for_def is_deleted_def)
  have "filter (row_at x (e_version e)) (ex_rows db) \<noteq> []"
    using assms(2,4) by (auto simp: filter_empty_conv row_at_def x_def is_deleted_def)
  then obtain db1 where up: "update_expense x (e_version e) db = Inr db1"
    using assms(10,11) by (simp add: update_expense_def x_def)
  note rows = update_rows(1) [OF assms(1,2) edit up]
  have "rm_value (tu_ref_month w) \<noteq> []" using assms(10) by (auto simp: month_digits_def)
  then have "\<exists>v. new_expense_committed (e_id x) ?u ?sub slug ?c MutationUpdate (ca_now ca)
      (competence_from_time (ca_now ca) (ca_loc ca)) = Inr v"
    using assms(5,6,8) now_is_a_month x(1)
    by (simp add: new_expense_committed_def feedable_def Let_def err_if_def comp_is_zero_def [of "Competence _"])
  then obtain v where v: "new_expense_committed (e_id x) ?u ?sub slug ?c MutationUpdate (ca_now ca)
      (competence_from_time (ca_now ca) (ca_loc ca)) = Inr v" by blast
  have "handle_updated po ca (updated_wire po w) db = (Inr (), publish v db1)"
    using cmd assms(7,8) live_row [OF assms(1,2,3,4)] assms(4) edit up v
    by (auto simp: handle_updated_def updated_wire_def no_subcategory_def feed_one_def feedable_def
        expense_upsert_execute_def do_tx_def expense_upsert_with_tx_def upsert_in_tx_def
        upsert_identity_def update_expense_row_def publish_committed_def Let_def)
  then show ?thesis
    using spent_replace_row [OF assms(1,2) x(1), of "publish v db1"] rows x
    by (simp add: publish_def)
qed

text \<open>
  Deleting a transaction that has an expense of its own gives its charge back; every other
  month, category and user is untouched.
\<close>

lemma deleted_gives_back:
  assumes "expenses_wf db" "e \<in> set (ex_rows db)"
    "e_identity e = (td_user_id w, expense_source, po_show po (td_aggregate_id w))"
    "\<not> is_deleted e" "e_id e \<noteq> uuid_nil" "e_subcategory_id e \<noteq> uuid_nil" "\<not> is_zero (ca_now ca)"
    "po_parse po (po_show po (td_user_id w)) = Some (td_user_id w)" "td_user_id w \<noteq> uuid_nil"
    "usable_id po (td_aggregate_id w)"
  shows "\<exists>db'. handle_deleted po ca (deleted_wire po w) db = (Inr (), db') \<and>
    (\<forall>u c s. spent u c s db' =
       spent u c s db - (if counts_for u c s e then e_amount_cents e else 0))"
proof -
  define x where "x = e\<lparr>e_version := i64 (e_version e + 1),
      e_tombstone_version := Some (i64 (e_version e + 1)), e_deleted_at := Some (ca_now ca),
      e_updated_at := ca_now ca\<rparr>"
  have del: "soft_delete_entity (e_version e) (ca_now ca) e = Inr (i64 (e_version e + 1), x)"
    using assms(4) by (simp add: soft_delete_entity_def x_def Let_def)
  have x: "e_id x = e_id e" "\<not> counts_for u c s x" for u c s
    by (simp_all add: x_def counts_for_def)
  have "filter (row_at x (e_version e)) (ex_rows db) \<noteq> []"
    using assms(2,4) by (auto simp: filter_empty_conv row_at_def x_def is_deleted_def)
  then obtain db1 where up: "soft_delete_expense x (e_version e) db = Inr db1"
    by (simp add: soft_delete_expense_def)
  note rows = soft_delete_rows(1) [OF assms(1,2) del up]
  have "month_digits (comp_value (e_competence e))" using assms(1,2) by (auto simp: expenses_wf_def row_ok_def)
  then have "comp_value (e_competence e) \<noteq> []" by (auto simp: month_digits_def)
  moreover have "e_user_id e = td_user_id w" using assms(3) by (simp add: e_identity_def)
  ultimately have "\<exists>v. new_expense_committed (e_id x) (e_user_id e) (e_subcategory_id x) (e_root_slug x) (e_competence x)
      MutationDelete (ca_now ca) (competence_from_time (ca_now ca) (ca_loc ca)) = Inr v"
    using assms(5-9) now_is_a_month
    by (simp add: new_expense_committed_def Let_def err_if_def x_def comp_is_zero_def [of "e_competence e"])
  then obtain v where v: "new_expense_committed (e_id x) (e_user_id e) (e_subcategory_id x) (e_root_slug x)
      (e_competence x) MutationDelete (ca_now ca) (competence_from_time (ca_now ca) (ca_loc ca)) = Inr v"
    by blast
  have "handle_deleted po ca (deleted_wire po w) db = (Inr (), publish v db1)"
    using live_row [OF assms(1,2,3,4)] assms(4,8,10) del up v
    by (simp add: handle_deleted_def deleted_wire_def usable_id_def delete_by_external_id_def
        new_producer_source_def expense_source_def new_external_transaction_id_def do_tx_def
        delete_by_identity_in_tx_def delete_existing_def publish_committed_def)
  then show ?thesis
    using spent_replace_row [OF assms(1,2) x(1), of "publish v db1"] rows x
    by (simp add: publish_def)
qed

section \<open>Edits and deletions of a card purchase\<close>

text \<open>
  A card purchase has an expense per installment and none under its own identifier, and it
  is under its own identifier that a deletion looks: the deletion succeeds, nothing changes, and
  the installments stay charged to their months.
\<close>

lemma deleted_purchase_stays_charged:
  assumes "tc_installments e \<noteq> []" "tc_direction e = DirectionOutcome"
    "feedable po (tc_user_id e) (tc_subcategory_id e) slug" "first_delivery po calls e db"
    "(tc_user_id e, expense_source, po_show po (tc_aggregate_id e)) \<notin> e_identity ` set (ex_rows db)"
    "usable_id po (tc_aggregate_id e)" "td_aggregate_id w = tc_aggregate_id e" "td_user_id w = tc_user_id e"
  shows "\<exists>db'. handle_created po calls (created_wire po e) db = (Inr (), db') \<and>
    handle_deleted po ca (deleted_wire po w) db' = (Inr (), db')"
proof -
  obtain db' xs where db': "handle_created po calls (created_wire po e) db = (Inr (), db')"
      "ex_rows db' = ex_rows db @ xs"
      "list_all2 (charge_row (tc_user_id e) slug) (zip (charge_keys po e) (charges e)) xs"
    using fed [OF assms(2,3,4)] by blast
  note absent = card_only [OF assms(1,5) db'(2,3)]
  have "handle_deleted po ca (deleted_wire po w) db' = (Inr (), db')"
    using get_by_identity_absent [OF absent] assms(3,6,7,8)
    by (simp add: handle_deleted_def deleted_wire_def usable_id_def feedable_def delete_by_external_id_def
        new_producer_source_def expense_source_def new_external_transaction_id_def do_tx_def
        delete_by_identity_in_tx_def)
  then show ?thesis using db'(1) by blast
qed

text \<open>
  Editing a card purchase adds an expense of the whole new amount under the identifier of the
  purchase, beside the installments, which stay: the purchase is charged twice.
\<close>

lemma updated_purchase_charged_twice:
  assumes "tc_installments e \<noteq> []" "tc_direction e = DirectionOutcome"
    "feedable po (tc_user_id e) (tc_subcategory_id e) slug" "first_delivery po calls e db"
    "(tc_user_id e, expense_source, po_show po (tc_aggregate_id e)) \<notin> e_identity ` set (ex_rows db)"
    "usable_id po (tc_aggregate_id e)" "tu_aggregate_id w = tc_aggregate_id e" "tu_user_id w = tc_user_id e"
    "tu_direction w = DirectionOutcome" "tu_subcategory_id w = tc_subcategory_id e"
    "month_digits (rm_value (tu_ref_month w))" "0 < tu_amount_cents w"
  shows "\<exists>db1. handle_created po calls (created_wire po e) db = (Inr (), db1) \<and>
    (\<forall>ca. fresh_call ca db1 \<longrightarrow>
      (\<exists>db2. handle_updated po ca (updated_wire po w) db1 = (Inr (), db2) \<and>
        (\<forall>c. spent (tc_user_id e) c slug db2 = spent (tc_user_id e) c slug db + charged_to c (charges e) +
           (if c = Competence (rm_value (tu_ref_month w)) then tu_amount_cents w else 0))))"
proof -
  let ?u = "tc_user_id e" and ?c = "Competence (rm_value (tu_ref_month w))"
  obtain db1 xs where db1: "handle_created po calls (created_wire po e) db = (Inr (), db1)"
      "ex_rows db1 = ex_rows db @ xs"
      "list_all2 (charge_row ?u slug) (zip (charge_keys po e) (charges e)) xs"
    using fed [OF assms(2,3,4)] by blast
  have once: "spent ?u c slug db1 = spent ?u c slug db + charged_to c (charges e)" for c
    using charged_sum [OF db1(3), of c] by (simp add: spent_eq db1(2))
  have "\<exists>db2. handle_updated po ca (updated_wire po w) db1 = (Inr (), db2) \<and>
      (\<forall>c. spent ?u c slug db2 = spent ?u c slug db1 + (if c = ?c then tu_amount_cents w else 0))"
    if fresh: "fresh_call ca db1" for ca
  proof -
    obtain x db2 where x: "feed_one po ca (feed_input (po_show po ?u) expense_source
        (po_show po (tc_aggregate_id e)) (po_show po (tc_subcategory_id e)) (rm_value (tu_ref_month w))
        (tu_amount_cents w) (tu_occurred_at w) True) db1 = (Inr (), db2)" "ex_rows db2 = ex_rows db1 @ [x]"
      "charged ?u slug expense_source (po_show po (tc_aggregate_id e)) (rm_value (tu_ref_month w))
         (tu_amount_cents w) x"
      using feed_creates [OF assms(3) _ _ assms(11,12) card_only [OF assms(1,5) db1(2,3)] fresh,
          of "tu_occurred_at w" True]
        assms(6) by (auto simp: usable_id_def expense_source_def)
    have "handle_updated po ca (updated_wire po w) db1 = (Inr (), db2)"
      using x(1) assms(3,7-10) by (auto simp: handle_updated_def updated_wire_def no_subcategory_def feedable_def)
    moreover have "spent ?u c slug db2 = spent ?u c slug db1 + (if c = ?c then tu_amount_cents w else 0)" for c
      using x(2,3) by (simp add: spent_eq charged_def)
    ultimately show ?thesis by blast
  qed
  then show ?thesis using db1(1) once by metis
qed

section \<open>A sample purchase\<close>

text \<open>Two identifiers that print as UUIDs; the others print in decimal.\<close>

definition purchase_text :: string where
  "purchase_text = ''f47ac10b-58cc-4372-a567-0e02b2c3d479''"

definition item_text :: string where
  "item_text = ''0b1cd2e3-58cc-4372-8567-0e02b2c3d47a''"

definition feed_ports :: expense_ports where
  "feed_ports =
     \<lparr>po_parse = (\<lambda>s. if s = purchase_text then Some 1 else if s = item_text then Some 2
                     else Some (of_nat (undec s))),
      po_show = (\<lambda>u. if u = 1 then purchase_text else if u = 2 then item_text else dec (unat u)),
      po_root_of = (\<lambda>_. Inr ''expense.metas'')\<rparr>"

definition sample_purchase :: transaction_created where
  "sample_purchase =
     \<lparr>tc_event_id = 9, tc_aggregate_id = 1, tc_user_id = 3, tc_occurred_at = \<lparr>ns = 1, loc = utc\<rparr>,
      tc_direction = DirectionOutcome, tc_payment_method = CreditCard, tc_amount_cents = 700,
      tc_ref_month = RefMonth ''2025-03'', tc_category_id = 0, tc_subcategory_id = 4,
      tc_ref_months_affected = [RefMonth ''2025-03''],
      tc_installments = [\<lparr>cpi_item_id = 2, cpi_ref_month = RefMonth ''2025-03'',
        cpi_amount_cents = 700, cpi_index = 1\<rparr>]\<rparr>"

definition sample_plain :: transaction_created where
  "sample_plain = sample_purchase\<lparr>tc_payment_method := Pix, tc_installments := []\<rparr>"

definition sample_edit :: transaction_updated where
  "sample_edit =
     \<lparr>tu_event_id = 10, tu_aggregate_id = 1, tu_user_id = 3, tu_occurred_at = \<lparr>ns = 2, loc = utc\<rparr>,
      tu_direction = DirectionOutcome, tu_payment_method = CreditCard, tu_amount_cents = 900,
      tu_ref_month = RefMonth ''2025-03'', tu_subcategory_id = 4,
      tu_ref_months_affected = [RefMonth ''2025-03'']\<rparr>"

definition sample_deletion :: transaction_deleted where
  "sample_deletion =
     \<lparr>td_event_id = 11, td_aggregate_id = 1, td_user_id = 3, td_occurred_at = \<lparr>ns = 2, loc = utc\<rparr>,
      td_ref_month = RefMonth ''2025-03'', td_ref_months_affected = [RefMonth ''2025-03'']\<rparr>"

definition sample_row :: expense where
  "sample_row =
     \<lparr>e_id = 5, e_user_id = 3, e_source = expense_source, e_ext_id = purchase_text,
      e_subcategory_id = 4, e_root_slug = Metas, e_competence = Competence ''2025-03'',
      e_amount_cents = 700, e_occurred_at = zero_time, e_version = 1, e_tombstone_version = None,
      e_deleted_at = None, e_created_at = zero_time, e_updated_at = zero_time\<rparr>"

definition fed_db :: expense_db where
  "fed_db =
     \<lparr>ex_plans = empty_plan_db, ex_rows = [sample_row],
      ex_outbox = [\<lparr>ec_expense_id = 5, ec_user_id = 3, ec_subcategory_id = 4, ec_root_slug = Metas,
        ec_competence = Competence ''2025-03'', ec_mutation = MutationCreate,
        ec_committed_at = zero_time, ec_cutoff = Competence ''2025-03''\<rparr>]\<rparr>"

lemma feed_texts:
  "uuid_v4_text purchase_text" "uuid_v4_text item_text" "purchase_text \<noteq> item_text"
  by code_simp+

lemma dec_not_text: "dec n \<noteq> purchase_text" "dec n \<noteq> item_text"
proof -
  have "CHR ''-'' \<in> set purchase_text" "CHR ''-'' \<in> set item_text" "\<not> is_digit (CHR ''-'')"
    by code_simp+
  then show "dec n \<noteq> purchase_text" "dec n \<noteq> item_text" using dec_digits [of n] by metis+
qed

lemma feed_ports_simps [simp]:
  "po_parse feed_ports (po_show feed_ports u) = Some u"
  "po_show feed_ports 1 = purchase_text" "po_show feed_ports 2 = item_text"
  "po_show feed_ports u \<noteq> []"
  using feed_texts
  by (auto simp: feed_ports_def dec_not_text uuid_v4_text_def)

lemma sample_feedable: "feedable feed_ports 3 4 Metas"
proof -
  have "po_root_of feed_ports 4 = Inr ''expense.metas''" by (simp add: feed_ports_def)
  then show ?thesis using sample_texts(5) by (simp add: feedable_def resolve_root_slug_def)
qed

lemma sample_usable: "usable_id feed_ports 1"
  using feed_ports_simps(1) [of 1] by (simp add: usable_id_def feed_texts)

lemma sample_month: "month_digits ''2025-03''"
  by (rule sample_texts)

lemma fed_db_wf: "expenses_wf fed_db"
  by (simp add: expenses_wf_def fed_db_def row_ok_def sample_row_def log_of_def life_def is_deleted_def
      sample_month i64_def)

lemma sample_first: "first_delivery feed_ports (\<lambda>_. sample_call) sample_purchase empty_expense_db"
  by (simp add: first_delivery_def charge_keys_def charges_def sample_purchase_def feed_texts
      empty_expense_db_def sample_month fresh_call_def sample_call_def is_zero_def inj_on_def)

theorem created_charges_months_witness:
  "\<exists>db. handle_created feed_ports (\<lambda>_. sample_call) (created_wire feed_ports sample_purchase)
      empty_expense_db = (Inr (), db) \<and> spent 3 (Competence ''2025-03'') Metas db = 700"
proof -
  have "charged_to (Competence ''2025-03'') (charges sample_purchase) = 700"
    by (simp add: charged_to_def charges_def sample_purchase_def)
  moreover have "spent 3 (Competence ''2025-03'') Metas empty_expense_db = 0"
    by (simp add: spent_eq empty_expense_db_def)
  moreover have "tc_direction sample_purchase = DirectionOutcome" "tc_user_id sample_purchase = 3"
      "tc_subcategory_id sample_purchase = 4"
    by (simp_all add: sample_purchase_def)
  ultimately show ?thesis
    using created_charges_months [OF _ _ sample_first, of Metas] sample_feedable by auto
qed

lemma created_redelivered_witness:
  "handle_created feed_ports (\<lambda>_. sample_call) (created_wire feed_ports sample_plain) fed_db =
     (Inr (), fed_db)"
  using sample_feedable
  by (intro created_redelivered)
    (simp_all add: sample_plain_def sample_purchase_def valid_charges_def charge_keys_def charges_def
      feed_texts sample_month fed_db_def sample_row_def e_identity_def)

lemma updated_moves_charge_witness:
  "\<exists>db. handle_updated feed_ports sample_call (updated_wire feed_ports sample_edit) fed_db = (Inr (), db) \<and>
     spent 3 (Competence ''2025-03'') Metas db = 900"
proof -
  have "spent 3 (Competence ''2025-03'') Metas fed_db = 700" "counts_for 3 (Competence ''2025-03'') Metas sample_row"
      "e_amount_cents sample_row = 700"
    by (simp_all add: spent_eq fed_db_def counts_for_def sample_row_def)
  then show ?thesis
    using updated_moves_charge [OF fed_db_wf, of sample_row sample_edit feed_ports sample_call Metas]
      sample_feedable feed_texts sample_month
    by (auto simp: fed_db_def sample_row_def e_identity_def sample_edit_def is_deleted_def
        sample_call_def is_zero_def)
qed

lemma deleted_gives_back_witness:
  "\<exists>db. handle_deleted feed_ports sample_call (deleted_wire feed_ports sample_deletion) fed_db = (Inr (), db) \<and>
     spent 3 (Competence ''2025-03'') Metas db = 0"
proof -
  have "spent 3 (Competence ''2025-03'') Metas fed_db = 700" "counts_for 3 (Competence ''2025-03'') Metas sample_row"
      "e_amount_cents sample_row = 700"
    by (simp_all add: spent_eq fed_db_def counts_for_def sample_row_def)
  then show ?thesis
    using deleted_gives_back [OF fed_db_wf, of sample_row sample_deletion feed_ports sample_call]
      sample_usable
    by (auto simp: fed_db_def sample_row_def e_identity_def sample_deletion_def is_deleted_def
        sample_call_def is_zero_def)
qed

lemma deleted_purchase_stays_charged_witness:
  "\<exists>db. handle_created feed_ports (\<lambda>_. sample_call) (created_wire feed_ports sample_purchase)
      empty_expense_db = (Inr (), db) \<and>
    handle_deleted feed_ports sample_call (deleted_wire feed_ports sample_deletion) db = (Inr (), db)"
  using sample_feedable sample_usable
  by (intro deleted_purchase_stays_charged [OF _ _ _ sample_first, of Metas])
    (simp_all add: sample_purchase_def sample_deletion_def empty_expense_db_def)

lemma updated_purchase_charged_twice_witness:
  "\<exists>db1. handle_created feed_ports (\<lambda>_. sample_call) (created_wire feed_ports sample_purchase)
      empty_expense_db = (Inr (), db1) \<and>
    (\<forall>ca. fresh_call ca db1 \<longrightarrow>
      (\<exists>db2. handle_updated feed_ports ca (updated_wire feed_ports sample_edit) db1 = (Inr (), db2) \<and>
        spent 3 (Competence ''2025-03'') Metas db2 = 1600))"
proof -
  have "charged_to (Competence ''2025-03'') (charges sample_purchase) = 700"
    by (simp add: charged_to_def charges_def sample_purchase_def)
  moreover have "spent 3 (Competence ''2025-03'') Metas empty_expense_db = 0"
    by (simp add: spent_eq empty_expense_db_def)
  moreover have "tc_user_id sample_purchase = 3" by (simp add: sample_purchase_def)
  ultimately show ?thesis
    using updated_purchase_charged_twice [OF _ _ _ sample_first, of Metas sample_edit]
      sample_feedable sample_usable sample_month
    by (fastforce simp: sample_purchase_def sample_edit_def empty_expense_db_def)
qed

end
