(* ===== verification/BillingSubscription.thy ===== *)
theory BillingSubscription
  imports GoTime "HOL-Library.AList"
begin

text \<open>
  The domain of the billing module (\<open>internal/billing/domain\<close>): the status of a subscription with
  its wire form, the plans, the table of allowed transitions, the decision whether a late event
  is a regression, and the subscription entity with its transitions.
\<close>

section \<open>Errors\<close>

text \<open>
  The sentinel errors of the module. The repository and the use cases each declare an
  \<open>ErrConcurrentActiveSub\<close> of their own, which \<open>errors.Is\<close> tells apart; the first is
  \<open>RepoErrConcurrentActiveSub\<close> here. \<open>ErrBillingDatabase\<close> is a constraint violation that no
  repository names, \<open>ErrKiwifyClient\<close> a failed request to the provider.
\<close>

datatype billing_error =
    ErrUnknownStatus | ErrPlanCodeInvalid | ErrPlanDurationInvalid | ErrFunnelTokenEmpty
  | ErrKiwifySubscriptionIDEmpty | ErrOccurredAtRequired | ErrTransitionNotAllowed
  | ErrFunnelTokenMissing | ErrKiwifySubscriptionIDInvalid | ErrPlanNotFound | RepoErrPlanNotFound
  | ErrEventAlreadyProcessed | ErrEventSuperseded | ErrConcurrentActiveSub
  | RepoErrConcurrentActiveSub | ErrUnknownTrigger | ErrInvalidSignature | ErrInvalidWebhookPayload
  | ErrRenewedWithoutBaseSubscription | ErrSubscriptionNotFound
  | ErrActiveSubscriptionPeriodStartRequired | ErrUnknownPlanCode | ErrCheckpointNotFound
  | ErrReconcileMaxPagesExceeded | ErrInvalidPayload | ErrBillingDatabase | ErrKiwifyClient
  | ErrRawBodyRequired | ErrSignatureStatusRequired | ErrSaleIDRequired | ErrOrderIDRequired
  | ErrKiwifySubIDRequired | ErrKiwifyProductIDRequired | ErrInputOccurredAtRequired
  | ErrWindowStartRequired | ErrWindowEndRequired | ErrWindowEndBeforeStart

section \<open>Values\<close>

text \<open>\<open>StatusZero\<close> is the zero value, the status of a subscription that was never activated.\<close>

datatype sub_status =
    StatusZero | StatusTrialing | StatusActive | StatusPastDue | StatusCanceledPending
  | StatusExpired | StatusRefunded

fun status_string :: "sub_status \<Rightarrow> string" where
  "status_string StatusTrialing = ''TRIALING''"
| "status_string StatusActive = ''ACTIVE''"
| "status_string StatusPastDue = ''PAST_DUE''"
| "status_string StatusCanceledPending = ''CANCELED_PENDING''"
| "status_string StatusExpired = ''EXPIRED''"
| "status_string StatusRefunded = ''REFUNDED''"
| "status_string StatusZero = ''''"

definition is_active_for_billing :: "sub_status \<Rightarrow> bool" where
  "is_active_for_billing s \<longleftrightarrow> s \<in> {StatusActive, StatusPastDue, StatusCanceledPending}"

definition status_is_terminal :: "sub_status \<Rightarrow> bool" where
  "status_is_terminal s \<longleftrightarrow> s = StatusExpired \<or> s = StatusRefunded"

definition status_by_wire :: "(string \<times> sub_status) list" where
  "status_by_wire = map (\<lambda>s. (status_string s, s))
     [StatusTrialing, StatusActive, StatusPastDue, StatusCanceledPending, StatusExpired,
      StatusRefunded]"

definition parse_status :: "string \<Rightarrow> billing_error + sub_status" where
  "parse_status s = (case map_of status_by_wire s of Some st \<Rightarrow> Inr st | None \<Rightarrow> Inl ErrUnknownStatus)"

interpretation status_wire: wire_enum "\<lambda>s. s \<noteq> StatusZero" status_string parse_status
proof
  fix x assume "x \<noteq> StatusZero"
  then show "parse_status (status_string x) = Inr x"
    by (cases x) (simp_all add: parse_status_def status_by_wire_def)
next
  fix s x assume "parse_status s = Inr x"
  then have "(s, x) \<in> set status_by_wire"
    by (auto simp: parse_status_def dest: map_of_SomeD split: option.splits)
  then show "x \<noteq> StatusZero \<and> status_string x = s" by (auto simp: status_by_wire_def)
qed

text \<open>A plan is its code and its length in days; the zero plan has no code.\<close>

record billing_plan =
  pl_code :: string
  pl_days :: int

definition no_plan :: billing_plan where
  "no_plan = \<lparr>pl_code = '''', pl_days = 0\<rparr>"

definition plan_code_supported :: "string \<Rightarrow> bool" where
  "plan_code_supported c \<longleftrightarrow> c = ''MONTHLY'' \<or> c = ''QUARTERLY'' \<or> c = ''ANNUAL''"

definition new_plan :: "string \<Rightarrow> int \<Rightarrow> billing_error + billing_plan" where
  "new_plan code days =
     (if \<not> plan_code_supported code then Inl ErrPlanCodeInvalid
      else if days \<le> 0 then Inl ErrPlanDurationInvalid
      else Inr \<lparr>pl_code = code, pl_days = days\<rparr>)"

definition plan_duration :: "billing_plan \<Rightarrow> int" where
  "plan_duration p = i64 (i64 (pl_days p * 24) * 3600000000000)"

definition new_funnel_token :: "string \<Rightarrow> billing_error + string" where
  "new_funnel_token raw =
     (let t = trim_space raw in if t = '''' then Inl ErrFunnelTokenEmpty else Inr t)"

definition new_kiwify_subscription_id :: "string \<Rightarrow> billing_error + string" where
  "new_kiwify_subscription_id raw =
     (let t = trim_space raw in if t = '''' then Inl ErrKiwifySubscriptionIDEmpty else Inr t)"

definition default_grace_window :: int where
  "default_grace_window = 3 * 24 * 3600000000000"

section \<open>The table of transitions\<close>

datatype sub_trigger =
    TriggerSaleApproved | TriggerSubscriptionRenewed | TriggerSubscriptionLate
  | TriggerSubscriptionCanceled | TriggerRefunded | TriggerGraceExpired

text \<open>A row of the array is a status, its entries are the statuses that may follow.\<close>

definition transition_table :: "(sub_status \<times> sub_status list) list" where
  "transition_table =
     [(StatusZero, []),
      (StatusTrialing, []),
      (StatusActive, [StatusActive, StatusPastDue, StatusCanceledPending, StatusRefunded]),
      (StatusPastDue,
        [StatusActive, StatusPastDue, StatusCanceledPending, StatusExpired, StatusRefunded]),
      (StatusCanceledPending, [StatusActive, StatusRefunded]),
      (StatusExpired, [StatusActive, StatusRefunded]),
      (StatusRefunded, [])]"

definition can_transition :: "sub_status \<Rightarrow> sub_status \<Rightarrow> bool" where
  "can_transition s t = (case map_of transition_table s of None \<Rightarrow> False | Some ts \<Rightarrow> t \<in> set ts)"

text \<open>The two results of \<open>TargetStatus\<close> are an option: \<open>None\<close> when the second is false.\<close>

definition target_status :: "sub_status \<Rightarrow> sub_trigger \<Rightarrow> sub_status option" where
  "target_status current trigger =
     (if current = StatusZero then
        (case trigger of
           TriggerSaleApproved \<Rightarrow> Some StatusActive
         | TriggerSubscriptionRenewed \<Rightarrow> Some StatusActive
         | _ \<Rightarrow> None)
      else
        (case trigger of
           TriggerSaleApproved \<Rightarrow>
             if can_transition current StatusActive then Some StatusActive else None
         | TriggerSubscriptionRenewed \<Rightarrow>
             if can_transition current StatusActive then Some StatusActive else None
         | TriggerSubscriptionLate \<Rightarrow>
             if can_transition current StatusPastDue then Some StatusPastDue else None
         | TriggerSubscriptionCanceled \<Rightarrow>
             if can_transition current StatusCanceledPending then Some StatusCanceledPending
             else None
         | TriggerRefunded \<Rightarrow>
             if current = StatusRefunded \<or> can_transition current StatusRefunded
             then Some StatusRefunded else None
         | TriggerGraceExpired \<Rightarrow>
             if current = StatusPastDue then Some StatusExpired else None))"

definition is_regression :: "sub_status \<Rightarrow> sub_trigger \<Rightarrow> gotime \<Rightarrow> gotime \<Rightarrow> bool" where
  "is_regression current trigger occurred latest =
     (if trigger = TriggerRefunded \<or> trigger = TriggerGraceExpired then False
      else if is_zero latest \<or> after occurred latest then False
      else (case target_status current trigger of
              None \<Rightarrow> False
            | Some target \<Rightarrow> target \<noteq> current))"

datatype sub_decision = DecisionApply | DecisionSkipAsRegression

definition decide_for :: "sub_status \<Rightarrow> sub_trigger \<Rightarrow> gotime \<Rightarrow> gotime \<Rightarrow> sub_decision" where
  "decide_for current trigger occurred latest =
     (if is_regression current trigger occurred latest then DecisionSkipAsRegression
      else DecisionApply)"

definition decide_renewal :: "sub_status \<Rightarrow> gotime \<Rightarrow> gotime \<Rightarrow> sub_decision" where
  "decide_renewal current = decide_for current TriggerSubscriptionRenewed"

definition decide_past_due :: "sub_status \<Rightarrow> gotime \<Rightarrow> gotime \<Rightarrow> sub_decision" where
  "decide_past_due current = decide_for current TriggerSubscriptionLate"

definition decide_cancellation :: "sub_status \<Rightarrow> gotime \<Rightarrow> gotime \<Rightarrow> sub_decision" where
  "decide_cancellation current = decide_for current TriggerSubscriptionCanceled"

section \<open>The entity\<close>

text \<open>
  Identifiers of rows are \<open>uuid\<close>s, \<open>None\<close> the empty string. A funnel token is its trimmed text,
  the zero token the empty one.
\<close>

record subscription =
  sb_id :: "uuid option"
  sb_user_id :: "uuid option"
  sb_plan :: billing_plan
  sb_funnel_token :: string
  sb_status :: sub_status
  sb_period_start :: gotime
  sb_period_end :: gotime
  sb_grace_end :: gotime
  sb_last_event_at :: gotime

definition new_subscription :: "billing_plan \<Rightarrow> string \<Rightarrow> subscription" where
  "new_subscription p token =
     \<lparr>sb_id = None, sb_user_id = None, sb_plan = p, sb_funnel_token = token,
      sb_status = StatusZero, sb_period_start = zero_time, sb_period_end = zero_time,
      sb_grace_end = zero_time, sb_last_event_at = zero_time\<rparr>"

definition hydrate_with_user ::
  "uuid \<Rightarrow> uuid option \<Rightarrow> string \<Rightarrow> billing_plan \<Rightarrow> sub_status \<Rightarrow> gotime \<Rightarrow> gotime \<Rightarrow> gotime \<Rightarrow>
   gotime \<Rightarrow> subscription" where
  "hydrate_with_user i u token p st start end_at grace latest =
     \<lparr>sb_id = Some i, sb_user_id = u, sb_plan = p, sb_funnel_token = token, sb_status = st,
      sb_period_start = start, sb_period_end = end_at, sb_grace_end = grace,
      sb_last_event_at = latest\<rparr>"

definition apply_active :: "gotime \<Rightarrow> subscription \<Rightarrow> subscription" where
  "apply_active occurred s =
     (let base = if after (sb_period_end s) occurred then sb_period_end s else occurred
      in s\<lparr>sb_status := StatusActive, sb_period_end := add_dur base (plan_duration (sb_plan s)),
           sb_grace_end := zero_time, sb_last_event_at := occurred\<rparr>)"

definition apply_canceled :: "gotime \<Rightarrow> subscription \<Rightarrow> subscription" where
  "apply_canceled occurred s =
     s\<lparr>sb_status := StatusCanceledPending, sb_grace_end := zero_time, sb_last_event_at := occurred\<rparr>"

definition apply_past_due :: "gotime \<Rightarrow> int \<Rightarrow> subscription \<Rightarrow> subscription" where
  "apply_past_due occurred grace s =
     s\<lparr>sb_status := StatusPastDue, sb_grace_end := add_dur occurred grace,
       sb_last_event_at := occurred\<rparr>"

definition apply_expired :: "gotime \<Rightarrow> subscription \<Rightarrow> subscription" where
  "apply_expired occurred s =
     s\<lparr>sb_status := StatusExpired, sb_grace_end := zero_time, sb_last_event_at := occurred\<rparr>"

definition apply_refunded :: "gotime \<Rightarrow> subscription \<Rightarrow> subscription" where
  "apply_refunded occurred s =
     (if sb_status s = StatusRefunded \<and> \<not> after occurred (sb_last_event_at s) then s
      else s\<lparr>sb_status := StatusRefunded, sb_grace_end := zero_time,
             sb_last_event_at := occurred\<rparr>)"

definition apply_status_transition ::
  "sub_trigger \<Rightarrow> gotime \<Rightarrow> int \<Rightarrow> subscription \<Rightarrow> billing_error + subscription" where
  "apply_status_transition trigger occurred grace s =
     (if is_zero occurred then Inl ErrOccurredAtRequired
      else
        (case target_status (sb_status s) trigger of
           None \<Rightarrow> Inl ErrTransitionNotAllowed
         | Some StatusActive \<Rightarrow> Inr (apply_active occurred s)
         | Some StatusPastDue \<Rightarrow> Inr (apply_past_due occurred grace s)
         | Some StatusCanceledPending \<Rightarrow> Inr (apply_canceled occurred s)
         | Some StatusRefunded \<Rightarrow> Inr (apply_refunded occurred s)
         | Some StatusExpired \<Rightarrow> Inr (apply_expired occurred s)
         | _ \<Rightarrow> Inl ErrTransitionNotAllowed))"

definition activate_sub :: "gotime \<Rightarrow> subscription \<Rightarrow> billing_error + subscription" where
  "activate_sub occurred = apply_status_transition TriggerSaleApproved occurred 0"

definition renew :: "gotime \<Rightarrow> subscription \<Rightarrow> billing_error + subscription" where
  "renew occurred = apply_status_transition TriggerSubscriptionRenewed occurred 0"

definition mark_past_due :: "gotime \<Rightarrow> int \<Rightarrow> subscription \<Rightarrow> billing_error + subscription" where
  "mark_past_due occurred grace = apply_status_transition TriggerSubscriptionLate occurred grace"

definition mark_canceled :: "gotime \<Rightarrow> subscription \<Rightarrow> billing_error + subscription" where
  "mark_canceled occurred = apply_status_transition TriggerSubscriptionCanceled occurred 0"

definition mark_refunded :: "gotime \<Rightarrow> subscription \<Rightarrow> billing_error + subscription" where
  "mark_refunded occurred = apply_status_transition TriggerRefunded occurred 0"

definition mark_expired_after_grace :: "gotime \<Rightarrow> subscription \<Rightarrow> billing_error + subscription" where
  "mark_expired_after_grace occurred = apply_status_transition TriggerGraceExpired occurred 0"

section \<open>The life of an entity\<close>

text \<open>
  Every pair of a status and a trigger that the entity accepts, with the status it leads to. Nothing
  leads out of \<open>StatusRefunded\<close>; an expired subscription can be bought or renewed again.
\<close>

definition sub_lifecycle :: "(sub_status \<times> sub_trigger \<times> sub_status) list" where
  "sub_lifecycle =
     [(StatusZero, TriggerSaleApproved, StatusActive),
      (StatusZero, TriggerSubscriptionRenewed, StatusActive),
      (StatusActive, TriggerSaleApproved, StatusActive),
      (StatusActive, TriggerSubscriptionRenewed, StatusActive),
      (StatusActive, TriggerSubscriptionLate, StatusPastDue),
      (StatusActive, TriggerSubscriptionCanceled, StatusCanceledPending),
      (StatusActive, TriggerRefunded, StatusRefunded),
      (StatusPastDue, TriggerSaleApproved, StatusActive),
      (StatusPastDue, TriggerSubscriptionRenewed, StatusActive),
      (StatusPastDue, TriggerSubscriptionLate, StatusPastDue),
      (StatusPastDue, TriggerSubscriptionCanceled, StatusCanceledPending),
      (StatusPastDue, TriggerRefunded, StatusRefunded),
      (StatusPastDue, TriggerGraceExpired, StatusExpired),
      (StatusCanceledPending, TriggerSaleApproved, StatusActive),
      (StatusCanceledPending, TriggerSubscriptionRenewed, StatusActive),
      (StatusCanceledPending, TriggerRefunded, StatusRefunded),
      (StatusExpired, TriggerSaleApproved, StatusActive),
      (StatusExpired, TriggerSubscriptionRenewed, StatusActive),
      (StatusExpired, TriggerRefunded, StatusRefunded),
      (StatusRefunded, TriggerRefunded, StatusRefunded)]"

lemma target_status_lifecycle:
  "target_status s tr = Some t \<longleftrightarrow> (s, tr, t) \<in> set sub_lifecycle"
  by (cases s; cases tr)
    (auto simp: target_status_def can_transition_def transition_table_def sub_lifecycle_def)

lemma target_status_range:
  "target_status s tr = Some t \<Longrightarrow> t \<notin> {StatusZero, StatusTrialing}"
  by (cases s; cases tr) (auto simp: target_status_def split: if_splits)

lemmas apply_defs = apply_active_def apply_past_due_def apply_canceled_def apply_refunded_def
  apply_expired_def Let_def

lemma apply_status_transition_Inr:
  assumes "apply_status_transition tr t g s = Inr s'"
  shows "\<not> is_zero t" "target_status (sb_status s) tr = Some (sb_status s')"
    "sb_plan s' = sb_plan s" "sb_funnel_token s' = sb_funnel_token s" "sb_id s' = sb_id s"
    "sb_user_id s' = sb_user_id s" "sb_period_start s' = sb_period_start s"
    "sb_status s' \<noteq> StatusPastDue \<Longrightarrow> sb_status s' = sb_status s \<or> is_zero (sb_grace_end s')"
  using assms
  by (auto simp: apply_status_transition_def apply_defs is_zero_def zero_time_def
      split: if_splits option.splits sub_status.splits)

inductive entity_life :: "billing_plan \<Rightarrow> string \<Rightarrow> subscription \<Rightarrow> bool" for p token where
  fresh: "entity_life p token (new_subscription p token)"
| event: "entity_life p token s \<Longrightarrow> apply_status_transition tr t g s = Inr s' \<Longrightarrow>
    entity_life p token s'"

text \<open>
  What holds after every event: the plan and the token stay, nobody is on trial, a grace period is
  open only while the payment is due, and an active subscription is paid for at least the length
  of its plan from its latest event on.
\<close>

definition entity_sound :: "billing_plan \<Rightarrow> string \<Rightarrow> subscription \<Rightarrow> bool" where
  "entity_sound p token s \<longleftrightarrow>
     sb_plan s = p \<and> sb_funnel_token s = token \<and> sb_status s \<noteq> StatusTrialing \<and>
     (sb_status s = StatusZero \<longleftrightarrow> is_zero (sb_last_event_at s)) \<and>
     (sb_status s \<noteq> StatusPastDue \<longrightarrow> is_zero (sb_grace_end s)) \<and>
     (sb_status s = StatusActive \<longrightarrow>
        plan_duration p \<le> ns (sb_period_end s) - ns (sb_last_event_at s))"

lemma apply_sound:
  assumes "entity_sound p token s" "\<not> is_zero t"
  shows "entity_sound p token (apply_active t s)" "entity_sound p token (apply_past_due t g s)"
    "entity_sound p token (apply_canceled t s)" "entity_sound p token (apply_expired t s)"
    "entity_sound p token (apply_refunded t s)"
  using assms
  by (simp_all add: entity_sound_def apply_defs is_zero_def zero_time_def after_def add_dur_def,
    auto)

lemma apply_status_transition_cases:
  assumes "apply_status_transition tr t g s = Inr s'"
  shows "s' \<in> {apply_active t s, apply_past_due t g s, apply_canceled t s, apply_refunded t s,
    apply_expired t s}"
  using assms
  by (auto simp: apply_status_transition_def split: if_splits option.splits sub_status.splits)

lemma entity_sound_step:
  assumes "entity_sound p token s" "apply_status_transition tr t g s = Inr s'"
  shows "entity_sound p token s'"
  using apply_status_transition_cases [OF assms(2)] apply_status_transition_Inr(1) [OF assms(2)]
    apply_sound [OF assms(1)]
  by auto

text \<open>
  C18: The subscription entity follows one explicit table: an event is accepted exactly when its
  time is set and the pair of current status and trigger is in the table, and then the status
  becomes the one the table gives; so a refunded subscription never changes its status again.
\<close>

theorem entity_follows_lifecycle:
  "(\<exists>s'. apply_status_transition tr t g s = Inr s' \<and> sb_status s' = st) \<longleftrightarrow>
     \<not> is_zero t \<and> (sb_status s, tr, st) \<in> set sub_lifecycle"
proof
  assume "\<exists>s'. apply_status_transition tr t g s = Inr s' \<and> sb_status s' = st"
  then show "\<not> is_zero t \<and> (sb_status s, tr, st) \<in> set sub_lifecycle"
    using apply_status_transition_Inr target_status_lifecycle by metis
next
  assume *: "\<not> is_zero t \<and> (sb_status s, tr, st) \<in> set sub_lifecycle"
  then have "target_status (sb_status s) tr = Some st" by (simp add: target_status_lifecycle)
  then show "\<exists>s'. apply_status_transition tr t g s = Inr s' \<and> sb_status s' = st"
    using * target_status_range [of "sb_status s" tr st]
    by (cases st) (auto simp: apply_status_transition_def apply_defs)
qed

text \<open>
  Whatever events a subscription entity accepts, in whatever order they come, it keeps its plan
  and its token, a grace period is open only while a payment is due, and while it is active its
  period reaches at least the length of its plan past its latest event.
\<close>

lemma entity_life_sound:
  assumes "entity_life p token s"
  shows "entity_sound p token s"
  using assms
proof (induction rule: entity_life.induct)
  case fresh
  then show ?case by (simp add: entity_sound_def new_subscription_def is_zero_def zero_time_def)
next
  case (event s tr t g s')
  show ?case using event(3,2) by (rule entity_sound_step)
qed

lemma entity_life_sound_witness:
  "\<exists>s. entity_life \<lparr>pl_code = ''MONTHLY'', pl_days = 30\<rparr> ''tok'' s \<and>
     entity_sound \<lparr>pl_code = ''MONTHLY'', pl_days = 30\<rparr> ''tok'' s \<and> sb_status s = StatusPastDue"
proof -
  let ?p = "\<lparr>pl_code = ''MONTHLY'', pl_days = 30\<rparr> :: billing_plan"
  let ?t = "\<lparr>ns = 10, loc = utc\<rparr> :: gotime"
  obtain s where s: "activate_sub ?t (new_subscription ?p ''tok'') = Inr s" "sb_status s = StatusActive"
    by (simp add: activate_sub_def apply_status_transition_def new_subscription_def target_status_def
        is_zero_def apply_defs)
  obtain s' where s': "mark_past_due ?t 5 s = Inr s'" "sb_status s' = StatusPastDue"
    using s(2) by (simp add: mark_past_due_def apply_status_transition_def target_status_def
        can_transition_def transition_table_def is_zero_def apply_defs)
  have "entity_life ?p ''tok'' s'"
    using s(1) s'(1) unfolding activate_sub_def mark_past_due_def
    by (blast intro: entity_life.intros)
  then show ?thesis using s'(2) entity_life_sound [of ?p "''tok''" s'] by blast
qed

end
