(* ===== verification/BillingStore.thy ===== *)
theory BillingStore
  imports BillingSubscription
begin

text \<open>
  The tables of the billing module and its repositories
  (\<open>internal/billing/infrastructure/repositories/postgres\<close>, with the constraints of the first
  migration), and the events its publisher leaves in the outbox
  (\<open>messaging/database/producers\<close>). A status is stored as its wire form and parsed when a row
  is read; a time is read as it was written. The columns \<open>created_at\<close>, \<open>updated_at\<close>,
  \<open>applied_at\<close> and the price of a plan are left out, since nothing modelled reads them.
\<close>

section \<open>The tables\<close>

record plan_row =
  pw_product_id :: string
  pw_code :: string
  pw_days :: int

record sub_row =
  sr_id :: uuid
  sr_funnel_token :: string
  sr_user_id :: "uuid option"
  sr_order_id :: string
  sr_kiwify_sub_id :: "string option"
  sr_sale_id :: "string option"
  sr_mobile :: "string option"
  sr_email :: "string option"
  sr_plan_code :: string
  sr_status :: string
  sr_period_start :: gotime
  sr_period_end :: gotime
  sr_grace_end :: "gotime option"
  sr_last_event_at :: gotime

record processed_row =
  pr_key :: string
  pr_trigger :: string
  pr_resource :: string
  pr_occurred_at :: gotime
  pr_status :: string

record kiwify_row =
  kw_envelope_id :: string
  kw_trigger :: string
  kw_body :: string
  kw_received_at :: gotime
  kw_processed_at :: "gotime option"
  kw_signature_status :: string

text \<open>The payloads the publisher serialises, with the times as it writes them, in UTC.\<close>

datatype billing_payload =
    SubscriptionActivated (bp_token: string) (bp_plan: string) (bp_sale: string)
      (bp_mobile: string) (bp_email: string) (bp_start: gotime) (bp_end: gotime) (bp_paid: gotime)
      (bp_at: gotime)
  | SubscriptionActivatedWithoutToken (bp_plan: string) (bp_sale: string) (bp_mobile: string)
      (bp_email: string) (bp_paid: gotime) (bp_at: gotime)
  | SubscriptionRenewed (bp_plan: string) (bp_previous: gotime) (bp_end: gotime) (bp_at: gotime)
  | SubscriptionPastDue (bp_end: gotime) (bp_grace: gotime) (bp_at: gotime)
  | SubscriptionCanceled (bp_end: gotime) (bp_at: gotime)
  | SubscriptionRefunded (bp_at: gotime)
  | SubscriptionExpiredAfterGrace (bp_end: gotime) (bp_grace: gotime) (bp_at: gotime)

fun billing_event_type :: "billing_payload \<Rightarrow> string" where
  "billing_event_type (SubscriptionActivated _ _ _ _ _ _ _ _ _) = ''billing.subscription.activated''"
| "billing_event_type (SubscriptionActivatedWithoutToken _ _ _ _ _ _) =
     ''billing.subscription.activated_without_token''"
| "billing_event_type (SubscriptionRenewed _ _ _ _) = ''billing.subscription.renewed''"
| "billing_event_type (SubscriptionPastDue _ _ _) = ''billing.subscription.past_due''"
| "billing_event_type (SubscriptionCanceled _ _) = ''billing.subscription.canceled''"
| "billing_event_type (SubscriptionRefunded _) = ''billing.subscription.refunded''"
| "billing_event_type (SubscriptionExpiredAfterGrace _ _ _) =
     ''billing.subscription.expired_after_grace''"

record billing_event =
  be_type :: string
  be_subscription_id :: uuid
  be_user_id :: "uuid option"
  be_payload :: billing_payload
  be_occurred_at :: gotime

record billing_db =
  bd_users :: "uuid list"
  bd_plans :: "plan_row list"
  bd_subs :: "sub_row list"
  bd_processed :: "processed_row list"
  bd_outbox :: "billing_event list"
  bd_kiwify :: "kiwify_row list"
  bd_checkpoints :: "(string \<times> gotime) list"

text \<open>What a call draws from outside: the clock and the identifier of an inserted row.\<close>

record billing_call =
  bc_now :: gotime
  bc_new_id :: uuid

section \<open>Plans\<close>

definition find_plan_by_product :: "string \<Rightarrow> billing_db \<Rightarrow> billing_error + billing_plan" where
  "find_plan_by_product product db =
     (case find (\<lambda>p. pw_product_id p = product) (bd_plans db) of
        None \<Rightarrow> Inl RepoErrPlanNotFound
      | Some p \<Rightarrow> new_plan (pw_code p) (pw_days p))"

definition resolve_plan_from_code :: "string \<Rightarrow> billing_error + billing_plan" where
  "resolve_plan_from_code code =
     (if code = ''MONTHLY'' then new_plan code 30
      else if code = ''QUARTERLY'' then new_plan code 90
      else if code = ''ANNUAL'' then new_plan code 365
      else Inl ErrUnknownPlanCode)"

section \<open>Subscriptions\<close>

definition sql_null_time :: "gotime \<Rightarrow> gotime option" where
  "sql_null_time t = (if is_zero t then None else Some t)"

definition null_if_empty :: "string \<Rightarrow> string option" where
  "null_if_empty s = (if s = '''' then None else Some s)"

definition coalesce :: "'a option \<Rightarrow> 'a option \<Rightarrow> 'a option" where
  "coalesce a b = (case a of Some x \<Rightarrow> Some x | None \<Rightarrow> b)"

definition scan_sub_row :: "sub_row \<Rightarrow> billing_error + subscription" where
  "scan_sub_row r =
     (case resolve_plan_from_code (sr_plan_code r) of
        Inl e \<Rightarrow> Inl e
      | Inr p \<Rightarrow>
          (case (if sr_funnel_token r = '''' then Inr '''' else new_funnel_token (sr_funnel_token r)) of
             Inl e \<Rightarrow> Inl e
           | Inr token \<Rightarrow>
               (case parse_status (sr_status r) of
                  Inl e \<Rightarrow> Inl e
                | Inr st \<Rightarrow>
                    if st = StatusActive \<and> is_zero (sr_period_start r)
                    then Inl ErrActiveSubscriptionPeriodStartRequired
                    else Inr (hydrate_with_user (sr_id r) (sr_user_id r) token p st
                           (sr_period_start r) (sr_period_end r)
                           (case sr_grace_end r of None \<Rightarrow> zero_time | Some g \<Rightarrow> g)
                           (sr_last_event_at r)))))"

definition find_by_order_id :: "string \<Rightarrow> billing_db \<Rightarrow> billing_error + subscription" where
  "find_by_order_id order db =
     (case find (\<lambda>r. sr_order_id r = order) (bd_subs db) of
        None \<Rightarrow> Inl ErrSubscriptionNotFound
      | Some r \<Rightarrow> scan_sub_row r)"

text \<open>
  The latest row of a subscription of the provider; among rows with the same \<open>last_event_at\<close> the
  query leaves the choice open, the model takes the first.
\<close>

fun latest_row :: "sub_row list \<Rightarrow> sub_row option" where
  "latest_row [] = None"
| "latest_row (r # rs) =
     (case latest_row rs of
        None \<Rightarrow> Some r
      | Some q \<Rightarrow> if after (sr_last_event_at q) (sr_last_event_at r) then Some q else Some r)"

definition find_by_kiwify_sub_id :: "string \<Rightarrow> billing_db \<Rightarrow> billing_error + subscription" where
  "find_by_kiwify_sub_id raw db =
     (case new_kiwify_subscription_id raw of
        Inl e \<Rightarrow> Inl e
      | Inr k \<Rightarrow>
          (case latest_row (filter (\<lambda>r. sr_kiwify_sub_id r = Some k) (bd_subs db)) of
             None \<Rightarrow> Inl ErrSubscriptionNotFound
           | Some r \<Rightarrow> scan_sub_row r))"

definition billable_wires :: "string list" where
  "billable_wires = [''ACTIVE'', ''PAST_DUE'', ''CANCELED_PENDING'']"

definition find_by_user_id :: "uuid \<Rightarrow> billing_db \<Rightarrow> billing_error + subscription" where
  "find_by_user_id u db =
     (case find (\<lambda>r. sr_user_id r = Some u \<and> sr_status r \<in> set billable_wires) (bd_subs db) of
        None \<Rightarrow> Inl ErrSubscriptionNotFound
      | Some r \<Rightarrow> scan_sub_row r)"

text \<open>
  The partial unique index: the users of the billable rows, of which no user may appear twice; and
  the check on the status column.
\<close>

definition billed_users :: "sub_row list \<Rightarrow> uuid list" where
  "billed_users rows =
     map (\<lambda>r. the (sr_user_id r))
       (filter (\<lambda>r. sr_user_id r \<noteq> None \<and> sr_status r \<in> set billable_wires) rows)"

definition status_check :: "string \<Rightarrow> bool" where
  "status_check s \<longleftrightarrow>
     s \<in> {''TRIALING'', ''ACTIVE'', ''PAST_DUE'', ''CANCELED_PENDING'', ''EXPIRED'', ''REFUNDED''}"

record upsert_params =
  up_order_id :: string
  up_kiwify_sub_id :: string
  up_sale_id :: string
  up_mobile :: string
  up_email :: string
  up_subscription :: subscription
  up_period_start :: gotime

definition validate_upsert_params :: "upsert_params \<Rightarrow> billing_error option" where
  "validate_upsert_params p =
     (case new_kiwify_subscription_id (up_kiwify_sub_id p) of
        Inl e \<Rightarrow> Some e
      | Inr _ \<Rightarrow>
          if sb_status (up_subscription p) = StatusActive \<and> is_zero (up_period_start p)
          then Some ErrActiveSubscriptionPeriodStartRequired else None)"

definition inserted_row :: "uuid \<Rightarrow> upsert_params \<Rightarrow> sub_row" where
  "inserted_row i p =
     (let s = up_subscription p in
      \<lparr>sr_id = i, sr_funnel_token = sb_funnel_token s, sr_user_id = None,
       sr_order_id = up_order_id p, sr_kiwify_sub_id = null_if_empty (up_kiwify_sub_id p),
       sr_sale_id = null_if_empty (up_sale_id p), sr_mobile = null_if_empty (up_mobile p),
       sr_email = null_if_empty (up_email p), sr_plan_code = pl_code (sb_plan s),
       sr_status = status_string (sb_status s), sr_period_start = up_period_start p,
       sr_period_end = sb_period_end s, sr_grace_end = sql_null_time (sb_grace_end s),
       sr_last_event_at = sb_last_event_at s\<rparr>)"

definition conflicting_row :: "sub_row \<Rightarrow> sub_row \<Rightarrow> sub_row" where
  "conflicting_row new r =
     r\<lparr>sr_status := sr_status new, sr_period_end := sr_period_end new,
       sr_grace_end := sr_grace_end new, sr_last_event_at := sr_last_event_at new,
       sr_kiwify_sub_id := coalesce (sr_kiwify_sub_id r) (sr_kiwify_sub_id new),
       sr_sale_id := coalesce (sr_sale_id r) (sr_sale_id new),
       sr_mobile := coalesce (sr_mobile r) (sr_mobile new),
       sr_email := coalesce (sr_email r) (sr_email new)\<rparr>"

definition upsert_by_order ::
  "billing_call \<Rightarrow> upsert_params \<Rightarrow> billing_db \<Rightarrow> billing_error + billing_db" where
  "upsert_by_order ca p db =
     (case validate_upsert_params p of
        Some e \<Rightarrow> Inl e
      | None \<Rightarrow>
          let new = inserted_row (bc_new_id ca) p; rows = bd_subs db in
          if \<not> status_check (sr_status new) then Inl ErrBillingDatabase
          else if sr_order_id new \<in> sr_order_id ` set rows
          then (let rows' = map (\<lambda>r. if sr_order_id r = sr_order_id new
                                     then conflicting_row new r else r) rows
                in if \<not> distinct (billed_users rows') then Inl RepoErrConcurrentActiveSub
                   else Inr (db\<lparr>bd_subs := rows'\<rparr>))
          else if sr_id new \<in> sr_id ` set rows \<or> sr_plan_code new \<notin> pw_code ` set (bd_plans db)
          then Inl ErrBillingDatabase
          else Inr (db\<lparr>bd_subs := rows @ [new]\<rparr>))"

text \<open>
  An \<open>UPDATE\<close> of the row with an identifier. The result says which row the constraints refused;
  \<open>ExtendPeriod\<close> does not name the violation of the unique index, the others do.
\<close>

definition update_sub_row ::
  "billing_error \<Rightarrow> uuid \<Rightarrow> (sub_row \<Rightarrow> sub_row) \<Rightarrow> billing_db \<Rightarrow> billing_error + billing_db" where
  "update_sub_row dup i f db =
     (let rows = map (\<lambda>r. if sr_id r = i then f r else r) (bd_subs db) in
      if i \<notin> sr_id ` set (bd_subs db) then Inl ErrSubscriptionNotFound
      else if \<not> distinct (billed_users rows) then Inl dup
      else Inr (db\<lparr>bd_subs := rows\<rparr>))"

definition extend_period ::
  "uuid \<Rightarrow> gotime \<Rightarrow> gotime \<Rightarrow> billing_db \<Rightarrow> billing_error + billing_db" where
  "extend_period i new_end occ =
     update_sub_row ErrBillingDatabase i
       (\<lambda>r. r\<lparr>sr_period_end := new_end, sr_last_event_at := occ, sr_grace_end := None,
              sr_status := ''ACTIVE''\<rparr>)"

definition apply_transition ::
  "uuid \<Rightarrow> sub_status \<Rightarrow> gotime \<Rightarrow> gotime \<Rightarrow> billing_db \<Rightarrow> billing_error + billing_db" where
  "apply_transition i st grace occ db =
     (if i \<in> sr_id ` set (bd_subs db) \<and> \<not> status_check (status_string st)
      then Inl ErrBillingDatabase
      else update_sub_row RepoErrConcurrentActiveSub i
             (\<lambda>r. r\<lparr>sr_status := status_string st, sr_grace_end := sql_null_time grace,
                    sr_last_event_at := occ\<rparr>) db)"

definition bind_user :: "uuid \<Rightarrow> uuid \<Rightarrow> billing_db \<Rightarrow> billing_error + billing_db" where
  "bind_user i u db =
     (if i \<in> sr_id ` set (bd_subs db) \<and> u \<notin> set (bd_users db) then Inl ErrBillingDatabase
      else update_sub_row RepoErrConcurrentActiveSub i (\<lambda>r. r\<lparr>sr_user_id := Some u\<rparr>) db)"

record grace_candidate =
  gc_subscription_id :: uuid
  gc_user_id :: "uuid option"
  gc_grace_end :: gotime
  gc_last_event_at :: gotime

definition list_past_due_grace_expired ::
  "gotime \<Rightarrow> int \<Rightarrow> billing_db \<Rightarrow> grace_candidate list" where
  "list_past_due_grace_expired now limit db =
     (let n = if limit \<le> 0 then 100 else limit;
          late = filter (\<lambda>r. sr_status r = ''PAST_DUE'' \<and>
                   (case sr_grace_end r of None \<Rightarrow> False | Some g \<Rightarrow> before g now)) (bd_subs db)
      in map (\<lambda>r. \<lparr>gc_subscription_id = sr_id r, gc_user_id = sr_user_id r,
                    gc_grace_end = the (sr_grace_end r), gc_last_event_at = sr_last_event_at r\<rparr>)
           (take (nat n) (sort_key (\<lambda>r. ns (the (sr_grace_end r))) late)))"

section \<open>Processed events, envelopes and checkpoints\<close>

definition mark_applied ::
  "string \<Rightarrow> string \<Rightarrow> string \<Rightarrow> gotime \<Rightarrow> billing_db \<Rightarrow> billing_error + billing_db" where
  "mark_applied key trigger resource occurred db =
     (if key \<in> pr_key ` set (bd_processed db) then Inl ErrEventAlreadyProcessed
      else Inr (db\<lparr>bd_processed := bd_processed db @
             [\<lparr>pr_key = key, pr_trigger = trigger, pr_resource = resource,
               pr_occurred_at = occurred, pr_status = ''applied''\<rparr>]\<rparr>))"

definition mark_superseded :: "string \<Rightarrow> billing_db \<Rightarrow> billing_db" where
  "mark_superseded key db =
     db\<lparr>bd_processed := map (\<lambda>p. if pr_key p = key then p\<lparr>pr_status := ''superseded''\<rparr> else p)
          (bd_processed db)\<rparr>"

definition persist_kiwify_event ::
  "billing_call \<Rightarrow> string \<Rightarrow> string \<Rightarrow> string \<Rightarrow> string \<Rightarrow> billing_db \<Rightarrow> billing_error + billing_db" where
  "persist_kiwify_event ca envelope trigger body signature db =
     (if signature \<notin> {''valid'', ''invalid'', ''rotated''} then Inl ErrBillingDatabase
      else if envelope \<in> kw_envelope_id ` set (bd_kiwify db) then Inr db
      else Inr (db\<lparr>bd_kiwify := bd_kiwify db @
             [\<lparr>kw_envelope_id = envelope, kw_trigger = trigger, kw_body = body,
               kw_received_at = bc_now ca, kw_processed_at = None,
               kw_signature_status = signature\<rparr>]\<rparr>))"

text \<open>
  The envelopes received before a time, at most \<open>limit\<close> of them. Which of them the query takes is
  open; the model takes the first ones.
\<close>

fun drop_old :: "gotime \<Rightarrow> nat \<Rightarrow> kiwify_row list \<Rightarrow> kiwify_row list" where
  "drop_old b n [] = []"
| "drop_old b n (k # ks) =
     (if before (kw_received_at k) b \<and> 0 < n then drop_old b (n - 1) ks else k # drop_old b n ks)"

definition delete_older_than :: "gotime \<Rightarrow> int \<Rightarrow> billing_db \<Rightarrow> int \<times> billing_db" where
  "delete_older_than b limit db =
     (let ks = drop_old b (nat limit) (bd_kiwify db)
      in (int (length (bd_kiwify db)) - int (length ks), db\<lparr>bd_kiwify := ks\<rparr>))"

definition get_checkpoint :: "string \<Rightarrow> billing_db \<Rightarrow> billing_error + gotime" where
  "get_checkpoint name db =
     (case map_of (bd_checkpoints db) name of None \<Rightarrow> Inl ErrCheckpointNotFound | Some t \<Rightarrow> Inr t)"

definition set_checkpoint :: "string \<Rightarrow> gotime \<Rightarrow> billing_db \<Rightarrow> billing_db" where
  "set_checkpoint name t db = db\<lparr>bd_checkpoints := AList.update name t (bd_checkpoints db)\<rparr>"

section \<open>The publisher\<close>

text \<open>
  Every publication appends one event to the outbox in the transaction of its use case. The
  identifier of the event is drawn by the generator, and the insert of a fresh identifier does not
  fail. An event without a time of its own gets the clock's.
\<close>

definition publish_billing ::
  "billing_call \<Rightarrow> subscription \<Rightarrow> uuid \<Rightarrow> billing_payload \<Rightarrow> billing_db \<Rightarrow> billing_db" where
  "publish_billing ca s i payload db =
     (let occ = sb_last_event_at s in
      db\<lparr>bd_outbox := bd_outbox db @
           [\<lparr>be_type = billing_event_type payload, be_subscription_id = i,
             be_user_id = sb_user_id s, be_payload = payload,
             be_occurred_at = in_loc (if is_zero occ then bc_now ca else occ) utc\<rparr>]\<rparr>)"

definition publish_activated ::
  "billing_call \<Rightarrow> subscription \<Rightarrow> uuid \<Rightarrow> string \<Rightarrow> string \<Rightarrow> string \<Rightarrow> string \<Rightarrow> billing_db \<Rightarrow>
   billing_db" where
  "publish_activated ca s i token mobile email sale =
     publish_billing ca s i
       (SubscriptionActivated token (pl_code (sb_plan s)) sale mobile email
         (in_loc (sb_period_start s) utc) (in_loc (sb_period_end s) utc)
         (in_loc (sb_last_event_at s) utc) (in_loc (sb_last_event_at s) utc))"

definition publish_activated_without_token ::
  "billing_call \<Rightarrow> subscription \<Rightarrow> uuid \<Rightarrow> string \<Rightarrow> string \<Rightarrow> string \<Rightarrow> billing_db \<Rightarrow> billing_db" where
  "publish_activated_without_token ca s i mobile email sale =
     publish_billing ca s i
       (SubscriptionActivatedWithoutToken (pl_code (sb_plan s)) sale mobile email
         (in_loc (sb_last_event_at s) utc) (in_loc (sb_last_event_at s) utc))"

definition publish_renewed ::
  "billing_call \<Rightarrow> subscription \<Rightarrow> uuid \<Rightarrow> gotime \<Rightarrow> billing_db \<Rightarrow> billing_db" where
  "publish_renewed ca s i previous =
     publish_billing ca s i
       (SubscriptionRenewed (pl_code (sb_plan s)) (in_loc previous utc)
         (in_loc (sb_period_end s) utc) (in_loc (sb_last_event_at s) utc))"

definition publish_past_due ::
  "billing_call \<Rightarrow> subscription \<Rightarrow> uuid \<Rightarrow> billing_db \<Rightarrow> billing_db" where
  "publish_past_due ca s i =
     publish_billing ca s i
       (SubscriptionPastDue (in_loc (sb_period_end s) utc) (in_loc (sb_grace_end s) utc)
         (in_loc (sb_last_event_at s) utc))"

definition publish_canceled ::
  "billing_call \<Rightarrow> subscription \<Rightarrow> uuid \<Rightarrow> billing_db \<Rightarrow> billing_db" where
  "publish_canceled ca s i =
     publish_billing ca s i
       (SubscriptionCanceled (in_loc (sb_period_end s) utc) (in_loc (sb_last_event_at s) utc))"

definition publish_refunded ::
  "billing_call \<Rightarrow> subscription \<Rightarrow> uuid \<Rightarrow> billing_db \<Rightarrow> billing_db" where
  "publish_refunded ca s i =
     publish_billing ca s i (SubscriptionRefunded (in_loc (sb_last_event_at s) utc))"

definition publish_expired ::
  "billing_call \<Rightarrow> subscription \<Rightarrow> uuid \<Rightarrow> gotime \<Rightarrow> billing_db \<Rightarrow> billing_db" where
  "publish_expired ca s i grace =
     publish_billing ca s i
       (SubscriptionExpiredAfterGrace (in_loc (sb_period_end s) utc) (in_loc grace utc)
         (in_loc (sb_last_event_at s) utc))"

end
