(* ===== verification/BillingUseCases.thy ===== *)
theory BillingUseCases
  imports BillingStore
begin

text \<open>
  The use cases of the billing module (\<open>internal/billing/application/usecases\<close>) that an event
  of the payment provider starts: a sale, a renewal, a late payment, a cancellation, a refund or
  chargeback; and the expiry of the grace period. Each runs in one transaction that first records
  the key of the event, so that an event delivered again is refused. A use case returns its errors
  as the list that \<open>errors.Join\<close> makes of them.
\<close>

section \<open>Inputs\<close>

record sale_input =
  si_sale_id :: string
  si_product_id :: string
  si_order_id :: string
  si_kiwify_sub_id :: string
  si_funnel_token :: string
  si_mobile :: string
  si_email :: string
  si_occurred_at :: gotime

definition validate_sale_input :: "sale_input \<Rightarrow> billing_error list" where
  "validate_sale_input i =
     err_if (si_sale_id i = '''') ErrSaleIDRequired @
     err_if (si_product_id i = '''') ErrKiwifyProductIDRequired @
     err_if (si_order_id i = '''') ErrOrderIDRequired @
     err_if (si_kiwify_sub_id i = '''') ErrKiwifySubIDRequired @
     err_if (is_zero (si_occurred_at i)) ErrInputOccurredAtRequired"

text \<open>The renewal, the late payment and the cancellation read the same three fields.\<close>

record sub_input =
  ki_order_id :: string
  ki_kiwify_sub_id :: string
  ki_occurred_at :: gotime

definition validate_renewed_input :: "sub_input \<Rightarrow> billing_error list" where
  "validate_renewed_input i =
     err_if (ki_kiwify_sub_id i = '''') ErrKiwifySubIDRequired @
     err_if (is_zero (ki_occurred_at i)) ErrInputOccurredAtRequired"

definition validate_late_input :: "sub_input \<Rightarrow> billing_error list" where
  "validate_late_input i =
     err_if (ki_kiwify_sub_id i = '''') ErrKiwifySubIDRequired @
     err_if (is_zero (ki_occurred_at i)) ErrInputOccurredAtRequired"

definition validate_canceled_input :: "sub_input \<Rightarrow> billing_error list" where
  "validate_canceled_input i =
     err_if (ki_kiwify_sub_id i = '''') ErrKiwifySubIDRequired @
     err_if (is_zero (ki_occurred_at i)) ErrInputOccurredAtRequired"

record refund_input =
  fi_sale_id :: string
  fi_order_id :: string
  fi_trigger :: string
  fi_occurred_at :: gotime

definition validate_refund_input :: "refund_input \<Rightarrow> billing_error list" where
  "validate_refund_input i =
     err_if (fi_sale_id i = '''') ErrSaleIDRequired @
     err_if (fi_order_id i = '''') ErrOrderIDRequired @
     err_if (is_zero (fi_occurred_at i)) ErrInputOccurredAtRequired"

text \<open>The keys of the events, with the time in the layout \<open>2006-01-02T15:04:05Z07:00\<close> of UTC.\<close>

definition append_int :: "int \<Rightarrow> nat \<Rightarrow> string" where
  "append_int n w = (if n < 0 then CHR ''-'' # pad0 w (dec (nat (- n))) else pad0 w (dec (nat n)))"

definition format_rfc3339_utc :: "gotime \<Rightarrow> string" where
  "format_rfc3339_utc t =
     (let u = in_loc t utc; s = local_secs u mod day_s in
      append_int (year u) 4 @ ''-'' @ append_int (month u) 2 @ ''-'' @ append_int (day u) 2 @ ''T'' @
      append_int (s div 3600) 2 @ '':'' @ append_int (s div 60 mod 60) 2 @ '':'' @
      append_int (s mod 60) 2 @ ''Z'')"

type_synonym 'a billing_step = "billing_db \<Rightarrow> (billing_error list + 'a) \<times> billing_db"

section \<open>A sale\<close>

text \<open>
  Both closures record the event, find the plan, activate_sub a new entity, write it under its order
  and read it back; they differ in the event they publish.
\<close>

definition sale_persist :: "billing_call \<Rightarrow> sale_input \<Rightarrow> string \<Rightarrow> string \<Rightarrow> subscription billing_step" where
  "sale_persist ca i kid token db =
     (case mark_applied (''order_approved:'' @ si_sale_id i) ''order_approved'' (si_sale_id i)
             (si_occurred_at i) db of
        Inl e \<Rightarrow> (Inl [e], db)
      | Inr db1 \<Rightarrow>
          (case find_plan_by_product (si_product_id i) db1 of
             Inl _ \<Rightarrow> (Inl [ErrPlanNotFound], db1)
           | Inr p \<Rightarrow>
               (case activate_sub (si_occurred_at i) (new_subscription p token) of
                  Inl e \<Rightarrow> (Inl [e], db1)
                | Inr s \<Rightarrow>
                    (case upsert_by_order ca
                            \<lparr>up_order_id = si_order_id i, up_kiwify_sub_id = kid,
                             up_sale_id = si_sale_id i, up_mobile = si_mobile i,
                             up_email = si_email i, up_subscription = s,
                             up_period_start = si_occurred_at i\<rparr> db1 of
                       Inl e \<Rightarrow> (Inl [e], db1)
                     | Inr db2 \<Rightarrow>
                         (case find_by_order_id (si_order_id i) db2 of
                            Inl e \<Rightarrow> (Inl [e], db2)
                          | Inr q \<Rightarrow> (Inr q, db2))))))"

definition sale_with_token ::
  "billing_call \<Rightarrow> sale_input \<Rightarrow> string \<Rightarrow> string \<Rightarrow> subscription billing_step" where
  "sale_with_token ca i kid token db =
     (case sale_persist ca i kid token db of
        (Inl es, db1) \<Rightarrow> (Inl es, db1)
      | (Inr s, db1) \<Rightarrow>
          (Inr s, publish_activated ca s (the (sb_id s)) token (si_mobile i) (si_email i)
                    (si_sale_id i) db1))"

definition sale_without_token ::
  "billing_call \<Rightarrow> sale_input \<Rightarrow> string \<Rightarrow> subscription billing_step" where
  "sale_without_token ca i kid db =
     (case sale_persist ca i kid '''' db of
        (Inl es, db1) \<Rightarrow> (Inl es, db1)
      | (Inr s, db1) \<Rightarrow>
          (Inr s, publish_activated_without_token ca s (the (sb_id s)) (si_mobile i) (si_email i)
                    (si_sale_id i) db1))"

definition process_sale_approved :: "billing_call \<Rightarrow> sale_input \<Rightarrow> subscription billing_step" where
  "process_sale_approved ca i db =
     (if validate_sale_input i \<noteq> [] then (Inl (validate_sale_input i), db)
      else
        (case new_kiwify_subscription_id (si_kiwify_sub_id i) of
           Inl _ \<Rightarrow> (Inl [ErrKiwifySubscriptionIDInvalid], db)
         | Inr kid \<Rightarrow>
             if si_funnel_token i = '''' then do_tx (sale_without_token ca i kid) db
             else (case new_funnel_token (si_funnel_token i) of
                     Inl _ \<Rightarrow> (Inl [ErrFunnelTokenMissing], db)
                   | Inr token \<Rightarrow> do_tx (sale_with_token ca i kid token) db)))"

section \<open>A renewal\<close>

definition extend_existing ::
  "billing_call \<Rightarrow> sub_input \<Rightarrow> string \<Rightarrow> subscription \<Rightarrow> subscription billing_step" where
  "extend_existing ca i key s db =
     (if decide_renewal (sb_status s) (ki_occurred_at i) (sb_last_event_at s) =
           DecisionSkipAsRegression
      then (Inl [ErrEventSuperseded], mark_superseded key db)
      else
        (let new_end = add_dur (sb_period_end s) (plan_duration (sb_plan s)) in
         case extend_period (the (sb_id s)) new_end (ki_occurred_at i) db of
           Inl e \<Rightarrow> (Inl [e], db)
         | Inr db1 \<Rightarrow>
             let renewed = hydrate_with_user (the (sb_id s)) (sb_user_id s) (sb_funnel_token s)
                   (sb_plan s) StatusActive (sb_period_start s) new_end zero_time
                   (ki_occurred_at i)
             in (Inr renewed, publish_renewed ca renewed (the (sb_id renewed)) (sb_period_end s) db1)))"

definition apply_renewal ::
  "billing_call \<Rightarrow> sub_input \<Rightarrow> string \<Rightarrow> string \<Rightarrow> subscription billing_step" where
  "apply_renewal ca i kid key db =
     (case mark_applied key ''subscription_renewed'' kid (ki_occurred_at i) db of
        Inl e \<Rightarrow> (Inl [e], db)
      | Inr db1 \<Rightarrow>
          (case find_by_kiwify_sub_id kid db1 of
             Inl _ \<Rightarrow> (Inl [ErrRenewedWithoutBaseSubscription], db1)
           | Inr s \<Rightarrow> extend_existing ca i key s db1))"

definition renewed_key :: "string \<Rightarrow> gotime \<Rightarrow> string" where
  "renewed_key kid t = ''subscription_renewed:'' @ kid @ '':'' @ format_rfc3339_utc t"

definition process_subscription_renewed ::
  "billing_call \<Rightarrow> sub_input \<Rightarrow> subscription billing_step" where
  "process_subscription_renewed ca i db =
     (if validate_renewed_input i \<noteq> [] then (Inl (validate_renewed_input i), db)
      else
        (case new_kiwify_subscription_id (ki_kiwify_sub_id i) of
           Inl _ \<Rightarrow> (Inl [ErrKiwifySubscriptionIDInvalid], db)
         | Inr kid \<Rightarrow> do_tx (apply_renewal ca i kid (renewed_key kid (ki_occurred_at i))) db))"

section \<open>A late payment\<close>

definition resolve_subscription :: "sub_input \<Rightarrow> billing_db \<Rightarrow> billing_error + subscription" where
  "resolve_subscription i db =
     (if ki_kiwify_sub_id i \<noteq> ''''
      then (case find_by_kiwify_sub_id (ki_kiwify_sub_id i) db of
              Inr s \<Rightarrow> Inr s
            | Inl _ \<Rightarrow> find_by_order_id (ki_order_id i) db)
      else find_by_order_id (ki_order_id i) db)"

definition late_key :: "sub_input \<Rightarrow> string" where
  "late_key i =
     ''subscription_late:'' @ ki_kiwify_sub_id i @ '':'' @ format_rfc3339_utc (ki_occurred_at i)"

definition late_in_tx :: "billing_call \<Rightarrow> sub_input \<Rightarrow> subscription billing_step" where
  "late_in_tx ca i db =
     (case mark_applied (late_key i) ''subscription_late'' (ki_kiwify_sub_id i) (ki_occurred_at i) db of
        Inl e \<Rightarrow> (Inl [e], db)
      | Inr db1 \<Rightarrow>
          (case resolve_subscription i db1 of
             Inl e \<Rightarrow> (Inl [e], db1)
           | Inr s \<Rightarrow>
               if decide_past_due (sb_status s) (ki_occurred_at i) (sb_last_event_at s) =
                    DecisionSkipAsRegression
               then (Inl [ErrEventSuperseded], mark_superseded (late_key i) db1)
               else
                 (let grace = add_dur (ki_occurred_at i) default_grace_window in
                  case apply_transition (the (sb_id s)) StatusPastDue grace (ki_occurred_at i) db1 of
                    Inl e \<Rightarrow> (Inl [e], db1)
                  | Inr db2 \<Rightarrow>
                      let late = hydrate_with_user (the (sb_id s)) (sb_user_id s)
                            (sb_funnel_token s) (sb_plan s) StatusPastDue (sb_period_start s)
                            (sb_period_end s) grace (ki_occurred_at i)
                      in (Inr late, publish_past_due ca late (the (sb_id late)) db2))))"

definition process_subscription_late ::
  "billing_call \<Rightarrow> sub_input \<Rightarrow> subscription billing_step" where
  "process_subscription_late ca i db =
     (if validate_late_input i \<noteq> [] then (Inl (validate_late_input i), db)
      else do_tx (late_in_tx ca i) db)"

section \<open>A cancellation\<close>

definition canceled_key :: "sub_input \<Rightarrow> string" where
  "canceled_key i = ''subscription_canceled:'' @ ki_kiwify_sub_id i"

definition cancel_in_tx :: "billing_call \<Rightarrow> sub_input \<Rightarrow> subscription billing_step" where
  "cancel_in_tx ca i db =
     (case mark_applied (canceled_key i) ''subscription_canceled'' (ki_kiwify_sub_id i)
             (ki_occurred_at i) db of
        Inl e \<Rightarrow> (Inl [e], db)
      | Inr db1 \<Rightarrow>
          (case resolve_subscription i db1 of
             Inl e \<Rightarrow> (Inl [e], db1)
           | Inr s \<Rightarrow>
               if decide_cancellation (sb_status s) (ki_occurred_at i) (sb_last_event_at s) =
                    DecisionSkipAsRegression
               then (Inl [ErrEventSuperseded], mark_superseded (canceled_key i) db1)
               else
                 (case apply_transition (the (sb_id s)) StatusCanceledPending zero_time
                         (ki_occurred_at i) db1 of
                    Inl e \<Rightarrow> (Inl [e], db1)
                  | Inr db2 \<Rightarrow>
                      let canceled = hydrate_with_user (the (sb_id s)) (sb_user_id s)
                            (sb_funnel_token s) (sb_plan s) StatusCanceledPending
                            (sb_period_start s) (sb_period_end s) zero_time (ki_occurred_at i)
                      in (Inr canceled, publish_canceled ca canceled (the (sb_id canceled)) db2))))"

definition process_subscription_canceled ::
  "billing_call \<Rightarrow> sub_input \<Rightarrow> subscription billing_step" where
  "process_subscription_canceled ca i db =
     (if validate_canceled_input i \<noteq> [] then (Inl (validate_canceled_input i), db)
      else do_tx (cancel_in_tx ca i) db)"

section \<open>A refund or chargeback\<close>

definition refund_key :: "refund_input \<Rightarrow> string" where
  "refund_key i =
     (if fi_trigger i = '''' then ''order_refunded'' else fi_trigger i) @ '':'' @ fi_sale_id i"

definition refund_in_tx :: "billing_call \<Rightarrow> refund_input \<Rightarrow> subscription billing_step" where
  "refund_in_tx ca i db =
     (case mark_applied (refund_key i) (fi_trigger i) (fi_sale_id i) (fi_occurred_at i) db of
        Inl e \<Rightarrow> (Inl [e], db)
      | Inr db1 \<Rightarrow>
          (case find_by_order_id (fi_order_id i) db1 of
             Inl e \<Rightarrow> (Inl [e], db1)
           | Inr s \<Rightarrow>
               (case apply_transition (the (sb_id s)) StatusRefunded zero_time (fi_occurred_at i)
                       db1 of
                  Inl e \<Rightarrow> (Inl [e], db1)
                | Inr db2 \<Rightarrow>
                    let refunded = hydrate_with_user (the (sb_id s)) (sb_user_id s)
                          (sb_funnel_token s) (sb_plan s) StatusRefunded (sb_period_start s)
                          (sb_period_end s) zero_time (fi_occurred_at i)
                    in (Inr refunded, publish_refunded ca refunded (the (sb_id refunded)) db2))))"

definition process_refund_or_chargeback ::
  "billing_call \<Rightarrow> refund_input \<Rightarrow> subscription billing_step" where
  "process_refund_or_chargeback ca i db =
     (if validate_refund_input i \<noteq> [] then (Inl (validate_refund_input i), db)
      else do_tx (refund_in_tx ca i) db)"

section \<open>The end of the grace period\<close>

text \<open>
  The job lists its candidates outside any transaction and then expires them one by one, each in a
  transaction of its own at its own time.
\<close>

definition expire_in_tx :: "billing_call \<Rightarrow> grace_candidate \<Rightarrow> subscription billing_step" where
  "expire_in_tx ca c db =
     (case apply_transition (gc_subscription_id c) StatusExpired zero_time
             (in_loc (bc_now ca) utc) db of
        Inl e \<Rightarrow> (Inl [e], db)
      | Inr db1 \<Rightarrow>
          let expired = hydrate_with_user (gc_subscription_id c) (gc_user_id c) '''' no_plan
                StatusExpired zero_time zero_time zero_time (in_loc (bc_now ca) utc)
          in (Inr expired, publish_expired ca expired (gc_subscription_id c) (gc_grace_end c) db1))"

definition expire_one :: "billing_call \<Rightarrow> grace_candidate \<Rightarrow> subscription billing_step" where
  "expire_one ca c = do_tx (expire_in_tx ca c)"

fun expire_each ::
  "(grace_candidate \<Rightarrow> billing_call) \<Rightarrow> grace_candidate list \<Rightarrow> billing_db \<Rightarrow>
   billing_error list \<times> billing_db" where
  "expire_each cas [] db = ([], db)"
| "expire_each cas (c # cs) db =
     (case expire_one (cas c) c db of
        (r, db1) \<Rightarrow>
          (case expire_each cas cs db1 of
             (es, db2) \<Rightarrow> ((case r of Inl e \<Rightarrow> e @ es | Inr _ \<Rightarrow> es), db2)))"

definition grace_expired_batch_default :: int where
  "grace_expired_batch_default = 100"

definition process_subscription_grace_expired ::
  "billing_call \<Rightarrow> (grace_candidate \<Rightarrow> billing_call) \<Rightarrow> unit billing_step" where
  "process_subscription_grace_expired ca cas db =
     (let cs = list_past_due_grace_expired (in_loc (bc_now ca) utc) grace_expired_batch_default db
      in if cs = [] then (Inr (), db)
         else (case expire_each cas cs db of
                 (es, db1) \<Rightarrow> (if es = [] then Inr () else Inl es, db1)))"

end
