(* ===== verification/BillingLife.thy ===== *)
theory BillingLife
  imports BillingUseCases
begin

text \<open>
  What the use cases of the billing module guarantee: the state every sequence of them keeps, the
  events that are applied once, and how the stored row of a subscription relates to the entity
  whose transitions the domain declares.
\<close>

section \<open>The invariant of the tables\<close>

definition live_wires :: "string list" where
  "live_wires = [''ACTIVE'', ''PAST_DUE'', ''CANCELED_PENDING'', ''EXPIRED'', ''REFUNDED'']"

definition row_sound :: "sub_row \<Rightarrow> bool" where
  "row_sound r \<longleftrightarrow>
     sr_status r \<in> set live_wires \<and> plan_code_supported (sr_plan_code r) \<and>
     trim_space (sr_funnel_token r) = sr_funnel_token r \<and> \<not> is_zero (sr_period_start r) \<and>
     sr_grace_end r =
       (if sr_status r = ''PAST_DUE''
        then sql_null_time (add_dur (sr_last_event_at r) default_grace_window) else None)"

definition billing_ok :: "billing_db \<Rightarrow> bool" where
  "billing_ok db \<longleftrightarrow>
     distinct (map sr_id (bd_subs db)) \<and> distinct (map sr_order_id (bd_subs db)) \<and>
     distinct (billed_users (bd_subs db)) \<and> distinct (map pr_key (bd_processed db)) \<and>
     (\<forall>r \<in> set (bd_subs db). row_sound r)"

lemma billing_okI:
  assumes "billing_ok db" "bd_subs db' = bd_subs db" "bd_processed db' = bd_processed db"
  shows "billing_ok db'"
  using assms by (simp add: billing_ok_def)

lemma billing_ok_same_keys:
  assumes "billing_ok db" "map sr_id (bd_subs db') = map sr_id (bd_subs db)"
    and "map sr_order_id (bd_subs db') = map sr_order_id (bd_subs db)"
    and "distinct (billed_users (bd_subs db'))" "bd_processed db' = bd_processed db"
    and "\<forall>r \<in> set (bd_subs db'). row_sound r"
  shows "billing_ok db'"
  using assms by (simp add: billing_ok_def)

lemma supported_plan:
  "plan_code_supported c \<Longrightarrow> \<exists>p. resolve_plan_from_code c = Inr p \<and> pl_code p = c"
  by (auto simp: plan_code_supported_def resolve_plan_from_code_def new_plan_def)

lemma live_wire_status:
  "w \<in> set live_wires \<Longrightarrow> \<exists>st. parse_status w = Inr st \<and> status_string st = w \<and>
     st \<notin> {StatusZero, StatusTrialing}"
  by (auto simp: live_wires_def parse_status_def status_by_wire_def)

lemma live_status_wire:
  "st \<notin> {StatusZero, StatusTrialing} \<Longrightarrow> status_string st \<in> set live_wires"
  by (cases st) (auto simp: live_wires_def)

text \<open>Every stored row reads back as an entity with its columns.\<close>

lemma scan_sound:
  assumes "row_sound r"
  shows "\<exists>p st. resolve_plan_from_code (sr_plan_code r) = Inr p \<and> status_string st = sr_status r \<and>
    st \<notin> {StatusZero, StatusTrialing} \<and>
    scan_sub_row r = Inr (hydrate_with_user (sr_id r) (sr_user_id r) (sr_funnel_token r) p st
      (sr_period_start r) (sr_period_end r)
      (case sr_grace_end r of None \<Rightarrow> zero_time | Some g \<Rightarrow> g) (sr_last_event_at r))"
proof -
  obtain p where "resolve_plan_from_code (sr_plan_code r) = Inr p"
    using assms supported_plan unfolding row_sound_def by blast
  moreover obtain st where "parse_status (sr_status r) = Inr st" "status_string st = sr_status r"
      "st \<notin> {StatusZero, StatusTrialing}"
    using assms live_wire_status unfolding row_sound_def by blast
  moreover have "(if sr_funnel_token r = '''' then Inr '''' else new_funnel_token (sr_funnel_token r))
      = Inr (sr_funnel_token r)"
    using assms by (simp add: row_sound_def new_funnel_token_def Let_def)
  moreover have "\<not> is_zero (sr_period_start r)" using assms by (simp add: row_sound_def)
  ultimately show ?thesis
    by (intro exI [of _ p] exI [of _ st]) (simp add: scan_sub_row_def)
qed

section \<open>The operations keep it\<close>

lemma set_map_at: "distinct (map f xs) \<Longrightarrow> x \<in> set xs \<Longrightarrow>
    set (map (\<lambda>y. if f y = f x then g y else y) xs) = insert (g x) (set xs - {x})"
  by (induction xs) (auto simp: image_iff split: if_splits)

lemma update_sub_row_Inr:
  assumes "update_sub_row e i f db = Inr db'"
  shows "i \<in> sr_id ` set (bd_subs db)"
    "bd_subs db' = map (\<lambda>r. if sr_id r = i then f r else r) (bd_subs db)"
    "distinct (billed_users (bd_subs db'))" "bd_processed db' = bd_processed db"
    "bd_outbox db' = bd_outbox db" "bd_plans db' = bd_plans db"
  using assms by (auto simp: update_sub_row_def Let_def split: if_splits)

lemma update_sub_row_ok:
  assumes "update_sub_row e i f db = Inr db'" "billing_ok db"
    and "\<And>r. sr_id (f r) = sr_id r" "\<And>r. sr_order_id (f r) = sr_order_id r"
    and "\<And>r. row_sound r \<Longrightarrow> row_sound (f r)"
  shows "billing_ok db'"
proof -
  note u = update_sub_row_Inr [OF assms(1)]
  have "map sr_id (bd_subs db') = map sr_id (bd_subs db)"
    "map sr_order_id (bd_subs db') = map sr_order_id (bd_subs db)"
    by (simp_all add: u(2) assms(3,4))
  moreover have "\<forall>r \<in> set (bd_subs db'). row_sound r"
    using assms(2,5) by (auto simp: u(2) billing_ok_def)
  ultimately show ?thesis using u(3,4) assms(2) by (intro billing_ok_same_keys [of db db'])
qed

lemma apply_transition_Inr:
  assumes "apply_transition i st grace t db = Inr db'"
  shows "update_sub_row RepoErrConcurrentActiveSub i
    (\<lambda>r. r\<lparr>sr_status := status_string st, sr_grace_end := sql_null_time grace,
           sr_last_event_at := t\<rparr>) db = Inr db'"
  using assms by (simp add: apply_transition_def split: if_splits)

lemma apply_transition_ok:
  assumes "apply_transition i st grace t db = Inr db'" "billing_ok db"
    and "st \<notin> {StatusZero, StatusTrialing}"
    and "sql_null_time grace =
      (if st = StatusPastDue then sql_null_time (add_dur t default_grace_window) else None)"
  shows "billing_ok db'"
proof (rule update_sub_row_ok [OF apply_transition_Inr [OF assms(1)] assms(2)])
  fix r assume r: "row_sound r"
  have "status_string st = ''PAST_DUE'' \<longleftrightarrow> st = StatusPastDue" by (cases st) simp_all
  then show "row_sound (r\<lparr>sr_status := status_string st, sr_grace_end := sql_null_time grace,
      sr_last_event_at := t\<rparr>)"
    using r assms(3,4) live_status_wire by (simp add: row_sound_def)
qed simp_all

lemma extend_period_ok:
  assumes "extend_period i e t db = Inr db'" "billing_ok db"
  shows "billing_ok db'"
  by (rule update_sub_row_ok [OF assms(1) [unfolded extend_period_def] assms(2)])
    (simp_all add: row_sound_def live_wires_def)

lemma bind_user_ok:
  assumes "bind_user i u db = Inr db'" "billing_ok db"
  shows "billing_ok db'"
proof -
  have "update_sub_row RepoErrConcurrentActiveSub i (\<lambda>r. r\<lparr>sr_user_id := Some u\<rparr>) db = Inr db'"
    using assms(1) by (simp add: bind_user_def split: if_splits)
  then show ?thesis by (rule update_sub_row_ok [OF _ assms(2)]) (simp_all add: row_sound_def)
qed

lemma publish_ok [simp]: "billing_ok (publish_billing ca s i pl db) = billing_ok db"
  by (simp add: publish_billing_def billing_ok_def Let_def)

lemmas publish_defs = publish_activated_def publish_activated_without_token_def
  publish_renewed_def publish_past_due_def publish_canceled_def publish_refunded_def
  publish_expired_def

lemma mark_applied_Inr:
  assumes "mark_applied key tr res t db = Inr db'"
  shows "key \<notin> pr_key ` set (bd_processed db)"
    "pr_key ` set (bd_processed db') = insert key (pr_key ` set (bd_processed db))"
    "bd_subs db' = bd_subs db" "bd_outbox db' = bd_outbox db" "bd_plans db' = bd_plans db"
    "billing_ok db \<Longrightarrow> billing_ok db'"
  using assms by (auto simp: mark_applied_def billing_ok_def split: if_splits)

lemma upsert_by_order_ok:
  assumes "upsert_by_order ca p db = Inr db'" "billing_ok db"
    and "sb_status (up_subscription p) = StatusActive"
    and "is_zero (sb_grace_end (up_subscription p))"
    and "plan_code_supported (pl_code (sb_plan (up_subscription p)))"
    and "trim_space (sb_funnel_token (up_subscription p)) = sb_funnel_token (up_subscription p)"
  shows "billing_ok db'"
proof -
  let ?new = "inserted_row (bc_new_id ca) p"
  have "\<not> is_zero (up_period_start p)"
    using assms(1,3)
    by (auto simp: upsert_by_order_def validate_upsert_params_def split: sum.splits if_splits)
  then have new: "row_sound ?new" "sr_status ?new = ''ACTIVE''" "sr_grace_end ?new = None"
    "sr_user_id ?new = None"
    using assms(3-6)
    by (simp_all add: row_sound_def inserted_row_def Let_def live_wires_def sql_null_time_def)
  show ?thesis
  proof (cases "sr_order_id ?new \<in> sr_order_id ` set (bd_subs db)")
    case True
    let ?rows = "map (\<lambda>r. if sr_order_id r = sr_order_id ?new then conflicting_row ?new r else r)
      (bd_subs db)"
    have subs: "bd_subs db' = ?rows" "distinct (billed_users (bd_subs db'))"
      "bd_processed db' = bd_processed db"
      using assms(1) True by (auto simp: upsert_by_order_def Let_def split: option.splits if_splits)
    have "map sr_id (bd_subs db') = map sr_id (bd_subs db)"
      "map sr_order_id (bd_subs db') = map sr_order_id (bd_subs db)"
      by (simp_all add: subs(1) conflicting_row_def)
    moreover have "\<forall>r \<in> set (bd_subs db'). row_sound r"
      using assms(2) new
      by (auto simp: subs(1) billing_ok_def conflicting_row_def row_sound_def live_wires_def)
    ultimately show ?thesis
      using subs(2,3) assms(2) by (intro billing_ok_same_keys [of db db'])
  next
    case False
    then have "db' = db\<lparr>bd_subs := bd_subs db @ [?new]\<rparr>" "sr_id ?new \<notin> sr_id ` set (bd_subs db)"
      using assms(1) by (auto simp: upsert_by_order_def Let_def split: option.splits if_splits)
    then show ?thesis
      using False new(1,4) assms(2) by (auto simp: billing_ok_def billed_users_def)
  qed
qed

section \<open>The use cases, taken apart\<close>

text \<open>The events of the provider and the use case that handles each.\<close>

datatype billing_request =
    SaleRequest sale_input
  | RenewedRequest sub_input
  | LateRequest sub_input
  | CanceledRequest sub_input
  | RefundRequest refund_input

fun run_request :: "billing_call \<Rightarrow> billing_request \<Rightarrow> subscription billing_step" where
  "run_request ca (SaleRequest i) = process_sale_approved ca i"
| "run_request ca (RenewedRequest i) = process_subscription_renewed ca i"
| "run_request ca (LateRequest i) = process_subscription_late ca i"
| "run_request ca (CanceledRequest i) = process_subscription_canceled ca i"
| "run_request ca (RefundRequest i) = process_refund_or_chargeback ca i"

fun request_key :: "billing_request \<Rightarrow> string" where
  "request_key (SaleRequest i) = ''order_approved:'' @ si_sale_id i"
| "request_key (RenewedRequest i) = renewed_key (trim_space (ki_kiwify_sub_id i)) (ki_occurred_at i)"
| "request_key (LateRequest i) = late_key i"
| "request_key (CanceledRequest i) = canceled_key i"
| "request_key (RefundRequest i) = refund_key i"

text \<open>An answer and the state after it: an error comes with the state before.\<close>

lemma do_tx_cases:
  assumes "do_tx f db = (r, db')"
  shows "(\<exists>x. r = Inr x \<and> f db = (Inr x, db')) \<or> (\<exists>e. r = Inl e \<and> db' = db)"
  using assms by (auto simp: do_tx_def split: sum.splits prod.splits)

lemma run_request_error: "run_request ca q db = (Inl es, db') \<Longrightarrow> db' = db"
  by (cases q)
    (auto simp: process_sale_approved_def process_subscription_renewed_def
      process_subscription_late_def process_subscription_canceled_def
      process_refund_or_chargeback_def do_tx_Inl split: if_splits sum.splits)

text \<open>
  A sale that went through: the event is recorded, the plan found, the entity activated, the row
  written and read back, one event published.
\<close>

lemma sale_persist_Inr:
  assumes "sale_persist ca i kid token db = (Inr s', db')"
  shows "\<exists>db1 p s. mark_applied (''order_approved:'' @ si_sale_id i) ''order_approved''
      (si_sale_id i) (si_occurred_at i) db = Inr db1 \<and>
    find_plan_by_product (si_product_id i) db1 = Inr p \<and>
    activate_sub (si_occurred_at i) (new_subscription p token) = Inr s \<and>
    upsert_by_order ca
      \<lparr>up_order_id = si_order_id i, up_kiwify_sub_id = kid, up_sale_id = si_sale_id i,
       up_mobile = si_mobile i, up_email = si_email i, up_subscription = s,
       up_period_start = si_occurred_at i\<rparr> db1 = Inr db' \<and>
    find_by_order_id (si_order_id i) db' = Inr s'"
  using assms by (auto simp: sale_persist_def split: sum.splits)

lemma activated_new:
  assumes "activate_sub t (new_subscription p token) = Inr s"
  shows "sb_status s = StatusActive" "is_zero (sb_grace_end s)" "sb_plan s = p"
    "sb_funnel_token s = token"
  using assms
  by (auto simp: activate_sub_def apply_status_transition_def new_subscription_def target_status_def
      apply_active_def Let_def is_zero_def zero_time_def split: if_splits)

lemma sale_persist_ok:
  assumes "sale_persist ca i kid token db = (Inr s', db')" "billing_ok db"
    and "trim_space token = token"
  shows "billing_ok db'" "request_key (SaleRequest i) \<in> pr_key ` set (bd_processed db')"
    "pr_key ` set (bd_processed db) \<subseteq> pr_key ` set (bd_processed db')"
proof -
  obtain db1 p s where m: "mark_applied (''order_approved:'' @ si_sale_id i) ''order_approved''
      (si_sale_id i) (si_occurred_at i) db = Inr db1"
    and p: "find_plan_by_product (si_product_id i) db1 = Inr p"
    and s: "activate_sub (si_occurred_at i) (new_subscription p token) = Inr s"
    and u: "upsert_by_order ca
      \<lparr>up_order_id = si_order_id i, up_kiwify_sub_id = kid, up_sale_id = si_sale_id i,
       up_mobile = si_mobile i, up_email = si_email i, up_subscription = s,
       up_period_start = si_occurred_at i\<rparr> db1 = Inr db'"
    using sale_persist_Inr [OF assms(1)] by blast
  have "plan_code_supported (pl_code p)"
    using p by (auto simp: find_plan_by_product_def new_plan_def split: option.splits if_splits)
  then show "billing_ok db'"
    using upsert_by_order_ok [OF u mark_applied_Inr(6) [OF m assms(2)]] activated_new [OF s] assms(3)
    by simp
  have "bd_processed db' = bd_processed db1"
    using u by (auto simp: upsert_by_order_def Let_def split: option.splits if_splits)
  then show "request_key (SaleRequest i) \<in> pr_key ` set (bd_processed db')"
    "pr_key ` set (bd_processed db) \<subseteq> pr_key ` set (bd_processed db')"
    using mark_applied_Inr(2) [OF m] by auto
qed

lemma publish_keeps [simp]:
  "bd_processed (publish_billing ca s i pl db) = bd_processed db"
  "bd_subs (publish_billing ca s i pl db) = bd_subs db"
  "bd_plans (publish_billing ca s i pl db) = bd_plans db"
  by (simp_all add: publish_billing_def Let_def)

text \<open>
  The four events of a known subscription that went through share one shape: the entity read
  under the event, the row updated, the new entity published.
\<close>

lemma extend_existing_Inr:
  assumes "extend_existing ca i key s db = (Inr s', db')"
  shows "\<exists>db1. decide_renewal (sb_status s) (ki_occurred_at i) (sb_last_event_at s) = DecisionApply \<and>
    extend_period (the (sb_id s)) (add_dur (sb_period_end s) (plan_duration (sb_plan s)))
      (ki_occurred_at i) db = Inr db1 \<and>
    s' = hydrate_with_user (the (sb_id s)) (sb_user_id s) (sb_funnel_token s) (sb_plan s)
      StatusActive (sb_period_start s) (add_dur (sb_period_end s) (plan_duration (sb_plan s)))
      zero_time (ki_occurred_at i) \<and>
    db' = publish_renewed ca s' (the (sb_id s')) (sb_period_end s) db1"
  using assms
  by (cases "decide_renewal (sb_status s) (ki_occurred_at i) (sb_last_event_at s)")
    (auto simp: extend_existing_def Let_def split: if_splits sum.splits)

lemma apply_renewal_Inr:
  assumes "apply_renewal ca i kid key db = (Inr s', db')"
  shows "\<exists>db1 s. mark_applied key ''subscription_renewed'' kid (ki_occurred_at i) db = Inr db1 \<and>
    find_by_kiwify_sub_id kid db1 = Inr s \<and> extend_existing ca i key s db1 = (Inr s', db')"
  using assms by (auto simp: apply_renewal_def split: sum.splits)

lemma late_in_tx_Inr:
  assumes "late_in_tx ca i db = (Inr s', db')"
  shows "\<exists>db1 s db2.
    mark_applied (late_key i) ''subscription_late'' (ki_kiwify_sub_id i) (ki_occurred_at i) db = Inr db1 \<and>
    resolve_subscription i db1 = Inr s \<and>
    decide_past_due (sb_status s) (ki_occurred_at i) (sb_last_event_at s) = DecisionApply \<and>
    apply_transition (the (sb_id s)) StatusPastDue
      (add_dur (ki_occurred_at i) default_grace_window) (ki_occurred_at i) db1 = Inr db2 \<and>
    s' = hydrate_with_user (the (sb_id s)) (sb_user_id s) (sb_funnel_token s) (sb_plan s)
      StatusPastDue (sb_period_start s) (sb_period_end s)
      (add_dur (ki_occurred_at i) default_grace_window) (ki_occurred_at i) \<and>
    db' = publish_past_due ca s' (the (sb_id s')) db2"
  using assms
  by (auto simp: late_in_tx_def Let_def split: if_splits sum.splits) (metis sub_decision.exhaust)+

lemma cancel_in_tx_Inr:
  assumes "cancel_in_tx ca i db = (Inr s', db')"
  shows "\<exists>db1 s db2.
    mark_applied (canceled_key i) ''subscription_canceled'' (ki_kiwify_sub_id i)
      (ki_occurred_at i) db = Inr db1 \<and>
    resolve_subscription i db1 = Inr s \<and>
    decide_cancellation (sb_status s) (ki_occurred_at i) (sb_last_event_at s) = DecisionApply \<and>
    apply_transition (the (sb_id s)) StatusCanceledPending zero_time (ki_occurred_at i) db1 = Inr db2 \<and>
    s' = hydrate_with_user (the (sb_id s)) (sb_user_id s) (sb_funnel_token s) (sb_plan s)
      StatusCanceledPending (sb_period_start s) (sb_period_end s) zero_time (ki_occurred_at i) \<and>
    db' = publish_canceled ca s' (the (sb_id s')) db2"
  using assms
  by (auto simp: cancel_in_tx_def Let_def split: if_splits sum.splits) (metis sub_decision.exhaust)+

lemma refund_in_tx_Inr:
  assumes "refund_in_tx ca i db = (Inr s', db')"
  shows "\<exists>db1 s db2.
    mark_applied (refund_key i) (fi_trigger i) (fi_sale_id i) (fi_occurred_at i) db = Inr db1 \<and>
    find_by_order_id (fi_order_id i) db1 = Inr s \<and>
    apply_transition (the (sb_id s)) StatusRefunded zero_time (fi_occurred_at i) db1 = Inr db2 \<and>
    s' = hydrate_with_user (the (sb_id s)) (sb_user_id s) (sb_funnel_token s) (sb_plan s)
      StatusRefunded (sb_period_start s) (sb_period_end s) zero_time (fi_occurred_at i) \<and>
    db' = publish_refunded ca s' (the (sb_id s')) db2"
  using assms by (auto simp: refund_in_tx_def Let_def split: sum.splits)

section \<open>The subscription an event is about\<close>

fun request_subject :: "billing_request \<Rightarrow> billing_db \<Rightarrow> billing_error + subscription" where
  "request_subject (SaleRequest i) db = find_by_order_id (si_order_id i) db"
| "request_subject (RenewedRequest i) db = find_by_kiwify_sub_id (ki_kiwify_sub_id i) db"
| "request_subject (LateRequest i) db = resolve_subscription i db"
| "request_subject (CanceledRequest i) db = resolve_subscription i db"
| "request_subject (RefundRequest i) db = find_by_order_id (fi_order_id i) db"

lemma subject_cong:
  assumes "bd_subs db' = bd_subs db"
  shows "find_by_order_id ord db' = find_by_order_id ord db"
    "find_by_kiwify_sub_id k db' = find_by_kiwify_sub_id k db"
    "resolve_subscription i db' = resolve_subscription i db"
    "request_subject q db' = request_subject q db"
  by (simp_all only: find_by_order_id_def find_by_kiwify_sub_id_def resolve_subscription_def assms)
    (cases q; simp only: request_subject.simps find_by_order_id_def find_by_kiwify_sub_id_def
      resolve_subscription_def assms)

lemma find_trimmed: "new_kiwify_subscription_id raw = Inr kid \<Longrightarrow>
    find_by_kiwify_sub_id kid db = find_by_kiwify_sub_id raw db \<and> kid = trim_space raw"
  by (auto simp: new_kiwify_subscription_id_def find_by_kiwify_sub_id_def Let_def split: if_splits)

lemma latest_row_in: "latest_row rs = Some r \<Longrightarrow> r \<in> set rs"
  by (induction rs arbitrary: r) (auto split: option.splits if_splits)

lemma subject_row:
  assumes "request_subject q db = Inr s"
  shows "\<exists>r \<in> set (bd_subs db). scan_sub_row r = Inr s"
proof -
  have "\<exists>r \<in> set (bd_subs db). scan_sub_row r = Inr x" if "find_by_order_id ord db = Inr x" for ord x
    using that by (auto simp: find_by_order_id_def find_Some_iff split: option.splits)
  moreover have "\<exists>r \<in> set (bd_subs db). scan_sub_row r = Inr x"
    if "find_by_kiwify_sub_id k db = Inr x" for k x
    using that
    by (auto simp: find_by_kiwify_sub_id_def split: sum.splits option.splits dest!: latest_row_in)
  ultimately show ?thesis
    using assms
    by (cases q) (auto simp: resolve_subscription_def split: if_splits sum.splits)
qed

lemma scan_fields:
  assumes "scan_sub_row r = Inr s"
  shows "sb_id s = Some (sr_id r)" "sb_last_event_at s = sr_last_event_at r"
    "sb_period_end s = sr_period_end r" "sb_user_id s = sr_user_id r"
    "parse_status (sr_status r) = Inr (sb_status s)" "sb_period_start s = sr_period_start r"
    "resolve_plan_from_code (sr_plan_code r) = Inr (sb_plan s)"
  using assms
  by (auto simp: scan_sub_row_def hydrate_with_user_def split: sum.splits if_splits)

text \<open>
  An event that went through, in one shape: its key is new, the entity it is about was read, the
  decision was to apply, and the row of that entity was updated.
\<close>

definition request_update :: "billing_request \<Rightarrow> subscription \<Rightarrow> sub_row \<Rightarrow> sub_row" where
  "request_update q s r =
     (case q of
        SaleRequest i \<Rightarrow> r
      | RenewedRequest i \<Rightarrow>
          r\<lparr>sr_period_end := add_dur (sb_period_end s) (plan_duration (sb_plan s)),
            sr_last_event_at := ki_occurred_at i, sr_grace_end := None, sr_status := ''ACTIVE''\<rparr>
      | LateRequest i \<Rightarrow>
          r\<lparr>sr_status := ''PAST_DUE'',
            sr_grace_end := sql_null_time (add_dur (ki_occurred_at i) default_grace_window),
            sr_last_event_at := ki_occurred_at i\<rparr>
      | CanceledRequest i \<Rightarrow>
          r\<lparr>sr_status := ''CANCELED_PENDING'', sr_grace_end := None,
            sr_last_event_at := ki_occurred_at i\<rparr>
      | RefundRequest i \<Rightarrow>
          r\<lparr>sr_status := ''REFUNDED'', sr_grace_end := None,
            sr_last_event_at := fi_occurred_at i\<rparr>)"

definition request_entity :: "billing_request \<Rightarrow> subscription \<Rightarrow> subscription" where
  "request_entity q s =
     (let known = (\<lambda>st e g t. hydrate_with_user (the (sb_id s)) (sb_user_id s) (sb_funnel_token s)
            (sb_plan s) st (sb_period_start s) e g t)
      in case q of
           SaleRequest i \<Rightarrow> s
         | RenewedRequest i \<Rightarrow>
             known StatusActive (add_dur (sb_period_end s) (plan_duration (sb_plan s))) zero_time
               (ki_occurred_at i)
         | LateRequest i \<Rightarrow>
             known StatusPastDue (sb_period_end s) (add_dur (ki_occurred_at i) default_grace_window)
               (ki_occurred_at i)
         | CanceledRequest i \<Rightarrow>
             known StatusCanceledPending (sb_period_end s) zero_time (ki_occurred_at i)
         | RefundRequest i \<Rightarrow>
             known StatusRefunded (sb_period_end s) zero_time (fi_occurred_at i))"

fun is_sale :: "billing_request \<Rightarrow> bool" where
  "is_sale (SaleRequest i) = True"
| "is_sale _ = False"

lemma zero_is_null [simp]: "sql_null_time zero_time = None"
  by (simp add: sql_null_time_def is_zero_def zero_time_def)

definition request_done ::
  "billing_request \<Rightarrow> subscription \<Rightarrow> subscription \<Rightarrow> billing_db \<Rightarrow> billing_db \<Rightarrow> bool" where
  "request_done q s s' db db' \<longleftrightarrow> s' = request_entity q s \<and>
     request_subject q db = Inr s \<and> request_key q \<notin> pr_key ` set (bd_processed db) \<and>
     pr_key ` set (bd_processed db') = insert (request_key q) (pr_key ` set (bd_processed db)) \<and>
     bd_subs db' = map (\<lambda>r. if sr_id r = the (sb_id s) then request_update q s r else r) (bd_subs db) \<and>
     distinct (billed_users (bd_subs db')) \<and>
     (billing_ok db \<longrightarrow> billing_ok db')"

lemma request_doneI:
  assumes "mark_applied (request_key q) tr res t db = Inr m" "request_subject q m = Inr s"
    and "update_sub_row e (the (sb_id s)) (request_update q s) m = Inr u"
    and "billing_ok m \<Longrightarrow> billing_ok u"
    and "db' = publish_billing ca s' i pl u" "s' = request_entity q s"
  shows "request_done q s s' db db'"
proof -
  note ma = mark_applied_Inr [OF assms(1)] and up = update_sub_row_Inr [OF assms(3)]
  have "request_subject q db = Inr s" using subject_cong(4) [OF ma(3)] assms(2) by simp
  then show ?thesis using ma up assms(4) by (simp add: request_done_def assms(5,6))
qed

lemma request_shape:
  assumes "run_request ca q db = (Inr s', db')" "\<not> is_sale q"
  shows "\<exists>s. request_done q s s' db db'"
proof (cases q)
  case (SaleRequest i)
  then show ?thesis using assms(2) by simp
next
  case (RenewedRequest i)
  then obtain kid where kid: "new_kiwify_subscription_id (ki_kiwify_sub_id i) = Inr kid"
    and tx: "apply_renewal ca i kid (renewed_key kid (ki_occurred_at i)) db = (Inr s', db')"
    using assms(1)
    by (auto simp: process_subscription_renewed_def do_tx_Inr split: if_splits sum.splits)
  obtain db1 s db2 where m: "mark_applied (renewed_key kid (ki_occurred_at i)) ''subscription_renewed''
      kid (ki_occurred_at i) db = Inr db1" and s: "find_by_kiwify_sub_id kid db1 = Inr s"
    and x: "extend_period (the (sb_id s)) (add_dur (sb_period_end s) (plan_duration (sb_plan s)))
      (ki_occurred_at i) db1 = Inr db2" "db' = publish_renewed ca s' (the (sb_id s')) (sb_period_end s) db2"
      "s' = hydrate_with_user (the (sb_id s)) (sb_user_id s) (sb_funnel_token s) (sb_plan s)
        StatusActive (sb_period_start s) (add_dur (sb_period_end s) (plan_duration (sb_plan s)))
        zero_time (ki_occurred_at i)"
    using apply_renewal_Inr [OF tx] extend_existing_Inr by blast
  have "find_by_kiwify_sub_id (ki_kiwify_sub_id i) db1 = Inr s" "kid = trim_space (ki_kiwify_sub_id i)"
    using s find_trimmed [OF kid, of db1] by metis+
  then have "request_done q s s' db db'"
    by (intro request_doneI [where e = ErrBillingDatabase and m = db1 and u = db2])
      (use RenewedRequest m x extend_period_ok [OF x(1)] in
        \<open>simp_all add: request_update_def [abs_def] request_entity_def Let_def extend_period_def publish_renewed_def\<close>)
  then show ?thesis by blast
next
  case (LateRequest i)
  then have tx: "late_in_tx ca i db = (Inr s', db')"
    using assms(1) by (auto simp: process_subscription_late_def do_tx_Inr split: if_splits)
  obtain db1 s db2 where m: "mark_applied (late_key i) ''subscription_late'' (ki_kiwify_sub_id i)
      (ki_occurred_at i) db = Inr db1" and s: "resolve_subscription i db1 = Inr s"
    and x: "apply_transition (the (sb_id s)) StatusPastDue
      (add_dur (ki_occurred_at i) default_grace_window) (ki_occurred_at i) db1 = Inr db2"
      "db' = publish_past_due ca s' (the (sb_id s')) db2"
      "s' = hydrate_with_user (the (sb_id s)) (sb_user_id s) (sb_funnel_token s) (sb_plan s)
        StatusPastDue (sb_period_start s) (sb_period_end s) (add_dur (ki_occurred_at i) default_grace_window) (ki_occurred_at i)"
    using late_in_tx_Inr [OF tx] by blast
  have "request_done q s s' db db'"
    by (rule request_doneI [where e = RepoErrConcurrentActiveSub and m = db1 and u = db2])
      (use LateRequest m s x apply_transition_ok [OF x(1)] apply_transition_Inr [OF x(1)] in
        \<open>simp_all add: request_update_def [abs_def] request_entity_def Let_def publish_past_due_def\<close>)
  then show ?thesis by blast
next
  case (CanceledRequest i)
  then have tx: "cancel_in_tx ca i db = (Inr s', db')"
    using assms(1) by (auto simp: process_subscription_canceled_def do_tx_Inr split: if_splits)
  obtain db1 s db2 where m: "mark_applied (canceled_key i) ''subscription_canceled''
      (ki_kiwify_sub_id i) (ki_occurred_at i) db = Inr db1" and s: "resolve_subscription i db1 = Inr s"
    and x: "apply_transition (the (sb_id s)) StatusCanceledPending zero_time (ki_occurred_at i) db1
      = Inr db2" "db' = publish_canceled ca s' (the (sb_id s')) db2"
      "s' = hydrate_with_user (the (sb_id s)) (sb_user_id s) (sb_funnel_token s) (sb_plan s)
        StatusCanceledPending (sb_period_start s) (sb_period_end s) zero_time (ki_occurred_at i)"
    using cancel_in_tx_Inr [OF tx] by blast
  have "request_done q s s' db db'"
    by (rule request_doneI [where e = RepoErrConcurrentActiveSub and m = db1 and u = db2])
      (use CanceledRequest m s x apply_transition_ok [OF x(1)] apply_transition_Inr [OF x(1)] in
        \<open>simp_all add: request_update_def [abs_def] request_entity_def Let_def publish_canceled_def\<close>)
  then show ?thesis by blast
next
  case (RefundRequest i)
  then have tx: "refund_in_tx ca i db = (Inr s', db')"
    using assms(1) by (auto simp: process_refund_or_chargeback_def do_tx_Inr split: if_splits)
  obtain db1 s db2 where m: "mark_applied (refund_key i) (fi_trigger i) (fi_sale_id i)
      (fi_occurred_at i) db = Inr db1" and s: "find_by_order_id (fi_order_id i) db1 = Inr s"
    and x: "apply_transition (the (sb_id s)) StatusRefunded zero_time (fi_occurred_at i) db1
      = Inr db2" "db' = publish_refunded ca s' (the (sb_id s')) db2"
      "s' = hydrate_with_user (the (sb_id s)) (sb_user_id s) (sb_funnel_token s) (sb_plan s)
        StatusRefunded (sb_period_start s) (sb_period_end s) zero_time (fi_occurred_at i)"
    using refund_in_tx_Inr [OF tx] by blast
  have "request_done q s s' db db'"
    by (rule request_doneI [where e = RepoErrConcurrentActiveSub and m = db1 and u = db2])
      (use RefundRequest m s x apply_transition_ok [OF x(1)] apply_transition_Inr [OF x(1)] in
        \<open>simp_all add: request_update_def [abs_def] request_entity_def Let_def publish_refunded_def\<close>)
  then show ?thesis by blast
qed

section \<open>Every reachable state\<close>

lemma sale_done:
  assumes "process_sale_approved ca i db = (Inr s', db')"
  shows "request_key (SaleRequest i) \<in> pr_key ` set (bd_processed db')"
    "pr_key ` set (bd_processed db) \<subseteq> pr_key ` set (bd_processed db')"
    "billing_ok db \<Longrightarrow> billing_ok db'"
proof -
  obtain kid token d where p: "sale_persist ca i kid token db = (Inr s', d)"
    and t: "trim_space token = token" and d: "bd_processed db' = bd_processed d" "bd_subs db' = bd_subs d"
  proof (cases "si_funnel_token i = ''''")
    case True
    then obtain kid where "sale_without_token ca i kid db = (Inr s', db')"
      using assms by (auto simp: process_sale_approved_def do_tx_Inr split: if_splits sum.splits)
    then show ?thesis
      using that [of kid "''''"]
      by (auto simp: sale_without_token_def publish_defs split: prod.splits sum.splits)
  next
    case False
    then obtain kid token where "sale_with_token ca i kid token db = (Inr s', db')"
      "new_funnel_token (si_funnel_token i) = Inr token"
      using assms by (auto simp: process_sale_approved_def do_tx_Inr split: if_splits sum.splits)
    then show ?thesis
      using that [of kid token]
      by (auto simp: sale_with_token_def publish_defs new_funnel_token_def Let_def
          split: prod.splits sum.splits if_splits)
  qed
  have keys: "request_key (SaleRequest i) \<in> pr_key ` set (bd_processed d)"
    "pr_key ` set (bd_processed db) \<subseteq> pr_key ` set (bd_processed d)"
    using p by (auto dest!: sale_persist_Inr simp: upsert_by_order_def Let_def mark_applied_def
        split: option.splits if_splits)
  then show "request_key (SaleRequest i) \<in> pr_key ` set (bd_processed db')"
    "pr_key ` set (bd_processed db) \<subseteq> pr_key ` set (bd_processed db')"
    by (simp_all add: d)
  show "billing_ok db'" if "billing_ok db"
    by (rule billing_okI [OF sale_persist_ok(1) [OF p that t] d(2) d(1)])
qed

lemma run_request_ok:
  assumes "run_request ca q db = (r, db')"
  shows "pr_key ` set (bd_processed db) \<subseteq> pr_key ` set (bd_processed db')"
    "billing_ok db \<Longrightarrow> billing_ok db'"
    "r = Inr s' \<Longrightarrow> request_key q \<in> pr_key ` set (bd_processed db')"
proof -
  consider (err) "db' = db" "\<nexists>x. r = Inr x" | (sale) i x where "q = SaleRequest i" "r = Inr x"
    | (other) x s where "request_done q s x db db'" "r = Inr x"
  proof (cases r)
    case (Inl es)
    then show ?thesis using that(1) run_request_error assms by auto
  next
    case (Inr x)
    show ?thesis
    proof (cases "is_sale q")
      case True
      then obtain i where "q = SaleRequest i" by (cases q) auto
      then show ?thesis using that(2) Inr by blast
    next
      case False
      then show ?thesis using that(3) request_shape [OF _ False] assms Inr by blast
    qed
  qed
  note three = this
  show "pr_key ` set (bd_processed db) \<subseteq> pr_key ` set (bd_processed db')"
    using three assms sale_done(2) by cases (auto simp: request_done_def)
  show "billing_ok db'" if "billing_ok db"
    using three assms sale_done(3) that by cases (auto simp: request_done_def)
  show "request_key q \<in> pr_key ` set (bd_processed db')" if "r = Inr s'"
    using three assms sale_done(1) that by cases (auto simp: request_done_def)
qed

lemma expire_one_ok:
  assumes "expire_one ca c db = (r, db')"
  shows "bd_processed db' = bd_processed db" "billing_ok db \<Longrightarrow> billing_ok db'"
proof -
  have "db' = db \<or> (\<exists>d. apply_transition (gc_subscription_id c) StatusExpired zero_time
      (in_loc (bc_now ca) utc) db = Inr d \<and> bd_processed db' = bd_processed d \<and> bd_subs db' = bd_subs d)"
    using assms
    by (auto simp: expire_one_def expire_in_tx_def do_tx_def Let_def publish_defs
        split: sum.splits prod.splits)
  then have "bd_processed db' = bd_processed db \<and> (billing_ok db \<longrightarrow> billing_ok db')"
  proof (elim disjE exE conjE)
    fix d
    assume t: "apply_transition (gc_subscription_id c) StatusExpired zero_time
        (in_loc (bc_now ca) utc) db = Inr d"
      and d: "bd_processed db' = bd_processed d" "bd_subs db' = bd_subs d"
    have "billing_ok d" if "billing_ok db"
      by (rule apply_transition_ok [OF t that]) simp_all
    then show ?thesis
      using update_sub_row_Inr(4) [OF apply_transition_Inr [OF t]] d billing_okI [of d db'] by simp
  qed simp
  then show "bd_processed db' = bd_processed db" "billing_ok db \<Longrightarrow> billing_ok db'" by simp_all
qed

text \<open>
  One committed step: an event of the provider, one expiry, of a candidate listed at any earlier
  time, a subscription bound to its user, or a change of the other tables.
\<close>

inductive billing_change :: "billing_db \<Rightarrow> billing_db \<Rightarrow> bool" where
  request: "run_request ca q db = (r, db') \<Longrightarrow> billing_change db db'"
| expiry: "expire_one ca c db = (r, db') \<Longrightarrow> billing_change db db'"
| binding: "bind_user i u db = Inr db' \<Longrightarrow> billing_change db db'"
| elsewhere: "bd_subs db' = bd_subs db \<Longrightarrow> bd_processed db' = bd_processed db \<Longrightarrow>
    billing_change db db'"

inductive billing_history :: "billing_db \<Rightarrow> billing_db \<Rightarrow> bool" where
  now: "billing_history db db"
| later: "billing_history db db1 \<Longrightarrow> billing_change db1 db2 \<Longrightarrow> billing_history db db2"

definition fresh_billing :: "billing_db \<Rightarrow> bool" where
  "fresh_billing db \<longleftrightarrow> bd_subs db = [] \<and> bd_processed db = []"

lemma billing_change_ok:
  assumes "billing_change db db'"
  shows "pr_key ` set (bd_processed db) \<subseteq> pr_key ` set (bd_processed db') \<and>
    (billing_ok db \<longrightarrow> billing_ok db')"
  using assms
proof (induction rule: billing_change.induct)
  case (request ca q db r db')
  then show ?case using run_request_ok(1,2) by blast
next
  case (expiry ca c db r db')
  then show ?case using expire_one_ok [OF expiry] by simp
next
  case (binding i u db db')
  then have "bd_processed db' = bd_processed db"
    by (auto simp: bind_user_def dest: update_sub_row_Inr(4) split: if_splits)
  then show ?case using bind_user_ok [OF binding] by simp
next
  case (elsewhere db' db)
  then show ?case using billing_okI [of db db'] by simp
qed

lemma billing_history_ok:
  assumes "billing_history db db'"
  shows "pr_key ` set (bd_processed db) \<subseteq> pr_key ` set (bd_processed db') \<and>
    (billing_ok db \<longrightarrow> billing_ok db')"
  using assms
  by (induction rule: billing_history.induct) (use billing_change_ok in blast)+

text \<open>
  C15: Whatever events arrive, in whatever order and however often, whatever job expires a
  subscription and whoever is bound to one: orders and event keys stay unique, no user has two
  billable subscriptions, a grace end is stored exactly for a late payment and lies three days
  past it, and every stored row reads back as an entity that is neither new nor on trial.
\<close>

theorem reachable_billing:
  assumes "fresh_billing db0" "billing_history db0 db"
  shows "billing_ok db \<and> (\<forall>r \<in> set (bd_subs db). \<exists>s. scan_sub_row r = Inr s \<and>
    sb_status s \<notin> {StatusZero, StatusTrialing})"
proof -
  have ok: "billing_ok db"
    using billing_history_ok [OF assms(2)] assms(1)
    by (simp add: fresh_billing_def billing_ok_def billed_users_def)
  have "\<exists>s. scan_sub_row r = Inr s \<and> sb_status s \<notin> {StatusZero, StatusTrialing}"
    if "r \<in> set (bd_subs db)" for r
    using scan_sound [of r] ok that by (auto simp: billing_ok_def hydrate_with_user_def)
  with ok show ?thesis by blast
qed

section \<open>An event is applied once\<close>

lemma request_known:
  assumes "run_request ca q db = (Inr s, db1)" "request_key q \<in> pr_key ` set (bd_processed db2)"
  shows "run_request ca' q db2 = (Inl [ErrEventAlreadyProcessed], db2)"
proof (cases q)
  case (SaleRequest i)
  then show ?thesis
    using assms
    by (auto simp: process_sale_approved_def do_tx_def sale_with_token_def sale_without_token_def
        sale_persist_def mark_applied_def split: if_splits sum.splits prod.splits)
next
  case (RenewedRequest i)
  then obtain kid where kid: "new_kiwify_subscription_id (ki_kiwify_sub_id i) = Inr kid"
    "validate_renewed_input i = []"
    using assms(1) by (auto simp: process_subscription_renewed_def split: if_splits sum.splits)
  moreover have "kid = trim_space (ki_kiwify_sub_id i)" using find_trimmed [OF kid(1)] by blast
  ultimately show ?thesis
    using RenewedRequest assms(2)
    by (simp add: process_subscription_renewed_def do_tx_def apply_renewal_def mark_applied_def)
next
  case (LateRequest i)
  then show ?thesis
    using assms
    by (auto simp: process_subscription_late_def do_tx_def late_in_tx_def mark_applied_def
        split: if_splits)
next
  case (CanceledRequest i)
  then show ?thesis
    using assms
    by (auto simp: process_subscription_canceled_def do_tx_def cancel_in_tx_def mark_applied_def
        split: if_splits)
next
  case (RefundRequest i)
  then show ?thesis
    using assms
    by (auto simp: process_refund_or_chargeback_def do_tx_def refund_in_tx_def mark_applied_def
        split: if_splits)
qed

text \<open>
  C17: An event of the provider that was applied is never applied again: at any later time, after
  any other events, a second delivery is refused as already processed and changes nothing.
\<close>

theorem event_applied_once:
  assumes "run_request ca q db = (Inr s, db1)" "billing_history db1 db2"
  shows "run_request ca' q db2 = (Inl [ErrEventAlreadyProcessed], db2)"
proof (rule request_known [OF assms(1)])
  show "request_key q \<in> pr_key ` set (bd_processed db2)"
    using run_request_ok(3) [OF assms(1) refl] billing_history_ok [OF assms(2)] by (auto dest: subsetD)
qed

section \<open>The stored row and the entity\<close>

fun request_trigger :: "billing_request \<Rightarrow> sub_trigger" where
  "request_trigger (SaleRequest i) = TriggerSaleApproved"
| "request_trigger (RenewedRequest i) = TriggerSubscriptionRenewed"
| "request_trigger (LateRequest i) = TriggerSubscriptionLate"
| "request_trigger (CanceledRequest i) = TriggerSubscriptionCanceled"
| "request_trigger (RefundRequest i) = TriggerRefunded"

fun request_time :: "billing_request \<Rightarrow> gotime" where
  "request_time (SaleRequest i) = si_occurred_at i"
| "request_time (RenewedRequest i) = ki_occurred_at i"
| "request_time (LateRequest i) = ki_occurred_at i"
| "request_time (CanceledRequest i) = ki_occurred_at i"
| "request_time (RefundRequest i) = fi_occurred_at i"

lemma scan_updated:
  assumes "row_sound r" "row_sound (request_update q s r)" "scan_sub_row r = Inr s" "\<not> is_sale q"
    and "0 < ns (request_time q)"
  shows "scan_sub_row (request_update q s r) = Inr (request_entity q s)"
proof -
  note f = scan_fields [OF assms(3)]
  let ?r = "request_update q s r"
  obtain p st where n: "resolve_plan_from_code (sr_plan_code ?r) = Inr p"
    "status_string st = sr_status ?r" "st \<notin> {StatusZero, StatusTrialing}"
    "scan_sub_row ?r = Inr (hydrate_with_user (sr_id ?r) (sr_user_id ?r) (sr_funnel_token ?r) p st
      (sr_period_start ?r) (sr_period_end ?r)
      (case sr_grace_end ?r of None \<Rightarrow> zero_time | Some g \<Rightarrow> g) (sr_last_event_at ?r))"
    using scan_sound [OF assms(2)] by blast
  have same: "sr_plan_code ?r = sr_plan_code r" "sr_id ?r = sr_id r" "sr_user_id ?r = sr_user_id r"
    "sr_funnel_token ?r = sr_funnel_token r" "sr_period_start ?r = sr_period_start r"
    by (cases q; simp add: request_update_def)+
  have p: "p = sb_plan s" using n(1) f(7) same(1) by simp
  have token: "sb_funnel_token s = sr_funnel_token r"
    using scan_sound [OF assms(1)] assms(3) by (auto simp: hydrate_with_user_def)
  have grace: "\<not> is_zero (add_dur (request_time q) default_grace_window)"
    using assms(5) by (simp add: is_zero_def add_dur_def default_grace_window_def)
  have st: "st = sb_status (request_entity q s)"
    using n(2,3) assms(4)
    by (cases st; cases q)
      (simp_all add: request_update_def request_entity_def hydrate_with_user_def Let_def)
  show ?thesis
    unfolding n(4) st p token [symmetric] same
    using f grace assms(4)
    by (cases q)
      (simp_all add: request_update_def request_entity_def hydrate_with_user_def sql_null_time_def
        Let_def)
qed

lemma entity_applies:
  assumes "target_status (sb_status s) (request_trigger q) \<noteq> None" "\<not> is_sale q"
    and "0 < ns (request_time q)" "sb_id s \<noteq> None"
    and "\<And>i. q = RenewedRequest i \<Longrightarrow> after (sb_period_end s) (ki_occurred_at i)"
    and "sb_status s = StatusRefunded \<Longrightarrow> after (request_time q) (sb_last_event_at s)"
  shows "apply_status_transition (request_trigger q) (request_time q) default_grace_window s =
    Inr (request_entity q s)"
proof -
  obtain t where t: "target_status (sb_status s) (request_trigger q) = Some t"
    using assms(1) by blast
  have nz: "\<not> is_zero (request_time q)" using assms(3) by (simp add: is_zero_def)
  have sid: "Some (the (sb_id s)) = sb_id s" using assms(4) by simp
  show ?thesis
  proof (cases q)
    case (RenewedRequest i)
    then have "t = StatusActive" using t by (auto simp: target_status_def split: if_splits)
    with RenewedRequest t nz sid assms(5) show ?thesis
      by (cases s)
        (simp add: apply_status_transition_def apply_defs request_entity_def hydrate_with_user_def)
  next
    case (LateRequest i)
    then have "t = StatusPastDue" using t by (auto simp: target_status_def split: if_splits)
    with LateRequest t nz sid show ?thesis
      by (cases s)
        (simp add: apply_status_transition_def apply_defs request_entity_def hydrate_with_user_def)
  next
    case (CanceledRequest i)
    then have "t = StatusCanceledPending" using t by (auto simp: target_status_def split: if_splits)
    with CanceledRequest t nz sid show ?thesis
      by (cases s)
        (simp add: apply_status_transition_def apply_defs request_entity_def hydrate_with_user_def)
  next
    case (RefundRequest i)
    then have "t = StatusRefunded" using t by (auto simp: target_status_def split: if_splits)
    with RefundRequest t nz sid assms(6) show ?thesis
      by (cases s)
        (auto simp: apply_status_transition_def apply_defs request_entity_def hydrate_with_user_def)
  qed (use assms(2) in simp)
qed

lemma filter_at:
  assumes "\<And>x. f (g x) = f x"
  shows "filter (\<lambda>x. f x = k) (map (\<lambda>x. if f x = k then g x else x) xs) =
      map g (filter (\<lambda>x. f x = k) xs)"
    "filter (\<lambda>x. f x \<noteq> k) (map (\<lambda>x. if f x = k then g x else x) xs) = filter (\<lambda>x. f x \<noteq> k) xs"
  by (induction xs) (auto simp: assms)

lemma filter_one: "distinct (map f xs) \<Longrightarrow> x \<in> set xs \<Longrightarrow> filter (\<lambda>y. f y = f x) xs = [x]"
  by (induction xs) (auto simp: filter_empty_conv image_iff)


section \<open>Where the use cases part from the entity\<close>

lemma update_distinct:
  assumes "billing_ok db" "r \<in> set (bd_subs db)" "\<And>x. sr_id (f x) = sr_id x"
    and "sr_user_id (f r) = sr_user_id r"
    and "\<And>x u. sr_status (f r) \<in> set billable_wires \<Longrightarrow> x \<in> set (bd_subs db) \<Longrightarrow> x \<noteq> r \<Longrightarrow>
      sr_status x \<in> set billable_wires \<Longrightarrow> sr_user_id x = Some u \<Longrightarrow> sr_user_id r \<noteq> Some u"
  shows "distinct (billed_users (map (\<lambda>x. if sr_id x = sr_id r then f x else x) (bd_subs db)))"
proof -
  let ?F = "\<lambda>x. if sr_id x = sr_id r then f x else x" and ?B = "\<lambda>x. sr_user_id x \<noteq> None \<and>
    sr_status x \<in> set billable_wires"
  have ids: "distinct (map sr_id (bd_subs db))" and users: "distinct (billed_users (bd_subs db))"
    using assms(1) by (simp_all add: billing_ok_def)
  have one: "sr_id x = sr_id r \<Longrightarrow> x = r" if "x \<in> set (bd_subs db)" for x
    using ids that assms(2) by (metis distinct_map inj_onD)
  have "distinct (map sr_id (map ?F (bd_subs db)))"
    using ids assms(3) by (simp add: o_def if_distrib cong: if_cong)
  then have rows: "distinct (map ?F (bd_subs db))" unfolding distinct_map [of sr_id] by (rule conjunct1)
  have old: "x = y" if "x \<in> set (bd_subs db)" "y \<in> set (bd_subs db)" "?B x" "?B y"
    "the (sr_user_id x) = the (sr_user_id y)" for x y
    using users that by (auto simp: billed_users_def distinct_map inj_on_def)
  have "inj_on (\<lambda>x. the (sr_user_id x)) (set (filter ?B (map ?F (bd_subs db))))"
  proof (rule inj_onI)
    fix x y
    assume *: "x \<in> set (filter ?B (map ?F (bd_subs db)))" "y \<in> set (filter ?B (map ?F (bd_subs db)))"
      "the (sr_user_id x) = the (sr_user_id y)"
    obtain a b where a: "a \<in> set (bd_subs db)" "x = ?F a" and b: "b \<in> set (bd_subs db)" "y = ?F b"
      using * by auto
    show "x = y"
    proof (cases "a = r"; cases "b = r")
      assume "a \<noteq> r" "b \<noteq> r"
      then have "x = a" "y = b" using a b one by auto
      then show ?thesis using * old a(1) b(1) by auto
    next
      assume "a \<noteq> r" "b = r"
      then have x: "x = a" "y = f r" using a b one by auto
      then show ?thesis using * a(1) assms(4) assms(5) [of a] \<open>a \<noteq> r\<close> by auto
    next
      assume "a = r" "b \<noteq> r"
      then have x: "x = f r" "y = b" using a b one by auto
      then show ?thesis using * b(1) assms(4) assms(5) [of b] \<open>b \<noteq> r\<close> by auto
    qed (use a b in simp)
  qed
  then show ?thesis using rows by (simp add: billed_users_def distinct_map)
qed

lemma apply_transition_runs:
  assumes "billing_ok db" "r \<in> set (bd_subs db)" "st \<notin> {StatusZero, StatusTrialing}"
    and "\<And>x u. status_string st \<in> set billable_wires \<Longrightarrow> x \<in> set (bd_subs db) \<Longrightarrow> x \<noteq> r \<Longrightarrow>
      sr_status x \<in> set billable_wires \<Longrightarrow> sr_user_id x = Some u \<Longrightarrow> sr_user_id r \<noteq> Some u"
  shows "\<exists>db'. apply_transition (sr_id r) st grace t db = Inr db'"
proof -
  have "status_check (status_string st)" using assms(3) by (cases st) (simp_all add: status_check_def)
  then show ?thesis
    using update_distinct [OF assms(1,2), of "\<lambda>r. r\<lparr>sr_status := status_string st,
        sr_grace_end := sql_null_time grace, sr_last_event_at := t\<rparr>"] assms(2,4)
    by (auto simp: apply_transition_def update_sub_row_def Let_def)
qed

text \<open>
  A late payment revives a subscription that is over: when its row is refunded, canceled or
  expired, however old the event, the use case makes it past due and billable again, although the
  entity refuses exactly this transition, because an event whose transition is not allowed does
  not count as a regression.
\<close>

lemma late_payment_revives:
  assumes "billing_ok db" "validate_late_input i = []" "late_key i \<notin> pr_key ` set (bd_processed db)"
    and "resolve_subscription i db = Inr s"
    and "sb_status s \<in> {StatusRefunded, StatusCanceledPending, StatusExpired}"
    and "\<forall>x \<in> set (bd_subs db). sb_id s \<noteq> Some (sr_id x) \<longrightarrow> sr_status x \<in> set billable_wires \<longrightarrow>
      sr_user_id x = None \<or> sr_user_id x \<noteq> sb_user_id s"
  shows "\<exists>s' db'. process_subscription_late ca i db = (Inr s', db') \<and> sb_id s' = sb_id s \<and>
    sb_status s' = StatusPastDue \<and>
    mark_past_due (ki_occurred_at i) default_grace_window s = Inl ErrTransitionNotAllowed"
proof -
  have "\<exists>d. mark_applied (late_key i) ''subscription_late'' (ki_kiwify_sub_id i) (ki_occurred_at i) db
      = Inr d"
    using assms(3) by (simp add: mark_applied_def)
  then obtain d where d: "mark_applied (late_key i) ''subscription_late'' (ki_kiwify_sub_id i)
      (ki_occurred_at i) db = Inr d" ..
  note m = mark_applied_Inr [OF d]
  have s: "resolve_subscription i d = Inr s" using subject_cong(3) [OF m(3)] assms(4) by simp
  obtain r where r: "r \<in> set (bd_subs db)" "scan_sub_row r = Inr s"
    using subject_row [of "LateRequest i" db s] assms(4) by auto
  note f = scan_fields [OF r(2)]
  have dist: "x \<noteq> r \<Longrightarrow> sr_id x \<noteq> sr_id r" if "x \<in> set (bd_subs db)" for x
    using assms(1) that r(1) by (metis billing_ok_def distinct_map inj_onD)
  have no: "target_status (sb_status s) TriggerSubscriptionLate = None"
    using assms(5)
    by (auto simp: target_status_def can_transition_def transition_table_def)
  then have "decide_past_due (sb_status s) (ki_occurred_at i) (sb_last_event_at s) = DecisionApply"
    by (simp add: decide_past_due_def decide_for_def is_regression_def)
  moreover have "\<exists>u. apply_transition (sr_id r) StatusPastDue
      (add_dur (ki_occurred_at i) default_grace_window) (ki_occurred_at i) d = Inr u"
  proof (rule apply_transition_runs)
    fix x u
    assume "x \<in> set (bd_subs d)" "x \<noteq> r" "sr_status x \<in> set billable_wires" "sr_user_id x = Some u"
    then show "sr_user_id r \<noteq> Some u" using assms(6) m(3) f(1,4) dist [of x] by auto
  qed (use m(3,6) assms(1) r(1) in auto)
  ultimately have "\<exists>s' db'. late_in_tx ca i db = (Inr s', db') \<and> sb_id s' = sb_id s \<and>
      sb_status s' = StatusPastDue"
    using d s f(1) by (auto simp: late_in_tx_def Let_def hydrate_with_user_def)
  moreover have "\<not> is_zero (ki_occurred_at i)" using assms(2) by (simp add: validate_late_input_def)
  then have "mark_past_due (ki_occurred_at i) default_grace_window s = Inl ErrTransitionNotAllowed"
    using no by (simp add: mark_past_due_def apply_status_transition_def)
  ultimately show ?thesis
    using assms(2) by (auto simp: process_subscription_late_def do_tx_def)
qed

text \<open>
  An event that comes too late to change the status is answered as superseded and the
  transaction is rolled back with everything it wrote: neither the event nor its superseded mark is
  recorded, and the next delivery is judged anew.
\<close>

lemma superseded_unrecorded:
  assumes "q \<in> {RenewedRequest i, LateRequest i, CanceledRequest i}"
    and "trim_space (ki_kiwify_sub_id i) \<noteq> ''''" "\<not> is_zero (ki_occurred_at i)"
    and "request_key q \<notin> pr_key ` set (bd_processed db)" "request_subject q db = Inr s"
    and "target_status (sb_status s) (request_trigger q) = Some t" "t \<noteq> sb_status s"
    and "\<not> is_zero (sb_last_event_at s)" "\<not> after (ki_occurred_at i) (sb_last_event_at s)"
  shows "run_request ca q db = (Inl [ErrEventSuperseded], db)"
proof -
  have key: "\<exists>d. mark_applied (request_key q) tr res (ki_occurred_at i) db = Inr d \<and>
      bd_subs d = bd_subs db" for tr res
    using assms(4) by (simp add: mark_applied_def)
  have skip: "decide_for (sb_status s) (request_trigger q) (ki_occurred_at i) (sb_last_event_at s) =
      DecisionSkipAsRegression"
    using assms(1,6-9) by (auto simp: decide_for_def is_regression_def)
  have raw: "ki_kiwify_sub_id i \<noteq> ''''" using assms(2) by (auto simp: trim_space_Nil)
  have kid: "new_kiwify_subscription_id (ki_kiwify_sub_id i) = Inr (trim_space (ki_kiwify_sub_id i))"
    using assms(2) by (simp add: new_kiwify_subscription_id_def Let_def)
  show ?thesis
  proof (cases q)
    case (RenewedRequest j)
    then have [simp]: "j = i" using assms(1) by auto
    obtain d where d: "mark_applied (request_key q) ''subscription_renewed''
        (trim_space (ki_kiwify_sub_id i)) (ki_occurred_at i) db = Inr d" "bd_subs d = bd_subs db"
      using key by blast
    have "find_by_kiwify_sub_id (trim_space (ki_kiwify_sub_id i)) d = Inr s"
      using assms(5) RenewedRequest find_trimmed [OF kid, of d] subject_cong(2) [OF d(2)] by simp
    then show ?thesis
      using RenewedRequest d(1) skip kid raw assms(3)
      by (simp add: process_subscription_renewed_def validate_renewed_input_def do_tx_def
          apply_renewal_def extend_existing_def decide_renewal_def)
  next
    case (LateRequest j)
    then have [simp]: "j = i" using assms(1) by auto
    obtain d where d: "mark_applied (request_key q) ''subscription_late''
        (ki_kiwify_sub_id i) (ki_occurred_at i) db = Inr d" "bd_subs d = bd_subs db"
      using key by blast
    then show ?thesis
      using LateRequest skip raw assms(3,5) subject_cong(3) [OF d(2)]
      by (simp add: process_subscription_late_def validate_late_input_def do_tx_def late_in_tx_def
          decide_past_due_def)
  next
    case (CanceledRequest j)
    then have [simp]: "j = i" using assms(1) by auto
    obtain d where d: "mark_applied (request_key q) ''subscription_canceled''
        (ki_kiwify_sub_id i) (ki_occurred_at i) db = Inr d" "bd_subs d = bd_subs db"
      using key by blast
    then show ?thesis
      using CanceledRequest skip raw assms(3,5) subject_cong(3) [OF d(2)]
      by (simp add: process_subscription_canceled_def validate_canceled_input_def do_tx_def
          cancel_in_tx_def decide_cancellation_def)
  qed (use assms(1) in auto)
qed

text \<open>
  The expiry of a grace period does not look at the subscription again: a candidate that was
  listed while its payment was due is expired whatever has happened to it since, even when it was
  renewed in between and its new period still runs.
\<close>

lemma expiry_ignores_renewal:
  assumes "billing_ok db0" "c \<in> set (list_past_due_grace_expired now limit db0)"
    and "billing_history db0 db" "r \<in> set (bd_subs db)" "sr_id r = gc_subscription_id c"
  shows "\<exists>s' db'. expire_one ca c db = (Inr s', db') \<and>
    r\<lparr>sr_status := ''EXPIRED'', sr_grace_end := None, sr_last_event_at := in_loc (bc_now ca) utc\<rparr>
      \<in> set (bd_subs db')"
proof -
  have ok: "billing_ok db" using billing_history_ok [OF assms(3)] assms(1) by blast
  obtain d where d: "apply_transition (sr_id r) StatusExpired zero_time (in_loc (bc_now ca) utc) db
      = Inr d"
    using apply_transition_runs [OF ok assms(4), of StatusExpired] by (auto simp: billable_wires_def)
  have "r\<lparr>sr_status := ''EXPIRED'', sr_grace_end := None, sr_last_event_at := in_loc (bc_now ca) utc\<rparr>
      \<in> set (bd_subs d)"
    using update_sub_row_Inr(2) [OF apply_transition_Inr [OF d]] assms(4)
    by (auto simp: image_iff intro!: bexI [of _ r])
  then show ?thesis
    using d assms(5)
    by (auto simp: expire_one_def do_tx_def expire_in_tx_def Let_def publish_expired_def)
qed

section \<open>A sample run\<close>

definition sample_billing_call :: billing_call where
  "sample_billing_call = \<lparr>bc_now = \<lparr>ns = 900, loc = utc\<rparr>, bc_new_id = 7\<rparr>"

definition sample_sub_row :: sub_row where
  "sample_sub_row =
     \<lparr>sr_id = 7, sr_funnel_token = '''', sr_user_id = Some 3, sr_order_id = ''O'',
      sr_kiwify_sub_id = Some ''K'', sr_sale_id = Some ''O'', sr_mobile = None, sr_email = None,
      sr_plan_code = ''MONTHLY'', sr_status = ''PAST_DUE'',
      sr_period_start = \<lparr>ns = 10, loc = utc\<rparr>, sr_period_end = \<lparr>ns = 500, loc = utc\<rparr>,
      sr_grace_end = Some (add_dur \<lparr>ns = 20, loc = utc\<rparr> default_grace_window),
      sr_last_event_at = \<lparr>ns = 20, loc = utc\<rparr>\<rparr>"

definition sample_billing :: billing_db where
  "sample_billing =
     \<lparr>bd_users = [3], bd_plans = [\<lparr>pw_product_id = ''P'', pw_code = ''MONTHLY'', pw_days = 30\<rparr>],
      bd_subs = [sample_sub_row], bd_processed = [], bd_outbox = [], bd_kiwify = [],
      bd_checkpoints = []\<rparr>"

definition sample_sub_event :: "int \<Rightarrow> sub_input" where
  "sample_sub_event t = \<lparr>ki_order_id = ''O'', ki_kiwify_sub_id = ''K'', ki_occurred_at = \<lparr>ns = t, loc = utc\<rparr>\<rparr>"

lemma sample_trim: "trim_space ''K'' = ''K''"
  by (rule trim_none) code_simp+

lemma sample_billing_ok: "billing_ok sample_billing"
  by (simp add: billing_ok_def sample_billing_def sample_sub_row_def billed_users_def row_sound_def
      live_wires_def plan_code_supported_def trim_space_Nil is_zero_def sql_null_time_def add_dur_def
      default_grace_window_def)

lemma sample_scan:
  "\<exists>s. scan_sub_row sample_sub_row = Inr s \<and> sb_status s = StatusPastDue \<and> sb_id s = Some 7 \<and>
     sb_plan s = \<lparr>pl_code = ''MONTHLY'', pl_days = 30\<rparr> \<and> sb_period_end s = \<lparr>ns = 500, loc = utc\<rparr> \<and>
     sb_last_event_at s = \<lparr>ns = 20, loc = utc\<rparr>"
  by (simp add: scan_sub_row_def sample_sub_row_def resolve_plan_from_code_def new_plan_def
      plan_code_supported_def parse_status_def status_by_wire_def hydrate_with_user_def)

lemma sample_subject:
  "find_by_kiwify_sub_id ''K'' sample_billing = scan_sub_row sample_sub_row"
  "find_by_order_id ''O'' sample_billing = scan_sub_row sample_sub_row"
  by (simp_all add: find_by_kiwify_sub_id_def find_by_order_id_def new_kiwify_subscription_id_def
      Let_def sample_trim sample_billing_def sample_sub_row_def)

text \<open>The sample subscription is renewed, at the time 30, before its period ends.\<close>

lemma sample_renewed:
  "\<exists>s db. run_request sample_billing_call (RenewedRequest (sample_sub_event 30)) sample_billing = (Inr s, db) \<and>
     bd_subs db = [sample_sub_row\<lparr>sr_period_end := add_dur \<lparr>ns = 500, loc = utc\<rparr> 2592000000000000,
       sr_last_event_at := \<lparr>ns = 30, loc = utc\<rparr>, sr_grace_end := None, sr_status := ''ACTIVE''\<rparr>]"
proof -
  define key where "key = renewed_key ''K'' \<lparr>ns = 30, loc = utc\<rparr>"
  obtain d where d: "mark_applied key ''subscription_renewed'' ''K'' \<lparr>ns = 30, loc = utc\<rparr> sample_billing
      = Inr d" "bd_subs d = bd_subs sample_billing"
    by (simp add: mark_applied_def sample_billing_def)
  obtain s where s: "scan_sub_row sample_sub_row = Inr s" "sb_status s = StatusPastDue" "sb_id s = Some 7"
    "sb_plan s = \<lparr>pl_code = ''MONTHLY'', pl_days = 30\<rparr>" "sb_period_end s = \<lparr>ns = 500, loc = utc\<rparr>"
    "sb_last_event_at s = \<lparr>ns = 20, loc = utc\<rparr>"
    using sample_scan by blast
  have "find_by_kiwify_sub_id ''K'' d = Inr s"
    using subject_cong(2) [OF d(2)] sample_subject(1) s(1) by simp
  then show ?thesis
    using d s(2-)
    by (simp add: process_subscription_renewed_def validate_renewed_input_def sample_sub_event_def is_zero_def
        new_kiwify_subscription_id_def Let_def sample_trim key_def [symmetric] do_tx_def
        apply_renewal_def extend_existing_def decide_renewal_def decide_for_def is_regression_def
        hydrate_with_user_def after_def extend_period_def update_sub_row_def publish_renewed_def
        sample_billing_def sample_sub_row_def billed_users_def plan_duration_def i64_def)
qed

theorem event_applied_once_witness:
  "\<exists>s db. run_request sample_billing_call (RenewedRequest (sample_sub_event 30)) sample_billing = (Inr s, db) \<and>
     run_request sample_billing_call (RenewedRequest (sample_sub_event 30)) db =
       (Inl [ErrEventAlreadyProcessed], db)"
  using sample_renewed event_applied_once [OF _ billing_history.now] by blast

theorem reachable_billing_witness:
  "\<exists>db. billing_history (sample_billing\<lparr>bd_subs := []\<rparr>) db \<and> bd_subs db \<noteq> [] \<and> billing_ok db \<and>
     (\<forall>r \<in> set (bd_subs db). \<exists>s. scan_sub_row r = Inr s \<and>
       sb_status s \<notin> {StatusZero, StatusTrialing})"
proof -
  let ?i = "\<lparr>si_sale_id = ''O'', si_product_id = ''P'', si_order_id = ''O'', si_kiwify_sub_id = ''K'',
    si_funnel_token = '''', si_mobile = '''', si_email = '''',
    si_occurred_at = \<lparr>ns = 10, loc = utc\<rparr>\<rparr> :: sale_input"
  let ?db = "sample_billing\<lparr>bd_subs := []\<rparr>"
  obtain r db where run: "run_request sample_billing_call (SaleRequest ?i) ?db = (r, db)"
    by (cases "run_request sample_billing_call (SaleRequest ?i) ?db")
  have "bd_subs db \<noteq> []"
    using run
    by (auto simp: process_sale_approved_def validate_sale_input_def is_zero_def
        new_kiwify_subscription_id_def Let_def sample_trim do_tx_def sale_without_token_def
        sale_persist_def mark_applied_def sample_billing_def find_plan_by_product_def new_plan_def
        plan_code_supported_def activate_sub_def apply_status_transition_def target_status_def
        new_subscription_def apply_active_def after_def zero_time_def upsert_by_order_def
        validate_upsert_params_def inserted_row_def status_check_def find_by_order_id_def
        scan_sub_row_def resolve_plan_from_code_def parse_status_def status_by_wire_def
        publish_activated_without_token_def add_dur_def split: prod.splits sum.splits)
  moreover have "billing_history ?db db"
    using run by (blast intro: billing_history.intros billing_change.request)
  moreover have "fresh_billing ?db" by (simp add: fresh_billing_def sample_billing_def)
  ultimately show ?thesis using reachable_billing [of ?db db] by blast
qed


lemma late_payment_revives_witness:
  "\<exists>db s s' db'. resolve_subscription (sample_sub_event 15) db = Inr s \<and> sb_status s = StatusRefunded \<and>
     process_subscription_late sample_billing_call (sample_sub_event 15) db = (Inr s', db') \<and>
     sb_status s' = StatusPastDue"
proof -
  let ?r = "sample_sub_row\<lparr>sr_status := ''REFUNDED'', sr_grace_end := None\<rparr>"
  let ?db = "sample_billing\<lparr>bd_subs := [?r]\<rparr>"
  have ok: "billing_ok ?db"
    using sample_billing_ok
    by (simp add: billing_ok_def sample_billing_def sample_sub_row_def row_sound_def live_wires_def
        billed_users_def billable_wires_def)
  have "\<exists>s. find_by_kiwify_sub_id ''K'' ?db = Inr s \<and> sb_status s = StatusRefunded \<and> sb_id s = Some 7"
    by (simp add: find_by_kiwify_sub_id_def new_kiwify_subscription_id_def Let_def sample_trim
        sample_billing_def sample_sub_row_def scan_sub_row_def resolve_plan_from_code_def new_plan_def
        plan_code_supported_def parse_status_def status_by_wire_def hydrate_with_user_def)
  then obtain s where s: "resolve_subscription (sample_sub_event 15) ?db = Inr s"
    "sb_status s = StatusRefunded" "sb_id s = Some 7"
    by (auto simp: resolve_subscription_def sample_sub_event_def)
  have "\<exists>s' db'. process_subscription_late sample_billing_call (sample_sub_event 15) ?db = (Inr s', db') \<and>
      sb_id s' = sb_id s \<and> sb_status s' = StatusPastDue \<and>
      mark_past_due (ki_occurred_at (sample_sub_event 15)) default_grace_window s = Inl ErrTransitionNotAllowed"
    by (rule late_payment_revives [OF ok _ _ s(1)])
      (use s in \<open>simp_all add: validate_late_input_def sample_sub_event_def is_zero_def sample_billing_def
        sample_sub_row_def\<close>)
  then show ?thesis using s by blast
qed

lemma superseded_unrecorded_witness:
  "run_request sample_billing_call (RenewedRequest (sample_sub_event 15)) sample_billing =
     (Inl [ErrEventSuperseded], sample_billing)"
proof -
  obtain s where s: "scan_sub_row sample_sub_row = Inr s" "sb_status s = StatusPastDue"
    "sb_last_event_at s = \<lparr>ns = 20, loc = utc\<rparr>"
    using sample_scan by blast
  show ?thesis
    by (rule superseded_unrecorded [where i = "sample_sub_event 15" and s = s and t = StatusActive])
      (use s sample_subject(1) in \<open>simp_all add: sample_sub_event_def sample_trim is_zero_def
        sample_billing_def target_status_def can_transition_def transition_table_def after_def\<close>)
qed

lemma expiry_ignores_renewal_witness:
  "\<exists>c db s' db'. c \<in> set (list_past_due_grace_expired \<lparr>ns = 300000000000000, loc = utc\<rparr> 100 sample_billing) \<and>
     billing_history sample_billing db \<and> map sr_status (bd_subs db) = [''ACTIVE''] \<and>
     expire_one sample_billing_call c db = (Inr s', db') \<and>
     ''EXPIRED'' \<in> sr_status ` set (bd_subs db')"
proof -
  let ?c = "\<lparr>gc_subscription_id = 7, gc_user_id = Some 3,
    gc_grace_end = add_dur \<lparr>ns = 20, loc = utc\<rparr> default_grace_window,
    gc_last_event_at = \<lparr>ns = 20, loc = utc\<rparr>\<rparr> :: grace_candidate"
  have c: "?c \<in> set (list_past_due_grace_expired \<lparr>ns = 300000000000000, loc = utc\<rparr> 100 sample_billing)"
    by (simp add: list_past_due_grace_expired_def sample_billing_def sample_sub_row_def before_def add_dur_def
        default_grace_window_def)
  obtain s db where run: "run_request sample_billing_call (RenewedRequest (sample_sub_event 30)) sample_billing
      = (Inr s, db)" and db: "bd_subs db = [sample_sub_row\<lparr>sr_period_end :=
      add_dur \<lparr>ns = 500, loc = utc\<rparr> 2592000000000000, sr_last_event_at := \<lparr>ns = 30, loc = utc\<rparr>,
      sr_grace_end := None, sr_status := ''ACTIVE''\<rparr>]"
    using sample_renewed by blast
  have h: "billing_history sample_billing db"
    using run by (blast intro: billing_history.intros billing_change.request)
  obtain r where r: "r \<in> set (bd_subs db)" "sr_id r = 7" using db by (auto simp: sample_sub_row_def)
  then obtain s' db' where "expire_one sample_billing_call ?c db = (Inr s', db')"
    "r\<lparr>sr_status := ''EXPIRED'', sr_grace_end := None,
       sr_last_event_at := in_loc (bc_now sample_billing_call) utc\<rparr> \<in> set (bd_subs db')"
    using expiry_ignores_renewal [OF sample_billing_ok c h r(1), of sample_billing_call] by auto
  then have "expire_one sample_billing_call ?c db = (Inr s', db')" "''EXPIRED'' \<in> sr_status ` set (bd_subs db')"
    by (auto simp: image_iff intro: bexI [rotated])
  then show ?thesis using c h db by (intro exI conjI) simp_all
qed

end
