(* ===== verification/PlatformPhone.thy ===== *)
theory PlatformPhone
  imports Prelude
begin

text \<open>
  Brazilian mobile numbers (\<open>internal/platform/phone\<close>): a number typed in any of the usual ways
  is brought to the form E.164, \<open>+55\<close>, two digits of the area, a nine and eight digits, or
  refused.
\<close>

datatype phone_error = ErrMobileEmpty | ErrMobileInvalid

definition normalize_raw :: "string \<Rightarrow> string" where
  "normalize_raw raw =
     (if raw = '''' then ''''
      else
        (let s = filter (\<lambda>c. c \<notin> {CHR '' '', CHR ''('', CHR '')'', CHR ''-''}) (trim_space raw) in
         if s = '''' then ''''
         else if take 3 s = ''+55'' then s
         else if take 2 s = ''55'' \<and> 12 \<le> length s then ''+'' @ s
         else ''+55'' @ s))"

text \<open>The regular expression \<open>^\+55\d{2}9\d{8}$\<close>.\<close>

definition br_cell :: "string \<Rightarrow> bool" where
  "br_cell s \<longleftrightarrow>
     length s = 14 \<and> take 3 s = ''+55'' \<and> list_all is_digit (drop 3 s) \<and> s ! 5 = CHR ''9''"

definition normalize_br :: "string \<Rightarrow> phone_error + string" where
  "normalize_br raw =
     (let s = normalize_raw raw in
      if s = '''' then Inl ErrMobileEmpty
      else if \<not> br_cell s then Inl ErrMobileInvalid
      else Inr s)"

lemma digit_code: "is_digit c \<Longrightarrow> 48 \<le> (of_char c :: nat) \<and> (of_char c :: nat) \<le> 57"
  by (simp add: is_digit_def less_eq_char_def)

lemma digit_kept: "is_digit c \<Longrightarrow> c \<notin> {CHR '' '', CHR ''('', CHR '')'', CHR ''-''}"
  by (auto simp: is_digit_def)

lemma br_cell_parts:
  assumes "br_cell s"
  shows "\<exists>t. s = ''+55'' @ t \<and> list_all is_digit t \<and> length t = 11"
  using assms append_take_drop_id [of 3 s] by (intro exI [of _ "drop 3 s"]) (auto simp: br_cell_def)

lemma br_cell_trim:
  assumes "br_cell s"
  shows "trim_space s = s"
proof -
  obtain t where t: "s = ''+55'' @ t" "list_all is_digit t" "length t = 11"
    using br_cell_parts [OF assms] by blast
  moreover from this have "t \<noteq> []" by auto
  ultimately have "t \<noteq> []" "is_digit (last t)" by (simp_all add: list_all_iff)
  then show ?thesis using t(1) digit_code [of "last t"] by (intro no_space_ends) simp_all
qed

text \<open>
  Normalising a phone number is the identity on its results: what it accepts has the form
  E.164 of a Brazilian mobile, and normalising it again gives it back, so that two spellings of a
  number that were stored by different parts of the program meet.
\<close>

lemma normalize_br_stable:
  assumes "normalize_br raw = Inr s"
  shows "br_cell s \<and> normalize_br s = Inr s"
proof -
  have b: "br_cell s" using assms by (auto simp: normalize_br_def Let_def split: if_splits)
  obtain t where t: "s = ''+55'' @ t" "list_all is_digit t" "length t = 11"
    using br_cell_parts [OF b] by blast
  have "filter (\<lambda>c. c \<notin> {CHR '' '', CHR ''('', CHR '')'', CHR ''-''}) t = t"
    using t(2) digit_kept by (simp add: filter_id_conv list_all_iff del: insert_iff)
  then have "filter (\<lambda>c. c \<notin> {CHR '' '', CHR ''('', CHR '')'', CHR ''-''}) s = s"
    by (simp add: t(1))
  then have "normalize_raw s = s"
    using br_cell_trim [OF b] by (simp add: normalize_raw_def t(1))
  then show ?thesis using b t(1) by (simp add: normalize_br_def)
qed

lemma normalize_br_stable_witness:
  "normalize_br ''(11) 99999-9999'' = Inr ''+5511999999999'' \<and>
   normalize_br ''+5511999999999'' = Inr ''+5511999999999''"
proof -
  have t: "trim_space ''(11) 99999-9999'' = ''(11) 99999-9999''"
    by (rule no_space_ends) simp_all
  have "br_cell ''+5511999999999''" by code_simp
  then have "normalize_br ''(11) 99999-9999'' = Inr ''+5511999999999''"
    using t by (simp add: normalize_br_def normalize_raw_def)
  then show ?thesis using normalize_br_stable by blast
qed

end
