(* ===== verification/BillingWebhook.thy ===== *)
theory BillingWebhook
  imports BillingLife PlatformPhone
begin

text \<open>
  The two ways events of the payment provider reach the use cases: the signed webhook
  (\<open>http/server\<close>, \<open>process_kiwify_webhook.go\<close>, \<open>kiwifypayload\<close>) and the periodic
  reconciliation with the provider's list of sales (\<open>reconcile_subscriptions.go\<close>,
  \<open>run_reconciliation.go\<close>); and the job that deletes old envelopes
  (\<open>cleanup_kiwify_events.go\<close>).
\<close>

section \<open>The payload\<close>

text \<open>The fields of the decoded body that the mapping to the use cases reads.\<close>

record kiwify_payload =
  kp_order_id :: string
  kp_event_type :: string
  kp_subscription_id :: string
  kp_abandoned_id :: string
  kp_abandoned_status :: string
  kp_product_id :: string
  kp_email :: string
  kp_mobile :: string
  kp_subscription :: "(gotime \<times> gotime) option"
  kp_sck :: string
  kp_s1 :: string
  kp_src :: string
  kp_refunded_at :: "gotime option"
  kp_approved_date :: gotime
  kp_updated_at :: gotime

definition envelope_id :: "kiwify_payload \<Rightarrow> string" where
  "envelope_id p = (if kp_order_id p \<noteq> '''' then kp_order_id p else kp_abandoned_id p)"

definition classify :: "kiwify_payload \<Rightarrow> string" where
  "classify p =
     (if kp_event_type p \<noteq> '''' then kp_event_type p
      else if kp_abandoned_id p \<noteq> '''' \<or> kp_abandoned_status p = ''abandoned'' then ''abandoned_cart''
      else '''')"

definition extract_funnel :: "kiwify_payload \<Rightarrow> string \<times> string" where
  "extract_funnel p =
     (if kp_sck p \<noteq> '''' then (kp_sck p, ''sck'')
      else if kp_s1 p \<noteq> '''' then (kp_s1 p, ''s1'')
      else if kp_src p \<noteq> '''' then (kp_src p, ''src'')
      else ('''', ''none''))"

definition approved_at :: "kiwify_payload \<Rightarrow> gotime" where
  "approved_at p =
     (if \<not> is_zero (kp_approved_date p) then kp_approved_date p
      else if \<not> is_zero (kp_updated_at p) then kp_updated_at p
      else (case kp_subscription p of
              Some (start, _) \<Rightarrow> if \<not> is_zero start then start else zero_time
            | None \<Rightarrow> zero_time))"

definition renewal_at :: "kiwify_payload \<Rightarrow> gotime" where
  "renewal_at p =
     (if \<not> is_zero (kp_updated_at p) then kp_updated_at p
      else (case kp_subscription p of
              Some (_, payment) \<Rightarrow> if \<not> is_zero payment then payment else zero_time
            | None \<Rightarrow> zero_time))"

definition cancellation_at :: "kiwify_payload \<Rightarrow> gotime" where
  "cancellation_at p =
     (if \<not> is_zero (kp_updated_at p) then kp_updated_at p
      else (case kp_subscription p of
              Some (start, _) \<Rightarrow> if \<not> is_zero start then start else zero_time
            | None \<Rightarrow> zero_time))"

definition refund_at :: "kiwify_payload \<Rightarrow> gotime" where
  "refund_at p =
     (case kp_refunded_at p of
        Some t \<Rightarrow> if \<not> is_zero t then t else kp_updated_at p
      | None \<Rightarrow> kp_updated_at p)"

definition to_sale_approved_input :: "kiwify_payload \<Rightarrow> sale_input" where
  "to_sale_approved_input p =
     \<lparr>si_sale_id = kp_order_id p, si_product_id = kp_product_id p, si_order_id = kp_order_id p,
      si_kiwify_sub_id = kp_subscription_id p, si_funnel_token = fst (extract_funnel p),
      si_mobile = (case normalize_br (kp_mobile p) of Inr m \<Rightarrow> m | Inl _ \<Rightarrow> ''''),
      si_email = kp_email p, si_occurred_at = approved_at p\<rparr>"

definition to_subscription_renewed_input :: "kiwify_payload \<Rightarrow> sub_input" where
  "to_subscription_renewed_input p =
     \<lparr>ki_order_id = kp_order_id p, ki_kiwify_sub_id = kp_subscription_id p,
      ki_occurred_at = renewal_at p\<rparr>"

definition to_subscription_late_input :: "kiwify_payload \<Rightarrow> sub_input" where
  "to_subscription_late_input p =
     \<lparr>ki_order_id = kp_order_id p, ki_kiwify_sub_id = kp_subscription_id p,
      ki_occurred_at = renewal_at p\<rparr>"

definition to_subscription_canceled_input :: "kiwify_payload \<Rightarrow> sub_input" where
  "to_subscription_canceled_input p =
     \<lparr>ki_order_id = kp_order_id p, ki_kiwify_sub_id = kp_subscription_id p,
      ki_occurred_at = cancellation_at p\<rparr>"

definition to_refund_or_chargeback_input :: "kiwify_payload \<Rightarrow> refund_input" where
  "to_refund_or_chargeback_input p =
     \<lparr>fi_sale_id = kp_order_id p, fi_order_id = kp_order_id p, fi_trigger = kp_event_type p,
      fi_occurred_at = refund_at p\<rparr>"

section \<open>The dispatch\<close>

type_synonym trigger_handler = "billing_call \<Rightarrow> kiwify_payload \<Rightarrow> unit billing_step"

definition noop_trigger :: trigger_handler where
  "noop_trigger ca p db = (Inr (), db)"

definition forget :: "'a billing_step \<Rightarrow> unit billing_step" where
  "forget f db = (case f db of (Inl es, db') \<Rightarrow> (Inl es, db') | (Inr _, db') \<Rightarrow> (Inr (), db'))"

definition webhook_handlers :: "(string \<times> trigger_handler) list" where
  "webhook_handlers =
     [(''billet_created'', noop_trigger),
      (''pix_created'', noop_trigger),
      (''order_rejected'', noop_trigger),
      (''abandoned_cart'', noop_trigger),
      (''order_approved'', \<lambda>ca p. forget (process_sale_approved ca (to_sale_approved_input p))),
      (''subscription_renewed'',
        \<lambda>ca p. forget (process_subscription_renewed ca (to_subscription_renewed_input p))),
      (''subscription_late'',
        \<lambda>ca p. forget (process_subscription_late ca (to_subscription_late_input p))),
      (''subscription_canceled'',
        \<lambda>ca p. forget (process_subscription_canceled ca (to_subscription_canceled_input p))),
      (''order_refunded'',
        \<lambda>ca p. forget (process_refund_or_chargeback ca (to_refund_or_chargeback_input p))),
      (''chargeback'',
        \<lambda>ca p. forget (process_refund_or_chargeback ca (to_refund_or_chargeback_input p)))]"

definition validate_webhook_input :: "string \<Rightarrow> string \<Rightarrow> billing_error list" where
  "validate_webhook_input body signature =
     err_if (body = '''') ErrRawBodyRequired @ err_if (signature = '''') ErrSignatureStatusRequired"

text \<open>
  The envelope is stored first and outside the transaction of the use case; that storing it failed
  is only logged. \<open>decode\<close> is \<open>json.Unmarshal\<close> of the standard library.
\<close>

definition audit_envelope ::
  "billing_call \<Rightarrow> string \<Rightarrow> string \<Rightarrow> string \<Rightarrow> string \<Rightarrow> billing_db \<Rightarrow> billing_db" where
  "audit_envelope ca envelope event_type body signature db =
     (case persist_kiwify_event ca envelope event_type body signature db of
        Inl _ \<Rightarrow> db
      | Inr db' \<Rightarrow> db')"

definition process_kiwify_webhook ::
  "(string \<Rightarrow> kiwify_payload option) \<Rightarrow> billing_call \<Rightarrow> string \<Rightarrow> string \<Rightarrow> unit billing_step" where
  "process_kiwify_webhook decode ca body signature db =
     (if validate_webhook_input body signature \<noteq> []
      then (Inl (validate_webhook_input body signature), db)
      else
        (case decode body of
           None \<Rightarrow> (Inl [ErrInvalidWebhookPayload, ErrInvalidPayload], db)
         | Some p \<Rightarrow>
             let trigger = classify p;
                 db1 = audit_envelope ca (envelope_id p) trigger body signature db
             in if signature = ''invalid'' then (Inl [ErrInvalidSignature], db1)
                else (case map_of webhook_handlers trigger of
                        None \<Rightarrow> (Inl [ErrUnknownTrigger], db1)
                      | Some handle \<Rightarrow> handle ca p db1)))"

section \<open>The endpoint\<close>

text \<open>
  \<open>mac secret body\<close> is the hexadecimal HMAC-SHA1 of the body, from the standard library. The
  signature comes from the query, or else from the header.
\<close>

definition compute_signature_status ::
  "(string \<Rightarrow> string \<Rightarrow> string) \<Rightarrow> string \<Rightarrow> string \<Rightarrow> string \<Rightarrow> string \<Rightarrow> string" where
  "compute_signature_status mac body received current next_secret =
     (if current \<noteq> '''' \<and> mac current body = received then ''valid''
      else if next_secret \<noteq> '''' \<and> mac next_secret body = received then ''rotated''
      else ''invalid'')"

definition webhook_error_table :: "(billing_error \<times> nat) list" where
  "webhook_error_table =
     [(ErrInvalidWebhookPayload, 422), (ErrInvalidSignature, 401), (ErrEventAlreadyProcessed, 202),
      (ErrEventSuperseded, 202), (ErrFunnelTokenMissing, 422), (ErrKiwifySubscriptionIDInvalid, 422),
      (ErrUnknownTrigger, 422), (ErrPlanNotFound, 422), (ErrConcurrentActiveSub, 422)]"

definition webhook_error_status :: "billing_error list \<Rightarrow> nat" where
  "webhook_error_status es =
     (case find (\<lambda>(e, n). e \<in> set es) webhook_error_table of Some (_, n) \<Rightarrow> n | None \<Rightarrow> 500)"

definition handle_kiwify_webhook ::
  "(string \<Rightarrow> kiwify_payload option) \<Rightarrow> billing_call \<Rightarrow> string \<Rightarrow> string \<Rightarrow> string \<Rightarrow> billing_db \<Rightarrow>
   nat \<times> billing_db" where
  "handle_kiwify_webhook decode ca content_type body signature db =
     (if take 16 content_type \<noteq> ''application/json'' then (415, db)
      else (case process_kiwify_webhook decode ca body signature db of
              (Inl es, db') \<Rightarrow> (webhook_error_status es, db')
            | (Inr _, db') \<Rightarrow> (202, db')))"

definition max_body_bytes :: nat where
  "max_body_bytes = 256 * 1024"

definition webhook_endpoint ::
  "(string \<Rightarrow> kiwify_payload option) \<Rightarrow> (string \<Rightarrow> string \<Rightarrow> string) \<Rightarrow> string \<Rightarrow> string \<Rightarrow>
   billing_call \<Rightarrow> string \<Rightarrow> string \<Rightarrow> string \<Rightarrow> string \<Rightarrow> billing_db \<Rightarrow> nat \<times> billing_db" where
  "webhook_endpoint decode mac current next_secret ca content_type query header body db =
     (if max_body_bytes < length body then (413, db)
      else
        (let received = if query = '''' then header else query;
             status = compute_signature_status mac body received current next_secret
         in if status = ''invalid'' then (401, db)
            else handle_kiwify_webhook decode ca content_type body status db))"

section \<open>Reconciliation\<close>

record kiwify_sale =
  ks_id :: string
  ks_product_id :: string
  ks_order_id :: string
  ks_subscription_id :: string
  ks_status :: string
  ks_funnel_token :: string
  ks_email :: string
  ks_mobile :: string
  ks_occurred_at :: gotime
  ks_updated_at :: gotime

record sale_page =
  sp_sales :: "kiwify_sale list"
  sp_has_more :: bool

text \<open>The requests the action of a sale stands for, \<open>None\<close> for a status without one.\<close>

definition resolve_reconcile_action :: "kiwify_sale \<Rightarrow> (string \<times> bool) option" where
  "resolve_reconcile_action x =
     (if ks_status x = ''refunded'' then Some (''order_refunded'', True)
      else if ks_status x = ''chargedback'' then Some (''chargeback'', True)
      else if ks_status x = ''paid'' \<or> ks_status x = ''approved'' then Some (ks_status x, False)
      else None)"

definition reconcile_sale :: "billing_call \<Rightarrow> kiwify_sale \<Rightarrow> unit billing_step" where
  "reconcile_sale ca x db =
     (case resolve_reconcile_action x of
        None \<Rightarrow> (Inr (), db)
      | Some (trigger, True) \<Rightarrow>
          forget (process_refund_or_chargeback ca
            \<lparr>fi_sale_id = ks_id x, fi_order_id = ks_order_id x, fi_trigger = trigger,
             fi_occurred_at = ks_updated_at x\<rparr>) db
      | Some (_, False) \<Rightarrow>
          forget (process_sale_approved ca
            \<lparr>si_sale_id = ks_id x, si_product_id = ks_product_id x, si_order_id = ks_order_id x,
             si_kiwify_sub_id = ks_subscription_id x, si_funnel_token = ks_funnel_token x,
             si_mobile = ks_mobile x, si_email = ks_email x, si_occurred_at = ks_occurred_at x\<rparr>) db)"

text \<open>The sales of one page; what a call draws may differ from sale to sale.\<close>

fun reconcile_page ::
  "(kiwify_sale \<Rightarrow> billing_call) \<Rightarrow> kiwify_sale list \<Rightarrow> billing_db \<Rightarrow> billing_error list \<times> billing_db" where
  "reconcile_page draw [] db = ([], db)"
| "reconcile_page draw (x # xs) db =
     (case reconcile_sale (draw x) x db of
        (r, db1) \<Rightarrow>
          (case reconcile_page draw xs db1 of
             (es, db2) \<Rightarrow>
               ((case r of
                   Inr _ \<Rightarrow> es
                 | Inl e \<Rightarrow>
                     if ErrEventAlreadyProcessed \<in> set e \<or> ErrEventSuperseded \<in> set e then es
                     else e @ es), db2)))"

definition reconcile_max_pages :: nat where
  "reconcile_max_pages = 1000"

text \<open>
  The loop over the pages, with the number of pages that may still be read. \<open>list_sales\<close> is the
  client of the provider for the window.
\<close>

fun reconcile_pages ::
  "(nat \<Rightarrow> billing_error + sale_page) \<Rightarrow> (kiwify_sale \<Rightarrow> billing_call) \<Rightarrow> nat \<Rightarrow> nat \<Rightarrow>
   billing_error list billing_step" where
  "reconcile_pages list_sales draw 0 page db = (Inl [ErrReconcileMaxPagesExceeded], db)"
| "reconcile_pages list_sales draw (Suc left) page db =
     (case list_sales page of
        Inl e \<Rightarrow> (Inl [e], db)
      | Inr sp \<Rightarrow>
          (case reconcile_page draw (sp_sales sp) db of
             (es, db1) \<Rightarrow>
               if \<not> sp_has_more sp then (Inr es, db1)
               else (case reconcile_pages list_sales draw left (page + 1) db1 of
                       (Inl fs, db2) \<Rightarrow> (Inl fs, db2)
                     | (Inr fs, db2) \<Rightarrow> (Inr (es @ fs), db2))))"

definition validate_reconcile_input :: "gotime \<Rightarrow> gotime \<Rightarrow> billing_error list" where
  "validate_reconcile_input window_start window_end =
     err_if (is_zero window_start) ErrWindowStartRequired @
     err_if (is_zero window_end) ErrWindowEndRequired @
     err_if (\<not> is_zero window_start \<and> \<not> is_zero window_end \<and> \<not> after window_end window_start)
       ErrWindowEndBeforeStart"

definition reconcile_subscriptions ::
  "(gotime \<Rightarrow> gotime \<Rightarrow> nat \<Rightarrow> billing_error + sale_page) \<Rightarrow> (kiwify_sale \<Rightarrow> billing_call) \<Rightarrow>
   gotime \<Rightarrow> gotime \<Rightarrow> unit billing_step" where
  "reconcile_subscriptions client draw window_start window_end db =
     (if validate_reconcile_input window_start window_end \<noteq> []
      then (Inl (validate_reconcile_input window_start window_end), db)
      else
        (case reconcile_pages (client window_start window_end) draw reconcile_max_pages 1 db of
           (Inl es, db1) \<Rightarrow> (Inl es, db1)
         | (Inr es, db1) \<Rightarrow>
             if es \<noteq> [] then (Inl es, db1)
             else (Inr (), set_checkpoint ''kiwify_sales'' window_end db1)))"

definition run_reconciliation ::
  "(gotime \<Rightarrow> gotime \<Rightarrow> nat \<Rightarrow> billing_error + sale_page) \<Rightarrow> (kiwify_sale \<Rightarrow> billing_call) \<Rightarrow> gotime \<Rightarrow>
   unit billing_step" where
  "run_reconciliation client draw now db =
     (let checkpoint = (case get_checkpoint ''kiwify_sales'' db of
                          Inr t \<Rightarrow> t
                        | Inl _ \<Rightarrow> add_dur (in_loc now utc) (- 3600000000000))
      in reconcile_subscriptions client draw (add_dur checkpoint (- (15 * 60000000000)))
           (in_loc now utc) db)"

section \<open>Old envelopes\<close>

text \<open>The loop goes on until a batch deletes nothing, which the model shows and does not assume.\<close>

partial_function (option) cleanup_loop ::
  "gotime \<Rightarrow> int \<Rightarrow> int \<Rightarrow> billing_db \<Rightarrow> (int \<times> billing_db) option" where
  "cleanup_loop b batch deleted db =
     (let (n, db1) = delete_older_than b batch db
      in if n = 0 then Some (deleted + n, db1) else cleanup_loop b batch (deleted + n) db1)"

definition cleanup_cutoff :: "gotime \<Rightarrow> int \<Rightarrow> gotime" where
  "cleanup_cutoff now retention =
     (let days = if retention \<le> 0 then 90 else retention
      in add_dur (in_loc now utc) (i64 (i64 (- days * 24) * 3600000000000)))"

definition cleanup_kiwify_events ::
  "gotime \<Rightarrow> int \<Rightarrow> int \<Rightarrow> billing_db \<Rightarrow> (int \<times> billing_db) option" where
  "cleanup_kiwify_events now retention batch db =
     cleanup_loop (cleanup_cutoff now retention) (if batch \<le> 0 then 500 else batch) 0 db"

section \<open>What reaches the use cases\<close>

text \<open>
  C20: A request that is not signed with one of the two configured secrets is turned away before
  anything is read or written: the answer is 401, or 413 for a body that is too long, and the
  database stays as it was, the store of envelopes included.
\<close>

theorem unsigned_rejected:
  assumes "current = '''' \<or> mac current body \<noteq> (if query = '''' then header else query)"
    and "next_secret = '''' \<or> mac next_secret body \<noteq> (if query = '''' then header else query)"
  shows "webhook_endpoint decode mac current next_secret ca content_type query header body db =
    (if max_body_bytes < length body then 413 else 401, db)"
  using assms by (auto simp: webhook_endpoint_def compute_signature_status_def Let_def)

theorem unsigned_rejected_witness:
  "webhook_endpoint (\<lambda>_. None) (\<lambda>k b. k @ b) ''k1'' '''' sample_billing_call ''application/json'' ''''
     ''forged'' ''{}'' sample_billing = (401, sample_billing)"
  using unsigned_rejected [of "''k1''" "\<lambda>k b. k @ b" "''{}''" "''''" "''forged''" "''''"
      "\<lambda>_. None" sample_billing_call "''application/json''" sample_billing]
  by (simp add: max_body_bytes_def)

section \<open>A conflict is not answered as one\<close>

text \<open>The errors only a use case makes; no repository returns them.\<close>

definition use_case_errors :: "billing_error set" where
  "use_case_errors = {ErrConcurrentActiveSub, ErrEventAlreadyProcessed, ErrEventSuperseded}"

lemma scan_error: "scan_sub_row r = Inl e \<Longrightarrow> e \<notin> use_case_errors"
  by (auto simp: scan_sub_row_def resolve_plan_from_code_def new_plan_def new_funnel_token_def Let_def
      parse_status_def plan_code_supported_def use_case_errors_def
      split: sum.splits option.splits if_splits)

lemma find_error: "find_by_order_id ord db = Inl e \<Longrightarrow> e \<notin> use_case_errors"
  using scan_error by (auto simp: find_by_order_id_def use_case_errors_def split: option.splits)

lemma resolve_error: "resolve_subscription i db = Inl e \<Longrightarrow> e \<notin> use_case_errors"
  using find_error by (auto simp: resolve_subscription_def split: sum.splits if_splits)

lemma write_error:
  "upsert_by_order ca p db = Inl e \<Longrightarrow> e \<notin> use_case_errors"
  "apply_transition i st g t db = Inl e \<Longrightarrow> e \<notin> use_case_errors"
  "extend_period i end_at t db = Inl e \<Longrightarrow> e \<notin> use_case_errors"
  "activate_sub t s = Inl e \<Longrightarrow> e \<notin> use_case_errors"
  by (auto simp: upsert_by_order_def validate_upsert_params_def new_kiwify_subscription_id_def Let_def
      apply_transition_def extend_period_def update_sub_row_def activate_sub_def use_case_errors_def
      apply_status_transition_def split: sum.splits option.splits sub_status.splits if_splits)

lemma mark_error:
  "mark_applied key tr res t db = Inl e \<Longrightarrow>
    e = ErrEventAlreadyProcessed \<and> key \<in> pr_key ` set (bd_processed db)"
  by (simp add: mark_applied_def split: if_splits)

lemmas repository_error = find_error resolve_error write_error

lemma conflict_reserved: "e \<notin> use_case_errors \<Longrightarrow> e \<noteq> ErrConcurrentActiveSub"
  by (auto simp: use_case_errors_def)

text \<open>The errors of a sale and of a refund, and the one that says the event is known.\<close>

lemma sale_persist_error:
  assumes "sale_persist ca i kid token db = (Inl es, db')"
  shows "\<exists>e. es = [e] \<and> (e \<notin> use_case_errors \<or>
    e = ErrEventAlreadyProcessed \<and> request_key (SaleRequest i) \<in> pr_key ` set (bd_processed db))"
proof -
  have "ErrPlanNotFound \<notin> use_case_errors" by (simp add: use_case_errors_def)
  then show ?thesis
    using assms
    by (auto simp: sale_persist_def split: sum.splits dest: mark_error repository_error)
qed

lemma refund_in_tx_error:
  assumes "refund_in_tx ca i db = (Inl es, db')"
  shows "\<exists>e. es = [e] \<and> (e \<notin> use_case_errors \<or>
    e = ErrEventAlreadyProcessed \<and> request_key (RefundRequest i) \<in> pr_key ` set (bd_processed db))"
  using assms
  by (auto simp: refund_in_tx_def Let_def split: sum.splits dest: mark_error repository_error)

lemma validation_errors:
  "set (validate_sale_input i) \<inter> use_case_errors = {}"
  "set (validate_refund_input j) \<inter> use_case_errors = {}"
  by (auto simp: validate_sale_input_def validate_refund_input_def set_err_if use_case_errors_def)

lemma sale_error:
  assumes "process_sale_approved ca i db = (Inl es, db')"
  shows "es \<noteq> [] \<and> (\<forall>e \<in> set es \<inter> use_case_errors. e = ErrEventAlreadyProcessed \<and>
    validate_sale_input i = [] \<and> request_key (SaleRequest i) \<in> pr_key ` set (bd_processed db) \<and>
    (\<exists>kid. new_kiwify_subscription_id (si_kiwify_sub_id i) = Inr kid) \<and>
    (si_funnel_token i = '''' \<or> (\<exists>token. new_funnel_token (si_funnel_token i) = Inr token)))"
proof -
  have "ErrKiwifySubscriptionIDInvalid \<notin> use_case_errors" "ErrFunnelTokenMissing \<notin> use_case_errors"
    by (simp_all add: use_case_errors_def)
  then show ?thesis
    using assms validation_errors(1) [of i]
    by (auto simp: process_sale_approved_def do_tx_Inl sale_with_token_def sale_without_token_def
        split: if_splits sum.splits prod.splits dest!: sale_persist_error)
qed

lemma refund_error:
  assumes "process_refund_or_chargeback ca i db = (Inl es, db')"
  shows "es \<noteq> [] \<and> (\<forall>e \<in> set es \<inter> use_case_errors. e = ErrEventAlreadyProcessed \<and>
    validate_refund_input i = [] \<and> request_key (RefundRequest i) \<in> pr_key ` set (bd_processed db))"
  using assms validation_errors(2) [of i]
  by (auto simp: process_refund_or_chargeback_def do_tx_Inl split: if_splits dest!: refund_in_tx_error)

lemma no_conflict_request:
  assumes "run_request ca q db = (Inl es, db')"
  shows "ErrConcurrentActiveSub \<notin> set es"
proof (cases q)
  case (SaleRequest i)
  then show ?thesis using assms sale_error [of ca i db es db'] by (auto simp: use_case_errors_def)
next
  case (RenewedRequest i)
  then show ?thesis
    using assms
    by (auto simp: process_subscription_renewed_def validate_renewed_input_def set_err_if do_tx_Inl
        apply_renewal_def extend_existing_def Let_def split: if_splits sum.splits
        dest: mark_error repository_error [THEN conflict_reserved])
next
  case (LateRequest i)
  then show ?thesis
    using assms
    by (auto simp: process_subscription_late_def validate_late_input_def set_err_if do_tx_Inl
        late_in_tx_def Let_def split: if_splits sum.splits
        dest: mark_error repository_error [THEN conflict_reserved])
next
  case (CanceledRequest i)
  then show ?thesis
    using assms
    by (auto simp: process_subscription_canceled_def validate_canceled_input_def set_err_if do_tx_Inl
        cancel_in_tx_def Let_def split: if_splits sum.splits
        dest: mark_error repository_error [THEN conflict_reserved])
next
  case (RefundRequest i)
  then show ?thesis using assms refund_error [of ca i db es db'] by (auto simp: use_case_errors_def)
qed

text \<open>
  The endpoint has an answer of its own, 422, for a second billable subscription of a user, but
  no request ever gets it: the repository reports the violated index with an error of its own,
  which the table of the endpoint does not hold, so the conflict is answered 500 and the provider
  delivers the event again.
\<close>

lemma conflict_answered_500:
  "(case process_kiwify_webhook decode ca body signature db of
      (Inl es, _) \<Rightarrow> ErrConcurrentActiveSub \<notin> set es
    | (Inr _, _) \<Rightarrow> True) \<and>
   webhook_error_status [RepoErrConcurrentActiveSub] = 500"
proof
  have h: "ErrConcurrentActiveSub \<notin> set es"
    if "map_of webhook_handlers t = Some f" "f ca p d = (Inl es, d')" for t f p d es d'
  proof -
    have "f \<in> snd ` set webhook_handlers" using map_of_SomeD [OF that(1)] by force
    then show ?thesis
      using that(2) no_conflict_request [of ca "SaleRequest _"] no_conflict_request [of ca "RenewedRequest _"]
        no_conflict_request [of ca "LateRequest _"] no_conflict_request [of ca "CanceledRequest _"]
        no_conflict_request [of ca "RefundRequest _"]
      by (auto simp: webhook_handlers_def noop_trigger_def forget_def split: prod.splits sum.splits)
  qed
  show "case process_kiwify_webhook decode ca body signature db of
      (Inl es, _) \<Rightarrow> ErrConcurrentActiveSub \<notin> set es | (Inr _, _) \<Rightarrow> True"
    by (auto simp: process_kiwify_webhook_def validate_webhook_input_def set_err_if Let_def
        split: prod.splits sum.splits option.splits dest!: h)
  show "webhook_error_status [RepoErrConcurrentActiveSub] = 500"
    by (simp add: webhook_error_status_def webhook_error_table_def)
qed

section \<open>The loop that deletes old envelopes ends\<close>

lemma drop_old_length: "length (drop_old b n ks) \<le> length ks"
  by (induction b n ks rule: drop_old.induct) auto

lemma drop_old_young:
  "filter (\<lambda>k. \<not> before (kw_received_at k) b) (drop_old b n ks) =
     filter (\<lambda>k. \<not> before (kw_received_at k) b) ks"
  by (induction b n ks rule: drop_old.induct) auto

lemma drop_old_same:
  "0 < n \<Longrightarrow> length (drop_old b n ks) = length ks \<Longrightarrow> \<forall>k \<in> set ks. \<not> before (kw_received_at k) b"
proof (induction ks)
  case (Cons k ks)
  have "\<not> before (kw_received_at k) b"
    using Cons.prems drop_old_length [of b "n - 1" ks] by fastforce
  with Cons show ?case by simp
qed simp

lemma drop_old_id: "\<forall>k \<in> set ks. \<not> before (kw_received_at k) b \<Longrightarrow> drop_old b n ks = ks"
  by (induction ks) auto

lemma cleanup_loop_ends:
  assumes "0 < batch"
  shows "cleanup_loop b batch deleted db =
    Some (deleted + int (length (bd_kiwify db)) -
        int (length (filter (\<lambda>k. \<not> before (kw_received_at k) b) (bd_kiwify db))),
      db\<lparr>bd_kiwify := filter (\<lambda>k. \<not> before (kw_received_at k) b) (bd_kiwify db)\<rparr>)"
proof (induction "length (bd_kiwify db)" arbitrary: db deleted rule: less_induct)
  case less
  let ?young = "filter (\<lambda>k. \<not> before (kw_received_at k) b)"
  let ?ks = "drop_old b (nat batch) (bd_kiwify db)"
  let ?n = "int (length (bd_kiwify db)) - int (length ?ks)"
  have step: "cleanup_loop b batch deleted db =
      (if ?n = 0 then Some (deleted + ?n, db\<lparr>bd_kiwify := ?ks\<rparr>)
       else cleanup_loop b batch (deleted + ?n) (db\<lparr>bd_kiwify := ?ks\<rparr>))"
    by (subst cleanup_loop.simps) (simp add: delete_older_than_def Let_def)
  show ?case
  proof (cases "?n = 0")
    case True
    then have "\<forall>k \<in> set (bd_kiwify db). \<not> before (kw_received_at k) b"
      using drop_old_same [of "nat batch" b "bd_kiwify db"] assms by simp
    then show ?thesis using step True by (simp add: drop_old_id)
  next
    case False
    then have "length ?ks < length (bd_kiwify db)" using drop_old_length [of b "nat batch" "bd_kiwify db"] by simp
    then show ?thesis
      using less(1) [of "db\<lparr>bd_kiwify := ?ks\<rparr>"] step False drop_old_young by simp
  qed
qed

text \<open>
  C21: Deleting the old envelopes returns, whatever the configured retention and batch size, zero and
  negative ones included, and however many envelopes there are: it leaves exactly the envelopes
  received after the cutoff and counts the others.
\<close>

theorem cleanup_ends:
  "\<exists>n. cleanup_kiwify_events now retention batch db = Some (n, db\<lparr>bd_kiwify :=
       filter (\<lambda>k. \<not> before (kw_received_at k) (cleanup_cutoff now retention)) (bd_kiwify db)\<rparr>) \<and>
     n = int (length (filter (\<lambda>k. before (kw_received_at k) (cleanup_cutoff now retention))
       (bd_kiwify db)))"
proof -
  have "length (filter P xs) + length (filter (\<lambda>x. \<not> P x) xs) = length xs" for P :: "kiwify_row \<Rightarrow> bool" and xs
    by (rule sum_length_filter_compl)
  from this [of "\<lambda>k. before (kw_received_at k) (cleanup_cutoff now retention)" "bd_kiwify db"]
  show ?thesis unfolding cleanup_kiwify_events_def by (subst cleanup_loop_ends) auto
qed

section \<open>Reconciling twice\<close>

definition sale_request :: "kiwify_sale \<Rightarrow> billing_request option" where
  "sale_request x =
     (case resolve_reconcile_action x of
        None \<Rightarrow> None
      | Some (trigger, refund) \<Rightarrow>
          Some (if refund
                then RefundRequest \<lparr>fi_sale_id = ks_id x, fi_order_id = ks_order_id x,
                  fi_trigger = trigger, fi_occurred_at = ks_updated_at x\<rparr>
                else SaleRequest \<lparr>si_sale_id = ks_id x, si_product_id = ks_product_id x,
                  si_order_id = ks_order_id x, si_kiwify_sub_id = ks_subscription_id x,
                  si_funnel_token = ks_funnel_token x, si_mobile = ks_mobile x,
                  si_email = ks_email x, si_occurred_at = ks_occurred_at x\<rparr>))"

lemma reconcile_sale_request:
  "reconcile_sale ca x db =
     (case sale_request x of None \<Rightarrow> (Inr (), db) | Some q \<Rightarrow> forget (run_request ca q) db)"
  by (auto simp: reconcile_sale_def sale_request_def split: option.splits bool.splits)

definition known_request :: "billing_request \<Rightarrow> billing_db \<Rightarrow> bool" where
  "known_request q db \<longleftrightarrow> request_key q \<in> pr_key ` set (bd_processed db) \<and>
     (\<forall>ca d. request_key q \<in> pr_key ` set (bd_processed d) \<longrightarrow>
        run_request ca q d = (Inl [ErrEventAlreadyProcessed], d))"

lemma sale_refused:
  assumes "validate_sale_input i = []" "new_kiwify_subscription_id (si_kiwify_sub_id i) = Inr kid"
    and "si_funnel_token i = '''' \<or> (\<exists>token. new_funnel_token (si_funnel_token i) = Inr token)"
    and "request_key (SaleRequest i) \<in> pr_key ` set (bd_processed d)"
  shows "process_sale_approved ca i d = (Inl [ErrEventAlreadyProcessed], d)"
  using assms
  by (auto simp: process_sale_approved_def do_tx_def sale_with_token_def sale_without_token_def
      sale_persist_def mark_applied_def split: sum.splits)

lemma refund_refused:
  assumes "validate_refund_input i = []" "request_key (RefundRequest i) \<in> pr_key ` set (bd_processed d)"
  shows "process_refund_or_chargeback ca i d = (Inl [ErrEventAlreadyProcessed], d)"
  using assms by (simp add: process_refund_or_chargeback_def do_tx_def refund_in_tx_def mark_applied_def)

lemma settled_request:
  assumes "sale_request x = Some q" "run_request ca q db = (r, db')"
    and "case r of Inr _ \<Rightarrow> True
      | Inl es \<Rightarrow> ErrEventAlreadyProcessed \<in> set es \<or> ErrEventSuperseded \<in> set es \<or> es = []"
  shows "known_request q db'"
proof (cases r)
  case (Inr s)
  then show ?thesis
    using assms(2) run_request_ok(3) request_known unfolding known_request_def by blast
next
  case (Inl es)
  have db': "db' = db" using assms(2) Inl run_request_error by blast
  consider i where "q = SaleRequest i" | i where "q = RefundRequest i"
    using assms(1) by (auto simp: sale_request_def split: option.splits if_splits prod.splits)
  then show ?thesis
  proof cases
    case 1
    then show ?thesis
      using sale_error [of ca i db es db'] assms(2,3) Inl db' sale_refused [of i]
      by (auto simp: known_request_def use_case_errors_def)
  next
    case 2
    then show ?thesis
      using refund_error [of ca i db es db'] assms(2,3) Inl db' refund_refused [of i]
      by (auto simp: known_request_def use_case_errors_def)
  qed
qed

text \<open>A sale is settled when reconciling it again refuses it as known.\<close>

definition event_keys :: "billing_db \<Rightarrow> string set" where
  "event_keys db = pr_key ` set (bd_processed db)"

definition settled :: "kiwify_sale \<Rightarrow> billing_db \<Rightarrow> bool" where
  "settled x db \<longleftrightarrow> (\<forall>q. sale_request x = Some q \<longrightarrow> known_request q db)"

lemma settled_mono: "settled x db \<Longrightarrow> event_keys db \<subseteq> event_keys db' \<Longrightarrow> settled x db'"
  by (auto simp: settled_def known_request_def event_keys_def)

lemma reconcile_settled:
  "settled x db \<Longrightarrow> reconcile_sale ca x db \<in> {(Inr (), db), (Inl [ErrEventAlreadyProcessed], db)}"
  by (auto simp: reconcile_sale_request settled_def known_request_def forget_def split: option.splits)

lemma page_settled: "\<forall>x \<in> set xs. settled x db \<Longrightarrow> reconcile_page draw xs db = ([], db)"
proof (induction xs)
  case (Cons x xs)
  then show ?case using reconcile_settled [of x db "draw x"] by auto
qed simp

lemma reconcile_sale_keys:
  "reconcile_sale ca x db = (r, db') \<Longrightarrow> event_keys db \<subseteq> event_keys db'"
proof (cases "sale_request x")
  case (Some q)
  assume "reconcile_sale ca x db = (r, db')"
  then obtain w where "run_request ca q db = (w, db')"
    using Some by (auto simp: reconcile_sale_request forget_def split: prod.splits sum.splits)
  then show ?thesis using run_request_ok(1) unfolding event_keys_def by blast
qed (simp add: reconcile_sale_request)

lemma reconcile_sale_settles:
  assumes "reconcile_sale ca x db = (r, db')"
    and "case r of Inr _ \<Rightarrow> True
      | Inl es \<Rightarrow> ErrEventAlreadyProcessed \<in> set es \<or> ErrEventSuperseded \<in> set es \<or> es = []"
  shows "settled x db'"
proof (cases "sale_request x")
  case (Some q)
  then obtain w where w: "run_request ca q db = (w, db')"
    "case w of Inr _ \<Rightarrow> True
      | Inl es \<Rightarrow> ErrEventAlreadyProcessed \<in> set es \<or> ErrEventSuperseded \<in> set es \<or> es = []"
    using assms by (auto simp: reconcile_sale_request forget_def split: prod.splits sum.splits)
  then show ?thesis using settled_request [OF Some] Some by (auto simp: settled_def)
qed (simp add: settled_def)

lemma reconcile_page_settles:
  "reconcile_page draw xs db = (es, d) \<Longrightarrow>
     event_keys db \<subseteq> event_keys d \<and> (es = [] \<longrightarrow> (\<forall>x \<in> set xs. settled x d))"
proof (induction xs arbitrary: db es)
  case (Cons x xs)
  obtain r d1 where r: "reconcile_sale (draw x) x db = (r, d1)" by force
  obtain fs where fs: "reconcile_page draw xs d1 = (fs, d)"
    and es: "es = (case r of Inr _ \<Rightarrow> fs | Inl e \<Rightarrow>
      if ErrEventAlreadyProcessed \<in> set e \<or> ErrEventSuperseded \<in> set e then fs else e @ fs)"
    using Cons.prems r by (auto split: prod.splits)
  note ih = Cons.IH [OF fs]
  have keys: "event_keys db \<subseteq> event_keys d1" by (rule reconcile_sale_keys [OF r])
  have "settled x d \<and> fs = []" if "es = []"
  proof -
    have "settled x d1"
      by (rule reconcile_sale_settles [OF r]) (use that es in \<open>auto split: sum.splits if_splits\<close>)
    then show ?thesis using that es ih settled_mono by (auto split: sum.splits if_splits)
  qed
  with keys ih show ?case by auto
qed simp

lemma reconcile_pages_again:
  assumes "reconcile_pages ls draw n page db = (Inr [], d)"
  shows "event_keys db \<subseteq> event_keys d \<and> (\<forall>d'. event_keys d \<subseteq> event_keys d' \<longrightarrow>
    reconcile_pages ls draw' n page d' = (Inr [], d'))"
  using assms
proof (induction n arbitrary: page db)
  case (Suc n)
  obtain sp where sp: "ls page = Inr sp" using Suc.prems by (auto split: sum.splits)
  obtain es d1 where p: "reconcile_page draw (sp_sales sp) db = (es, d1)" by force
  note s = reconcile_page_settles [OF p]
  show ?case
  proof (cases "sp_has_more sp")
    case False
    then have "es = []" "d1 = d" using Suc.prems sp p by simp_all
    moreover have "reconcile_pages ls draw' (Suc n) page d' = (Inr [], d')"
      if "event_keys d \<subseteq> event_keys d'" for d'
    proof -
      have "\<forall>x \<in> set (sp_sales sp). settled x d'" using s calculation settled_mono that by blast
      then show ?thesis using sp False by (simp add: page_settled)
    qed
    ultimately show ?thesis using s by blast
  next
    case True
    then have rest: "reconcile_pages ls draw n (page + 1) d1 = (Inr [], d)" and "es = []"
      using Suc.prems sp p by (auto split: prod.splits sum.splits)
    note ih = Suc.IH [OF rest]
    have "reconcile_pages ls draw' (Suc n) page d' = (Inr [], d')" if "event_keys d \<subseteq> event_keys d'" for d'
    proof -
      have "\<forall>x \<in> set (sp_sales sp). settled x d'"
        using s \<open>es = []\<close> settled_mono ih that by blast
      then show ?thesis using sp True ih that by (simp add: page_settled)
    qed
    then show ?thesis using s ih by blast
  qed
qed simp

text \<open>
  C19: Reconciling a window a second time changes nothing: when a run has gone through without an
  error, another run over the same sales, whatever it draws, refuses every one of them as known,
  succeeds, and leaves subscriptions, events, outbox and checkpoint as they are.
\<close>

theorem reconcile_idempotent:
  assumes "reconcile_subscriptions client draw window_start window_end db = (Inr (), db1)"
  shows "reconcile_subscriptions client draw' window_start window_end db1 = (Inr (), db1)"
proof -
  obtain d where v: "validate_reconcile_input window_start window_end = []"
    and p: "reconcile_pages (client window_start window_end) draw reconcile_max_pages 1 db = (Inr [], d)"
    and db1: "db1 = set_checkpoint ''kiwify_sales'' window_end d"
    using assms by (auto simp: reconcile_subscriptions_def split: if_splits sum.splits prod.splits)
  have "event_keys db1 = event_keys d" by (simp add: db1 set_checkpoint_def event_keys_def)
  then have "reconcile_pages (client window_start window_end) draw' reconcile_max_pages 1 db1 = (Inr [], db1)"
    using reconcile_pages_again [OF p] by blast
  moreover have "set_checkpoint ''kiwify_sales'' window_end db1 = db1"
    by (simp add: db1 set_checkpoint_def update_last)
  ultimately show ?thesis using v by (simp add: reconcile_subscriptions_def)
qed

theorem reconcile_idempotent_witness:
  "\<exists>x db1. ks_status x = ''refunded'' \<and>
     reconcile_subscriptions (\<lambda>_ _ _. Inr \<lparr>sp_sales = [x], sp_has_more = False\<rparr>)
       (\<lambda>_. sample_billing_call) \<lparr>ns = 10, loc = utc\<rparr> \<lparr>ns = 90, loc = utc\<rparr> sample_billing = (Inr (), db1) \<and>
     map sr_status (bd_subs db1) = [''REFUNDED''] \<and>
     reconcile_subscriptions (\<lambda>_ _ _. Inr \<lparr>sp_sales = [x], sp_has_more = False\<rparr>)
       (\<lambda>_. sample_billing_call) \<lparr>ns = 10, loc = utc\<rparr> \<lparr>ns = 90, loc = utc\<rparr> db1 = (Inr (), db1)"
proof -
  define x :: kiwify_sale where "x = \<lparr>ks_id = ''S'', ks_product_id = ''P'', ks_order_id = ''O'',
    ks_subscription_id = ''K'', ks_status = ''refunded'', ks_funnel_token = '''', ks_email = '''',
    ks_mobile = '''', ks_occurred_at = \<lparr>ns = 40, loc = utc\<rparr>, ks_updated_at = \<lparr>ns = 50, loc = utc\<rparr>\<rparr>"
  let ?client = "\<lambda>_ _ _. Inr \<lparr>sp_sales = [x], sp_has_more = False\<rparr> :: billing_error + sale_page"
  obtain r d where r: "reconcile_sale sample_billing_call x sample_billing = (r, d)" by force
  obtain s where s: "scan_sub_row sample_sub_row = Inr s" "sb_id s = Some 7" using sample_scan by blast
  have ok: "r = Inr () \<and> map sr_status (bd_subs d) = [''REFUNDED'']"
    using r s sample_subject(2)
    by (auto simp: reconcile_sale_def resolve_reconcile_action_def x_def forget_def
        process_refund_or_chargeback_def validate_refund_input_def is_zero_def do_tx_def
        refund_in_tx_def mark_applied_def sample_billing_def find_by_order_id_def Let_def
        apply_transition_def status_check_def update_sub_row_def sample_sub_row_def billed_users_def
        billable_wires_def publish_refunded_def split: prod.splits sum.splits)
  then have run: "reconcile_subscriptions ?client (\<lambda>_. sample_billing_call) \<lparr>ns = 10, loc = utc\<rparr>
      \<lparr>ns = 90, loc = utc\<rparr> sample_billing = (Inr (), set_checkpoint ''kiwify_sales'' \<lparr>ns = 90, loc = utc\<rparr> d)"
    using r by (simp add: reconcile_subscriptions_def validate_reconcile_input_def is_zero_def after_def
        reconcile_max_pages_def eval_nat_numeral)
  have "bd_subs (set_checkpoint ''kiwify_sales'' \<lparr>ns = 90, loc = utc\<rparr> d) = bd_subs d"
    by (simp add: set_checkpoint_def)
  moreover have "ks_status x = ''refunded''" by (simp add: x_def)
  ultimately show ?thesis using run ok reconcile_idempotent [OF run] by metis
qed

text \<open>
  The reconciliation always comes to an end: against a provider that announces another page
  forever it stops after a thousand of them with an error of its own.
\<close>

lemma reconcile_endless_stops:
  assumes "\<And>page. \<exists>xs. client window_start window_end page = Inr \<lparr>sp_sales = xs, sp_has_more = True\<rparr>"
    and "validate_reconcile_input window_start window_end = []"
  shows "\<exists>db1. reconcile_subscriptions client draw window_start window_end db =
    (Inl [ErrReconcileMaxPagesExceeded], db1)"
proof -
  have "\<exists>db1. reconcile_pages (client window_start window_end) draw n page db =
      (Inl [ErrReconcileMaxPagesExceeded], db1)" for n page db
  proof (induction n arbitrary: page db)
    case (Suc n)
    obtain xs where "client window_start window_end page = Inr \<lparr>sp_sales = xs, sp_has_more = True\<rparr>"
      using assms(1) by blast
    moreover obtain es d where "reconcile_page draw xs db = (es, d)" by force
    moreover obtain d' where "reconcile_pages (client window_start window_end) draw n (page + 1) d =
        (Inl [ErrReconcileMaxPagesExceeded], d')" using Suc by blast
    ultimately show ?case by simp
  qed simp
  then obtain d where "reconcile_pages (client window_start window_end) draw reconcile_max_pages 1 db =
      (Inl [ErrReconcileMaxPagesExceeded], d)" by blast
  then show ?thesis using assms(2) by (simp add: reconcile_subscriptions_def)
qed

lemma reconcile_endless_stops_witness:
  "\<exists>db1. reconcile_subscriptions (\<lambda>_ _ _. Inr \<lparr>sp_sales = [], sp_has_more = True\<rparr>)
     (\<lambda>_. sample_billing_call) \<lparr>ns = 10, loc = utc\<rparr> \<lparr>ns = 90, loc = utc\<rparr> sample_billing =
     (Inl [ErrReconcileMaxPagesExceeded], db1)"
  by (rule reconcile_endless_stops) (simp_all add: validate_reconcile_input_def is_zero_def after_def)

end
