(* ===== verification/PlatformOutbox.thy ===== *)
theory PlatformOutbox
  imports GoTime "HOL-Library.Product_Lexorder"
begin

text \<open>
  The transactional outbox (\<open>internal/platform/outbox\<close>): the event and its checks, the table
  with its constraints, and the three jobs over it, the dispatcher that claims rows and runs the
  handlers, the reaper that frees rows whose dispatcher did not come back, and the housekeeping
  that deletes published rows. Each statement of the storage is one step; what happens between
  the claim of a row and the mark of its outcome is any sequence of such steps.
\<close>

section \<open>Events\<close>

datatype outbox_error =
    ErrEventIDMissing | ErrEventTypeMissing | ErrAggregateTypeMissing | ErrAggregateIDMissing
  | ErrOutboxInvalidPayload | ErrOccurredAtZero | ErrInvalidAggregateUserID | ErrOutboxDatabase

record outbox_event =
  oe_id :: string
  oe_type :: string
  oe_aggregate_type :: string
  oe_aggregate_id :: string
  oe_user_id :: string
  oe_payload :: string
  oe_occurred_at :: gotime

text \<open>
  \<open>parse\<close> is \<open>uuid.Parse\<close> and \<open>fresh\<close> the identifier \<open>uuid.NewString\<close> draws; \<open>valid_json\<close> is
  \<open>json.Valid\<close>. The metadata, which only carries the trace, is left out.
\<close>

definition json_object :: "(string \<Rightarrow> bool) \<Rightarrow> string \<Rightarrow> bool" where
  "json_object valid_json s \<longleftrightarrow>
     valid_json s \<and>
     (case dropWhile (\<lambda>c. c \<in> {CHR '' '', CHR 0x09, CHR 0x0D, CHR 0x0A}) s of
        [] \<Rightarrow> False | c # _ \<Rightarrow> c = CHR ''{'')"

definition new_event ::
  "(string \<Rightarrow> uuid option) \<Rightarrow> (string \<Rightarrow> bool) \<Rightarrow> string \<Rightarrow> gotime \<Rightarrow> outbox_event \<Rightarrow>
   outbox_error + outbox_event" where
  "new_event parse valid_json fresh now i =
     (if oe_id i \<noteq> '''' \<and> parse (oe_id i) = None then Inl ErrEventIDMissing
      else if oe_type i = '''' then Inl ErrEventTypeMissing
      else if oe_aggregate_type i = '''' then Inl ErrAggregateTypeMissing
      else if oe_aggregate_id i = '''' then Inl ErrAggregateIDMissing
      else if oe_user_id i \<noteq> '''' \<and> parse (oe_user_id i) = None then Inl ErrInvalidAggregateUserID
      else if \<not> json_object valid_json (oe_payload i) then Inl ErrOutboxInvalidPayload
      else Inr (i\<lparr>oe_id := (if oe_id i = '''' then fresh else oe_id i),
                  oe_occurred_at := in_loc (if is_zero (oe_occurred_at i) then now
                                            else oe_occurred_at i) utc\<rparr>))"

section \<open>The table\<close>

datatype ob_status = ObPending | ObProcessing | ObPublished | ObFailed

record outbox_row =
  or_id :: uuid
  or_type :: string
  or_aggregate_type :: string
  or_aggregate_id :: string
  or_user_id :: "uuid option"
  or_payload :: string
  or_status :: ob_status
  or_attempts :: int
  or_max_attempts :: int
  or_next_attempt_at :: gotime
  or_last_error :: "string option"
  or_locked_at :: "gotime option"
  or_locked_by :: "string option"
  or_published_at :: "gotime option"
  or_occurred_at :: gotime
  or_created_at :: gotime

definition outbox_checks :: "outbox_row \<Rightarrow> bool" where
  "outbox_checks r \<longleftrightarrow>
     0 \<le> or_attempts r \<and> 0 < or_max_attempts r \<and> or_attempts r \<le> or_max_attempts r \<and>
     (or_status r = ObPublished \<longleftrightarrow> or_published_at r \<noteq> None)"

text \<open>The users of the rows in flight, of which the partial unique index allows one row each.\<close>

definition in_flight :: "outbox_row list \<Rightarrow> uuid list" where
  "in_flight rows =
     map (\<lambda>r. the (or_user_id r))
       (filter (\<lambda>r. or_status r = ObProcessing \<and> or_user_id r \<noteq> None) rows)"

definition insert_event ::
  "(string \<Rightarrow> uuid option) \<Rightarrow> gotime \<Rightarrow> outbox_event \<Rightarrow> int \<Rightarrow> outbox_row list \<Rightarrow>
   outbox_error + outbox_row list" where
  "insert_event parse now e max_attempts rows =
     (case (parse (oe_id e), if oe_user_id e = '''' then Some None
                             else map_option Some (parse (oe_user_id e))) of
        (Some i, Some user) \<Rightarrow>
          if max_attempts \<le> 0 then Inl ErrOutboxDatabase
          else if i \<in> or_id ` set rows then Inr rows
          else Inr (rows @ [\<lparr>or_id = i, or_type = oe_type e,
            or_aggregate_type = oe_aggregate_type e, or_aggregate_id = oe_aggregate_id e,
            or_user_id = user, or_payload = oe_payload e, or_status = ObPending, or_attempts = 0,
            or_max_attempts = max_attempts, or_next_attempt_at = now, or_last_error = None,
            or_locked_at = None, or_locked_by = None, or_published_at = None,
            or_occurred_at = oe_occurred_at e, or_created_at = now\<rparr>])
      | _ \<Rightarrow> Inl ErrOutboxDatabase)"

definition publish_event ::
  "(string \<Rightarrow> uuid option) \<Rightarrow> (string \<Rightarrow> bool) \<Rightarrow> gotime \<Rightarrow> outbox_event \<Rightarrow> int \<Rightarrow> outbox_row list \<Rightarrow>
   outbox_error + outbox_row list" where
  "publish_event parse valid_json now e max_attempts rows =
     (if parse (oe_id e) = None then Inl ErrEventIDMissing
      else if oe_type e = '''' then Inl ErrEventTypeMissing
      else if oe_aggregate_type e = '''' then Inl ErrAggregateTypeMissing
      else if oe_aggregate_id e = '''' then Inl ErrAggregateIDMissing
      else if \<not> json_object valid_json (oe_payload e) then Inl ErrOutboxInvalidPayload
      else if is_zero (oe_occurred_at e) then Inl ErrOccurredAtZero
      else insert_event parse now e max_attempts rows)"

section \<open>Claiming\<close>

text \<open>
  The order of the events of a user: when they occurred, when they were stored, the identifier.
\<close>

definition or_key :: "outbox_row \<Rightarrow> int \<times> int \<times> uuid" where
  "or_key r = (ns (or_occurred_at r), ns (or_created_at r), or_id r)"

definition claimable :: "gotime \<Rightarrow> outbox_row list \<Rightarrow> outbox_row \<Rightarrow> bool" where
  "claimable now rows r \<longleftrightarrow>
     or_status r = ObPending \<and> \<not> after (or_next_attempt_at r) now \<and>
     (or_user_id r = None \<or>
        \<not> (\<exists>p \<in> set rows. or_user_id p = or_user_id r \<and> or_status p = ObProcessing)) \<and>
     \<not> (\<exists>q \<in> set rows. or_user_id q \<noteq> None \<and> or_user_id q = or_user_id r \<and>
          or_status q = ObPending \<and> or_key q < or_key r)"

definition claimed_ids :: "gotime \<Rightarrow> nat \<Rightarrow> outbox_row list \<Rightarrow> uuid list" where
  "claimed_ids now n rows = map or_id (take n (sort_key or_key (filter (claimable now rows) rows)))"

text \<open>
  The claimed rows come back as they are after the update. A violation of the index is swallowed:
  nothing is claimed.
\<close>

definition claim_batch ::
  "gotime \<Rightarrow> string \<Rightarrow> nat \<Rightarrow> outbox_row list \<Rightarrow> outbox_row list \<times> outbox_row list" where
  "claim_batch now who n rows =
     (let ids = claimed_ids now n rows;
          rows' = map (\<lambda>r. if or_id r \<in> set ids
                           then r\<lparr>or_status := ObProcessing, or_locked_at := Some now,
                                  or_locked_by := Some who\<rparr>
                           else r) rows
      in if \<not> distinct (in_flight rows') then ([], rows)
         else (filter (\<lambda>r. or_id r \<in> set ids) rows', rows'))"

section \<open>Marking\<close>

text \<open>
  The three marks update the row by its identifier alone, whatever its status and whoever holds it;
  an update whose result violates a check is refused.
\<close>

definition update_outbox ::
  "uuid \<Rightarrow> (outbox_row \<Rightarrow> outbox_row) \<Rightarrow> outbox_row list \<Rightarrow> outbox_error + outbox_row list" where
  "update_outbox i f rows =
     (let rows' = map (\<lambda>r. if or_id r = i then f r else r) rows in
      if list_all outbox_checks rows' then Inr rows' else Inl ErrOutboxDatabase)"

definition mark_published :: "gotime \<Rightarrow> uuid \<Rightarrow> outbox_row list \<Rightarrow> outbox_error + outbox_row list" where
  "mark_published now i =
     update_outbox i (\<lambda>r. r\<lparr>or_status := ObPublished, or_published_at := Some now,
       or_locked_at := None, or_locked_by := None\<rparr>)"

definition mark_pending_retry ::
  "uuid \<Rightarrow> string \<Rightarrow> gotime \<Rightarrow> outbox_row list \<Rightarrow> outbox_error + outbox_row list" where
  "mark_pending_retry i err next_at =
     update_outbox i (\<lambda>r. r\<lparr>or_status := ObPending, or_attempts := or_attempts r + 1,
       or_last_error := Some err, or_next_attempt_at := next_at, or_locked_at := None,
       or_locked_by := None\<rparr>)"

definition mark_failed :: "uuid \<Rightarrow> string \<Rightarrow> outbox_row list \<Rightarrow> outbox_error + outbox_row list" where
  "mark_failed i err =
     update_outbox i (\<lambda>r. r\<lparr>or_status := ObFailed, or_attempts := or_attempts r + 1,
       or_last_error := Some err, or_locked_at := None, or_locked_by := None\<rparr>)"

definition reset_stuck :: "gotime \<Rightarrow> int \<Rightarrow> outbox_row list \<Rightarrow> int \<times> outbox_row list" where
  "reset_stuck now stuck_after rows =
     (let limit = add_dur now (- ((stuck_after sdiv 1000) * 1000));
          stuck = (\<lambda>r. or_status r = ObProcessing \<and>
                     (case or_locked_at r of None \<Rightarrow> False | Some t \<Rightarrow> before t limit))
      in (int (length (filter stuck rows)),
          map (\<lambda>r. if stuck r
                   then r\<lparr>or_status := ObPending, or_locked_at := None, or_locked_by := None\<rparr>
                   else r) rows))"

definition count_pending :: "gotime \<Rightarrow> outbox_row list \<Rightarrow> int" where
  "count_pending now rows =
     int (length (filter (\<lambda>r. or_status r = ObPending \<and> \<not> after (or_next_attempt_at r) now) rows))"

definition delete_published_batch ::
  "gotime \<Rightarrow> int \<Rightarrow> nat \<Rightarrow> outbox_row list \<Rightarrow> int \<times> outbox_row list" where
  "delete_published_batch now retention limit rows =
     (let edge = add_dur now (- ((retention sdiv 1000) * 1000));
          old = filter (\<lambda>r. or_status r = ObPublished \<and>
                   (case or_published_at r of None \<Rightarrow> False | Some t \<Rightarrow> before t edge)) rows;
          ids = map or_id (take limit (sort_key (\<lambda>r. ns (the (or_published_at r))) old));
          rows' = filter (\<lambda>r. or_id r \<notin> set ids) rows
      in (int (length rows) - int (length rows'), rows'))"

section \<open>Dispatching\<close>

text \<open>
  A handler gets the packed row and returns an error text or nothing. \<open>registry\<close> gives the handlers
  of a type in the order they were registered. What a handler does elsewhere is the business of its
  module; that it ran out of time is an error like any other.
\<close>

datatype handler_outcome = NoHandlers | Handled "string list"

definition run_handlers ::
  "(string \<Rightarrow> (outbox_row \<Rightarrow> string option) list) \<Rightarrow> outbox_row \<Rightarrow> handler_outcome" where
  "run_handlers registry r =
     (let hs = registry (or_type r) in
      if hs = [] then NoHandlers else Handled (List.map_filter (\<lambda>h. h r) hs))"

text \<open>
  The doubled base, capped. \<open>jitter\<close> is the random share of at most a fifth that floating point
  arithmetic adds or takes off.
\<close>

fun double_backoff :: "nat \<Rightarrow> int \<Rightarrow> int \<Rightarrow> int" where
  "double_backoff 0 cap b = b"
| "double_backoff (Suc n) cap b =
     (let b' = i64 (b * 2) in if cap < b' then cap else double_backoff n cap b')"

definition calc_backoff :: "int \<Rightarrow> int \<Rightarrow> (int \<Rightarrow> int) \<Rightarrow> int \<Rightarrow> int" where
  "calc_backoff base cap jitter attempts =
     (let b = double_backoff (nat attempts) cap base; d = b + jitter b
      in if d < 0 then base else d)"

record outbox_config =
  oc_batch :: nat
  oc_base_backoff :: int
  oc_max_backoff :: int
  oc_stuck_after :: int
  oc_retention_days :: int

text \<open>The errors of the handlers are joined with line breaks.\<close>

definition join_errors :: "string list \<Rightarrow> string" where
  "join_errors es = concat (case es of [] \<Rightarrow> [] | e # es' \<Rightarrow> e # map (\<lambda>x. CHR 0x0A # x) es')"

definition mark_row ::
  "outbox_config \<Rightarrow> (int \<Rightarrow> int) \<Rightarrow> gotime \<Rightarrow> outbox_row \<Rightarrow> handler_outcome \<Rightarrow> outbox_row list \<Rightarrow>
   outbox_error + outbox_row list" where
  "mark_row cfg jitter now r outcome rows =
     (case outcome of
        NoHandlers \<Rightarrow> mark_failed (or_id r) ''no handlers registered'' rows
      | Handled [] \<Rightarrow> mark_published now (or_id r) rows
      | Handled es \<Rightarrow>
          if or_max_attempts r \<le> or_attempts r + 1
          then mark_failed (or_id r) (join_errors es) rows
          else mark_pending_retry (or_id r) (join_errors es)
                 (add_dur (in_loc now utc)
                    (calc_backoff (oc_base_backoff cfg) (oc_max_backoff cfg) jitter (or_attempts r)))
                 rows)"

definition process_claimed ::
  "(string \<Rightarrow> (outbox_row \<Rightarrow> string option) list) \<Rightarrow> outbox_config \<Rightarrow> (int \<Rightarrow> int) \<Rightarrow> gotime \<Rightarrow>
   outbox_row \<Rightarrow> outbox_row list \<Rightarrow> (outbox_error + unit) \<times> outbox_row list" where
  "process_claimed registry cfg jitter now r rows =
     (case mark_row cfg jitter now r (run_handlers registry r) rows of
        Inl e \<Rightarrow> (Inl e, rows)
      | Inr rows' \<Rightarrow> (Inr (), rows'))"

text \<open>One run of the dispatcher, alone: the claim, then row by row, the errors collected.\<close>

fun process_rows ::
  "(string \<Rightarrow> (outbox_row \<Rightarrow> string option) list) \<Rightarrow> outbox_config \<Rightarrow> (int \<Rightarrow> int) \<Rightarrow>
   (outbox_row \<Rightarrow> gotime) \<Rightarrow> outbox_row list \<Rightarrow> outbox_row list \<Rightarrow>
   outbox_error list \<times> outbox_row list" where
  "process_rows registry cfg jitter clock [] rows = ([], rows)"
| "process_rows registry cfg jitter clock (r # rs) rows =
     (case process_claimed registry cfg jitter (clock r) r rows of
        (res, rows1) \<Rightarrow>
          (case process_rows registry cfg jitter clock rs rows1 of
             (es, rows2) \<Rightarrow> ((case res of Inl e \<Rightarrow> e # es | Inr _ \<Rightarrow> es), rows2)))"

definition run_dispatcher ::
  "(string \<Rightarrow> (outbox_row \<Rightarrow> string option) list) \<Rightarrow> outbox_config \<Rightarrow> (int \<Rightarrow> int) \<Rightarrow>
   (outbox_row \<Rightarrow> gotime) \<Rightarrow> gotime \<Rightarrow> string \<Rightarrow> outbox_row list \<Rightarrow> outbox_error list \<times> outbox_row list" where
  "run_dispatcher registry cfg jitter clock now who rows =
     (case claim_batch now who (oc_batch cfg) rows of
        (claimed, rows1) \<Rightarrow> process_rows registry cfg jitter clock claimed rows1)"

definition run_reaper :: "outbox_config \<Rightarrow> gotime \<Rightarrow> outbox_row list \<Rightarrow> outbox_row list" where
  "run_reaper cfg now rows = snd (reset_stuck now (oc_stuck_after cfg) rows)"

partial_function (option) housekeeping_loop ::
  "gotime \<Rightarrow> int \<Rightarrow> int \<Rightarrow> outbox_row list \<Rightarrow> (int \<times> outbox_row list) option" where
  "housekeeping_loop now retention deleted rows =
     (let (n, rows1) = delete_published_batch now retention 1000 rows
      in if n = 0 then Some (deleted, rows1)
         else housekeeping_loop now retention (deleted + n) rows1)"

definition run_housekeeping ::
  "outbox_config \<Rightarrow> gotime \<Rightarrow> outbox_row list \<Rightarrow> (int \<times> outbox_row list) option" where
  "run_housekeeping cfg now rows =
     housekeeping_loop now (i64 (i64 (oc_retention_days cfg * 24) * 3600000000000)) 0 rows"

section \<open>Claims keep the order of a user's events\<close>

lemma filter_sub_distinct:
  assumes "distinct (map f (filter P xs))" "\<And>x. x \<in> set xs \<Longrightarrow> Q x \<Longrightarrow> P x"
  shows "distinct (map f (filter Q xs))"
proof -
  have "filter Q (filter P xs) = filter Q xs" using assms(2) by (induction xs) auto
  then show ?thesis using distinct_map_filter [OF assms(1), of Q] by (simp only:)
qed

lemma in_flight_leave:
  assumes "distinct (in_flight rows)" "\<And>r. r \<in> set rows \<Longrightarrow> f r = r \<or> or_status (f r) \<noteq> ObProcessing"
  shows "distinct (in_flight (map f rows))"
proof -
  let ?P = "\<lambda>r. or_status r = ObProcessing \<and> or_user_id r \<noteq> None"
  have "filter (?P \<circ> f) rows = filter (\<lambda>r. ?P (f r) \<and> f r = r) rows"
    using assms(2) by (intro filter_cong) auto
  then have "in_flight (map f rows) =
      map ((\<lambda>r. the (or_user_id r)) \<circ> f) (filter (\<lambda>r. ?P (f r) \<and> f r = r) rows)"
    by (simp add: in_flight_def filter_map)
  also have "\<dots> = map (\<lambda>r. the (or_user_id r)) (filter (\<lambda>r. ?P (f r) \<and> f r = r) rows)"
    by (intro map_cong) auto
  finally have "in_flight (map f rows) =
      map (\<lambda>r. the (or_user_id r)) (filter (\<lambda>r. ?P (f r) \<and> f r = r) rows)" .
  moreover have "distinct (map (\<lambda>r. the (or_user_id r)) (filter (\<lambda>r. ?P (f r) \<and> f r = r) rows))"
    by (rule filter_sub_distinct [OF assms(1) [unfolded in_flight_def]]) auto
  ultimately show ?thesis by simp
qed

lemma in_flight_inject:
  assumes "distinct (in_flight rows)" "x \<in> set rows" "y \<in> set rows" "or_status x = ObProcessing"
    and "or_status y = ObProcessing" "or_user_id x = Some u" "or_user_id y = Some u"
  shows "x = y"
  using assms by (auto simp: in_flight_def distinct_map inj_on_def)

lemma claimed_ids_claimable:
  assumes "i \<in> set (claimed_ids now n rows)"
  shows "\<exists>r \<in> set rows. or_id r = i \<and> claimable now rows r"
  using assms set_take_subset [of n "sort_key or_key (filter (claimable now rows) rows)"]
  by (auto simp: claimed_ids_def)

lemma id_inject: "distinct (map or_id rows) \<Longrightarrow> x \<in> set rows \<Longrightarrow> y \<in> set rows \<Longrightarrow> or_id x = or_id y \<Longrightarrow> x = y"
  by (simp add: distinct_map inj_on_def)

lemma claimable_unique:
  assumes "claimable now rows x" "claimable now rows y" "x \<in> set rows" "y \<in> set rows"
    and "or_user_id x = Some u" "or_user_id y = Some u" "distinct (map or_id rows)"
  shows "x = y"
proof -
  have "\<not> or_key x < or_key y" "\<not> or_key y < or_key x"
    using assms by (auto simp: claimable_def)
  then have "or_key x = or_key y" by simp
  then show ?thesis using id_inject [OF assms(7,3,4)] by (simp add: or_key_def)
qed

lemma claimable_quiet:
  assumes "claimable now rows x" "or_user_id x = Some u" "q \<in> set rows" "or_user_id q = Some u"
  shows "or_status q \<noteq> ObProcessing"
  using assms unfolding claimable_def by auto

text \<open>Claims that run one after another never violate the index.\<close>

lemma claim_fits:
  assumes "distinct (map or_id rows)" "distinct (in_flight rows)"
  shows "distinct (in_flight (map (\<lambda>r. if or_id r \<in> set (claimed_ids now n rows)
    then r\<lparr>or_status := ObProcessing, or_locked_at := Some now, or_locked_by := Some who\<rparr> else r) rows))"
    (is "distinct (in_flight (map ?f rows))")
proof -
  let ?P = "\<lambda>r. or_status r = ObProcessing \<and> or_user_id r \<noteq> None"
  have ids: "distinct (map or_id (map ?f rows))"
    using assms(1) by (simp add: o_def if_distrib cong: if_cong)
  then have rows: "distinct (map ?f rows)" unfolding distinct_map [of or_id] by (rule conjunct1)
  have taken: "claimable now rows r" if "r \<in> set rows" "or_id r \<in> set (claimed_ids now n rows)" for r
    using claimed_ids_claimable [OF that(2)] id_inject [OF assms(1) that(1)] by metis
  have "inj_on (\<lambda>r. the (or_user_id r)) (set (filter ?P (map ?f rows)))"
  proof (rule inj_onI)
    fix x y
    assume *: "x \<in> set (filter ?P (map ?f rows))" "y \<in> set (filter ?P (map ?f rows))"
      "the (or_user_id x) = the (or_user_id y)"
    then obtain a b u where a: "a \<in> set rows" "x = ?f a" and b: "b \<in> set rows" "y = ?f b"
      and u: "or_user_id x = Some u" "or_user_id y = Some u"
      by auto
    have user: "or_user_id (?f r) = or_user_id r" for r by simp
    have au: "or_user_id a = Some u" "or_user_id b = Some u" using a b u user by simp_all
    have proc: "or_status a = ObProcessing \<or> claimable now rows a"
      "or_status b = ObProcessing \<or> claimable now rows b"
      using * a b taken by (auto split: if_splits)
    have "a = b"
    proof (cases "claimable now rows a"; cases "claimable now rows b")
      assume "claimable now rows a" "claimable now rows b"
      then show ?thesis using claimable_unique [OF _ _ a(1) b(1) au assms(1)] by blast
    next
      assume "claimable now rows a" "\<not> claimable now rows b"
      then show ?thesis using proc(2) claimable_quiet [OF _ au(1) b(1) au(2)] by blast
    next
      assume "\<not> claimable now rows a" "claimable now rows b"
      then show ?thesis using proc(1) claimable_quiet [OF _ au(2) a(1) au(1)] by blast
    next
      assume "\<not> claimable now rows a" "\<not> claimable now rows b"
      then show ?thesis using in_flight_inject [OF assms(2) a(1) b(1) _ _ au] proc by blast
    qed
    then show "x = y" using a b by simp
  qed
  then show ?thesis using rows by (simp add: in_flight_def distinct_map)
qed

lemma claim_batch_eq:
  assumes "distinct (map or_id rows)" "distinct (in_flight rows)"
  shows "claim_batch now who n rows =
    (let rows' = map (\<lambda>r. if or_id r \<in> set (claimed_ids now n rows)
       then r\<lparr>or_status := ObProcessing, or_locked_at := Some now, or_locked_by := Some who\<rparr> else r) rows
     in (filter (\<lambda>r. or_id r \<in> set (claimed_ids now n rows)) rows', rows'))"
  using claim_fits [OF assms] by (simp add: claim_batch_def Let_def)

lemma claimed_row:
  assumes "distinct (map or_id rows)" "distinct (in_flight rows)"
    and "claim_batch now who n rows = (claimed, rows')" "r \<in> set claimed"
  shows "\<exists>r0 \<in> set rows. claimable now rows r0 \<and>
    r = r0\<lparr>or_status := ObProcessing, or_locked_at := Some now, or_locked_by := Some who\<rparr>"
proof -
  obtain r0 where r0: "r0 \<in> set rows" "or_id r0 \<in> set (claimed_ids now n rows)"
    "r = r0\<lparr>or_status := ObProcessing, or_locked_at := Some now, or_locked_by := Some who\<rparr>"
    using assms(3,4) by (auto simp: claim_batch_eq [OF assms(1,2)] Let_def split: if_splits)
  then show ?thesis using claimed_ids_claimable [OF r0(2)] id_inject [OF assms(1) r0(1)] by metis
qed

text \<open>
  C23: The events of a user are handed to the handlers one at a time and in order: when a row is
  claimed, no other event of its user is in flight or claimed with it, and every earlier event of
  the user has been published or has failed for good.
\<close>

theorem claim_in_order:
  assumes "distinct (map or_id rows)" "distinct (in_flight rows)"
    and "claim_batch now who n rows = (claimed, rows')" "r \<in> set claimed" "or_user_id r = Some u"
  shows "(\<forall>q \<in> set rows. or_user_id q = Some u \<longrightarrow> or_status q \<noteq> ObProcessing) \<and>
    (\<forall>q \<in> set claimed. or_user_id q = Some u \<longrightarrow> q = r) \<and>
    (\<forall>q \<in> set rows. or_user_id q = Some u \<longrightarrow> or_key q < or_key r \<longrightarrow>
       or_status q \<in> {ObPublished, ObFailed})"
proof -
  obtain r0 where r0: "r0 \<in> set rows" "claimable now rows r0"
    "r = r0\<lparr>or_status := ObProcessing, or_locked_at := Some now, or_locked_by := Some who\<rparr>"
    using claimed_row [OF assms(1-4)] by blast
  have u: "or_user_id r0 = Some u" "or_key r = or_key r0" using assms(5) r0(3) by (simp_all add: or_key_def)
  have quiet: "or_status q \<noteq> ObProcessing" if "q \<in> set rows" "or_user_id q = Some u" for q
    using claimable_quiet [OF r0(2) u(1) that] .
  have "q = r" if q: "q \<in> set claimed" "or_user_id q = Some u" for q
  proof -
    obtain q0 where "q0 \<in> set rows" "claimable now rows q0"
      "q = q0\<lparr>or_status := ObProcessing, or_locked_at := Some now, or_locked_by := Some who\<rparr>"
      using claimed_row [OF assms(1-3) q(1)] by blast
    then show ?thesis using claimable_unique [of now rows q0 r0 u] r0 u q(2) assms(1) by simp
  qed
  moreover have "or_status q \<in> {ObPublished, ObFailed}"
    if "q \<in> set rows" "or_user_id q = Some u" "or_key q < or_key r" for q
    using r0(2) u that quiet [OF that(1,2)] by (cases "or_status q") (auto simp: claimable_def)
  ultimately show ?thesis using quiet by blast
qed

definition sample_outbox_row :: "uuid \<Rightarrow> uuid option \<Rightarrow> outbox_row" where
  "sample_outbox_row i user = \<lparr>or_id = i, or_type = ''t'', or_aggregate_type = ''a'', or_aggregate_id = ''1'',
     or_user_id = user, or_payload = ''{}'', or_status = ObPending, or_attempts = 0,
     or_max_attempts = 5, or_next_attempt_at = \<lparr>ns = 100, loc = utc\<rparr>, or_last_error = None,
     or_locked_at = None, or_locked_by = None, or_published_at = None,
     or_occurred_at = \<lparr>ns = 100 - uint i, loc = utc\<rparr>, or_created_at = \<lparr>ns = 100, loc = utc\<rparr>\<rparr>"

text \<open>Of two events of a user, the one that occurred later was stored first; it has to wait.\<close>

theorem claim_in_order_witness:
  "(case claim_batch (\<lparr>ns = 200, loc = utc\<rparr>) ''w'' 10
      [sample_outbox_row 1 (Some 7), sample_outbox_row 2 (Some 7), sample_outbox_row 3 None] of
    (claimed, _) \<Rightarrow> map or_id claimed = [2, 3] \<and> (\<forall>q \<in> set claimed. or_user_id q = Some 7 \<longrightarrow> q = hd claimed))"
proof -
  let ?rows = "[sample_outbox_row 1 (Some 7), sample_outbox_row 2 (Some 7), sample_outbox_row 3 None]"
  obtain claimed rows' where c: "claim_batch (\<lparr>ns = 200, loc = utc\<rparr>) ''w'' 10 ?rows = (claimed, rows')"
    by (rule prod.exhaust)
  have run: "claimed = map (\<lambda>r. r\<lparr>or_status := ObProcessing, or_locked_at := Some (\<lparr>ns = 200, loc = utc\<rparr>),
      or_locked_by := Some ''w''\<rparr>) [sample_outbox_row 2 (Some 7), sample_outbox_row 3 None]"
    using c by (simp add: claim_batch_def claimed_ids_def claimable_def sample_outbox_row_def or_key_def
        in_flight_def Let_def after_def)
  show ?thesis
    using claim_in_order [of ?rows "\<lparr>ns = 200, loc = utc\<rparr>" "''w''" 10 claimed rows' "hd claimed" 7] c
    by (simp add: run) (simp add: sample_outbox_row_def in_flight_def)
qed

section \<open>The backoff\<close>



section \<open>No event is lost\<close>

text \<open>
  The table together with three things the code does not store: the rows some dispatcher has
  claimed at some time, the identifiers ever inserted, and those whose handlers have all returned
  without an error. A dispatcher may mark any row it once claimed, at any later time, after the
  reaper or another dispatcher has changed it, or never.
\<close>

record outbox_state =
  os_rows :: "outbox_row list"
  os_taken :: "outbox_row set"
  os_known :: "uuid set"
  os_delivered :: "uuid set"

inductive outbox_step :: "outbox_state \<Rightarrow> outbox_state \<Rightarrow> bool" where
  insert: "publish_event parse valid_json now e m (os_rows s) = Inr rows \<Longrightarrow>
    outbox_step s (s\<lparr>os_rows := rows, os_known := os_known s \<union> or_id ` set rows\<rparr>)"
| claim: "claim_batch now who n (os_rows s) = (claimed, rows) \<Longrightarrow>
    outbox_step s (s\<lparr>os_rows := rows, os_taken := os_taken s \<union> set claimed\<rparr>)"
| deliver: "r \<in> os_taken s \<Longrightarrow>
    process_claimed registry cfg jitter now r (os_rows s) = (res, rows) \<Longrightarrow>
    outbox_step s (s\<lparr>os_rows := rows, os_delivered := os_delivered s \<union>
      (if run_handlers registry r = Handled [] then {or_id r} else {})\<rparr>)"
| reap: "outbox_step s (s\<lparr>os_rows := run_reaper cfg now (os_rows s)\<rparr>)"
| clean: "delete_published_batch now retention limit (os_rows s) = (k, rows) \<Longrightarrow>
    outbox_step s (s\<lparr>os_rows := rows\<rparr>)"

inductive outbox_reachable :: "outbox_state \<Rightarrow> bool" where
  empty: "outbox_reachable \<lparr>os_rows = [], os_taken = {}, os_known = {}, os_delivered = {}\<rparr>"
| step: "outbox_reachable s \<Longrightarrow> outbox_step s t \<Longrightarrow> outbox_reachable t"

definition outbox_ok :: "outbox_state \<Rightarrow> bool" where
  "outbox_ok s \<longleftrightarrow>
     distinct (map or_id (os_rows s)) \<and> distinct (in_flight (os_rows s)) \<and>
     list_all outbox_checks (os_rows s) \<and>
     (\<forall>r \<in> set (os_rows s). or_status r = ObPublished \<longrightarrow> or_id r \<in> os_delivered s) \<and>
     os_known s \<subseteq> or_id ` set (os_rows s) \<union> os_delivered s"

lemma update_outbox_Inr:
  assumes "update_outbox i f rows = Inr rows'"
  shows "rows' = map (\<lambda>r. if or_id r = i then f r else r) rows" "list_all outbox_checks rows'"
  using assms by (auto simp: update_outbox_def Let_def split: if_splits)

text \<open>What a mark does: the row leaves its flight, published only when its handlers agreed.\<close>

lemma mark_row_Inr:
  assumes "mark_row cfg jitter now r outcome rows = Inr rows'"
  shows "\<exists>f. rows' = map (\<lambda>x. if or_id x = or_id r then f x else x) rows \<and>
    list_all outbox_checks rows' \<and> (\<forall>x. or_id (f x) = or_id x \<and> or_status (f x) \<noteq> ObProcessing \<and>
      or_published_at (f x) \<in> {or_published_at x, Some now}) \<and>
    (\<forall>x. or_status (f x) = ObPublished \<longrightarrow> outcome = Handled [])"
proof (cases outcome)
  case NoHandlers
  then show ?thesis
    using assms update_outbox_Inr by (fastforce simp: mark_row_def mark_failed_def)
next
  case (Handled es)
  show ?thesis
  proof (cases es)
    case Nil
    then show ?thesis
      using assms Handled update_outbox_Inr by (fastforce simp: mark_row_def mark_published_def)
  next
    case (Cons e es')
    then show ?thesis
      using assms Handled update_outbox_Inr
      by (fastforce simp: mark_row_def mark_failed_def mark_pending_retry_def split: if_splits)
  qed
qed

lemma map_ids_same: "(\<And>x. or_id (f x) = or_id x) \<Longrightarrow> map or_id (map f rows) = map or_id rows"
  by (induction rows) auto

lemma same_ids_set: "map or_id xs = map or_id ys \<Longrightarrow> or_id ` set xs = or_id ` set ys"
  by (metis set_map)

lemma rows_ok:
  assumes "outbox_ok s" "map or_id rows = map or_id (os_rows s)" "distinct (in_flight rows)"
    and "list_all outbox_checks rows"
    and "\<And>r. r \<in> set rows \<Longrightarrow> or_status r = ObPublished \<Longrightarrow> or_id r \<in> os_delivered s"
  shows "outbox_ok (s\<lparr>os_rows := rows\<rparr>)"
  using assms same_ids_set [OF assms(2)] by (simp add: outbox_ok_def)

lemma insert_ok:
  assumes "outbox_ok s" "publish_event parse valid_json now e m (os_rows s) = Inr rows"
  shows "outbox_ok (s\<lparr>os_rows := rows, os_known := os_known s \<union> or_id ` set rows\<rparr>)"
proof -
  have "insert_event parse now e m (os_rows s) = Inr rows"
    using assms(2) by (auto simp: publish_event_def split: if_splits)
  then have "rows = os_rows s \<or> (\<exists>r. rows = os_rows s @ [r] \<and> or_id r \<notin> or_id ` set (os_rows s) \<and>
      or_status r = ObPending \<and> outbox_checks r)"
    by (auto simp: insert_event_def outbox_checks_def split: option.splits if_splits)
  then show ?thesis
    using assms(1) by (auto simp: outbox_ok_def in_flight_def)
qed

lemma claim_ok:
  assumes "outbox_ok s" "claim_batch now who n (os_rows s) = (claimed, rows)"
  shows "outbox_ok (s\<lparr>os_rows := rows, os_taken := os_taken s \<union> set claimed\<rparr>)"
proof -
  let ?f = "\<lambda>r. if or_id r \<in> set (claimed_ids now n (os_rows s)) then r\<lparr>or_status := ObProcessing,
    or_locked_at := Some now, or_locked_by := Some who\<rparr> else r"
  have d: "distinct (map or_id (os_rows s))" "distinct (in_flight (os_rows s))"
    using assms(1) by (simp_all add: outbox_ok_def)
  have rows: "rows = map ?f (os_rows s)"
    using assms(2) by (simp add: claim_batch_eq [OF d] Let_def)
  have ids: "map or_id rows = map or_id (os_rows s)" unfolding rows by (rule map_ids_same) simp
  have pend: "or_status r = ObPending"
    if "r \<in> set (os_rows s)" "or_id r \<in> set (claimed_ids now n (os_rows s))" for r
    using claimed_ids_claimable [OF that(2)] id_inject [OF d(1) that(1)] by (metis claimable_def)
  have "list_all outbox_checks rows"
    using assms(1) pend by (auto simp: rows outbox_ok_def list_all_iff outbox_checks_def)
  moreover have "or_id ` set rows = or_id ` set (os_rows s)" by (rule same_ids_set [OF ids])
  moreover have "distinct (in_flight rows)" unfolding rows by (rule claim_fits [OF d])
  moreover have "\<forall>r \<in> set rows. or_status r = ObPublished \<longrightarrow> or_id r \<in> os_delivered s"
    using assms(1) by (auto simp: rows outbox_ok_def)
  ultimately show ?thesis using assms(1) ids by (simp add: outbox_ok_def)
qed

lemma deliver_ok:
  assumes "outbox_ok s" "process_claimed registry cfg jitter now r (os_rows s) = (res, rows)"
  shows "outbox_ok (s\<lparr>os_rows := rows, os_delivered := os_delivered s \<union>
    (if run_handlers registry r = Handled [] then {or_id r} else {})\<rparr>)"
proof (cases "mark_row cfg jitter now r (run_handlers registry r) (os_rows s)")
  case (Inl e)
  then have "rows = os_rows s" using assms(2) by (simp add: process_claimed_def)
  then show ?thesis using assms(1) by (auto simp: outbox_ok_def)
next
  case (Inr rows')
  then have "rows' = rows" using assms(2) by (simp add: process_claimed_def)
  with mark_row_Inr [OF Inr] obtain f where f:
    "rows = map (\<lambda>x. if or_id x = or_id r then f x else x) (os_rows s)" "list_all outbox_checks rows"
    "\<And>x. or_id (f x) = or_id x" "\<And>x. or_status (f x) \<noteq> ObProcessing"
    "\<And>x. or_status (f x) = ObPublished \<Longrightarrow> run_handlers registry r = Handled []"
    by blast
  have ids: "map or_id rows = map or_id (os_rows s)" unfolding f(1) by (rule map_ids_same) (simp add: f(3))
  then have "or_id ` set rows = or_id ` set (os_rows s)" by (rule same_ids_set)
  moreover have "distinct (in_flight rows)"
    unfolding f(1) by (rule in_flight_leave) (use assms(1) f(4) in \<open>auto simp: outbox_ok_def\<close>)
  moreover have "or_id x \<in> os_delivered s \<union> (if run_handlers registry r = Handled [] then {or_id r} else {})"
    if "x \<in> set rows" "or_status x = ObPublished" for x
    using that assms(1) f(3,5) by (auto simp: f(1) outbox_ok_def split: if_splits)
  ultimately show ?thesis using assms(1) ids f(2) by (auto simp: outbox_ok_def)
qed

lemma reap_ok:
  assumes "outbox_ok s"
  shows "outbox_ok (s\<lparr>os_rows := run_reaper cfg now (os_rows s)\<rparr>)"
proof -
  define stuck where "stuck = (\<lambda>r :: outbox_row. or_status r = ObProcessing \<and> (case or_locked_at r of
    None \<Rightarrow> False | Some t \<Rightarrow> before t (add_dur now (- (oc_stuck_after cfg sdiv 1000 * 1000)))))"
  have rows: "run_reaper cfg now (os_rows s) = map (\<lambda>r. if stuck r
      then r\<lparr>or_status := ObPending, or_locked_at := None, or_locked_by := None\<rparr> else r) (os_rows s)"
    by (simp add: run_reaper_def reset_stuck_def Let_def stuck_def)
  have stuck: "or_status r = ObProcessing" if "stuck r" for r
    using that by (simp add: stuck_def)
  show ?thesis
    unfolding rows
  proof (rule rows_ok [OF assms])
    show "distinct (in_flight (map (\<lambda>r. if stuck r
      then r\<lparr>or_status := ObPending, or_locked_at := None, or_locked_by := None\<rparr> else r) (os_rows s)))"
      by (rule in_flight_leave) (use assms in \<open>auto simp: outbox_ok_def\<close>)
  qed (use assms stuck in \<open>auto simp: outbox_ok_def list_all_iff outbox_checks_def\<close>)
qed

lemma clean_ok:
  assumes "outbox_ok s" "delete_published_batch now retention limit (os_rows s) = (k, rows)"
  shows "outbox_ok (s\<lparr>os_rows := rows\<rparr>)"
proof -
  define old where "old = filter (\<lambda>r. or_status r = ObPublished \<and> (case or_published_at r of
    None \<Rightarrow> False | Some t \<Rightarrow> before t (add_dur now (- (retention sdiv 1000 * 1000))))) (os_rows s)"
  define ids where "ids = map or_id (take limit (sort_key (\<lambda>r. ns (the (or_published_at r))) old))"
  have rows: "rows = filter (\<lambda>r. or_id r \<notin> set ids) (os_rows s)"
    using assms(2) by (simp add: delete_published_batch_def Let_def old_def ids_def)
  have old: "\<exists>r \<in> set (os_rows s). or_id r = i \<and> or_status r = ObPublished" if "i \<in> set ids" for i
    using that by (auto simp: ids_def old_def dest!: in_set_takeD)
  have "distinct (map or_id rows)" "list_all outbox_checks rows"
    using assms(1) by (auto simp: rows outbox_ok_def list_all_iff distinct_map_filter)
  moreover have "distinct (in_flight rows)"
    using assms(1) unfolding rows outbox_ok_def in_flight_def filter_filter
    by (auto intro: filter_sub_distinct)
  moreover have "os_known s \<subseteq> or_id ` set rows \<union> os_delivered s"
  proof
    fix i assume "i \<in> os_known s"
    then consider r where "r \<in> set (os_rows s)" "or_id r = i" | "i \<in> os_delivered s"
      using assms(1) by (auto simp: outbox_ok_def)
    then show "i \<in> or_id ` set rows \<union> os_delivered s"
    proof cases
      case 1
      then show ?thesis
        using old [of i] assms(1) by (cases "i \<in> set ids") (auto simp: rows outbox_ok_def)
    qed simp
  qed
  ultimately show ?thesis using assms(1) by (auto simp: outbox_ok_def rows)
qed

text \<open>
  C22: No event is lost and none is published unheard: in every state that inserts, any number of
  dispatchers, late marks, the reaper and the housekeeping can bring about, every event ever
  inserted is still stored or all its handlers have accepted it, and so have the handlers of
  every published row; identifiers are unique and a user has at most one event in flight.
\<close>

theorem outbox_keeps_events:
  assumes "outbox_reachable s"
  shows "outbox_ok s"
  using assms
proof (induction rule: outbox_reachable.induct)
  case empty
  then show ?case by (simp add: outbox_ok_def in_flight_def)
next
  case (step s t)
  from step(2,3) show ?case
    by (cases rule: outbox_step.cases) (simp_all only: insert_ok claim_ok deliver_ok reap_ok clean_ok)
qed

text \<open>
  A dispatcher claims a row and its handlers accept it, but the reaper frees the row before it is
  marked. The late mark still publishes it, and the invariant holds.
\<close>

theorem outbox_keeps_events_witness:
  "(let r = (sample_outbox_row 1 (Some 7))\<lparr>or_id := 0, or_occurred_at := \<lparr>ns = 90, loc = utc\<rparr>\<rparr>;
        now = \<lparr>ns = 10000, loc = utc\<rparr>
    in outbox_ok \<lparr>os_rows = [r\<lparr>or_status := ObPublished, or_published_at := Some now\<rparr>],
         os_taken = {r\<lparr>or_status := ObProcessing, or_locked_at := Some \<lparr>ns = 200, loc = utc\<rparr>,
           or_locked_by := Some ''w''\<rparr>},
         os_known = {0}, os_delivered = {0}\<rparr>)"
proof -
  define r where "r = (sample_outbox_row 1 (Some 7))\<lparr>or_id := 0, or_occurred_at := \<lparr>ns = 90, loc = utc\<rparr>\<rparr>"
  define now where "now = \<lparr>ns = 10000, loc = utc\<rparr>"
  define r1 where "r1 = r\<lparr>or_status := ObProcessing, or_locked_at := Some \<lparr>ns = 200, loc = utc\<rparr>,
    or_locked_by := Some ''w''\<rparr>"
  define e where "e = \<lparr>oe_id = ''i'', oe_type = ''t'', oe_aggregate_type = ''a'', oe_aggregate_id = ''1'',
    oe_user_id = ''u'', oe_payload = ''{}'', oe_occurred_at = \<lparr>ns = 90, loc = utc\<rparr>\<rparr>"
  define cfg where "cfg = \<lparr>oc_batch = 10, oc_base_backoff = 1, oc_max_backoff = 1, oc_stuck_after = 0,
    oc_retention_days = 1\<rparr>"
  define parse where "parse = (\<lambda>s. if s = ''i'' then Some (0::uuid) else if s = ''u'' then Some 7 else None)"
  have put: "publish_event parse (\<lambda>_. True) \<lparr>ns = 100, loc = utc\<rparr> e 5 [] = Inr [r]"
    by (simp add: publish_event_def insert_event_def e_def r_def parse_def sample_outbox_row_def
        json_object_def is_zero_def)
  have take: "claim_batch \<lparr>ns = 200, loc = utc\<rparr> ''w'' 10 [r] = ([r1], [r1])"
    by (simp add: claim_batch_def claimed_ids_def claimable_def r_def r1_def sample_outbox_row_def
        in_flight_def Let_def after_def)
  have free: "run_reaper cfg now [r1] = [r]"
    by (simp add: run_reaper_def reset_stuck_def cfg_def r_def r1_def sample_outbox_row_def Let_def
        before_def now_def add_dur_def)
  have mark: "process_claimed (\<lambda>_. [\<lambda>_. None]) cfg (\<lambda>_. 0) now r1 [r] =
      (Inr (), [r\<lparr>or_status := ObPublished, or_published_at := Some now\<rparr>])"
    by (simp add: process_claimed_def run_handlers_def mark_row_def mark_published_def update_outbox_def
        r_def r1_def sample_outbox_row_def outbox_checks_def List.map_filter_def)
  have heard: "run_handlers (\<lambda>_. [\<lambda>_. None]) r1 = Handled []" "or_id r1 = 0" "or_id r = 0"
    by (simp_all add: run_handlers_def List.map_filter_def r1_def r_def)
  have s1: "outbox_reachable \<lparr>os_rows = [r], os_taken = {}, os_known = {0}, os_delivered = {}\<rparr>"
    using outbox_reachable.step [OF outbox_reachable.empty outbox_step.insert] put heard by fastforce
  have s2: "outbox_reachable \<lparr>os_rows = [r1], os_taken = {r1}, os_known = {0}, os_delivered = {}\<rparr>"
    using outbox_reachable.step [OF s1 outbox_step.claim] take by fastforce
  have s3: "outbox_reachable \<lparr>os_rows = [r], os_taken = {r1}, os_known = {0}, os_delivered = {}\<rparr>"
    using outbox_reachable.step [OF s2 outbox_step.reap [of _ cfg now]] free by simp
  have s4: "outbox_reachable \<lparr>os_rows = [r\<lparr>or_status := ObPublished, or_published_at := Some now\<rparr>],
      os_taken = {r1}, os_known = {0}, os_delivered = {0}\<rparr>"
    using outbox_reachable.step [OF s3 outbox_step.deliver [of r1 _ "\<lambda>_. [\<lambda>_. None]" cfg "\<lambda>_. 0" now]]
      mark heard by simp
  show ?thesis using outbox_keeps_events [OF s4] by (simp add: Let_def r_def r1_def now_def)
qed

section \<open>The housekeeping ends\<close>

lemma delete_published_shrinks:
  "delete_published_batch now retention limit rows = (n, rows') \<Longrightarrow>
   n = int (length rows) - int (length rows') \<and> length rows' \<le> length rows"
  by (auto simp: delete_published_batch_def Let_def)

lemma housekeeping_loop_ends:
  "\<exists>rows'. housekeeping_loop now retention deleted rows =
     Some (deleted + int (length rows) - int (length rows'), rows')"
proof (induction "length rows" arbitrary: rows deleted rule: less_induct)
  case less
  obtain n rows1 where d: "delete_published_batch now retention 1000 rows = (n, rows1)"
    by (rule prod.exhaust)
  note s = delete_published_shrinks [OF d]
  show ?case
  proof (cases "n = 0")
    case True
    then show ?thesis using s by (subst housekeeping_loop.simps) (simp add: d)
  next
    case False
    then show ?thesis
      using less [of rows1 "deleted + n"] s by (subst housekeeping_loop.simps) (simp add: d)
  qed
qed

text \<open>One run deletes what it reports, and ends.\<close>

lemma housekeeping_ends:
  "\<exists>rows'. run_housekeeping cfg now rows = Some (int (length rows) - int (length rows'), rows')"
  using housekeeping_loop_ends [of now _ 0 rows] by (simp add: run_housekeeping_def)

end
