(* ===== verification/BudgetAlerts.thy ===== *)
theory BudgetAlerts
  imports BudgetExpenses
begin

text \<open>
  The alerts a committed change of an expense raises: the thresholds of 80 and 100 per cent of what
  is planned for a category and month (\<open>threshold_evaluator.go\<close>), their state with the time of the
  last change that was evaluated (\<open>threshold_state_repository.go\<close>), the rows of \<open>budgets_alerts\<close>
  (\<open>alert_repository.go\<close>), the decision of \<open>alert_workflow.go\<close> and the use case
  \<open>evaluate_alert.go\<close>, which the consumer of the committed events calls.
\<close>

section \<open>Thresholds\<close>

record transition =
  tr_threshold :: threshold
  tr_now_crossed :: bool
  tr_was_crossed :: bool
  tr_is_real :: bool

definition is_crossed :: "int \<Rightarrow> int \<Rightarrow> threshold \<Rightarrow> bool" where
  "is_crossed spent planned t \<longleftrightarrow> i64 (planned * threshold_int t) \<le> i64 (spent * 100)"

definition evaluate_thresholds ::
  "int \<Rightarrow> int \<Rightarrow> (threshold \<Rightarrow> bool) \<Rightarrow> budget_error + transition list" where
  "evaluate_thresholds spent planned crossed =
     (if planned \<le> 0 then Inl ErrThresholdPlannedZero
      else Inr (map (\<lambda>t. \<lparr>tr_threshold = t, tr_now_crossed = is_crossed spent planned t,
                         tr_was_crossed = crossed t,
                         tr_is_real = (is_crossed spent planned t \<noteq> crossed t)\<rparr>)
                  [Threshold80, Threshold100]))"

section \<open>The state of the thresholds\<close>

type_synonym threshold_key = "uuid \<times> competence \<times> root_slug \<times> threshold"

record threshold_state =
  ts_key :: threshold_key
  ts_crossed :: bool
  ts_version :: int
  ts_last_crossed_at :: "gotime option"
  ts_last_uncrossed_at :: "gotime option"
  ts_evaluated_at :: "gotime option"

definition ts_stale :: "gotime \<Rightarrow> threshold_state \<Rightarrow> bool" where
  "ts_stale at_time s \<longleftrightarrow>
     (case ts_evaluated_at s of None \<Rightarrow> False | Some t \<Rightarrow> \<not> after at_time t)"

definition ts_update :: "bool \<Rightarrow> gotime \<Rightarrow> threshold_state \<Rightarrow> threshold_state" where
  "ts_update now_crossed at_time s =
     (if ts_stale at_time s then s
      else s\<lparr>ts_crossed := now_crossed,
             ts_version := (if ts_crossed s \<noteq> now_crossed then ts_version s + 1 else ts_version s),
             ts_last_crossed_at := (if now_crossed then Some at_time else ts_last_crossed_at s),
             ts_last_uncrossed_at := (if \<not> now_crossed \<and> ts_crossed s then Some at_time
                                      else ts_last_uncrossed_at s),
             ts_evaluated_at := Some at_time\<rparr>)"

text \<open>
  The statement reads the row before, writes the row and compares: the answer is whether the state
  changed, and yes for a row that was not there.
\<close>

definition upsert_if_transition ::
  "threshold_key \<Rightarrow> bool \<Rightarrow> gotime \<Rightarrow> threshold_state list \<Rightarrow> bool \<times> threshold_state list" where
  "upsert_if_transition k now_crossed at_time rows =
     (case find (\<lambda>s. ts_key s = k) rows of
        None \<Rightarrow> (True, rows @ [\<lparr>ts_key = k, ts_crossed = now_crossed, ts_version = 0,
           ts_last_crossed_at = (if now_crossed then Some at_time else None),
           ts_last_uncrossed_at = (if now_crossed then None else Some at_time),
           ts_evaluated_at = Some at_time\<rparr>])
      | Some s \<Rightarrow> (ts_crossed s \<noteq> ts_crossed (ts_update now_crossed at_time s),
           map (\<lambda>r. if ts_key r = k then ts_update now_crossed at_time r else r) rows))"

definition get_currently_crossed ::
  "uuid \<Rightarrow> competence \<Rightarrow> root_slug \<Rightarrow> threshold_state list \<Rightarrow> threshold \<Rightarrow> bool" where
  "get_currently_crossed u c slug rows t =
     (case find (\<lambda>s. ts_key s = (u, c, slug, t)) rows of None \<Rightarrow> False | Some s \<Rightarrow> ts_crossed s)"

section \<open>Alerts\<close>

datatype alert_state =
    AlertPendingDelivery | AlertDelivered | AlertSuppressedStale | AlertSuppressedRetroactive
  | AlertRateLimited

record budget_alert =
  ba_id :: uuid
  ba_user_id :: uuid
  ba_competence :: competence
  ba_root_slug :: root_slug
  ba_threshold :: threshold
  ba_state :: alert_state
  ba_committed_at :: gotime
  ba_spent_cents :: int
  ba_planned_cents :: int
  ba_created_at :: gotime

definition visible_alert_states :: "alert_state list" where
  "visible_alert_states = [AlertPendingDelivery, AlertDelivered]"

definition is_visible_to_user :: "budget_alert \<Rightarrow> bool" where
  "is_visible_to_user a \<longleftrightarrow> ba_state a = AlertPendingDelivery \<or> ba_state a = AlertDelivered"

definition max_delivered_alerts :: int where
  "max_delivered_alerts = 10"

definition is_retroactive_alert :: "competence \<Rightarrow> competence \<Rightarrow> bool" where
  "is_retroactive_alert c cutoff = comp_before c cutoff"

definition decide_alert_for_insert :: "bool \<Rightarrow> int \<Rightarrow> alert_state" where
  "decide_alert_for_insert retroactive delivered =
     (if retroactive then AlertSuppressedRetroactive
      else if max_delivered_alerts \<le> delivered then AlertRateLimited
      else AlertDelivered)"

definition ba_key :: "budget_alert \<Rightarrow> threshold_key" where
  "ba_key a = (ba_user_id a, ba_competence a, ba_root_slug a, ba_threshold a)"

definition count_delivered :: "threshold_key \<Rightarrow> budget_alert list \<Rightarrow> int" where
  "count_delivered k rows =
     int (length (filter (\<lambda>a. ba_key a = k \<and> ba_state a \<in> set visible_alert_states) rows))"

definition insert_alert_row :: "budget_alert \<Rightarrow> budget_alert list \<Rightarrow> budget_error + budget_alert list" where
  "insert_alert_row a rows =
     (if ba_id a \<in> ba_id ` set rows then Inl ErrBudgetDatabase else Inr (rows @ [a]))"

text \<open>
  The deletion takes any rows that are old enough, at most \<open>limit\<close> of them: here the first ones.
  The edge is what \<open>now() - interval\<close> comes to.
\<close>

definition purge_old_alerts :: "gotime \<Rightarrow> nat \<Rightarrow> budget_alert list \<Rightarrow> int \<times> budget_alert list" where
  "purge_old_alerts edge limit rows =
     (let ids = map ba_id (take limit (filter (\<lambda>a. before (ba_created_at a) edge) rows));
          rows' = filter (\<lambda>a. ba_id a \<notin> set ids) rows
      in (int (length rows) - int (length rows'), rows'))"

section \<open>Evaluating a change\<close>

record alert_db =
  ad_expenses :: expense_db
  ad_states :: "threshold_state list"
  ad_alerts :: "budget_alert list"

record evaluate_alert_input =
  ea_user_id :: uuid
  ea_competence :: competence
  ea_root_slug :: root_slug
  ea_committed_at :: gotime
  ea_cutoff :: competence

text \<open>The identifiers and the clock readings of one call, one for each threshold.\<close>

record alert_call =
  ac_alert_id :: "threshold \<Rightarrow> uuid"
  ac_now :: "threshold \<Rightarrow> gotime"

definition planned_for :: "root_slug \<Rightarrow> budget \<Rightarrow> int" where
  "planned_for slug b =
     (case find (\<lambda>a. al_root_slug a = slug) (bu_allocations b) of
        None \<Rightarrow> 0 | Some a \<Rightarrow> al_planned_cents a)"

definition persist_decided_alert ::
  "alert_call \<Rightarrow> evaluate_alert_input \<Rightarrow> threshold \<Rightarrow> int \<Rightarrow> int \<Rightarrow> alert_state \<Rightarrow> alert_db \<Rightarrow>
   (budget_error list + unit) \<times> alert_db" where
  "persist_decided_alert ca i t spent planned state db =
     (case insert_alert_row \<lparr>ba_id = ac_alert_id ca t, ba_user_id = ea_user_id i,
             ba_competence = ea_competence i, ba_root_slug = ea_root_slug i, ba_threshold = t,
             ba_state = state, ba_committed_at = ea_committed_at i, ba_spent_cents = spent,
             ba_planned_cents = planned, ba_created_at = ac_now ca t\<rparr> (ad_alerts db) of
        Inl e \<Rightarrow> (Inl [e], db)
      | Inr rows \<Rightarrow> (Inr (), db\<lparr>ad_alerts := rows\<rparr>))"

definition insert_alert ::
  "alert_call \<Rightarrow> evaluate_alert_input \<Rightarrow> threshold \<Rightarrow> int \<Rightarrow> int \<Rightarrow> alert_db \<Rightarrow>
   (budget_error list + unit) \<times> alert_db" where
  "insert_alert ca i t spent planned db =
     (if is_retroactive_alert (ea_competence i) (ea_cutoff i)
      then persist_decided_alert ca i t spent planned (decide_alert_for_insert True 0) db
      else persist_decided_alert ca i t spent planned
             (decide_alert_for_insert False
                (count_delivered (ea_user_id i, ea_competence i, ea_root_slug i, t) (ad_alerts db)))
             db)"

definition handle_transition ::
  "alert_call \<Rightarrow> evaluate_alert_input \<Rightarrow> transition \<Rightarrow> int \<Rightarrow> int \<Rightarrow> alert_db \<Rightarrow>
   (budget_error list + unit) \<times> alert_db" where
  "handle_transition ca i tr spent planned db =
     (case upsert_if_transition (ea_user_id i, ea_competence i, ea_root_slug i, tr_threshold tr)
             (tr_now_crossed tr) (ea_committed_at i) (ad_states db) of
        (transitioned, states) \<Rightarrow>
          if \<not> transitioned \<or> \<not> tr_now_crossed tr then (Inr (), db\<lparr>ad_states := states\<rparr>)
          else insert_alert ca i (tr_threshold tr) spent planned (db\<lparr>ad_states := states\<rparr>))"

fun handle_transitions ::
  "alert_call \<Rightarrow> evaluate_alert_input \<Rightarrow> int \<Rightarrow> int \<Rightarrow> transition list \<Rightarrow> alert_db \<Rightarrow>
   (budget_error list + unit) \<times> alert_db" where
  "handle_transitions ca i spent planned [] db = (Inr (), db)"
| "handle_transitions ca i spent planned (tr # trs) db =
     (case handle_transition ca i tr spent planned db of
        (Inl es, db1) \<Rightarrow> (Inl es, db1)
      | (Inr _, db1) \<Rightarrow> handle_transitions ca i spent planned trs db1)"

text \<open>
  A month without a budget, with a draft, or with nothing planned for the category is skipped. A
  category without an expense has spent nothing.
\<close>

definition evaluate_alert_in_tx ::
  "alert_call \<Rightarrow> evaluate_alert_input \<Rightarrow> alert_db \<Rightarrow> (budget_error list + unit) \<times> alert_db" where
  "evaluate_alert_in_tx ca i db =
     (case get_by_user_competence (ea_user_id i) (ea_competence i) (ex_plans (ad_expenses db)) of
        Inl e \<Rightarrow> if e = ErrBudgetNotFound then (Inr (), db) else (Inl [e], db)
      | Inr b \<Rightarrow>
          if bu_state b \<noteq> BudgetActive \<or> bu_id b = uuid_nil then (Inr (), db)
          else if planned_for (ea_root_slug i) b \<le> 0 then (Inr (), db)
          else
            (let planned = planned_for (ea_root_slug i) b;
                 spent = (case sum_by_root (ea_user_id i) (ea_competence i) (ad_expenses db)
                                 (ea_root_slug i) of None \<Rightarrow> 0 | Some n \<Rightarrow> n)
             in case evaluate_thresholds spent planned (get_currently_crossed (ea_user_id i)
                       (ea_competence i) (ea_root_slug i) (ad_states db)) of
                  Inl e \<Rightarrow> (Inl [e], db)
                | Inr trs \<Rightarrow> handle_transitions ca i spent planned trs db))"

definition evaluate_alert ::
  "alert_call \<Rightarrow> evaluate_alert_input \<Rightarrow> alert_db \<Rightarrow> (budget_error list + unit) \<times> alert_db" where
  "evaluate_alert ca i db =
     (case new_competence (comp_value (ea_competence i)) of
        Inl _ \<Rightarrow> (Inl [ErrCommandInvalidCompetence], db)
      | Inr _ \<Rightarrow> do_tx (evaluate_alert_in_tx ca i) db)"

text \<open>
  The event travels with its time in whole seconds, and in the years that the format can print.
\<close>

definition whole_seconds :: "gotime \<Rightarrow> gotime" where
  "whole_seconds t = \<lparr>ns = ns t - ns t mod second_ns, loc = utc\<rparr>"

definition handle_expense_committed ::
  "alert_call \<Rightarrow> expense_committed \<Rightarrow> alert_db \<Rightarrow> (budget_error list + unit) \<times> alert_db" where
  "handle_expense_committed ca e db =
     (case (new_competence (comp_value (ec_competence e)), new_competence (comp_value (ec_cutoff e))) of
        (Inr c, Inr cutoff) \<Rightarrow>
          evaluate_alert ca \<lparr>ea_user_id = ec_user_id e, ea_competence = c,
            ea_root_slug = ec_root_slug e, ea_committed_at = whole_seconds (ec_committed_at e),
            ea_cutoff = cutoff\<rparr> db
      | (Inl err, _) \<Rightarrow> (Inl [err], db)
      | (_, Inl err) \<Rightarrow> (Inl [err], db))"

section \<open>One threshold\<close>

definition state_of :: "threshold_key \<Rightarrow> threshold_state list \<Rightarrow> threshold_state option" where
  "state_of k rows = find (\<lambda>s. ts_key s = k) rows"

lemma state_of_simps [simp]:
  "state_of k [] = None"
  "state_of k (s # rows) = (if ts_key s = k then Some s else state_of k rows)"
  by (simp_all add: state_of_def)

lemma state_of_append:
  "state_of k (xs @ ys) = (case state_of k xs of None \<Rightarrow> state_of k ys | Some s \<Rightarrow> Some s)"
  by (induction xs) auto

lemma ts_key_update [simp]: "ts_key (ts_update c t s) = ts_key s"
  by (simp add: ts_update_def)

lemma state_of_map:
  "(\<And>s. ts_key (f s) = ts_key s) \<Longrightarrow> state_of k (map f rows) = map_option f (state_of k rows)"
  by (induction rows) auto

lemma state_of_key: "state_of k rows = Some s \<Longrightarrow> ts_key s = k"
  by (induction rows) (auto split: if_splits)

lemma state_of_None: "state_of k rows = None \<longleftrightarrow> k \<notin> ts_key ` set rows"
  by (induction rows) auto

definition first_state :: "threshold_key \<Rightarrow> bool \<Rightarrow> gotime \<Rightarrow> threshold_state" where
  "first_state k now_crossed at_time = \<lparr>ts_key = k, ts_crossed = now_crossed, ts_version = 0,
     ts_last_crossed_at = (if now_crossed then Some at_time else None),
     ts_last_uncrossed_at = (if now_crossed then None else Some at_time),
     ts_evaluated_at = Some at_time\<rparr>"

definition evaluated :: "threshold_key \<Rightarrow> bool \<Rightarrow> gotime \<Rightarrow> threshold_state option \<Rightarrow> threshold_state" where
  "evaluated k now_crossed at_time old =
     (case old of None \<Rightarrow> first_state k now_crossed at_time | Some s \<Rightarrow> ts_update now_crossed at_time s)"

lemma upsert_state:
  assumes "upsert_if_transition k c t rows = (b, rows')"
  shows "state_of k' rows' = (if k' = k then Some (evaluated k c t (state_of k rows)) else state_of k' rows)"
    and "b = (case state_of k rows of None \<Rightarrow> True | Some s \<Rightarrow> ts_crossed s \<noteq> ts_crossed (ts_update c t s))"
    and "distinct (map ts_key rows) \<Longrightarrow> distinct (map ts_key rows')"
    and "ts_key ` set rows' = insert k (ts_key ` set rows)"
proof -
  have "state_of k' rows' = (if k' = k then Some (evaluated k c t (state_of k rows)) else state_of k' rows) \<and>
      b = (case state_of k rows of None \<Rightarrow> True | Some s \<Rightarrow> ts_crossed s \<noteq> ts_crossed (ts_update c t s)) \<and>
      (distinct (map ts_key rows) \<longrightarrow> distinct (map ts_key rows')) \<and>
      ts_key ` set rows' = insert k (ts_key ` set rows)"
  proof (cases "state_of k rows")
    case None
    then have "b" "rows' = rows @ [first_state k c t]"
      using assms by (simp_all add: upsert_if_transition_def state_of_def first_state_def)
    then show ?thesis
      using None state_of_None [of k rows]
      by (auto simp: state_of_append evaluated_def first_state_def split: option.splits)
  next
    case (Some s)
    let ?f = "\<lambda>r. if ts_key r = k then ts_update c t r else r"
    have b: "b = (ts_crossed s \<noteq> ts_crossed (ts_update c t s))" "rows' = map ?f rows"
      using assms Some by (simp_all add: upsert_if_transition_def state_of_def)
    have "state_of k' rows' = map_option ?f (state_of k' rows)"
      unfolding b(2) by (rule state_of_map) simp
    then have "state_of k' rows' = (if k' = k then Some (ts_update c t s) else state_of k' rows)"
      using Some state_of_key by (cases "state_of k' rows") fastforce+
    moreover have keys: "map ts_key rows' = map ts_key rows" unfolding b(2) by (induction rows) auto
    moreover have "k \<in> ts_key ` set rows" using Some state_of_None [of k rows] by simp
    moreover have "ts_key ` set rows' = ts_key ` set rows" using keys by (metis set_map)
    ultimately show ?thesis using b(1) Some by (simp add: evaluated_def insert_absorb)
  qed
  then show "state_of k' rows' = (if k' = k then Some (evaluated k c t (state_of k rows)) else state_of k' rows)"
    and "b = (case state_of k rows of None \<Rightarrow> True | Some s \<Rightarrow> ts_crossed s \<noteq> ts_crossed (ts_update c t s))"
    and "distinct (map ts_key rows) \<Longrightarrow> distinct (map ts_key rows')"
    and "ts_key ` set rows' = insert k (ts_key ` set rows)"
    by blast+
qed

text \<open>A threshold rises when it is crossed now, was not before, and the change is newer than the last.\<close>

definition rises :: "threshold_state option \<Rightarrow> gotime \<Rightarrow> bool \<Rightarrow> bool" where
  "rises old at_time now_crossed \<longleftrightarrow> now_crossed \<and>
     (case old of None \<Rightarrow> True | Some s \<Rightarrow> \<not> ts_stale at_time s \<and> \<not> ts_crossed s)"

definition input_key :: "evaluate_alert_input \<Rightarrow> threshold \<Rightarrow> threshold_key" where
  "input_key i t = (ea_user_id i, ea_competence i, ea_root_slug i, t)"

definition alert_for ::
  "alert_call \<Rightarrow> evaluate_alert_input \<Rightarrow> int \<Rightarrow> int \<Rightarrow> budget_alert list \<Rightarrow> threshold \<Rightarrow> budget_alert" where
  "alert_for ca i spent planned rows t =
     \<lparr>ba_id = ac_alert_id ca t, ba_user_id = ea_user_id i, ba_competence = ea_competence i,
      ba_root_slug = ea_root_slug i, ba_threshold = t,
      ba_state = decide_alert_for_insert (is_retroactive_alert (ea_competence i) (ea_cutoff i))
        (count_delivered (input_key i t) rows),
      ba_committed_at = ea_committed_at i, ba_spent_cents = spent, ba_planned_cents = planned,
      ba_created_at = ac_now ca t\<rparr>"

lemma ba_key_alert_for [simp]: "ba_key (alert_for ca i spent planned rows t) = input_key i t"
  by (simp add: ba_key_def alert_for_def input_key_def)

lemma decide_retroactive: "decide_alert_for_insert True n = AlertSuppressedRetroactive"
  by (simp add: decide_alert_for_insert_def)

lemma insert_alert_Inr:
  assumes "insert_alert ca i t spent planned db = (Inr u, db')"
  shows "db' = db\<lparr>ad_alerts := ad_alerts db @ [alert_for ca i spent planned (ad_alerts db) t]\<rparr> \<and>
    ac_alert_id ca t \<notin> ba_id ` set (ad_alerts db)"
  using assms
  by (auto simp: insert_alert_def persist_decided_alert_def insert_alert_row_def alert_for_def
      input_key_def decide_retroactive split: if_splits)

definition raised ::
  "alert_call \<Rightarrow> evaluate_alert_input \<Rightarrow> int \<Rightarrow> int \<Rightarrow> alert_db \<Rightarrow> threshold \<Rightarrow> budget_alert list" where
  "raised ca i spent planned db t =
     (if rises (state_of (input_key i t) (ad_states db)) (ea_committed_at i) (is_crossed spent planned t)
      then [alert_for ca i spent planned (ad_alerts db) t] else [])"

lemma handle_transition_Inr:
  assumes "handle_transition ca i tr spent planned db = (Inr u, db')"
    and "tr_threshold tr = t" "tr_now_crossed tr = is_crossed spent planned t"
  shows "ad_expenses db' = ad_expenses db"
    and "state_of (input_key i t) (ad_states db') = Some (evaluated (input_key i t)
      (is_crossed spent planned t) (ea_committed_at i) (state_of (input_key i t) (ad_states db)))"
    and "k \<noteq> input_key i t \<Longrightarrow> state_of k (ad_states db') = state_of k (ad_states db)"
    and "ad_alerts db' = ad_alerts db @ raised ca i spent planned db t"
    and "distinct (map ba_id (ad_alerts db)) \<Longrightarrow> distinct (map ba_id (ad_alerts db'))"
    and "distinct (map ts_key (ad_states db)) \<Longrightarrow> distinct (map ts_key (ad_states db'))"
    and "ts_key ` set (ad_states db') = insert (input_key i t) (ts_key ` set (ad_states db))"
proof -
  obtain b states where st: "upsert_if_transition (input_key i t) (tr_now_crossed tr)
      (ea_committed_at i) (ad_states db) = (b, states)"
    by (rule prod.exhaust)
  define up where "up = rises (state_of (input_key i t) (ad_states db)) (ea_committed_at i) (tr_now_crossed tr)"
  have rise: "(b \<and> tr_now_crossed tr) = up"
    unfolding up_def rises_def upsert_state(2) [OF st]
    by (auto simp: ts_update_def split: option.splits)
  have "(if \<not> b \<or> \<not> tr_now_crossed tr then (Inr (), db\<lparr>ad_states := states\<rparr>)
      else insert_alert ca i t spent planned (db\<lparr>ad_states := states\<rparr>)) = (Inr u, db')"
    using assms(1) st unfolding handle_transition_def assms(2) input_key_def by simp
  then have db': "db' = db\<lparr>ad_states := states, ad_alerts := ad_alerts db @
      (if up then [alert_for ca i spent planned (ad_alerts db) t] else [])\<rparr>"
    "up \<Longrightarrow> ac_alert_id ca t \<notin> ba_id ` set (ad_alerts db)"
    using rise by (auto split: if_splits dest!: insert_alert_Inr)
  show "ad_alerts db' = ad_alerts db @ raised ca i spent planned db t"
    using db'(1) assms(3) by (simp add: raised_def up_def)
  show "distinct (map ba_id (ad_alerts db)) \<Longrightarrow> distinct (map ba_id (ad_alerts db'))"
    using db' by (cases up) (auto simp: alert_for_def)
  show "ad_expenses db' = ad_expenses db" using db'(1) by simp
  show "state_of (input_key i t) (ad_states db') = Some (evaluated (input_key i t)
      (is_crossed spent planned t) (ea_committed_at i) (state_of (input_key i t) (ad_states db)))"
    using db'(1) assms(3) upsert_state(1) [OF st] by simp
  show "k \<noteq> input_key i t \<Longrightarrow> state_of k (ad_states db') = state_of k (ad_states db)"
    using db'(1) upsert_state(1) [OF st] by simp
  show "distinct (map ts_key (ad_states db)) \<Longrightarrow> distinct (map ts_key (ad_states db'))"
    using db'(1) upsert_state(3) [OF st] by simp
  show "ts_key ` set (ad_states db') = insert (input_key i t) (ts_key ` set (ad_states db))"
    using db'(1) upsert_state(4) [OF st] by simp
qed

section \<open>One evaluation\<close>

definition spent_for :: "evaluate_alert_input \<Rightarrow> expense_db \<Rightarrow> int" where
  "spent_for i db = (case sum_by_root (ea_user_id i) (ea_competence i) db (ea_root_slug i) of
     None \<Rightarrow> 0 | Some n \<Rightarrow> n)"

lemma input_key_eq [simp]: "input_key i s = input_key i t \<longleftrightarrow> s = t"
  by (simp add: input_key_def)

lemma count_other:
  "ba_key a \<noteq> k \<Longrightarrow> count_delivered k (rows @ [a]) = count_delivered k rows"
  by (simp add: count_delivered_def)

lemma alert_for_append:
  "input_key i t \<noteq> ba_key a \<Longrightarrow>
   alert_for ca i spent planned (rows @ [a]) t = alert_for ca i spent planned rows t"
  by (simp add: alert_for_def count_other)

lemma UNIV_threshold: "UNIV = {Threshold80, Threshold100}"
  using threshold.exhaust by blast

text \<open>What the two thresholds do, given the amounts.\<close>

lemma handle_transitions_Inr:
  assumes "evaluate_thresholds spent planned crossed = Inr trs"
    and "handle_transitions ca i spent planned trs db = (Inr u, db')"
  shows "ad_expenses db' = ad_expenses db"
    and "ad_alerts db' = ad_alerts db @
      concat (map (raised ca i spent planned db) [Threshold80, Threshold100])"
    and "state_of (input_key i t) (ad_states db') =
       Some (evaluated (input_key i t) (is_crossed spent planned t) (ea_committed_at i)
         (state_of (input_key i t) (ad_states db)))"
    and "k \<notin> range (input_key i) \<Longrightarrow> state_of k (ad_states db') = state_of k (ad_states db)"
    and "distinct (map ts_key (ad_states db)) \<Longrightarrow> distinct (map ts_key (ad_states db'))"
    and "ts_key ` set (ad_states db') = range (input_key i) \<union> ts_key ` set (ad_states db)"
    and "distinct (map ba_id (ad_alerts db)) \<Longrightarrow> distinct (map ba_id (ad_alerts db'))"
proof -
  let ?tr = "\<lambda>t. \<lparr>tr_threshold = t, tr_now_crossed = is_crossed spent planned t,
    tr_was_crossed = crossed t, tr_is_real = (is_crossed spent planned t \<noteq> crossed t)\<rparr>"
  have trs: "trs = [?tr Threshold80, ?tr Threshold100]"
    using assms(1) by (simp add: evaluate_thresholds_def split: if_splits)
  obtain v db1 where 1: "handle_transition ca i (?tr Threshold80) spent planned db = (Inr v, db1)"
    and 2: "handle_transition ca i (?tr Threshold100) spent planned db1 = (Inr u, db')"
    using assms(2) by (auto simp: trs split: sum.splits prod.splits)
  note a = handle_transition_Inr [OF 1 transition.select_convs(1) transition.select_convs(2)]
    and b = handle_transition_Inr [OF 2 transition.select_convs(1) transition.select_convs(2)]
  have other: "input_key i Threshold100 \<noteq> input_key i Threshold80" by simp
  have "raised ca i spent planned db1 Threshold100 = raised ca i spent planned db Threshold100"
    by (simp add: raised_def a(4) a(3) [OF other])
      (simp add: raised_def alert_for_append)
  then show "ad_alerts db' = ad_alerts db @
      concat (map (raised ca i spent planned db) [Threshold80, Threshold100])"
    by (simp add: b(4) a(4))
  show "state_of (input_key i t) (ad_states db') =
       Some (evaluated (input_key i t) (is_crossed spent planned t) (ea_committed_at i)
         (state_of (input_key i t) (ad_states db)))"
    using a(2) b(2) a(3) [OF other] b(3) [OF other [symmetric]] by (cases t) simp_all
  show "k \<notin> range (input_key i) \<Longrightarrow> state_of k (ad_states db') = state_of k (ad_states db)"
    by (metis a(3) b(3) rangeI)
  show "ts_key ` set (ad_states db') = range (input_key i) \<union> ts_key ` set (ad_states db)"
    by (simp add: a(7) b(7) UNIV_threshold insert_commute)
  show "ad_expenses db' = ad_expenses db" by (simp add: a(1) b(1))
  show "distinct (map ts_key (ad_states db)) \<Longrightarrow> distinct (map ts_key (ad_states db'))"
    by (intro a(6) b(6))
  show "distinct (map ba_id (ad_alerts db)) \<Longrightarrow> distinct (map ba_id (ad_alerts db'))"
    by (intro a(5) b(5))
qed

lemma evaluate_alert_runs:
  assumes "new_competence (comp_value (ea_competence i)) = Inr c"
    and "get_by_user_competence (ea_user_id i) (ea_competence i) (ex_plans (ad_expenses db)) = Inr b"
    and "bu_state b = BudgetActive" "bu_id b \<noteq> uuid_nil" "0 < planned_for (ea_root_slug i) b"
    and "evaluate_thresholds (spent_for i (ad_expenses db)) (planned_for (ea_root_slug i) b)
      (get_currently_crossed (ea_user_id i) (ea_competence i) (ea_root_slug i) (ad_states db)) = Inr trs"
  shows "evaluate_alert ca i db =
    do_tx (handle_transitions ca i (spent_for i (ad_expenses db)) (planned_for (ea_root_slug i) b) trs) db"
  using assms by (simp add: evaluate_alert_def do_tx_def evaluate_alert_in_tx_def Let_def spent_for_def)

text \<open>
  C25: An alert is raised on a rising edge and only there: for each threshold, one alert is appended
  exactly when the amounts cross it, they did not at the last evaluation, and the change is newer
  than the last one evaluated; the state of the threshold follows, and no other state changes.
\<close>

theorem evaluation_decides:
  assumes "get_by_user_competence (ea_user_id i) (ea_competence i) (ex_plans (ad_expenses db)) = Inr b"
    and "bu_state b = BudgetActive" "bu_id b \<noteq> uuid_nil" "0 < planned_for (ea_root_slug i) b"
    and "evaluate_alert ca i db = (Inr u, db')"
  shows "let spent = spent_for i (ad_expenses db); planned = planned_for (ea_root_slug i) b
    in ad_alerts db' = ad_alerts db @
         concat (map (raised ca i spent planned db) [Threshold80, Threshold100]) \<and>
       (\<forall>t. state_of (input_key i t) (ad_states db') =
          Some (evaluated (input_key i t) (is_crossed spent planned t) (ea_committed_at i)
            (state_of (input_key i t) (ad_states db)))) \<and>
       (\<forall>k. k \<notin> range (input_key i) \<longrightarrow> state_of k (ad_states db') = state_of k (ad_states db)) \<and>
       ad_expenses db' = ad_expenses db"
proof -
  obtain trs where trs: "evaluate_thresholds (spent_for i (ad_expenses db)) (planned_for (ea_root_slug i) b)
      (get_currently_crossed (ea_user_id i) (ea_competence i) (ea_root_slug i) (ad_states db)) = Inr trs"
    using assms(4) by (simp add: evaluate_thresholds_def)
  then have run: "handle_transitions ca i (spent_for i (ad_expenses db))
      (planned_for (ea_root_slug i) b) trs db = (Inr u, db')"
    using assms by (auto simp: evaluate_alert_def do_tx_Inr evaluate_alert_in_tx_def spent_for_def
        Let_def split: sum.splits)
  note h = handle_transitions_Inr [OF trs run]
  show ?thesis unfolding Let_def using h(1-4) by blast
qed

definition spending :: "int \<Rightarrow> expense_db" where
  "spending amount = \<lparr>ex_plans = sample_plans, ex_rows =
     [\<lparr>e_id = 5, e_user_id = 1, e_source = ''api'', e_ext_id = sample_ulid, e_subcategory_id = 2,
       e_root_slug = Metas, e_competence = Competence ''2025-03'', e_amount_cents = amount,
       e_occurred_at = zero_time, e_version = 1, e_tombstone_version = None, e_deleted_at = None,
       e_created_at = zero_time, e_updated_at = zero_time\<rparr>], ex_outbox = []\<rparr>"

definition sample_alert_input :: evaluate_alert_input where
  "sample_alert_input = \<lparr>ea_user_id = 1, ea_competence = Competence ''2025-03'', ea_root_slug = Metas,
     ea_committed_at = \<lparr>ns = 7000000000, loc = utc\<rparr>, ea_cutoff = Competence ''2025-03''\<rparr>"

definition sample_alert_call :: alert_call where
  "sample_alert_call = \<lparr>ac_alert_id = (\<lambda>t. of_int (threshold_int t)), ac_now = (\<lambda>_. zero_time)\<rparr>"

lemma sample_active:
  "get_by_user_competence 1 (Competence ''2025-03'') sample_plans = Inr sample_source"
  "bu_state sample_source = BudgetActive" "bu_id sample_source = 7" "planned_for Metas sample_source = 5000"
  by (simp_all add: get_by_user_competence_def sample_source_def sample_plans_def sample_draft_def
      new_budget_def scan_budget_def planned_for_def new_allocation_def)

lemma sample_spent: "spent_for sample_alert_input (spending n) = n"
  by (simp add: spent_for_def sum_by_root_def sample_alert_input_def spending_def)

lemma sample_fields:
  "ea_user_id sample_alert_input = 1" "ea_root_slug sample_alert_input = Metas"
  "ea_competence sample_alert_input = Competence ''2025-03''" "ex_plans (spending n) = sample_plans"
  "ea_cutoff sample_alert_input = Competence ''2025-03''"
  by (simp_all add: sample_alert_input_def spending_def)

lemma sample_evaluated:
  "\<exists>db'. evaluate_alert sample_alert_call sample_alert_input
     \<lparr>ad_expenses = spending n, ad_states = [], ad_alerts = []\<rparr> = (Inr (), db') \<and>
     (\<not> is_crossed n 5000 Threshold80 \<and> \<not> is_crossed n 5000 Threshold100 \<longrightarrow> ad_alerts db' = [])"
proof -
  let ?db = "\<lparr>ad_expenses = spending n, ad_states = [], ad_alerts = []\<rparr>"
  obtain trs where trs: "evaluate_thresholds n 5000 (get_currently_crossed 1 (Competence ''2025-03'') Metas []) = Inr trs"
    by (simp add: evaluate_thresholds_def)
  have "\<exists>db'. handle_transitions sample_alert_call sample_alert_input n 5000 trs ?db = (Inr (), db') \<and>
      (\<not> is_crossed n 5000 Threshold80 \<and> \<not> is_crossed n 5000 Threshold100 \<longrightarrow> ad_alerts db' = [])"
    using trs by (auto simp: evaluate_thresholds_def handle_transition_def upsert_if_transition_def
        insert_alert_def persist_decided_alert_def insert_alert_row_def sample_alert_call_def)
  then show ?thesis
    using evaluate_alert_runs [of sample_alert_input "Competence ''2025-03''" ?db sample_source trs] trs
      sample_active sample_spent [of n] sample_texts(2)
    by (auto simp: sample_fields do_tx_def)
qed

theorem evaluation_decides_witness:
  "(case evaluate_alert sample_alert_call sample_alert_input
      \<lparr>ad_expenses = spending 4500, ad_states = [], ad_alerts = []\<rparr> of
    (Inr _, db') \<Rightarrow> map ba_threshold (ad_alerts db') = [Threshold80] \<and>
      map ba_state (ad_alerts db') = [AlertDelivered]
  | (Inl _, _) \<Rightarrow> False)"
proof -
  let ?db = "\<lparr>ad_expenses = spending 4500, ad_states = [], ad_alerts = []\<rparr>"
  obtain db' where run: "evaluate_alert sample_alert_call sample_alert_input ?db = (Inr (), db')"
    using sample_evaluated by blast
  have "ad_alerts db' = concat (map (raised sample_alert_call sample_alert_input 4500 5000 ?db)
      [Threshold80, Threshold100])"
    using evaluation_decides [OF _ _ _ _ run, of sample_source] sample_active sample_spent [of 4500]
    by (simp add: sample_fields)
  then show ?thesis
    by (simp add: run raised_def rises_def is_crossed_def i64_def alert_for_def decide_alert_for_insert_def
        is_retroactive_alert_def comp_before_def max_delivered_alerts_def count_delivered_def sample_fields)
qed

section \<open>Every sequence of changes, evaluations and purges\<close>

text \<open>
  The invariant: identifiers and keys are unique, a threshold of a category and month has at most
  ten visible alerts, and every alert records amounts that cross its threshold.
\<close>

definition alerts_ok :: "alert_db \<Rightarrow> bool" where
  "alerts_ok db \<longleftrightarrow>
     distinct (map ba_id (ad_alerts db)) \<and> distinct (map ts_key (ad_states db)) \<and>
     (\<forall>k. count_delivered k (ad_alerts db) \<le> max_delivered_alerts) \<and>
     (\<forall>a \<in> set (ad_alerts db). 0 < ba_planned_cents a \<and>
        is_crossed (ba_spent_cents a) (ba_planned_cents a) (ba_threshold a) \<and>
        ba_key a \<in> ts_key ` set (ad_states db))"

lemma raised_set:
  "a \<in> set (raised ca i spent planned db t) \<Longrightarrow>
   a = alert_for ca i spent planned (ad_alerts db) t \<and> is_crossed spent planned t"
  by (auto simp: raised_def rises_def split: if_splits)

lemma count_raised:
  assumes "\<forall>k. count_delivered k (ad_alerts db) \<le> max_delivered_alerts"
  shows "count_delivered k (ad_alerts db @ raised ca i spent planned db t) \<le> max_delivered_alerts"
proof (cases "k = input_key i t")
  case True
  show ?thesis
  proof (cases "count_delivered k (ad_alerts db) < max_delivered_alerts")
    case True
    then show ?thesis by (auto simp: raised_def count_delivered_def)
  next
    case False
    then have "ba_state (alert_for ca i spent planned (ad_alerts db) t) \<notin> set visible_alert_states"
      using \<open>k = input_key i t\<close>
      by (simp add: alert_for_def decide_alert_for_insert_def visible_alert_states_def)
    then have "count_delivered k (ad_alerts db @ raised ca i spent planned db t) = count_delivered k (ad_alerts db)"
      by (simp add: raised_def count_delivered_def)
    then show ?thesis using assms [THEN spec, of k] by simp
  qed
next
  case False
  then show ?thesis using assms [THEN spec, of k] by (simp add: raised_def count_other)
qed

lemma handle_transition_ok:
  assumes "alerts_ok db" "0 < planned" "handle_transition ca i tr spent planned db = (Inr u, db')"
    and "tr_now_crossed tr = is_crossed spent planned (tr_threshold tr)"
  shows "alerts_ok db'"
proof -
  note h = handle_transition_Inr [OF assms(3) refl assms(4)]
  have "0 < ba_planned_cents a \<and> is_crossed (ba_spent_cents a) (ba_planned_cents a) (ba_threshold a) \<and>
      ba_key a \<in> ts_key ` set (ad_states db')" if "a \<in> set (ad_alerts db')" for a
  proof (cases "a \<in> set (ad_alerts db)")
    case True
    then show ?thesis using assms(1) by (simp add: h(7) alerts_ok_def)
  next
    case False
    then have "a \<in> set (raised ca i spent planned db (tr_threshold tr))" using that h(4) by simp
    from raised_set [OF this] show ?thesis using assms(2) h(7) by (simp add: alert_for_def ba_key_def input_key_def)
  qed
  then show ?thesis
    using assms(1) count_raised [of db] h(5,6) unfolding alerts_ok_def h(4) by blast
qed

lemma handle_transitions_ok:
  assumes "handle_transitions ca i spent planned trs db = (Inr u, db')" "alerts_ok db" "0 < planned"
    and "\<forall>tr \<in> set trs. tr_now_crossed tr = is_crossed spent planned (tr_threshold tr)"
  shows "alerts_ok db'"
  using assms
proof (induction trs arbitrary: db)
  case (Cons tr trs)
  obtain v db1 where "handle_transition ca i tr spent planned db = (Inr v, db1)"
    and "handle_transitions ca i spent planned trs db1 = (Inr u, db')"
    using Cons.prems(1) by (auto split: sum.splits prod.splits)
  then show ?case using Cons handle_transition_ok [of db planned ca i tr spent v db1] by simp
qed simp

lemma evaluate_alert_in_tx_ok:
  assumes "evaluate_alert_in_tx ca i db = (Inr u, db')" "alerts_ok db"
  shows "alerts_ok db'"
proof (cases "get_by_user_competence (ea_user_id i) (ea_competence i) (ex_plans (ad_expenses db))")
  case (Inl e)
  then show ?thesis using assms by (simp add: evaluate_alert_in_tx_def split: if_splits)
next
  case (Inr b)
  show ?thesis
  proof (cases "bu_state b = BudgetActive \<and> bu_id b \<noteq> uuid_nil \<and> 0 < planned_for (ea_root_slug i) b")
    case True
    define trs where "trs = map (\<lambda>t. \<lparr>tr_threshold = t,
      tr_now_crossed = is_crossed (spent_for i (ad_expenses db)) (planned_for (ea_root_slug i) b) t,
      tr_was_crossed = get_currently_crossed (ea_user_id i) (ea_competence i) (ea_root_slug i) (ad_states db) t,
      tr_is_real = (is_crossed (spent_for i (ad_expenses db)) (planned_for (ea_root_slug i) b) t \<noteq>
        get_currently_crossed (ea_user_id i) (ea_competence i) (ea_root_slug i) (ad_states db) t)\<rparr>)
      [Threshold80, Threshold100]"
    have "handle_transitions ca i (spent_for i (ad_expenses db)) (planned_for (ea_root_slug i) b) trs db = (Inr u, db')"
      using assms(1) Inr True
      by (simp add: evaluate_alert_in_tx_def Let_def spent_for_def evaluate_thresholds_def trs_def)
    then show ?thesis by (rule handle_transitions_ok) (use assms(2) True in \<open>auto simp: trs_def\<close>)
  next
    case False
    then show ?thesis using assms Inr by (auto simp: evaluate_alert_in_tx_def split: if_splits)
  qed
qed

lemma evaluate_alert_ok:
  assumes "evaluate_alert ca i db = (r, db')" "alerts_ok db"
  shows "alerts_ok db'"
proof (cases "new_competence (comp_value (ea_competence i))")
  case (Inr c)
  then have "do_tx (evaluate_alert_in_tx ca i) db = (r, db')" using assms(1) by (simp add: evaluate_alert_def)
  then show ?thesis
    by (rule do_tx_ok [rotated 2]) (use evaluate_alert_in_tx_ok assms(2) in blast)+
qed (use assms in \<open>simp add: evaluate_alert_def\<close>)

inductive alert_step :: "alert_db \<Rightarrow> alert_db \<Rightarrow> bool" where
  change: "alert_step db (db\<lparr>ad_expenses := x\<rparr>)"
| evaluate: "handle_expense_committed ca e db = (r, db') \<Longrightarrow> alert_step db db'"
| purge: "purge_old_alerts edge limit (ad_alerts db) = (n, rows) \<Longrightarrow>
    alert_step db (db\<lparr>ad_alerts := rows\<rparr>)"

inductive alert_reachable :: "alert_db \<Rightarrow> bool" where
  empty: "alert_reachable \<lparr>ad_expenses = x, ad_states = [], ad_alerts = []\<rparr>"
| step: "alert_reachable db \<Longrightarrow> alert_step db db' \<Longrightarrow> alert_reachable db'"

lemma purge_ok:
  assumes "alerts_ok db" "purge_old_alerts edge limit (ad_alerts db) = (n, rows)"
  shows "alerts_ok (db\<lparr>ad_alerts := rows\<rparr>)"
proof -
  define ids where "ids = map ba_id (take limit (filter (\<lambda>a. before (ba_created_at a) edge) (ad_alerts db)))"
  have rows: "rows = filter (\<lambda>a. ba_id a \<notin> set ids) (ad_alerts db)"
    using assms(2) by (simp add: purge_old_alerts_def Let_def ids_def)
  have "length (filter (\<lambda>x. P x \<and> Q x) xs) \<le> length (filter Q xs)" for P Q and xs :: "budget_alert list"
    by (induction xs) auto
  then have "count_delivered k rows \<le> count_delivered k (ad_alerts db)" for k
    by (simp add: count_delivered_def rows)
  then have "count_delivered k rows \<le> max_delivered_alerts" for k
    using assms(1) order_trans unfolding alerts_ok_def by blast
  then show ?thesis
    using assms(1) by (auto simp: alerts_ok_def rows distinct_map_filter)
qed

text \<open>
  C26: However changes, evaluations of committed events (late, repeated, out of order) and purges
  follow one another, a threshold of a category and month never has more than ten visible alerts,
  each alert records amounts that cross its threshold, and no key or identifier appears twice.
\<close>

theorem reachable_alerts:
  assumes "alert_reachable db"
  shows "alerts_ok db"
  using assms
proof (induction rule: alert_reachable.induct)
  case (empty x)
  then show ?case by (simp add: alerts_ok_def count_delivered_def max_delivered_alerts_def)
next
  case (step db db')
  from step(2,3) show ?case
  proof (cases rule: alert_step.cases)
    case (change x)
    then show ?thesis using step(3) by (simp add: alerts_ok_def)
  next
    case (evaluate ca e r)
    then show ?thesis
      using step(3) evaluate_alert_ok
      by (fastforce simp: handle_expense_committed_def split: sum.splits)
  next
    case (purge edge limit n rows)
    then show ?thesis using step(3) purge_ok by simp
  qed
qed

theorem reachable_alerts_witness:
  "count_delivered (1, Competence ''2025-03'', Metas, Threshold80)
     (ad_alerts (snd (evaluate_alert sample_alert_call sample_alert_input
        \<lparr>ad_expenses = spending 4500, ad_states = [], ad_alerts = []\<rparr>))) \<le> 10"
proof -
  let ?e = "\<lparr>ec_expense_id = 5, ec_user_id = 1, ec_subcategory_id = 2, ec_root_slug = Metas,
    ec_competence = Competence ''2025-03'', ec_mutation = MutationCreate,
    ec_committed_at = \<lparr>ns = 7000000005, loc = utc\<rparr>, ec_cutoff = Competence ''2025-03''\<rparr>"
  let ?db = "\<lparr>ad_expenses = spending 4500, ad_states = [], ad_alerts = []\<rparr>"
  have "handle_expense_committed sample_alert_call ?e ?db = evaluate_alert sample_alert_call sample_alert_input ?db"
    using sample_texts(2)
    by (simp add: handle_expense_committed_def whole_seconds_def sample_alert_input_def)
  then have "alert_step ?db (snd (evaluate_alert sample_alert_call sample_alert_input ?db))"
    by (intro alert_step.evaluate [of sample_alert_call ?e _ "fst (evaluate_alert sample_alert_call sample_alert_input ?db)"]) simp
  then show ?thesis
    using reachable_alerts [OF alert_reachable.step [OF alert_reachable.empty]]
    by (simp add: alerts_ok_def max_delivered_alerts_def)
qed

section \<open>Changes within one second\<close>

lemma stale_after:
  "\<not> after t2 t \<Longrightarrow> ts_stale t2 (evaluated k c t old)"
  by (auto simp: evaluated_def first_state_def ts_stale_def ts_update_def after_def split: option.splits)

lemma stale_upsert:
  assumes "state_of k rows = Some s" "ts_stale t s" "distinct (map ts_key rows)"
  shows "upsert_if_transition k c t rows = (False, rows)"
proof -
  have "r = s" if "r \<in> set rows" "ts_key r = k" for r
    using that assms(1,3) by (induction rows) (auto split: if_splits)
  then have "map (\<lambda>r. if ts_key r = k then ts_update c t r else r) rows = rows"
    using assms(2) by (intro map_idI) (auto simp: ts_update_def)
  then show ?thesis
    using assms(1,2) by (simp add: upsert_if_transition_def state_of_def ts_update_def)
qed

lemma stale_evaluation:
  assumes "distinct (map ts_key (ad_states db))"
    and "\<And>t. \<exists>s. state_of (input_key i t) (ad_states db) = Some s \<and> ts_stale (ea_committed_at i) s"
  shows "snd (evaluate_alert ca i db) = db"
proof -
  have one: "handle_transition ca i tr spent planned db = (Inr (), db)" for tr spent planned
    using assms(2) [of "tr_threshold tr"] stale_upsert [OF _ _ assms(1)]
    by (auto simp: handle_transition_def input_key_def)
  have "handle_transitions ca i spent planned trs db = (Inr (), db)" for spent planned trs
    by (induction trs) (simp_all add: one)
  then have "snd (evaluate_alert_in_tx ca i db) = db"
    by (simp add: evaluate_alert_in_tx_def Let_def split: sum.splits)
  then show ?thesis
    by (auto simp: evaluate_alert_def do_tx_def split: sum.splits prod.splits)
qed

text \<open>
  A change committed in the same second as one already evaluated, or before it, is not
  evaluated: its event carries whole seconds, so it counts as stale. Whatever it spent, no state
  changes and no alert is raised, until a later change of the same category and month.
\<close>

lemma same_second_silent:
  assumes "handle_expense_committed ca e db = (Inr u, db1)" "distinct (map ts_key (ad_states db))"
    and "get_by_user_competence (ec_user_id e) (ec_competence e) (ex_plans (ad_expenses db)) = Inr b"
    and "bu_state b = BudgetActive" "bu_id b \<noteq> uuid_nil" "0 < planned_for (ec_root_slug e) b"
    and "ec_user_id e2 = ec_user_id e" "ec_competence e2 = ec_competence e"
    and "ec_root_slug e2 = ec_root_slug e"
    and "\<not> after (whole_seconds (ec_committed_at e2)) (whole_seconds (ec_committed_at e))"
  shows "snd (handle_expense_committed ca2 e2 (db1\<lparr>ad_expenses := x\<rparr>)) = db1\<lparr>ad_expenses := x\<rparr>"
proof -
  define i where "i = \<lparr>ea_user_id = ec_user_id e, ea_competence = ec_competence e,
    ea_root_slug = ec_root_slug e, ea_committed_at = whole_seconds (ec_committed_at e),
    ea_cutoff = ec_cutoff e\<rparr>"
  have valid: "new_competence (comp_value c) = Inr c'  \<Longrightarrow> c' = c" for c c'
    by (cases c) (auto simp: new_competence_def split: if_splits)
  have run: "evaluate_alert ca i db = (Inr u, db1)"
    using assms(1) by (auto simp: handle_expense_committed_def i_def dest!: valid split: sum.splits)
  obtain trs where trs: "evaluate_thresholds (spent_for i (ad_expenses db)) (planned_for (ea_root_slug i) b)
      (get_currently_crossed (ea_user_id i) (ea_competence i) (ea_root_slug i) (ad_states db)) = Inr trs"
    using assms(6) by (simp add: evaluate_thresholds_def i_def)
  obtain c where "new_competence (comp_value (ea_competence i)) = Inr c"
    using run by (auto simp: evaluate_alert_def split: sum.splits)
  from evaluate_alert_runs [OF this _ _ _ _ trs, of ca]
  have "handle_transitions ca i (spent_for i (ad_expenses db))
      (planned_for (ea_root_slug i) b) trs db = (Inr u, db1)"
    using assms(3-6) run by (simp add: i_def do_tx_Inr)
  note h = handle_transitions_Inr [OF trs this]
  have "snd (evaluate_alert ca2 j (db1\<lparr>ad_expenses := x\<rparr>)) = db1\<lparr>ad_expenses := x\<rparr>"
    if "ea_user_id j = ec_user_id e" "ea_competence j = ec_competence e" "ea_root_slug j = ec_root_slug e"
      "ea_committed_at j = whole_seconds (ec_committed_at e2)" for j
  proof (rule stale_evaluation)
    show "distinct (map ts_key (ad_states (db1\<lparr>ad_expenses := x\<rparr>)))" using h(5) assms(2) by simp
    have "input_key j t = input_key i t" for t using that by (simp add: input_key_def i_def)
    then show "\<exists>s. state_of (input_key j t) (ad_states (db1\<lparr>ad_expenses := x\<rparr>)) = Some s \<and>
        ts_stale (ea_committed_at j) s" for t
      using h(3) stale_after assms(10) that(4) by (simp add: i_def)
  qed
  then show ?thesis
    by (auto simp: handle_expense_committed_def assms(7-9) dest!: valid split: sum.splits)
qed

text \<open>
  Half a second after a small expense another one uses up the plan. No alert is raised.
\<close>

lemma same_second_silent_witness:
  "(let event = (\<lambda>t. \<lparr>ec_expense_id = 5, ec_user_id = 1, ec_subcategory_id = 2, ec_root_slug = Metas,
        ec_competence = Competence ''2025-03'', ec_mutation = MutationCreate,
        ec_committed_at = \<lparr>ns = t, loc = utc\<rparr>, ec_cutoff = Competence ''2025-03''\<rparr>);
      db1 = snd (handle_expense_committed sample_alert_call (event 7000000005)
        \<lparr>ad_expenses = spending 100, ad_states = [], ad_alerts = []\<rparr>)
    in is_crossed 5000 5000 Threshold100 \<and>
      ad_alerts (snd (handle_expense_committed sample_alert_call (event 7500000005)
        (db1\<lparr>ad_expenses := spending 5000\<rparr>))) = [])"
proof -
  define event where "event = (\<lambda>t. \<lparr>ec_expense_id = 5, ec_user_id = 1, ec_subcategory_id = 2,
    ec_root_slug = Metas, ec_competence = Competence ''2025-03'', ec_mutation = MutationCreate,
    ec_committed_at = \<lparr>ns = t, loc = utc\<rparr>, ec_cutoff = Competence ''2025-03''\<rparr>)"
  let ?db = "\<lparr>ad_expenses = spending 100, ad_states = [], ad_alerts = []\<rparr>"
  have cross: "\<not> is_crossed 100 5000 Threshold80" "\<not> is_crossed 100 5000 Threshold100"
    "is_crossed 5000 5000 Threshold100"
    by (simp_all add: is_crossed_def i64_def)
  obtain db1 where run: "evaluate_alert sample_alert_call sample_alert_input ?db = (Inr (), db1)"
    and none: "ad_alerts db1 = []"
    using sample_evaluated [of 100] cross by blast
  have one: "handle_expense_committed sample_alert_call (event 7000000005) ?db = (Inr (), db1)"
    using run sample_texts(2)
    by (simp add: handle_expense_committed_def whole_seconds_def sample_alert_input_def event_def)
  have "snd (handle_expense_committed sample_alert_call (event 7500000005) (db1\<lparr>ad_expenses := spending 5000\<rparr>)) =
      db1\<lparr>ad_expenses := spending 5000\<rparr>"
    using same_second_silent [OF one, of sample_source "event 7500000005"] sample_active
    by (simp add: event_def sample_fields whole_seconds_def after_def)
  then show ?thesis using cross none by (simp add: one Let_def flip: event_def)
qed

end
