(* ===== verification/BudgetDaily.thy ===== *)
theory BudgetDaily
  imports BudgetAlerts
begin

text \<open>
  The daily scan of the active plans (\<open>threshold_workflow.go\<close>, \<open>evaluate_threshold_alerts.go\<close>), the
  table of what was announced on a day (\<open>threshold_alert_sent_repository.go\<close>), the events it
  publishes and the use case that turns such an event into a message (\<open>notify_threshold_alert.go\<close>
  and its consumer).
\<close>

section \<open>The decision\<close>

datatype alert_kind = AlertCategory | AlertGoal

fun alert_kind_string :: "alert_kind \<Rightarrow> string" where
  "alert_kind_string AlertCategory = ''category_threshold''"
| "alert_kind_string AlertGoal = ''goal_achieved''"

definition parse_alert_kind :: "string \<Rightarrow> alert_kind option" where
  "parse_alert_kind s =
     (if s = ''category_threshold'' then Some AlertCategory
      else if s = ''goal_achieved'' then Some AlertGoal else None)"

text \<open>
  A ratio is a floating point number of which the scan reads two things: whether it is zero, and
  its whole number of basis points, \<open>int64(ratio * 10000 + 0.5)\<close>.
\<close>

record threshold_ratio =
  ra_is_zero :: bool
  ra_bps :: int

record threshold_config =
  tc_category :: threshold_ratio
  tc_goal :: threshold_ratio

record budget_snapshot =
  sn_user_id :: uuid
  sn_budget_id :: uuid
  sn_kind :: alert_kind
  sn_root_slug :: root_slug
  sn_planned_cents :: int
  sn_spent_cents :: int

record domain_alert =
  da_user_id :: uuid
  da_budget_id :: uuid
  da_kind :: alert_kind
  da_root_slug :: root_slug
  da_percent_bps :: int
  da_remaining_cents :: int
  da_ref_day :: gotime

type_synonym sent_key = "uuid \<times> uuid \<times> alert_kind \<times> gotime"

fun threshold_for_kind :: "alert_kind \<Rightarrow> threshold_config \<Rightarrow> threshold_ratio" where
  "threshold_for_kind AlertCategory cfg = tc_category cfg"
| "threshold_for_kind AlertGoal cfg = tc_goal cfg"

definition crossed_ratio :: "int \<Rightarrow> int \<Rightarrow> threshold_ratio \<Rightarrow> bool" where
  "crossed_ratio spent planned r \<longleftrightarrow> i64 (planned * ra_bps r) \<le> i64 (spent * 10000)"

text \<open>The conversion to 32 bits wraps; above its range the value is cut off.\<close>

definition percent_used_bps :: "int \<Rightarrow> int \<Rightarrow> int" where
  "percent_used_bps spent planned =
     (if planned \<le> 0 then 0
      else let v = i64 (spent * 10000) sdiv planned in
           if 2147483647 < v then 2147483647 else (v + 2 ^ 31) mod 2 ^ 32 - 2 ^ 31)"

definition decide_alerts ::
  "budget_snapshot list \<Rightarrow> threshold_config \<Rightarrow> sent_key set \<Rightarrow> gotime \<Rightarrow> domain_alert list" where
  "decide_alerts snapshots cfg already_sent ref_day =
     (let d = truncate_day (in_loc ref_day utc) in
      map (\<lambda>s. \<lparr>da_user_id = sn_user_id s, da_budget_id = sn_budget_id s, da_kind = sn_kind s,
                da_root_slug = sn_root_slug s,
                da_percent_bps = percent_used_bps (sn_spent_cents s) (sn_planned_cents s),
                da_remaining_cents = i64 (sn_planned_cents s - sn_spent_cents s), da_ref_day = d\<rparr>)
        (filter (\<lambda>s. 0 < sn_planned_cents s \<and> \<not> ra_is_zero (threshold_for_kind (sn_kind s) cfg) \<and>
                   crossed_ratio (sn_spent_cents s) (sn_planned_cents s)
                     (threshold_for_kind (sn_kind s) cfg) \<and>
                   (sn_user_id s, sn_budget_id s, sn_kind s, d) \<notin> already_sent) snapshots))"

section \<open>What was announced on a day\<close>

record sent_row =
  sr_user_id :: uuid
  sr_budget_id :: uuid
  sr_kind :: alert_kind
  sr_ref_day :: gotime
  sr_sent_at :: gotime
  sr_notified_at :: "gotime option"
  sr_channel :: "string option"

definition sr_key :: "sent_row \<Rightarrow> sent_key" where
  "sr_key r = (sr_user_id r, sr_budget_id r, sr_kind r, sr_ref_day r)"

text \<open>
  The plans in force of a month, a row for each category with something planned, ordered and cut
  off at \<open>limit\<close>. A plan belongs to one month, and so do the expenses it is compared with.
\<close>

definition list_active_for_scan ::
  "competence \<Rightarrow> int \<Rightarrow> expense_db \<Rightarrow> (budget \<times> allocation \<times> int) list" where
  "list_active_for_scan c limit db =
     (let joined = concat (map (\<lambda>b. map (\<lambda>a. (b, a,
               case sum_by_root (bu_user_id b) (bu_competence b) db (al_root_slug a) of
                 None \<Rightarrow> 0 | Some n \<Rightarrow> n))
             (filter (\<lambda>a. al_budget_id a = bu_id b \<and> 0 < al_planned_cents a)
                (db_allocs (ex_plans db))))
           (filter (\<lambda>b. bu_state b = BudgetActive \<and> bu_competence b = c) (db_budgets (ex_plans db))))
      in take (nat (if limit \<le> 0 then 500 else limit))
           (sort_key (\<lambda>(b, _). bu_user_id b) (sort_key (\<lambda>(b, _). bu_id b)
             (sort_key (\<lambda>(_, a, _). root_slug_string (al_root_slug a)) joined))))"

definition list_sent_for_day :: "gotime \<Rightarrow> sent_row list \<Rightarrow> sent_row list" where
  "list_sent_for_day ref_day rows =
     filter (\<lambda>r. sr_ref_day r = truncate_day (in_loc ref_day utc)) rows"

definition insert_sent :: "sent_row \<Rightarrow> sent_row list \<Rightarrow> sent_row list" where
  "insert_sent rec rows = (if sr_key rec \<in> sr_key ` set rows then rows else rows @ [rec])"

definition is_notified :: "sent_key \<Rightarrow> sent_row list \<Rightarrow> bool option" where
  "is_notified k rows =
     map_option (\<lambda>r. sr_notified_at r \<noteq> None) (find (\<lambda>r. sr_key r = k) rows)"

definition mark_notified ::
  "sent_key \<Rightarrow> string \<Rightarrow> gotime \<Rightarrow> sent_row list \<Rightarrow> bool \<times> sent_row list" where
  "mark_notified k channel now rows =
     (\<exists>r \<in> set rows. sr_key r = k \<and> sr_notified_at r = None,
      map (\<lambda>r. if sr_key r = k \<and> sr_notified_at r = None
               then r\<lparr>sr_notified_at := Some (in_loc now utc), sr_channel := Some channel\<rparr>
               else r) rows)"

section \<open>The scan\<close>

text \<open>
  The state: expenses and plans, the rows above, the events published so far and the messages that
  went out, each with the key of its alert.
\<close>

record daily_db =
  dd_expenses :: expense_db
  dd_sent :: "sent_row list"
  dd_published :: "domain_alert list"
  dd_messages :: "(sent_key \<times> string) list"

definition build_snapshots :: "(budget \<times> allocation \<times> int) list \<Rightarrow> budget_snapshot list" where
  "build_snapshots active =
     map (\<lambda>(b, a, spent). \<lparr>sn_user_id = bu_user_id b, sn_budget_id = bu_id b,
        sn_kind = (if al_root_slug a = Metas then AlertGoal else AlertCategory),
        sn_root_slug = al_root_slug a, sn_planned_cents = al_planned_cents a,
        sn_spent_cents = spent\<rparr>) active"

definition publish_and_persist :: "gotime \<Rightarrow> domain_alert \<Rightarrow> daily_db \<Rightarrow> daily_db" where
  "publish_and_persist now a db =
     db\<lparr>dd_published := dd_published db @ [a],
        dd_sent := insert_sent \<lparr>sr_user_id = da_user_id a, sr_budget_id = da_budget_id a,
          sr_kind = da_kind a, sr_ref_day = truncate_day (in_loc (da_ref_day a) utc),
          sr_sent_at = in_loc now utc, sr_notified_at = None, sr_channel = None\<rparr> (dd_sent db)\<rparr>"

definition evaluate_threshold_alerts ::
  "threshold_config \<Rightarrow> location \<Rightarrow> int \<Rightarrow> gotime \<Rightarrow> daily_db \<Rightarrow> daily_db" where
  "evaluate_threshold_alerts cfg l limit clock db =
     (let now = in_loc clock utc; ref_day = truncate_day now;
          active = list_active_for_scan (competence_from_time now l)
            (if limit \<le> 0 then 500 else limit) (dd_expenses db);
          sent = (\<lambda>r. (sr_user_id r, sr_budget_id r, sr_kind r,
                     truncate_day (in_loc (sr_ref_day r) utc))) ` set (list_sent_for_day ref_day (dd_sent db))
      in fold (publish_and_persist now)
           (if active = [] then [] else decide_alerts (build_snapshots active) cfg sent ref_day) db)"

section \<open>The message\<close>

datatype notify_outcome =
    NotifySent | NotifyAlreadySent | NotifyNoChannel | NotifyChannelFailed | NotifyResolverError
  | NotifyRecordMissing

definition format_brl :: "int \<Rightarrow> string" where
  "format_brl cents =
     (let c = (if cents < 0 then i64 (- cents) else cents)
      in (if cents < 0 then ''-R$'' else ''R$'') @ format_int (c sdiv 100) @ '','' @
         sprintf_0d 2 (c smod 100))"

text \<open>\<open>percent\<close> prints a number of basis points as a percentage with one decimal.\<close>

definition render_threshold_alert :: "(int \<Rightarrow> string) \<Rightarrow> domain_alert \<Rightarrow> string" where
  "render_threshold_alert percent a =
     (case da_kind a of
        AlertCategory \<Rightarrow> ''Atencao: voce ja utilizou '' @ percent (da_percent_bps a) @ ''% de '' @
          root_slug_string (da_root_slug a) @ ''. Ainda restam '' @
          format_brl (da_remaining_cents a) @ ''.''
      | AlertGoal \<Rightarrow> ''Boa! Voce ja acumulou '' @ percent (da_percent_bps a) @
          ''% da meta. Continue assim!'')"

text \<open>
  What the use case gets from elsewhere: the preferred channel of a user (a failure, none, or a
  channel with an address), and whether a channel delivers a text. The second result says whether
  the call returned an error, which makes the outbox deliver the event again.
\<close>

record notify_ports =
  np_resolve :: "uuid \<Rightarrow> unit + (string \<times> string) option"
  np_send :: "string \<Rightarrow> string \<Rightarrow> string \<Rightarrow> bool"
  np_percent :: "int \<Rightarrow> string"

definition da_key :: "domain_alert \<Rightarrow> sent_key" where
  "da_key a = (da_user_id a, da_budget_id a, da_kind a, truncate_day (in_loc (da_ref_day a) utc))"

definition notify_threshold_alert ::
  "notify_ports \<Rightarrow> gotime \<Rightarrow> domain_alert \<Rightarrow> daily_db \<Rightarrow> (notify_outcome \<times> bool) \<times> daily_db" where
  "notify_threshold_alert po now a db =
     (case is_notified (da_key a) (dd_sent db) of
        None \<Rightarrow> ((NotifyRecordMissing, False), db)
      | Some True \<Rightarrow> ((NotifyAlreadySent, False), db)
      | Some False \<Rightarrow>
          (case np_resolve po (da_user_id a) of
             Inl _ \<Rightarrow> ((NotifyResolverError, True), db)
           | Inr None \<Rightarrow> ((NotifyNoChannel, False), db)
           | Inr (Some (channel, address)) \<Rightarrow>
               (let text = render_threshold_alert (np_percent po) a
                in case mark_notified (da_key a) channel now (dd_sent db) of
                     (False, rows) \<Rightarrow> ((NotifyAlreadySent, False), db\<lparr>dd_sent := rows\<rparr>)
                   | (True, rows) \<Rightarrow>
                       if np_send po channel address text
                       then ((NotifySent, False), db\<lparr>dd_sent := rows,
                              dd_messages := dd_messages db @ [(da_key a, text)]\<rparr>)
                       else ((NotifyChannelFailed, True), db\<lparr>dd_sent := rows\<rparr>))))"

text \<open>
  The consumer reads the alert back from the payload of its event: the day as a date, the kind from
  its label.
\<close>

definition handle_threshold_alert ::
  "notify_ports \<Rightarrow> gotime \<Rightarrow> domain_alert \<Rightarrow> daily_db \<Rightarrow> (notify_outcome \<times> bool) option \<times> daily_db" where
  "handle_threshold_alert po now a db =
     (case parse_alert_kind (alert_kind_string (da_kind a)) of
        None \<Rightarrow> (None, db)
      | Some k \<Rightarrow>
          (case notify_threshold_alert po now
                  (a\<lparr>da_kind := k, da_ref_day := truncate_day (in_loc (da_ref_day a) utc)\<rparr>) db of
             (r, db1) \<Rightarrow> (Some r, db1)))"

section \<open>At most one message\<close>

definition daily_ok :: "daily_db \<Rightarrow> bool" where
  "daily_ok db \<longleftrightarrow>
     distinct (map sr_key (dd_sent db)) \<and>
     (\<forall>k. length (filter (\<lambda>m. fst m = k) (dd_messages db)) \<le> 1) \<and>
     (\<forall>m \<in> set (dd_messages db). \<exists>r \<in> set (dd_sent db). sr_key r = fst m \<and> sr_notified_at r \<noteq> None)"

lemma daily_once: "daily_ok db \<Longrightarrow> length (filter (\<lambda>m. fst m = k) (dd_messages db)) \<le> 1"
  unfolding daily_ok_def by blast

lemma daily_marked:
  "daily_ok db \<Longrightarrow> m \<in> set (dd_messages db) \<Longrightarrow>
   \<exists>r \<in> set (dd_sent db). sr_key r = fst m \<and> sr_notified_at r \<noteq> None"
  unfolding daily_ok_def by blast

text \<open>A scan only adds rows, and keeps those that are there as they are.\<close>

lemma insert_sent_ok:
  assumes "distinct (map sr_key rows)"
  shows "distinct (map sr_key (insert_sent rec rows))" "set rows \<subseteq> set (insert_sent rec rows)"
  using assms by (auto simp: insert_sent_def)

lemma publish_and_persist_ok: "daily_ok db \<Longrightarrow> daily_ok (publish_and_persist now a db)"
  using insert_sent_ok [of "dd_sent db"]
  by (fastforce simp: daily_ok_def publish_and_persist_def)

lemma publish_all_ok: "daily_ok db \<Longrightarrow> daily_ok (fold (publish_and_persist now) as db)"
  by (induction as arbitrary: db) (simp_all add: publish_and_persist_ok)

text \<open>What a delivery does, when it is not turned away at once.\<close>

lemma is_notified_Some:
  assumes "is_notified k rows = Some b" "distinct (map sr_key rows)"
  shows "\<exists>r \<in> set rows. sr_key r = k \<and> (sr_notified_at r \<noteq> None) = b \<and>
    (\<forall>x \<in> set rows. sr_key x = k \<longrightarrow> x = r)"
proof -
  obtain r where r: "find (\<lambda>r. sr_key r = k) rows = Some r" "(sr_notified_at r \<noteq> None) = b"
    using assms(1) by (auto simp: is_notified_def)
  then have "r \<in> set rows" "sr_key r = k" by (auto simp: find_Some_iff)
  then show ?thesis using r(2) assms(2) by (auto simp: distinct_map inj_on_def)
qed

lemma mark_notified_cases:
  assumes "mark_notified k channel now rows = (b, rows')"
  shows "map sr_key rows' = map sr_key rows" "\<not> b \<Longrightarrow> rows' = rows"
    and "b \<Longrightarrow> \<exists>r \<in> set rows'. sr_key r = k \<and> sr_notified_at r \<noteq> None"
    and "x \<in> set rows \<Longrightarrow> sr_notified_at x \<noteq> None \<Longrightarrow> x \<in> set rows'"
proof -
  let ?g = "\<lambda>r. r\<lparr>sr_notified_at := Some (in_loc now utc), sr_channel := Some channel\<rparr>"
  have rows': "rows' = map (\<lambda>r. if sr_key r = k \<and> sr_notified_at r = None then ?g r else r) rows"
    and b: "b = (\<exists>r \<in> set rows. sr_key r = k \<and> sr_notified_at r = None)"
    using assms by (simp_all add: mark_notified_def)
  have key: "sr_key (?g r) = sr_key r" for r by (simp add: sr_key_def)
  show "map sr_key rows' = map sr_key rows" unfolding rows' by (simp add: key)
  show "rows' = rows" if "\<not> b" using that unfolding rows' b by (intro map_idI) auto
  show "x \<in> set rows'" if "x \<in> set rows" "sr_notified_at x \<noteq> None"
    using that unfolding rows' by force
  assume b
  then obtain r where "r \<in> set rows" "sr_key r = k" "sr_notified_at r = None" unfolding b by blast
  then have "?g r \<in> set rows'" "sr_key (?g r) = k" unfolding rows' by (auto simp: key image_iff)
  then show "\<exists>r \<in> set rows'. sr_key r = k \<and> sr_notified_at r \<noteq> None"
    by (metis option.distinct(1) sent_row.select_convs(6) sent_row.surjective sent_row.update_convs(6,7))
qed

lemma notify_cases:
  assumes "notify_threshold_alert po now a db = ((outcome, failed), db')"
  shows "(outcome \<notin> {NotifySent, NotifyChannelFailed} \<and> db' = db) \<or>
    (outcome \<in> {NotifySent, NotifyChannelFailed} \<and> is_notified (da_key a) (dd_sent db) = Some False \<and>
     (\<exists>channel rows. mark_notified (da_key a) channel now (dd_sent db) = (True, rows) \<and>
        db' = db\<lparr>dd_sent := rows, dd_messages := dd_messages db @ (if outcome = NotifySent
          then [(da_key a, render_threshold_alert (np_percent po) a)] else [])\<rparr>))"
proof (cases "is_notified (da_key a) (dd_sent db) = Some False \<and>
    (\<exists>channel address. np_resolve po (da_user_id a) = Inr (Some (channel, address)))")
  case True
  then obtain channel address where r: "is_notified (da_key a) (dd_sent db) = Some False"
    "np_resolve po (da_user_id a) = Inr (Some (channel, address))" by blast
  obtain b rows where m: "mark_notified (da_key a) channel now (dd_sent db) = (b, rows)"
    by (rule prod.exhaust)
  have idle: "rows = dd_sent db" if "\<not> b" using mark_notified_cases(2) [OF m that] .
  show ?thesis
  proof (cases b)
    case True
    then show ?thesis
      using assms r m by (auto simp: notify_threshold_alert_def Let_def split: if_splits)
  next
    case False
    then show ?thesis using assms r m idle by (auto simp: notify_threshold_alert_def Let_def)
  qed
next
  case False
  then show ?thesis
    using assms by (auto simp: notify_threshold_alert_def split: option.splits sum.splits bool.splits)
qed

lemma notify_ok:
  assumes "daily_ok db" "notify_threshold_alert po now a db = (r, db')"
  shows "daily_ok db'"
proof -
  obtain outcome failed where "r = (outcome, failed)" by (rule prod.exhaust)
  from notify_cases [OF assms(2) [unfolded this]] consider "db' = db"
    | channel rows sent where "is_notified (da_key a) (dd_sent db) = Some False"
        "mark_notified (da_key a) channel now (dd_sent db) = (True, rows)"
        "db' = db\<lparr>dd_sent := rows, dd_messages := dd_messages db @ sent\<rparr>"
        "sent = [] \<or> (\<exists>t. sent = [(da_key a, t)])"
    by fastforce
  then show ?thesis
  proof cases
    case 1
    then show ?thesis using assms(1) by simp
  next
    case (2 channel rows sent)
    note m = mark_notified_cases [OF 2(2)]
    have d: "distinct (map sr_key (dd_sent db))" using assms(1) by (simp add: daily_ok_def)
    have new: "fst m \<noteq> da_key a" if "m \<in> set (dd_messages db)" for m
      using daily_marked [OF assms(1) that] is_notified_Some [OF 2(1) d] by auto
    then have none: "filter (\<lambda>m. fst m = da_key a) (dd_messages db) = []" by (auto simp: filter_empty_conv)
    note old = daily_once [OF assms(1)]
    have "length (filter (\<lambda>m. fst m = k) (dd_messages db @ sent)) \<le> 1" for k
      using 2(4) none old [of k] by (cases "k = da_key a") auto
    moreover have "\<exists>r \<in> set rows. sr_key r = fst x \<and> sr_notified_at r \<noteq> None"
      if "x \<in> set (dd_messages db @ sent)" for x
    proof (cases "x \<in> set sent")
      case True
      then show ?thesis using 2(4) m(3) by auto
    next
      case False
      then have "x \<in> set (dd_messages db)" using that by simp
      from daily_marked [OF assms(1) this] show ?thesis using m(4) by blast
    qed
    ultimately show ?thesis using d m(1) unfolding daily_ok_def 2(3) by simp
  qed
qed

inductive daily_step :: "daily_db \<Rightarrow> daily_db \<Rightarrow> bool" where
  change: "daily_step db (db\<lparr>dd_expenses := x\<rparr>)"
| scan: "daily_step db (evaluate_threshold_alerts cfg l limit clock db)"
| deliver: "a \<in> set (dd_published db) \<Longrightarrow> handle_threshold_alert po now a db = (r, db') \<Longrightarrow>
    daily_step db db'"

inductive daily_reachable :: "daily_db \<Rightarrow> bool" where
  empty: "daily_reachable \<lparr>dd_expenses = x, dd_sent = [], dd_published = [], dd_messages = []\<rparr>"
| step: "daily_reachable db \<Longrightarrow> daily_step db db' \<Longrightarrow> daily_reachable db'"


definition sample_daily_alert :: "root_slug \<Rightarrow> domain_alert" where
  "sample_daily_alert slug = \<lparr>da_user_id = 1, da_budget_id = 7, da_kind = AlertCategory,
     da_root_slug = slug, da_percent_bps = 9000, da_remaining_cents = 500,
     da_ref_day = \<lparr>ns = 0, loc = utc\<rparr>\<rparr>"

definition sample_daily :: daily_db where
  "sample_daily = publish_and_persist zero_time (sample_daily_alert Prazeres)
     (publish_and_persist zero_time (sample_daily_alert CustoFixo)
       \<lparr>dd_expenses = spending 0, dd_sent = [], dd_published = [], dd_messages = []\<rparr>)"

definition sample_gateway :: "bool \<Rightarrow> notify_ports" where
  "sample_gateway works = \<lparr>np_resolve = (\<lambda>_. Inr (Some (''whatsapp'', ''+55''))),
     np_send = (\<lambda>_ _ _. works), np_percent = (\<lambda>_. ''90.0'')\<rparr>"

lemma sample_daily_keys:
  "da_key (sample_daily_alert slug) = (1, 7, AlertCategory, \<lparr>ns = 0, loc = utc\<rparr>)"
  by (simp add: da_key_def sample_daily_alert_def truncate_day_def in_loc_def)

lemma sample_daily_sent:
  "dd_sent sample_daily = [\<lparr>sr_user_id = 1, sr_budget_id = 7, sr_kind = AlertCategory,
     sr_ref_day = \<lparr>ns = 0, loc = utc\<rparr>, sr_sent_at = zero_time, sr_notified_at = None,
     sr_channel = None\<rparr>]" "dd_messages sample_daily = []"
  by (simp_all add: sample_daily_def publish_and_persist_def insert_sent_def sr_key_def
      sample_daily_alert_def truncate_day_def in_loc_def zero_time_def)

lemma sample_daily_ok: "daily_ok sample_daily"
  unfolding sample_daily_def by (intro publish_and_persist_ok) (simp add: daily_ok_def)

lemma sample_delivery:
  "notify_threshold_alert (sample_gateway works) zero_time (sample_daily_alert CustoFixo) sample_daily =
     ((if works then NotifySent else NotifyChannelFailed, \<not> works),
      sample_daily\<lparr>dd_sent := map (\<lambda>r. r\<lparr>sr_notified_at := Some zero_time,
        sr_channel := Some ''whatsapp''\<rparr>) (dd_sent sample_daily),
      dd_messages := (if works then [((1, 7, AlertCategory, \<lparr>ns = 0, loc = utc\<rparr>),
        render_threshold_alert (\<lambda>_. ''90.0'') (sample_daily_alert CustoFixo))] else [])\<rparr>)"
  by (simp add: notify_threshold_alert_def sample_daily_keys sample_daily_sent is_notified_def
      sr_key_def sample_gateway_def mark_notified_def in_loc_def zero_time_def)

text \<open>
  The row is marked before the message is sent, and one row stands for all categories of a
  plan: after a delivery that sent a message, or failed to send it, every further delivery of an
  event of the same plan, kind and day, the same one or that of another category, is acknowledged
  without a message.
\<close>

lemma marked_before_sent:
  assumes "notify_threshold_alert po now a db = ((outcome, failed), db1)" "daily_ok db"
    and "outcome = NotifySent \<or> outcome = NotifyChannelFailed" "da_key b = da_key a"
  shows "notify_threshold_alert po2 now2 b (db1\<lparr>dd_expenses := x\<rparr>) =
    ((NotifyAlreadySent, False), db1\<lparr>dd_expenses := x\<rparr>)"
proof -
  obtain channel rows where mark: "mark_notified (da_key a) channel now (dd_sent db) = (True, rows)"
    "dd_sent db1 = rows"
    using notify_cases [OF assms(1)] assms(3) by auto
  note m = mark_notified_cases [OF mark(1)]
  have d: "distinct (map sr_key rows)" using m(1) assms(2) by (simp add: daily_ok_def)
  obtain r where r: "r \<in> set rows" "sr_key r = da_key a" "sr_notified_at r \<noteq> None" using m(3) by blast
  have "is_notified (da_key a) rows \<noteq> None"
    using r(1,2) by (auto simp: is_notified_def find_None_iff)
  then have "is_notified (da_key a) rows = Some True"
    using is_notified_Some [OF _ d, of "da_key a"] r by fastforce
  then show ?thesis by (simp add: notify_threshold_alert_def mark(2) assms(4))
qed

text \<open>
  Two categories are over the limit on a day and both are announced. The message of the first fails;
  its second delivery and the message of the other category are acknowledged unsent.
\<close>

lemma marked_before_sent_witness:
  "(let db1 = snd (notify_threshold_alert (sample_gateway False) zero_time
          (sample_daily_alert CustoFixo) sample_daily)
    in length (dd_published sample_daily) = 2 \<and> dd_messages db1 = [] \<and>
       notify_threshold_alert (sample_gateway True) zero_time (sample_daily_alert CustoFixo) db1 =
         ((NotifyAlreadySent, False), db1) \<and>
       notify_threshold_alert (sample_gateway True) zero_time (sample_daily_alert Prazeres) db1 =
         ((NotifyAlreadySent, False), db1))"
proof -
  let ?r = "notify_threshold_alert (sample_gateway False) zero_time (sample_daily_alert CustoFixo) sample_daily"
  obtain db1 where run: "?r = ((NotifyChannelFailed, True), db1)" "dd_messages db1 = []"
    using sample_delivery [of False] by simp
  have "notify_threshold_alert (sample_gateway True) zero_time (sample_daily_alert slug)
      (db1\<lparr>dd_expenses := dd_expenses db1\<rparr>) = ((NotifyAlreadySent, False), db1\<lparr>dd_expenses := dd_expenses db1\<rparr>)"
    for slug
    by (rule marked_before_sent [OF run(1) sample_daily_ok]) (simp_all add: sample_daily_keys)
  moreover have "length (dd_published sample_daily) = 2"
    by (simp add: sample_daily_def publish_and_persist_def)
  ultimately show ?thesis using run by simp
qed


end
