(* ===== verification/PlatformIdempotency.thy ===== *)
theory PlatformIdempotency
  imports GoTime
begin

text \<open>
  Requests that may be sent twice (\<open>internal/platform/idempotency\<close>): the table of keys
  (\<open>postgres_storage.go\<close>), the recorder of a response (\<open>recorder.go\<close>) and the middleware that
  answers a repeated key from the table (\<open>middleware.go\<close>). What a handler behind the middleware
  owes it is the locale \<open>recording_handler\<close>; the handlers of the cards are shown to keep it in the
  theory of the cards.
\<close>

section \<open>The table of keys\<close>

datatype idem_error = ErrIdemNotFound | ErrIdemHashMismatch | ErrIdemDatabase

text \<open>The identifier of a user is passed as its text, which determines it.\<close>

record idem_record =
  ir_scope :: string
  ir_key :: string
  ir_user_id :: uuid
  ir_request_hash :: string
  ir_status :: int
  ir_body :: string
  ir_expires_at :: gotime

type_synonym idem_id = "string \<times> string \<times> uuid"

definition ir_id :: "idem_record \<Rightarrow> idem_id" where
  "ir_id r = (ir_scope r, ir_key r, ir_user_id r)"

definition idem_get :: "gotime \<Rightarrow> idem_id \<Rightarrow> idem_record list \<Rightarrow> idem_error + idem_record" where
  "idem_get now i rows =
     (case find (\<lambda>r. ir_id r = i \<and> after (ir_expires_at r) now) rows of
        None \<Rightarrow> Inl ErrIdemNotFound
      | Some r \<Rightarrow> Inr r)"

text \<open>
  The checks of the table come first. A row of the same key, expired or not, keeps the new one out;
  the row is then read back, which finds it only when it has not expired.
\<close>

definition row_allowed :: "idem_record \<Rightarrow> bool" where
  "row_allowed r \<longleftrightarrow> 1 \<le> length (ir_key r) \<and> length (ir_key r) \<le> 128 \<and>
     length (ir_request_hash r) = 64 \<and> 200 \<le> ir_status r \<and> ir_status r \<le> 599 \<and>
     length (ir_body r) \<le> 65536"

definition idem_put :: "gotime \<Rightarrow> idem_record \<Rightarrow> idem_record list \<Rightarrow> idem_error + idem_record list" where
  "idem_put now rec rows =
     (if \<not> row_allowed rec then Inl ErrIdemDatabase
      else if ir_id rec \<in> ir_id ` set rows then
        (case idem_get now (ir_id rec) rows of
           Inl e \<Rightarrow> Inl e
         | Inr r \<Rightarrow> if ir_request_hash r \<noteq> ir_request_hash rec then Inl ErrIdemHashMismatch
                    else Inr rows)
      else Inr (rows @ [rec]))"

section \<open>The recorder\<close>

text \<open>What a handler does to its response writer, in order.\<close>

datatype writer_call = WriteHeader int | WriteBody string

record recorder =
  rr_status :: int
  rr_buf :: string
  rr_overflow :: bool

definition new_recorder :: recorder where
  "new_recorder = \<lparr>rr_status = 200, rr_buf = [], rr_overflow = False\<rparr>"

fun recorder_call :: "writer_call \<Rightarrow> recorder \<Rightarrow> recorder" where
  "recorder_call (WriteHeader s) r = r\<lparr>rr_status := s\<rparr>"
| "recorder_call (WriteBody b) r =
     (if rr_overflow r then r
      else if 65536 < length (rr_buf r) + length b then r\<lparr>rr_overflow := True\<rparr>
      else r\<lparr>rr_buf := rr_buf r @ b\<rparr>)"

definition recorded :: "writer_call list \<Rightarrow> recorder" where
  "recorded cs = fold recorder_call cs new_recorder"

section \<open>The middleware\<close>

record http_response =
  rs_status :: int
  rs_body :: string

definition json_message :: "int \<Rightarrow> string \<Rightarrow> http_response" where
  "json_message s msg =
     \<lparr>rs_status = s, rs_body = ''{'' @ [CHR 0x22] @ ''message'' @ [CHR 0x22] @ '':'' @ [CHR 0x22] @ msg @
        [CHR 0x22] @ ''}''\<rparr>"

text \<open>
  A request: the key of its header, empty when there is none, the authenticated user, the
  identifier in its path, and its body, \<open>None\<close> when reading it fails.
\<close>

record http_request =
  hr_key :: string
  hr_principal :: "uuid option"
  hr_target :: string
  hr_body :: "string option"

record idem_context =
  ic_scope :: string
  ic_key :: string
  ic_user_id :: uuid
  ic_request_hash :: string
  ic_expires_at :: gotime

definition ic_id :: "idem_context \<Rightarrow> idem_id" where
  "ic_id c = (ic_scope c, ic_key c, ic_user_id c)"

text \<open>The row a handler, or the middleware, stores of a response.\<close>

definition record_for :: "idem_context \<Rightarrow> int \<Rightarrow> string \<Rightarrow> idem_record" where
  "record_for c s b =
     \<lparr>ir_scope = ic_scope c, ir_key = ic_key c, ir_user_id = ic_user_id c,
      ir_request_hash = ic_request_hash c, ir_status = s, ir_body = b, ir_expires_at = ic_expires_at c\<rparr>"

definition is_ascii :: "string \<Rightarrow> bool" where
  "is_ascii s \<longleftrightarrow> (\<forall>c \<in> set s. (of_char c :: nat) \<le> 127)"

text \<open>
  The state of the handlers has the table of keys in it. \<open>hash\<close> is the digest of a body in
  hexadecimal, \<open>now\<close> the time of the request, in the application and in the database.
\<close>

record idem_world =
  iw_keys :: "idem_record list"

type_synonym 'w handler =
  "idem_context \<Rightarrow> gotime \<Rightarrow> http_request \<Rightarrow> 'w \<Rightarrow> writer_call list \<times> 'w"

definition store_rejected ::
  "gotime \<Rightarrow> idem_context \<Rightarrow> recorder \<Rightarrow> 'a idem_world_scheme \<Rightarrow> 'a idem_world_scheme" where
  "store_rejected now c rr w =
     (if 400 \<le> rr_status rr \<and> rr_status rr \<le> 499
      then (case idem_put now (record_for c (rr_status rr) (rr_buf rr)) (iw_keys w) of
              Inl _ \<Rightarrow> w | Inr rows \<Rightarrow> w\<lparr>iw_keys := rows\<rparr>)
      else w)"

definition idem_middleware ::
  "(string \<Rightarrow> string) \<Rightarrow> string \<Rightarrow> int \<Rightarrow> 'a idem_world_scheme handler \<Rightarrow> gotime \<Rightarrow> http_request \<Rightarrow>
   'a idem_world_scheme \<Rightarrow> http_response \<times> 'a idem_world_scheme" where
  "idem_middleware hash scope ttl next_handler now rq w =
     (if hr_key rq = [] then (json_message 400 ''missing_idempotency_key'', w)
      else if 128 < length (hr_key rq) \<or> \<not> is_ascii (hr_key rq)
      then (json_message 400 ''invalid_idempotency_key'', w)
      else case hr_principal rq of
        None \<Rightarrow> (json_message 401 ''unauthorized'', w)
      | Some u \<Rightarrow>
        (case hr_body rq of
           None \<Rightarrow> (json_message 500 ''internal_error'', w)
         | Some body \<Rightarrow>
           (case idem_get now (scope, hr_key rq, u) (iw_keys w) of
              Inr r \<Rightarrow>
                if ir_request_hash r = hash body
                then (\<lparr>rs_status = ir_status r, rs_body = ir_body r\<rparr>, w)
                else (json_message 409 ''idempotency_conflict'', w)
            | Inl e \<Rightarrow>
                if e \<noteq> ErrIdemNotFound then (json_message 500 ''internal_error'', w)
                else
                  (let c = \<lparr>ic_scope = scope, ic_key = hr_key rq, ic_user_id = u,
                            ic_request_hash = hash body, ic_expires_at = add_dur (in_loc now utc) ttl\<rparr>;
                       (calls, w1) = next_handler c now rq w;
                       rr = recorded calls
                   in if rr_overflow rr then (json_message 500 ''internal_error'', w1)
                      else (\<lparr>rs_status = rr_status rr, rs_body = rr_buf rr\<rparr>,
                            store_rejected now c rr w1)))))"

section \<open>Reading back what was stored\<close>

lemma idem_get_Inr:
  assumes "idem_get now i rows = Inr r"
  shows "r \<in> set rows" "ir_id r = i" "after (ir_expires_at r) now"
  using assms by (auto simp: idem_get_def find_Some_iff split: option.splits)

lemma idem_get_Inl: "idem_get now i rows = Inl e \<Longrightarrow> e = ErrIdemNotFound"
  by (auto simp: idem_get_def split: option.splits)

lemma idem_get_none: "i \<notin> ir_id ` set rows \<Longrightarrow> idem_get now i rows = Inl ErrIdemNotFound"
  by (auto simp: idem_get_def find_None_iff split: option.splits)

lemma idem_get_new:
  assumes "ir_id r \<notin> ir_id ` set rows" "after (ir_expires_at r) now"
  shows "idem_get now (ir_id r) (rows @ [r]) = Inr r"
proof -
  have "find (\<lambda>x. ir_id x = ir_id r \<and> after (ir_expires_at x) now) (rows @ [r]) = Some r"
    using assms by (induction rows) auto
  then show ?thesis by (simp add: idem_get_def)
qed

text \<open>The keys of the table stay distinct.\<close>

lemma idem_put_distinct:
  assumes "idem_put now r rows = Inr rows'" "distinct (map ir_id rows)"
  shows "distinct (map ir_id rows')"
  using assms by (auto simp: idem_put_def split: if_splits sum.splits)

text \<open>An expired row of the key keeps every new one out.\<close>

lemma idem_put_expired:
  assumes "x \<in> set rows" "ir_id x = ir_id r" "distinct (map ir_id rows)"
    and "\<not> after (ir_expires_at x) now"
  shows "idem_get now (ir_id r) rows = Inl ErrIdemNotFound" "\<exists>e. idem_put now r rows = Inl e"
proof -
  have "\<not> (\<exists>y \<in> set rows. ir_id y = ir_id r \<and> after (ir_expires_at y) now)"
    using assms by (metis distinct_map inj_onD)
  then show none: "idem_get now (ir_id r) rows = Inl ErrIdemNotFound"
    by (auto simp: idem_get_def find_None_iff split: option.splits)
  show "\<exists>e. idem_put now r rows = Inl e"
    using assms(1,2) by (auto simp: idem_put_def none image_iff intro!: bexI [of _ x])
qed

text \<open>Ids and parts of a context and of the row stored for it.\<close>

lemma record_for_simps [simp]:
  "ir_id (record_for c s b) = ic_id c" "ir_request_hash (record_for c s b) = ic_request_hash c"
  "ir_status (record_for c s b) = s" "ir_body (record_for c s b) = b"
  "ir_expires_at (record_for c s b) = ic_expires_at c"
  by (simp_all add: record_for_def ir_id_def ic_id_def)

lemma row_allowed_record_for:
  "row_allowed (record_for c s b) \<longleftrightarrow> 1 \<le> length (ic_key c) \<and> length (ic_key c) \<le> 128 \<and>
     length (ic_request_hash c) = 64 \<and> 200 \<le> s \<and> s \<le> 599 \<and> length b \<le> 65536"
  by (simp add: row_allowed_def record_for_def)

lemma recorder_small: "length (rr_buf (fold recorder_call cs r)) \<le> 65536"
  if "length (rr_buf r) \<le> 65536"
  using that
proof (induction cs arbitrary: r)
  case (Cons c cs)
  then show ?case by (cases c) simp_all
qed simp

lemma recorded_small [simp]: "length (rr_buf (recorded cs)) \<le> 65536"
  by (simp add: recorded_def recorder_small new_recorder_def)

section \<open>Handlers behind the middleware\<close>

text \<open>
  What the middleware relies on: a handler that answers with a success has stored the answer's
  status under the key of its request, and one that does not has left no trace, the table of keys
  included.
\<close>

definition success :: "int \<Rightarrow> bool" where
  "success s \<longleftrightarrow> 200 \<le> s \<and> s \<le> 299"

locale recording_handler =
  fixes handle :: "'a idem_world_scheme handler"
  assumes stored: "handle c now rq w = (calls, w1) \<Longrightarrow> ic_key c \<noteq> [] \<Longrightarrow>
      success (rr_status (recorded calls)) \<Longrightarrow>
      \<exists>b. idem_put now (record_for c (rr_status (recorded calls)) b) (iw_keys w) = Inr (iw_keys w1)"
    and dropped: "handle c now rq w = (calls, w1) \<Longrightarrow> \<not> success (rr_status (recorded calls)) \<Longrightarrow> w1 = w"
begin

text \<open>The answer of the first request with a key is the answer of every later one.\<close>

lemma repeated:
  assumes "idem_middleware hash scope ttl handle now rq w = (resp, w1)"
    and "(scope, hr_key rq, u) \<notin> ir_id ` set (iw_keys w)" "hr_principal rq = Some u"
    and "success (rs_status resp) \<or> 400 \<le> rs_status resp \<and> rs_status resp \<le> 499"
    and "hr_key rq2 = hr_key rq" "hr_principal rq2 = Some u" "hr_body rq2 = hr_body rq"
    and "after (add_dur (in_loc now utc) ttl) now2" "\<And>b. length (hash b) = 64"
    and "hr_key rq \<noteq> []" "length (hr_key rq) \<le> 128" "is_ascii (hr_key rq)"
  shows "\<exists>b. idem_middleware hash scope ttl other now2 rq2 w1 = (\<lparr>rs_status = rs_status resp, rs_body = b\<rparr>, w1)"
    and "\<not> success (rs_status resp) \<Longrightarrow> idem_middleware hash scope ttl other now2 rq2 w1 = (resp, w1)"
proof -
  obtain body where body: "hr_body rq = Some body"
    using assms(1,3,4,10-12) by (cases "hr_body rq") (auto simp: idem_middleware_def json_message_def success_def)
  define c where "c = \<lparr>ic_scope = scope, ic_key = hr_key rq, ic_user_id = u, ic_request_hash = hash body,
    ic_expires_at = add_dur (in_loc now utc) ttl\<rparr>"
  obtain calls w0 where run: "handle c now rq w = (calls, w0)" by (rule prod.exhaust)
  define rr where "rr = recorded calls"
  have id: "ic_id c = (scope, hr_key rq, u)" by (simp add: c_def ic_id_def)
  have new: "ic_id c \<notin> ir_id ` set (iw_keys w)" using assms(2) id by simp
  have first: "\<not> rr_overflow rr" "resp = \<lparr>rs_status = rr_status rr, rs_body = rr_buf rr\<rparr>"
    "w1 = store_rejected now c rr w0"
    using assms(1,3,4,10-12) run idem_get_none [OF assms(2)]
    by (auto simp: idem_middleware_def body Let_def json_message_def success_def rr_def simp flip: c_def
        split: if_splits)
  obtain b where rows: "iw_keys w1 = iw_keys w @ [record_for c (rs_status resp) b]"
    "\<not> success (rs_status resp) \<longrightarrow> b = rs_body resp"
  proof (cases "success (rs_status resp)")
    case True
    then obtain b where "idem_put now (record_for c (rs_status resp) b) (iw_keys w) = Inr (iw_keys w0)"
      using stored [OF run] first(2) assms(10) by (auto simp: rr_def c_def)
    then have "iw_keys w0 = iw_keys w @ [record_for c (rs_status resp) b]"
      using new by (auto simp: idem_put_def split: if_splits)
    then show ?thesis
      using True first that [of b] by (simp add: store_rejected_def success_def)
  next
    case False
    then have w0: "w0 = w" using dropped [OF run] first(2) by (simp add: rr_def)
    have "row_allowed (record_for c (rr_status rr) (rr_buf rr))"
      using False assms(4,9-11) first(2) by (auto simp: row_allowed_record_for c_def rr_def Suc_le_eq)
    then have "idem_put now (record_for c (rr_status rr) (rr_buf rr)) (iw_keys w) =
        Inr (iw_keys w @ [record_for c (rr_status rr) (rr_buf rr)])"
      using new by (simp add: idem_put_def)
    moreover have "400 \<le> rr_status rr" "rr_status rr \<le> 499" using False assms(4) first(2) by simp_all
    ultimately have "w1 = w\<lparr>iw_keys := iw_keys w @ [record_for c (rr_status rr) (rr_buf rr)]\<rparr>"
      using first(3) w0 by (simp add: store_rejected_def)
    then show ?thesis using that [of "rr_buf rr"] first(2) by simp
  qed
  let ?r = "record_for c (rs_status resp) b"
  have "idem_get now2 (scope, hr_key rq, u) (iw_keys w1) = Inr ?r"
    using idem_get_new [of ?r "iw_keys w" now2] new assms(8) by (simp add: rows(1) id) (simp add: c_def)
  then have again: "idem_middleware hash scope ttl other now2 rq2 w1 = (\<lparr>rs_status = rs_status resp, rs_body = b\<rparr>, w1)"
    using assms(5-7,10-12) by (simp add: idem_middleware_def body) (simp add: c_def)
  then show "\<exists>b. idem_middleware hash scope ttl other now2 rq2 w1 = (\<lparr>rs_status = rs_status resp, rs_body = b\<rparr>, w1)"
    by blast
  show "idem_middleware hash scope ttl other now2 rq2 w1 = (resp, w1)" if "\<not> success (rs_status resp)"
    using again rows(2) that first(2) by simp
qed

text \<open>
  Once the row of a key has expired, no request with that key succeeds any more: the row is not
  found, so the handler runs, and it cannot store its answer.
\<close>

lemma expired_blocks:
  assumes "idem_middleware hash scope ttl handle now rq w = (resp, w1)"
    and "x \<in> set (iw_keys w)" "ir_id x = (scope, hr_key rq, u)" "hr_principal rq = Some u"
    and "distinct (map ir_id (iw_keys w))" "\<not> after (ir_expires_at x) now"
  shows "\<not> success (rs_status resp)" "w1 = w"
proof -
  have main: "\<not> success (rs_status resp) \<and> w1 = w"
  proof (cases "hr_key rq = [] \<or> 128 < length (hr_key rq) \<or> \<not> is_ascii (hr_key rq) \<or> hr_body rq = None")
    case True
    then show ?thesis
      using assms(1,4) by (auto simp: idem_middleware_def json_message_def success_def split: if_splits)
  next
    case False
    then obtain body where body: "hr_body rq = Some body" by blast
    define c where "c = \<lparr>ic_scope = scope, ic_key = hr_key rq, ic_user_id = u, ic_request_hash = hash body,
      ic_expires_at = add_dur (in_loc now utc) ttl\<rparr>"
    obtain calls w0 where run: "handle c now rq w = (calls, w0)" by (rule prod.exhaust)
    have blocked: "idem_get now (scope, hr_key rq, u) (iw_keys w) = Inl ErrIdemNotFound"
      "\<exists>e. idem_put now (record_for c s b) (iw_keys w) = Inl e" for s b
      using idem_put_expired [OF assms(2) _ assms(5,6), of "record_for c s b"] assms(3)
      by (simp_all add: c_def ic_id_def)
    then have fails: "\<not> success (rr_status (recorded calls))"
      using stored [OF run] blocked(2) False by (auto simp: c_def) (metis Inl_Inr_False)
    then have "w0 = w" using dropped [OF run] by blast
    moreover have "store_rejected now c rr w = w" for rr
      using blocked(2) [of "rr_status rr" "rr_buf rr"] by (auto simp: store_rejected_def)
    ultimately show ?thesis
      using assms(1,4) False fails blocked(1) run
      by (auto simp: idem_middleware_def body Let_def json_message_def success_def simp flip: c_def
          split: if_splits)
  qed
  show "\<not> success (rs_status resp)" "w1 = w" using main by simp_all
qed

end

end
