(* ===== verification/CardCycle.thy ===== *)
theory CardCycle
  imports TxnServices PlatformIdempotency
begin

text \<open>
  The calendar of a card (\<open>internal/card/domain\<close>): the billing cycle, the invoice a purchase falls
  on (\<open>billing_cycle.go\<close>), the best day to buy (\<open>purchase_day.go\<close>), the notice of a coming due
  date (\<open>decide_invoice_due_alerts.go\<close>) and the days the query preselects by
  (\<open>card_repository.go\<close>).
\<close>

section \<open>Cycles\<close>

text \<open>
  The errors of the module, those of its inputs, those of the table of keys, and what the database
  reports that no sentinel stands for.
\<close>

datatype card_error =
    ErrCardNotFound | ErrNicknameConflict | ErrInvalidClosingDay | ErrInvalidDueDay
  | ErrInvalidNickname | ErrInvalidPurchaseDate | ErrInvalidCursor | ErrInvalidBank
  | ErrCardUserIDRequired | ErrCardIDRequired | ErrCardBankRequired | ErrCardDueDayInvalid
  | ErrCardNicknameRequired | ErrCardClosingDayInvalid | ErrCardIdempotency idem_error
  | ErrCardDatabase

record billing_cycle =
  bc_closing_day :: int
  bc_due_day :: int

definition new_billing_cycle :: "int \<Rightarrow> int \<Rightarrow> card_error + billing_cycle" where
  "new_billing_cycle c d =
     (if c < 1 \<or> 31 < c then Inl ErrInvalidClosingDay
      else if d < 1 \<or> 31 < d then Inl ErrInvalidDueDay
      else Inr \<lparr>bc_closing_day = c, bc_due_day = d\<rparr>)"

text \<open>
  \<open>clamp\<close> and \<open>daysInMonth\<close> are the ones the transactions have a copy of, \<open>clamp_day\<close>.
\<close>

definition advance_month :: "int \<Rightarrow> int \<Rightarrow> int \<times> int" where
  "advance_month y m = (if 12 < m + 1 then (y + 1, 1) else (y, m + 1))"

definition compute_cycle :: "billing_cycle \<Rightarrow> int \<Rightarrow> int \<Rightarrow> location \<Rightarrow> gotime \<times> gotime" where
  "compute_cycle c y m l =
     (if bc_closing_day c > bc_due_day c then
        (midnight y m (clamp_day (bc_closing_day c) y m) l,
         case advance_month y m of (dy, dm) \<Rightarrow> midnight dy dm (clamp_day (bc_due_day c) dy dm) l)
      else if bc_closing_day c < bc_due_day c then
        (midnight y m (clamp_day (bc_closing_day c) y m) l,
         midnight y m (clamp_day (bc_due_day c) y m) l)
      else
        (let due = midnight y m (clamp_day (bc_due_day c) y m) l in (add_date due 0 0 (- 1), due)))"

text \<open>The closing and the due date of the invoice.\<close>

definition invoice_for :: "gotime \<Rightarrow> billing_cycle \<Rightarrow> location \<Rightarrow> gotime \<times> gotime" where
  "invoice_for purchase c l =
     (let p = in_loc purchase l; y = year p; m = month p;
          purchase_day = midnight y m (day p) l;
          (closing, due) = compute_cycle c y m l
      in if after purchase_day closing
         then (case advance_month y m of (ny, nm) \<Rightarrow> compute_cycle c ny nm l)
         else (closing, due))"

section \<open>The best day to buy\<close>

definition decide_purchase_day :: "int \<Rightarrow> int \<Rightarrow> gotime \<Rightarrow> location \<Rightarrow> int \<times> int" where
  "decide_purchase_day ddue days_before now l =
     (let ref = in_loc now l;
          due = midnight (year ref) (month ref) (clamp_day ddue (year ref) (month ref)) l;
          cday = day (add_date due 0 0 (- days_before));
          best = cday + 1
      in (cday, if 31 < best then 1 else best))"

section \<open>Notices of due dates\<close>

record due_candidate =
  dc_user_id :: uuid
  dc_card_id :: uuid
  dc_nickname :: string
  dc_cycle :: billing_cycle

record due_alert =
  du_user_id :: uuid
  du_card_id :: uuid
  du_nickname :: string
  du_due_date :: gotime
  du_days_until :: int

definition next_due_date :: "billing_cycle \<Rightarrow> gotime \<Rightarrow> location \<Rightarrow> gotime" where
  "next_due_date c start l =
     (let y = year start; m = month start;
          candidate = midnight y m (clamp_day (bc_due_day c) y m) l
      in if before candidate start
         then (case advance_month y m of (ny, nm) \<Rightarrow>
                 midnight ny nm (clamp_day (bc_due_day c) ny nm) l)
         else candidate)"

text \<open>Hours over 24, cut off: between midnights the hours are whole or half ones.\<close>

definition days_between :: "gotime \<Rightarrow> gotime \<Rightarrow> int" where
  "days_between from to = sub_time to from sdiv day_ns"

definition decide_due_alerts ::
  "due_candidate list \<Rightarrow> int \<Rightarrow> gotime \<Rightarrow> location \<Rightarrow> due_alert list" where
  "decide_due_alerts cs window now l =
     (let today = in_loc now l; start = midnight (year today) (month today) (day today) l
      in map (\<lambda>c. let due = next_due_date (dc_cycle c) start l in
                  \<lparr>du_user_id = dc_user_id c, du_card_id = dc_card_id c, du_nickname = dc_nickname c,
                   du_due_date = due, du_days_until = days_between start due\<rparr>)
           (filter (\<lambda>c. let days = days_between start (next_due_date (dc_cycle c) start l)
                        in \<not> (days < 0 \<or> window < days)) cs))"

text \<open>The days of the month from which the query takes its cards.\<close>

definition due_day_window :: "gotime \<Rightarrow> int \<Rightarrow> int list" where
  "due_day_window now window =
     remdups (map (\<lambda>i. day (add_date now 0 0 (int i))) [0..<nat (window + 2)])"

section \<open>Dates as day numbers\<close>

lemma date_of_day: "date_of t = (year t, month t, day t)"
  by (simp add: year_def month_def day_def)

lemma add_days:
  assumes "steady (loc t) off"
  shows "local_day (add_date t 0 0 k) = local_day t + k"
    and "loc (add_date t 0 0 k) = loc t"
proof -
  have r: "0 \<le> local_secs t mod day_s" "local_secs t mod day_s < day_s" "0 \<le> ns t mod second_ns"
    "ns t mod second_ns < second_ns"
    by simp_all
  have "days_of (year t) (month t) (day t + k) = local_day t + k"
    by (simp add: days_of_add_day local_day_date)
  then show "local_day (add_date t 0 0 k) = local_day t + k"
    using r by (simp add: add_date_def local_day_def local_secs_go_date [OF assms])
  show "loc (add_date t 0 0 k) = loc t" by (simp add: add_date_def)
qed

text \<open>Midnights of a steady zone are told apart by their day.\<close>

definition is_midnight :: "location \<Rightarrow> gotime \<Rightarrow> bool" where
  "is_midnight l t \<longleftrightarrow> (\<exists>y m d. t = midnight y m d l)"

lemma midnight_is [simp]: "is_midnight l (midnight y m d l)"
  by (auto simp: is_midnight_def)

lemma midnight_by_day:
  assumes "steady l off" "is_midnight l s" "is_midnight l t"
  shows "s = t \<longleftrightarrow> local_day s = local_day t" "before s t \<longleftrightarrow> local_day s < local_day t"
    "after s t \<longleftrightarrow> local_day t < local_day s"
    "ns t - ns s = (local_day t - local_day s) * day_ns"
proof -
  obtain y m d y' m' d' where st: "s = midnight y m d l" "t = midnight y' m' d' l"
    using assms by (auto simp: is_midnight_def)
  have days: "local_day s = days_of y m d" "local_day t = days_of y' m' d'"
    by (simp_all add: st local_day_midnight [OF assms(1)])
  show "s = t \<longleftrightarrow> local_day s = local_day t"
    using midnight_cong [of y m d y' m' d' l] by (auto simp: days) (simp_all add: st flip: days)
  show "before s t \<longleftrightarrow> local_day s < local_day t" "after s t \<longleftrightarrow> local_day t < local_day s"
    by (simp_all add: days) (simp_all add: st midnight_less [OF assms(1)] midnight_after [OF assms(1)])
  show "ns t - ns s = (local_day t - local_day s) * day_ns"
    by (simp add: days) (simp add: st ns_go_date [OF assms(1)] algebra_simps)
qed

lemma day_before_midnight:
  assumes "steady l off"
  shows "is_midnight l (add_date (midnight y m d l) 0 0 k)"
    and "local_day (add_date (midnight y m d l) 0 0 k) = days_of y m d + k"
proof -
  have "local_secs (midnight y m d l) mod day_s = 0" "ns (midnight y m d l) mod second_ns = 0"
    using assms by (simp_all add: local_secs_go_date ns_go_date)
  then show "is_midnight l (add_date (midnight y m d l) 0 0 k)"
    by (auto simp: add_date_def is_midnight_def)
  show "local_day (add_date (midnight y m d l) 0 0 k) = days_of y m d + k"
    using add_days(1) [of "midnight y m d l"] assms by (simp add: local_day_midnight)
qed

lemma advance_month_nth:
  assumes "nth_month k = (y, m)"
  shows "advance_month y m = nth_month (k + 1)"
proof -
  have m: "1 \<le> m" "m \<le> 12" using nth_month_range [of k] assms by simp_all
  have "k = month_count y m"
    using assms mult_div_mod_eq [of 12 k] by (auto simp: nth_month_def month_count_def)
  then show ?thesis using nth_month_Suc [OF m, of y] m by (auto simp: advance_month_def)
qed

text \<open>The month an instant falls in, counted.\<close>

definition month_of :: "gotime \<Rightarrow> int" where
  "month_of t = month_count (year t) (month t)"

lemma month_of: "nth_month (month_of t) = (year t, month t)"
  using nth_month_count [OF month_range [of t]] by (simp add: month_of_def)

lemma month_of_bounds:
  "month_start (month_of t) \<le> local_day t" "local_day t < month_start (month_of t + 1)"
  "day t = local_day t - month_start (month_of t) + 1"
proof -
  have d: "local_day t = month_start (month_of t) + day t - 1"
    using days_of_day [of "year t" "month t" "day t"] by (simp add: local_day_date month_start_def month_of)
  have "day t \<le> month_length (month_of t)"
    using date_of_valid [of t] by (simp add: month_length_def month_of valid_date_def)
  then show "month_start (month_of t) \<le> local_day t" "local_day t < month_start (month_of t + 1)"
    "day t = local_day t - month_start (month_of t) + 1"
    using d day_range [of t] month_start_Suc [of "month_of t"] by simp_all
qed

lemma month_of_unique:
  assumes "month_start k \<le> local_day t" "local_day t < month_start (k + 1)"
  shows "month_of t = k"
  using assms month_of_bounds(1,2) [of t] month_start_less [of "month_of t + 1" k]
    month_start_less [of "k + 1" "month_of t"] month_length_range
  by (smt (verit) month_start_less)

section \<open>The invoice of a purchase\<close>

text \<open>
  The day on which the cycle of month \<open>k\<close> closes, the day before it is due when both days are the
  same, and the day on which it is due, in the next month when it closes after the due day.
\<close>

definition cycle_close :: "billing_cycle \<Rightarrow> int \<Rightarrow> int" where
  "cycle_close c k = (if bc_closing_day c = bc_due_day c then clamped_day (bc_due_day c) k - 1
                      else clamped_day (bc_closing_day c) k)"

definition cycle_due :: "billing_cycle \<Rightarrow> int \<Rightarrow> int" where
  "cycle_due c k = clamped_day (bc_due_day c) (if bc_due_day c < bc_closing_day c then k + 1 else k)"

definition valid_cycle :: "billing_cycle \<Rightarrow> bool" where
  "valid_cycle c \<longleftrightarrow> 1 \<le> bc_closing_day c \<and> bc_closing_day c \<le> 31 \<and>
     1 \<le> bc_due_day c \<and> bc_due_day c \<le> 31"

lemma new_billing_cycle_valid: "new_billing_cycle a b = Inr c \<Longrightarrow> valid_cycle c"
  by (auto simp: new_billing_cycle_def valid_cycle_def split: if_splits)

lemma compute_cycle_days:
  assumes "steady l off" "nth_month k = (y, m)" "compute_cycle c y m l = (cl, du)"
  shows "local_day cl = cycle_close c k" "local_day du = cycle_due c k"
    "is_midnight l cl" "is_midnight l du"
proof -
  obtain ny nm where n: "nth_month (k + 1) = (ny, nm)" by fastforce
  have adv: "advance_month y m = (ny, nm)" using advance_month_nth [OF assms(2)] n by simp
  have day: "days_of y m (clamp_day d y m) = clamped_day d k" for d
    using midnight_clamped [OF assms(1,2)] by (simp add: local_day_midnight [OF assms(1)])
  show "local_day cl = cycle_close c k" "local_day du = cycle_due c k"
    "is_midnight l cl" "is_midnight l du"
    using assms(3) day midnight_clamped [OF assms(1,2)] midnight_clamped [OF assms(1) n]
      day_before_midnight [OF assms(1)]
    by (auto simp: compute_cycle_def cycle_close_def cycle_due_def adv Let_def split: if_splits)
qed

lemma close_before_due: "valid_cycle c \<Longrightarrow> cycle_close c k \<le> cycle_due c k"
  using clamped_day_less [of "bc_closing_day c" "bc_due_day c" k "k + 1"]
  by (auto simp: cycle_close_def cycle_due_def clamped_day_def valid_cycle_def)

text \<open>
  A purchase falls on the first invoice that closes on or after its day: the previous cycle
  closed before the purchase, this one closes no earlier, and it is due no earlier than it closes.
  Days a month does not have are moved to its last day.
\<close>

lemma invoice_for_first:
  assumes "steady l off" "valid_cycle c" "invoice_for p c l = (cl, du)"
  shows "\<exists>k \<in> {month_of (in_loc p l), month_of (in_loc p l) + 1}.
    local_day cl = cycle_close c k \<and> local_day du = cycle_due c k \<and>
    cycle_close c (k - 1) < local_day (in_loc p l) \<and> local_day (in_loc p l) \<le> cycle_close c k \<and>
    local_day cl \<le> local_day du \<and> loc cl = l \<and> loc du = l"
proof -
  define t where "t = in_loc p l"
  define k where "k = month_of t"
  obtain cl1 du1 where one: "compute_cycle c (year t) (month t) l = (cl1, du1)" by (rule prod.exhaust)
  obtain ny nm where n: "nth_month (k + 1) = (ny, nm)" by fastforce
  obtain cl2 du2 where two: "compute_cycle c ny nm l = (cl2, du2)" by (rule prod.exhaust)
  have k: "nth_month k = (year t, month t)" by (simp add: k_def month_of)
  note d1 = compute_cycle_days [OF assms(1) k one] and d2 = compute_cycle_days [OF assms(1) n two]
  have "is_midnight l (midnight (year t) (month t) (day t) l)" "local_day (midnight (year t) (month t) (day t) l) = local_day t"
    by (simp_all add: local_day_midnight [OF assms(1)] local_day_date [of t])
  then have late: "after (midnight (year t) (month t) (day t) l) cl1 \<longleftrightarrow> cycle_close c k < local_day t"
    using midnight_by_day(3) [OF assms(1) _ d1(3)] d1(1) by simp
  have res: "(cl, du) = (if cycle_close c k < local_day t then (cl2, du2) else (cl1, du1))"
    using assms(3) late advance_month_nth [OF k] n one two
    by (auto simp: invoice_for_def Let_def simp flip: t_def split: if_splits)
  have bounds: "cycle_close c (k - 1) < local_day t" "local_day t \<le> cycle_close c (k + 1)"
    using month_of_bounds(1,2) [of t] month_start_Suc [of "k - 1"] assms(2) month_length_range [of "k + 1"]
    by (auto simp: cycle_close_def clamped_day_def valid_cycle_def simp flip: k_def)
  have mid: "loc x = l" if "is_midnight l x" for x using that by (auto simp: is_midnight_def)
  show ?thesis
  proof (cases "cycle_close c k < local_day t")
    case True
    then show ?thesis
      using res d2 bounds close_before_due [OF assms(2)] mid
      by (intro bexI [where x = "k + 1"]) (simp_all add: t_def [symmetric] k_def [symmetric])
  next
    case False
    then show ?thesis
      using res d1 bounds close_before_due [OF assms(2)] mid
      by (intro bexI [where x = k]) (simp_all add: t_def [symmetric] k_def [symmetric])
  qed
qed

lemma invoice_midnights:
  assumes "steady l off" "invoice_for p c l = (cl, du)"
  shows "is_midnight l cl" "is_midnight l du"
proof -
  have "is_midnight l a \<and> is_midnight l b" if "compute_cycle c y m l = (a, b)" for y m a b
    using that day_before_midnight(1) [OF assms(1)]
    by (auto simp: compute_cycle_def Let_def split: if_splits prod.splits)
  then show "is_midnight l cl" "is_midnight l du"
    using assms(2) by (auto simp: invoice_for_def Let_def split: if_splits prod.splits)
qed

lemma close_unique:
  assumes "valid_cycle c" "cycle_close c (j - 1) < x" "x \<le> cycle_close c j"
    and "cycle_close c (k - 1) < x" "x \<le> cycle_close c k"
  shows "j = k"
proof -
  have less: "cycle_close c i < cycle_close c i'" if "i < i'" for i i'
    using that assms(1) clamped_day_less [of "bc_closing_day c" "bc_closing_day c" i i']
      clamped_day_less [of "bc_due_day c" "bc_due_day c" i i']
    by (auto simp: cycle_close_def valid_cycle_def)
  have "\<not> j < k" using less [of j "k - 1"] assms(3,4) by (cases "j = k - 1") auto
  moreover have "\<not> k < j" using less [of k "j - 1"] assms(2,5) by (cases "k = j - 1") auto
  ultimately show ?thesis by simp
qed

text \<open>
  C28: The card module and the transactions module, which each have their own calendar, put a
  purchase on the same invoice: the dates the card announces are those of the first installment.
  Only for a card that closes on its due day do they differ: the card closes the day before, and a
  purchase on the due day itself falls due a month later than its first installment.
\<close>

theorem card_agrees_with_transactions:
  assumes "steady l off" "loc p = l" "valid_cycle c" "resolve p s n = (rms, cls, dues)" "0 < count n"
    and "dom_value (closing_day s) = bc_closing_day c" "dom_value (due_day s) = bc_due_day c"
    and "invoice_for p c l = (cl, du)"
  shows "if bc_closing_day c = bc_due_day c
    then (du = hd dues \<longleftrightarrow> local_day p \<noteq> local_day (hd dues)) \<and> local_day cl = local_day du - 1
    else (cl, du) = (hd cls, hd dues)"
proof -
  define k where "k = first_month p (bc_closing_day c)"
  obtain rm tc td where one: "cycle_at l (bc_closing_day c) (bc_due_day c) (nth_month k) 0 = (rm, tc, td)"
    by (metis prod_cases3)
  have "first_cycle p (bc_closing_day c) = nth_month k"
    using first_cycle_nth [of p off] assms(1,2) by (simp add: k_def)
  then have heads: "hd cls = tc" "hd dues = td"
    using assms(2,4-7) one by (auto simp: resolve_def Let_def hd_map upt_rec)
  note f = cycle_at_fields [OF assms(1) one, simplified]
  have mid: "is_midnight l tc" "is_midnight l td"
    using one by (auto simp: cycle_at_def Let_def split: prod.splits)
  have first: "clamped_day (bc_closing_day c) (k - 1) < local_day p"
    "local_day p \<le> clamped_day (bc_closing_day c) k"
    using first_month_bounds [of "bc_closing_day c" p] assms(3) by (simp_all add: k_def valid_cycle_def)
  obtain j where j: "local_day cl = cycle_close c j" "local_day du = cycle_due c j"
    "cycle_close c (j - 1) < local_day p" "local_day p \<le> cycle_close c j"
    using invoice_for_first [OF assms(1,3,8)] assms(2) by auto
  have mid': "is_midnight l cl" "is_midnight l du"
    using invoice_midnights [OF assms(1,8)] by simp_all
  show ?thesis
  proof (cases "bc_closing_day c = bc_due_day c")
    case False
    then have "j = k"
      using first j(3,4) by (intro close_unique [OF assms(3), of j "local_day p" k]) (simp_all add: cycle_close_def)
    then show ?thesis
      using False f(2,3) j(1,2) mid mid' midnight_by_day(1) [OF assms(1)]
      by (simp add: heads cycle_close_def cycle_due_def)
  next
    case True
    then have td: "local_day td = clamped_day (bc_due_day c) k" using f(3) by simp
    have "j = (if local_day p = local_day td then k + 1 else k)"
    proof (rule close_unique [OF assms(3) j(3,4)])
      show "cycle_close c ((if local_day p = local_day td then k + 1 else k) - 1) < local_day p"
        using first True td by (simp add: cycle_close_def)
      have "clamped_day (bc_due_day c) k < clamped_day (bc_due_day c) (k + 1)"
        using assms(3) by (intro clamped_day_less) (simp_all add: valid_cycle_def)
      then show "local_day p \<le> cycle_close c (if local_day p = local_day td then k + 1 else k)"
        using first True td by (simp add: cycle_close_def)
    qed
    moreover have "clamped_day (bc_due_day c) k < clamped_day (bc_due_day c) (k + 1)"
      using assms(3) by (intro clamped_day_less) (simp_all add: valid_cycle_def)
    ultimately show ?thesis
      using True td j(1,2) mid mid' midnight_by_day(1) [OF assms(1), of du td]
      by (auto simp: heads cycle_close_def cycle_due_def)
  qed
qed

section \<open>Notices\<close>

text \<open>The next due date is the first one that has not passed.\<close>

lemma next_due_days:
  assumes "steady l off" "is_midnight l t" "1 \<le> bc_due_day c" "loc t = l"
  defines "k \<equiv> month_of t"
  defines "j \<equiv> if clamped_day (bc_due_day c) k < local_day t then k + 1 else k"
  shows "local_day (next_due_date c t l) = clamped_day (bc_due_day c) j"
    "is_midnight l (next_due_date c t l)" "local_day t \<le> clamped_day (bc_due_day c) j"
    "clamped_day (bc_due_day c) (j - 1) < local_day t"
proof -
  obtain ny nm where n: "nth_month (k + 1) = (ny, nm)" by fastforce
  have k: "nth_month k = (year t, month t)" by (simp add: k_def month_of)
  have one: "local_day (midnight (year t) (month t) (clamp_day (bc_due_day c) (year t) (month t)) l) =
      clamped_day (bc_due_day c) k"
    using midnight_clamped [OF assms(1) k] .
  have two: "local_day (midnight ny nm (clamp_day (bc_due_day c) ny nm) l) = clamped_day (bc_due_day c) (k + 1)"
    using midnight_clamped [OF assms(1) n] .
  have late: "before (midnight (year t) (month t) (clamp_day (bc_due_day c) (year t) (month t)) l) t \<longleftrightarrow>
      clamped_day (bc_due_day c) k < local_day t"
    using midnight_by_day(2) [OF assms(1) midnight_is assms(2)] one by simp
  show "local_day (next_due_date c t l) = clamped_day (bc_due_day c) j"
    "is_midnight l (next_due_date c t l)"
    using one two late advance_month_nth [OF k] n by (simp_all add: next_due_date_def Let_def j_def)
  show "local_day t \<le> clamped_day (bc_due_day c) j" "clamped_day (bc_due_day c) (j - 1) < local_day t"
    using month_of_bounds(1,2) [of t] month_start_Suc [of "k - 1"] assms(3) month_length_range [of "k + 1"]
    by (auto simp: j_def clamped_day_def simp flip: k_def)
qed

lemma days_between_midnights:
  assumes "steady l off" "is_midnight l s" "is_midnight l t" "0 \<le> local_day t - local_day s"
    "local_day t - local_day s \<le> 100"
  shows "days_between s t = local_day t - local_day s"
proof -
  have "(local_day t - local_day s) * day_ns \<le> 100 * day_ns" using assms(5) by (intro mult_right_mono) simp_all
  then have "sub_time t s = (local_day t - local_day s) * day_ns"
    using midnight_by_day(4) [OF assms(1-3)] assms(4) by (simp add: sub_time_def)
  moreover have "0 \<le> (local_day t - local_day s) * day_ns" using assms(4) by simp
  ultimately show ?thesis by (simp add: days_between_def sdiv_nonneg)
qed

lemma days_between_le:
  assumes "steady l off" "is_midnight l s" "is_midnight l t" "local_day s \<le> local_day t"
    and "days_between s t \<le> w" "w < 100"
  shows "local_day t \<le> local_day s + w"
proof -
  have "sub_time t s = min (2 ^ 63 - 1) ((local_day t - local_day s) * day_ns)"
    using midnight_by_day(4) [OF assms(1-3)] assms(4) by (simp add: sub_time_def)
  moreover have "0 \<le> (local_day t - local_day s) * day_ns" using assms(4) by simp
  ultimately have "days_between s t = min (2 ^ 63 - 1) ((local_day t - local_day s) * day_ns) div day_ns"
    by (simp add: days_between_def sdiv_nonneg)
  then show ?thesis using assms(5,6) by (auto simp: min_def split: if_splits)
qed

text \<open>The days the preselection covers. An instant of a given day, to speak of its month.\<close>

definition at_day :: "int \<Rightarrow> gotime" where
  "at_day x = \<lparr>ns = x * day_ns, loc = utc\<rparr>"

lemma local_day_at [simp]: "local_day (at_day x) = x"
proof -
  have "local_secs (at_day x) = x * 86400"
    using steady_utc by (simp add: at_day_def local_secs_def steady_def)
  then show ?thesis by (simp add: local_day_def)
qed

lemma day_by_number: "local_day s = local_day t \<Longrightarrow> day s = day t"
  by (simp add: day_def date_of_def local_day_def)

lemma set_due_day_window:
  assumes "steady (loc now) off"
  shows "set (due_day_window now w) = (\<lambda>x. day (at_day x)) ` {local_day now..local_day now + w + 1}"
proof -
  have "day (add_date now 0 0 (int i)) = day (at_day (local_day now + int i))" for i
    using add_days(1) [OF assms] by (intro day_by_number) simp
  then have "set (due_day_window now w) = (\<lambda>i. day (at_day (local_day now + int i))) ` {0..<nat (w + 2)}"
    by (simp add: due_day_window_def)
  also have "\<dots> = (\<lambda>x. day (at_day x)) ` ((\<lambda>i. local_day now + int i) ` {0..<nat (w + 2)})"
    by (simp add: image_image)
  also have "(\<lambda>i. local_day now + int i) ` {0..<nat (w + 2)} = {local_day now..local_day now + w + 1}"
  proof (intro set_eqI iffI)
    fix x assume "x \<in> {local_day now..local_day now + w + 1}"
    then show "x \<in> (\<lambda>i. local_day now + int i) ` {0..<nat (w + 2)}"
      by (intro image_eqI [where x = "nat (x - local_day now)"]) auto
  qed auto
  finally show ?thesis .
qed

text \<open>
  A day with the number of a due day the due month does not have lies at least four weeks away
  from it.
\<close>

lemma clamped_far:
  assumes "month_length j < d" "day (at_day x) = d"
  shows "x \<le> clamped_day d j - 28 \<or> clamped_day d j + d \<le> x"
proof -
  define i where "i = month_of (at_day x)"
  have x: "month_start i \<le> x" "x < month_start (i + 1)" "d = x - month_start i + 1"
    using month_of_bounds [of "at_day x"] assms(2) by (simp_all add: i_def)
  have D: "clamped_day d j = month_start (j + 1) - 1"
    using assms(1) month_start_Suc [of j] by (simp add: clamped_day_def)
  have "i \<noteq> j" using x assms(1) month_start_Suc [of j] by auto
  then consider "i < j" | "j < i" by linarith
  then show ?thesis
  proof cases
    case 1
    then have "month_start (i + 1) \<le> month_start j"
      using month_start_less [of "i + 1" j] month_length_range [of "i + 1"] by (cases "i + 1 = j") auto
    then show ?thesis using x D month_start_Suc [of j] month_length_range [of j] by simp
  next
    case 2
    then have "month_start (j + 1) \<le> month_start i"
      using month_start_less [of "j + 1" i] month_length_range [of "j + 1"] by (cases "j + 1 = i") auto
    then show ?thesis using x D by simp
  qed
qed

text \<open>
  C29: Of the cards to be announced, the query takes exactly those whose due day the month of the
  due date has. A card due on the 29th, 30th or 31st is not announced in the shorter months, in
  which its invoice falls due on their last day.
\<close>

theorem clamped_due_day_missed:
  assumes "steady l off" "local_day (in_loc now l) = local_day (in_loc now utc)"
    and "valid_cycle (dc_cycle c)" "0 \<le> w" "w < 27" "decide_due_alerts [c] w now l = [a]"
  shows "bc_due_day (dc_cycle c) \<in> set (due_day_window (in_loc now utc) w) \<longleftrightarrow>
    day (du_due_date a) = bc_due_day (dc_cycle c)"
proof -
  define d where "d = bc_due_day (dc_cycle c)"
  define t where "t = in_loc now l"
  define start where "start = midnight (year t) (month t) (day t) l"
  have start: "is_midnight l start" "loc start = l" "local_day start = local_day t"
    by (simp_all add: start_def local_day_midnight [OF assms(1)] local_day_date [of t])
  have d1: "1 \<le> bc_due_day (dc_cycle c)" using assms(3) by (simp add: valid_cycle_def)
  note n = next_due_days [OF assms(1) start(1) d1 start(2)]
  define due where "due = next_due_date (dc_cycle c) start l"
  obtain j where j: "local_day due = clamped_day d j" "local_day t \<le> clamped_day d j"
    "is_midnight l due"
    using n start(3) by (auto simp: d_def due_def)
  have a: "du_due_date a = due" "days_between start due \<le> w"
    using assms(6) by (auto simp: decide_due_alerts_def Let_def t_def start_def due_def split: if_splits)
  have near: "clamped_day d j \<le> local_day t + w"
    using days_between_le [OF assms(1) start(1) j(3) _ a(2)] assms(5) j start(3) by simp
  have set: "set (due_day_window (in_loc now utc) w) = (\<lambda>x. day (at_day x)) ` {local_day t..local_day t + w + 1}"
    using set_due_day_window [of "in_loc now utc" 0 w] assms(2) by (simp add: t_def)
  have dd: "day due = min d (month_length j)"
  proof -
    have "month_of due = j"
      using j(1) d1 month_start_Suc [of j] month_length_range [of j]
      by (intro month_of_unique) (auto simp: clamped_day_def d_def)
    then show ?thesis using month_of_bounds(3) [of due] j(1) by (simp add: clamped_day_def)
  qed
  have "d \<in> set (due_day_window (in_loc now utc) w) \<longleftrightarrow> day due = d"
  proof
    assume "day due = d"
    then have "day (at_day (clamped_day d j)) = d" using day_by_number [of "at_day (clamped_day d j)" due] j(1) by simp
    then show "d \<in> set (due_day_window (in_loc now utc) w)" unfolding set using j(2) near by force
  next
    assume "d \<in> set (due_day_window (in_loc now utc) w)"
    then obtain x where x: "day (at_day x) = d" "local_day t \<le> x" "x \<le> local_day t + w + 1"
      unfolding set by auto
    have "\<not> month_length j < d"
      using clamped_far [OF _ x(1), of j] x(2,3) j(2) near assms(5) month_length_range [of j] by auto
    then show "day due = d" using dd by simp
  qed
  then show ?thesis by (simp add: a(1) d_def)
qed

theorem clamped_due_day_missed_witness:
  "(let now = midnight 2025 4 28 utc;
        c = \<lparr>dc_user_id = 1, dc_card_id = 2, dc_nickname = ''azul'',
              dc_cycle = \<lparr>bc_closing_day = 24, bc_due_day = 31\<rparr>\<rparr>
    in map du_days_until (decide_due_alerts [c] 3 now utc) = [2] \<and>
       31 \<notin> set (due_day_window (in_loc now utc) 3))"
proof -
  let ?now = "midnight 2025 4 28 utc"
  let ?y = "\<lparr>bc_closing_day = 24, bc_due_day = 31\<rparr>"
  let ?c = "\<lparr>dc_user_id = 1, dc_card_id = 2, dc_nickname = ''azul'', dc_cycle = ?y\<rparr>"
  have v: "valid_date 2025 4 28" "valid_date 2025 4 30" by (simp_all add: valid_date_def days_in_month_def)
  have now: "year ?now = 2025" "month ?now = 4" "day ?now = 28"
    using midnight_fields [OF steady_utc v(1)] by simp_all
  have days: "local_day ?now = days_of 2025 4 28" "clamped_day 31 24303 = days_of 2025 4 30"
    "days_of 2025 4 30 = days_of 2025 4 28 + 2"
    by (simp_all add: local_day_midnight [OF steady_utc] clamped_day_def month_start_def month_length_def
        nth_month_def days_of_day [of 2025 4 28] days_of_day [of 2025 4 30] days_in_month_def)
  have k: "month_of ?now = 24303" by (simp add: month_of_def now month_count_def)
  let ?due = "next_due_date ?y ?now utc"
  have due: "local_day ?due = days_of 2025 4 30" "is_midnight utc ?due"
    using next_due_days [OF steady_utc, of ?now ?y] by (simp_all add: k days)
  have two: "days_between ?now ?due = 2"
    using days_between_midnights [OF steady_utc midnight_is due(2)] by (simp add: due(1) days)
  have "day ?due = 30"
    using day_by_number [of ?due "midnight 2025 4 30 utc"] midnight_fields(3) [OF steady_utc v(2)]
    by (simp add: due(1) local_day_midnight [OF steady_utc])
  moreover have "decide_due_alerts [?c] 3 ?now utc =
      [\<lparr>du_user_id = 1, du_card_id = 2, du_nickname = ''azul'', du_due_date = ?due, du_days_until = 2\<rparr>]"
    by (simp add: decide_due_alerts_def Let_def now two)
  ultimately show ?thesis
    using clamped_due_day_missed [of utc 0 ?now ?c 3] by (simp add: Let_def valid_cycle_def)
qed

text \<open>A card that closes and is due on the 10th, and a purchase on the 10th.\<close>

theorem card_agrees_with_transactions_witness:
  "(let p = midnight 2025 3 10 utc; c = \<lparr>bc_closing_day = 10, bc_due_day = 10\<rparr>;
        s = \<lparr>closing_day = \<lparr>dom_value = 10, dom_max = 31\<rparr>, due_day = \<lparr>dom_value = 10, dom_max = 31\<rparr>\<rparr>;
        (_, _, dues) = resolve p s (InstallmentCount 1)
    in snd (invoice_for p c utc) \<noteq> hd dues)"
proof -
  let ?p = "midnight 2025 3 10 utc" and ?c = "\<lparr>bc_closing_day = 10, bc_due_day = 10\<rparr>"
  let ?s = "\<lparr>closing_day = \<lparr>dom_value = 10, dom_max = 31\<rparr>, due_day = \<lparr>dom_value = 10, dom_max = 31\<rparr>\<rparr>"
  obtain rms cls dues where r: "resolve ?p ?s (InstallmentCount 1) = (rms, cls, dues)" by (metis prod_cases3)
  obtain cl du where i: "invoice_for ?p ?c utc = (cl, du)" by (rule prod.exhaust)
  obtain rm tc td where one: "cycle_at utc 10 10 (nth_month 24302) 0 = (rm, tc, td)" by (metis prod_cases3)
  have v: "valid_date 2025 3 10" by (simp add: valid_date_def days_in_month_def)
  have "first_month ?p 10 = 24302"
    by (simp add: first_month_def midnight_fields [OF steady_utc v] month_count_def)
  then have "first_cycle ?p 10 = nth_month 24302" using first_cycle_nth [of ?p 0 10] steady_utc by simp
  then have "hd dues = td" using r one by (auto simp: resolve_def Let_def upt_rec)
  moreover have "local_day td = local_day ?p"
    using cycle_at_fields(3) [OF steady_utc one]
    by (simp add: local_day_midnight [OF steady_utc] clamped_day_def month_start_def month_length_def
        nth_month_def days_of_day [of 2025 3 10] days_in_month_def)
  ultimately have "local_day (hd dues) = local_day ?p" by simp
  then show ?thesis
    using card_agrees_with_transactions [OF steady_utc _ _ r _ _ _ i] by (simp add: r i valid_cycle_def)
qed

end
