(* ===== verification/CardStore.thy ===== *)
theory CardStore
  imports CardCycle
begin

text \<open>
  The cards of a user: their values and entity (\<open>internal/card/domain\<close>), their table
  (\<open>card_repository.go\<close>, \<open>bank_repository.go\<close>) and the pages a list of them is read in. The use
  cases over them are in the theory \<open>CardUseCases\<close>.
\<close>

section \<open>Texts\<close>

text \<open>
  The number of code points of a text, an invalid byte counting as one, as \<open>unicode/utf8\<close> decodes
  it: how long the encoding is that a first byte opens, and the range of its second byte.
\<close>

definition utf8_lead :: "nat \<Rightarrow> (nat \<times> nat \<times> nat) option" where
  "utf8_lead b =
     (if 0xC2 \<le> b \<and> b \<le> 0xDF then Some (2, 0x80, 0xBF)
      else if b = 0xE0 then Some (3, 0xA0, 0xBF)
      else if b = 0xED then Some (3, 0x80, 0x9F)
      else if 0xE1 \<le> b \<and> b \<le> 0xEF then Some (3, 0x80, 0xBF)
      else if b = 0xF0 then Some (4, 0x90, 0xBF)
      else if 0xF1 \<le> b \<and> b \<le> 0xF3 then Some (4, 0x80, 0xBF)
      else if b = 0xF4 then Some (4, 0x80, 0x8F)
      else None)"

fun rune_at :: "string \<Rightarrow> nat option" where
  "rune_at [] = None"
| "rune_at (c # cs) =
     (if (of_char c :: nat) < 0x80 then Some 1
      else case utf8_lead (of_char c) of
        None \<Rightarrow> None
      | Some (n, lo, hi) \<Rightarrow>
          if length cs + 1 < n then None
          else (case map of_char (take (n - 1) cs) of
                  [] \<Rightarrow> None
                | b # bs \<Rightarrow> if lo \<le> b \<and> b \<le> hi \<and> (\<forall>x \<in> set bs. 0x80 \<le> x \<and> x \<le> 0xBF)
                             then Some n else None))"

definition rune_size :: "string \<Rightarrow> nat" where
  "rune_size s = (case rune_at s of None \<Rightarrow> 1 | Some n \<Rightarrow> max 1 n)"

function rune_count :: "string \<Rightarrow> nat" where
  "rune_count [] = 0"
| "rune_count (c # cs) = Suc (rune_count (drop (rune_size (c # cs)) (c # cs)))"
  by pat_completeness auto
termination
  by (relation "measure length") (auto simp: rune_size_def split: option.splits)

function utf8_valid :: "string \<Rightarrow> bool" where
  "utf8_valid [] = True"
| "utf8_valid (c # cs) =
     (rune_at (c # cs) \<noteq> None \<and> utf8_valid (drop (rune_size (c # cs)) (c # cs)))"
  by pat_completeness auto
termination
  by (relation "measure length") (auto simp: rune_size_def split: option.splits)

text \<open>What a column of type text takes.\<close>

definition pg_text :: "string \<Rightarrow> bool" where
  "pg_text s \<longleftrightarrow> utf8_valid s \<and> CHR 0x00 \<notin> set s"

text \<open>\<open>strings.Fields\<close>: the words between white space, with the word being read as first argument.\<close>

function fields_of :: "string \<Rightarrow> string \<Rightarrow> string list" where
  "fields_of word [] = (if word = [] then [] else [word])"
| "fields_of word (c # cs) =
     (case strip_any space_codes (c # cs) of
        Some rest \<Rightarrow> (if word = [] then [] else [word]) @ fields_of [] rest
      | None \<Rightarrow> fields_of (word @ [c]) cs)"
  by pat_completeness auto
termination
  by (relation "measure (\<lambda>(_, s). length s)") (auto dest: strip_any_shorter)

lemma fields_of_plain:
  "\<forall>c \<in> set s. 33 \<le> (of_char c :: nat) \<and> (of_char c :: nat) \<le> 127 \<Longrightarrow>
   fields_of w s = (if w @ s = [] then [] else [w @ s])"
proof (induction s arbitrary: w)
  case (Cons c s)
  have "hd p \<noteq> c" if "p \<in> set space_codes" for p
    using space_heads(1) [OF that] Cons.prems by auto
  then have "strip_any space_codes (c # s) = None" by (intro strip_any_hd) simp_all
  then show ?case using Cons.IH [of "w @ [c]"] Cons.prems by simp
qed simp

fun join_with :: "string \<Rightarrow> string list \<Rightarrow> string" where
  "join_with sep [] = []"
| "join_with sep [w] = w"
| "join_with sep (w # ws) = w @ sep @ join_with sep ws"

section \<open>Values\<close>

datatype nickname = Nickname (nickname_value: string)

definition new_nickname :: "string \<Rightarrow> card_error + nickname" where
  "new_nickname v =
     (if rune_count v < 1 \<or> 32 < rune_count v then Inl ErrInvalidNickname else Inr (Nickname v))"

datatype bank_code = BankCode (bank_display: string)

text \<open>
  \<open>strip\<close> turns a text into lower case and takes its accents off, which needs the tables of
  Unicode and \<open>golang.org/x/text\<close>.
\<close>

definition normalize_bank :: "(string \<Rightarrow> string) \<Rightarrow> string \<Rightarrow> string" where
  "normalize_bank strip s = join_with ''-'' (fields_of [] (strip (trim_space s)))"

definition new_bank_code :: "(string \<Rightarrow> string) \<Rightarrow> string \<Rightarrow> card_error + bank_code" where
  "new_bank_code strip raw =
     (let display = trim_space raw
      in if display = [] \<or> normalize_bank strip display = [] then Inl ErrInvalidBank
         else Inr (BankCode display))"

definition lookup_key :: "(string \<Rightarrow> string) \<Rightarrow> bank_code \<Rightarrow> string" where
  "lookup_key strip b = normalize_bank strip (bank_display b)"

record card_entity =
  ce_id :: uuid
  ce_user_id :: uuid
  ce_nickname :: nickname
  ce_bank :: bank_code
  ce_cycle :: billing_cycle
  ce_version :: int
  ce_created_at :: gotime
  ce_updated_at :: gotime
  ce_deleted_at :: "gotime option"

definition card_is_deleted :: "card_entity \<Rightarrow> bool" where
  "card_is_deleted c \<longleftrightarrow> ce_deleted_at c \<noteq> None"

definition hydrate_card ::
  "uuid \<Rightarrow> uuid \<Rightarrow> nickname \<Rightarrow> bank_code \<Rightarrow> billing_cycle \<Rightarrow> gotime \<Rightarrow> gotime \<Rightarrow> gotime option \<Rightarrow> card_entity" where
  "hydrate_card i u n b c created updated deleted =
     \<lparr>ce_id = i, ce_user_id = u, ce_nickname = n, ce_bank = b, ce_cycle = c, ce_version = 1,
      ce_created_at = created, ce_updated_at = updated, ce_deleted_at = deleted\<rparr>"

record create_card_command =
  cc_user_id :: uuid
  cc_nickname :: nickname
  cc_bank :: bank_code
  cc_cycle :: billing_cycle

definition create_card_decider :: "create_card_command \<Rightarrow> uuid \<Rightarrow> gotime \<Rightarrow> card_entity" where
  "create_card_decider cmd i now =
     hydrate_card i (cc_user_id cmd) (cc_nickname cmd) (cc_bank cmd) (cc_cycle cmd)
       (in_loc now utc) (in_loc now utc) None"

record update_card_command =
  uc_nickname :: "string option"
  uc_bank :: "bank_code option"
  uc_cycle :: "billing_cycle option"

definition update_card_decider ::
  "card_entity \<Rightarrow> update_card_command \<Rightarrow> gotime \<Rightarrow> card_error + card_entity" where
  "update_card_decider c cmd now =
     (case (case uc_nickname cmd of None \<Rightarrow> Inr (ce_nickname c) | Some v \<Rightarrow> new_nickname v) of
        Inl e \<Rightarrow> Inl e
      | Inr n \<Rightarrow>
          Inr (c\<lparr>ce_nickname := n,
                 ce_bank := (case uc_bank cmd of None \<Rightarrow> ce_bank c | Some b \<Rightarrow> b),
                 ce_cycle := (case uc_cycle cmd of None \<Rightarrow> ce_cycle c | Some y \<Rightarrow> y),
                 ce_updated_at := in_loc now utc\<rparr>))"

section \<open>The table\<close>

record card_row =
  cr_id :: uuid
  cr_user_id :: uuid
  cr_nickname :: string
  cr_bank :: string
  cr_closing_day :: int
  cr_due_day :: int
  cr_version :: int
  cr_created_at :: gotime
  cr_updated_at :: gotime
  cr_deleted_at :: "gotime option"

definition card_live :: "card_row \<Rightarrow> bool" where
  "card_live r \<longleftrightarrow> cr_deleted_at r = None"

definition card_row_ok :: "card_row \<Rightarrow> bool" where
  "card_row_ok r \<longleftrightarrow> pg_text (cr_bank r) \<and> pg_text (cr_nickname r) \<and>
     1 \<le> rune_count (cr_bank r) \<and> rune_count (cr_bank r) \<le> 64 \<and>
     1 \<le> cr_closing_day r \<and> cr_closing_day r \<le> 31 \<and> 1 \<le> cr_due_day r \<and> cr_due_day r \<le> 31 \<and>
     1 \<le> rune_count (cr_nickname r) \<and> rune_count (cr_nickname r) \<le> 32"

text \<open>Some live row of the user, other than the one with identifier \<open>i\<close>, has the nickname.\<close>

definition nickname_taken :: "uuid \<Rightarrow> uuid \<Rightarrow> string \<Rightarrow> card_row list \<Rightarrow> bool" where
  "nickname_taken i u n rows \<longleftrightarrow>
     (\<exists>r \<in> set rows. card_live r \<and> cr_id r \<noteq> i \<and> cr_user_id r = u \<and> cr_nickname r = n)"

text \<open>The state: the keys of repeated requests, the cards, the users they belong to and the banks.\<close>

record card_world = idem_world +
  cw_cards :: "card_row list"
  cw_users :: "uuid list"
  cw_banks :: "(string \<times> int) list"

definition row_of_card :: "card_entity \<Rightarrow> card_row" where
  "row_of_card c =
     \<lparr>cr_id = ce_id c, cr_user_id = ce_user_id c, cr_nickname = nickname_value (ce_nickname c),
      cr_bank = bank_display (ce_bank c), cr_closing_day = bc_closing_day (ce_cycle c),
      cr_due_day = bc_due_day (ce_cycle c),
      cr_version = (if ce_version c \<le> 0 then 1 else ce_version c),
      cr_created_at = in_loc (ce_created_at c) utc, cr_updated_at = in_loc (ce_updated_at c) utc,
      cr_deleted_at = None\<rparr>"

definition hydrate_row :: "(string \<Rightarrow> string) \<Rightarrow> card_row \<Rightarrow> card_error + card_entity" where
  "hydrate_row strip r =
     (case new_nickname (cr_nickname r) of
        Inl e \<Rightarrow> Inl e
      | Inr n \<Rightarrow>
          (case new_bank_code strip (cr_bank r) of
             Inl e \<Rightarrow> Inl e
           | Inr b \<Rightarrow>
               (case new_billing_cycle (cr_closing_day r) (cr_due_day r) of
                  Inl e \<Rightarrow> Inl e
                | Inr y \<Rightarrow>
                    Inr \<lparr>ce_id = cr_id r, ce_user_id = cr_user_id r, ce_nickname = n, ce_bank = b,
                         ce_cycle = y, ce_version = cr_version r, ce_created_at = cr_created_at r,
                         ce_updated_at = cr_updated_at r, ce_deleted_at = None\<rparr>)))"

fun hydrate_rows :: "(string \<Rightarrow> string) \<Rightarrow> card_row list \<Rightarrow> card_error + card_entity list" where
  "hydrate_rows strip [] = Inr []"
| "hydrate_rows strip (r # rs) =
     (case hydrate_row strip r of
        Inl e \<Rightarrow> Inl e
      | Inr c \<Rightarrow> (case hydrate_rows strip rs of Inl e \<Rightarrow> Inl e | Inr cs \<Rightarrow> Inr (c # cs)))"

text \<open>The checks of the row come first, then its identifier, its nickname and its user.\<close>

definition insert_card :: "card_entity \<Rightarrow> card_world \<Rightarrow> card_error + card_world" where
  "insert_card c w =
     (let r = row_of_card c
      in if \<not> card_row_ok r \<or> cr_id r \<in> cr_id ` set (cw_cards w) then Inl ErrCardDatabase
         else if nickname_taken (cr_id r) (cr_user_id r) (cr_nickname r) (cw_cards w)
         then Inl ErrNicknameConflict
         else if cr_user_id r \<notin> set (cw_users w) then Inl ErrCardDatabase
         else Inr (w\<lparr>cw_cards := cw_cards w @ [r]\<rparr>))"

definition card_of :: "uuid \<Rightarrow> uuid \<Rightarrow> card_row \<Rightarrow> bool" where
  "card_of i u r \<longleftrightarrow> cr_id r = i \<and> cr_user_id r = u \<and> card_live r"

definition get_card_row :: "(string \<Rightarrow> string) \<Rightarrow> uuid \<Rightarrow> uuid \<Rightarrow> card_world \<Rightarrow> card_error + card_entity" where
  "get_card_row strip i u w =
     (case find (card_of i u) (cw_cards w) of
        None \<Rightarrow> Inl ErrCardNotFound
      | Some r \<Rightarrow> hydrate_row strip r)"

definition set_card_row :: "card_entity \<Rightarrow> card_row \<Rightarrow> card_row" where
  "set_card_row c r =
     r\<lparr>cr_nickname := nickname_value (ce_nickname c), cr_bank := bank_display (ce_bank c),
       cr_closing_day := bc_closing_day (ce_cycle c), cr_due_day := bc_due_day (ce_cycle c),
       cr_version := cr_version r + 1, cr_updated_at := in_loc (ce_updated_at c) utc\<rparr>"

definition update_card_row ::
  "(string \<Rightarrow> string) \<Rightarrow> card_entity \<Rightarrow> card_world \<Rightarrow> card_error + card_entity \<times> card_world" where
  "update_card_row strip c w =
     (case find (card_of (ce_id c) (ce_user_id c)) (cw_cards w) of
        None \<Rightarrow> Inl ErrCardNotFound
      | Some r \<Rightarrow>
          (let r1 = set_card_row c r
           in if \<not> card_row_ok r1 \<or> \<not> in_i64 (cr_version r1) then Inl ErrCardDatabase
              else if nickname_taken (cr_id r) (cr_user_id r) (cr_nickname r1) (cw_cards w)
              then Inl ErrNicknameConflict
              else (case hydrate_row strip r1 of
                      Inl e \<Rightarrow> Inl e
                    | Inr c1 \<Rightarrow>
                        Inr (c1, w\<lparr>cw_cards :=
                          map (\<lambda>x. if card_of (ce_id c) (ce_user_id c) x then set_card_row c x else x)
                            (cw_cards w)\<rparr>))))"

definition soft_delete_card_row :: "uuid \<Rightarrow> uuid \<Rightarrow> gotime \<Rightarrow> card_world \<Rightarrow> card_error + card_world" where
  "soft_delete_card_row i u now w =
     (if \<exists>r \<in> set (cw_cards w). card_of i u r
      then Inr (w\<lparr>cw_cards := map (\<lambda>r. if card_of i u r
             then r\<lparr>cr_deleted_at := Some (in_loc now utc)\<rparr> else r) (cw_cards w)\<rparr>)
      else Inl ErrCardNotFound)"

definition count_active :: "uuid \<Rightarrow> card_world \<Rightarrow> int" where
  "count_active u w = int (length (filter (\<lambda>r. cr_user_id r = u \<and> card_live r) (cw_cards w)))"

definition find_due_within ::
  "(string \<Rightarrow> string) \<Rightarrow> int \<Rightarrow> int \<Rightarrow> gotime \<Rightarrow> card_world \<Rightarrow> card_error + card_entity list" where
  "find_due_within strip window limit now w =
     (let days = due_day_window (in_loc now utc) (if window < 0 then 0 else window)
      in hydrate_rows strip
           (take (nat (if limit \<le> 0 then 500 else limit))
             (sort_key cr_user_id (sort_key cr_id
               (filter (\<lambda>r. card_live r \<and> cr_due_day r \<in> set days) (cw_cards w))))))"

text \<open>
  The order of the pages, newest first and by descending identifier. A cursor is the time and the
  identifier of a card; its text form, base64 over JSON, is not modelled.
\<close>

type_synonym card_cursor = "gotime \<times> uuid"

fun row_below :: "card_cursor \<Rightarrow> card_row \<Rightarrow> bool" where
  "row_below (t, i) r \<longleftrightarrow> ns (cr_created_at r) < ns t \<or> ns (cr_created_at r) = ns t \<and> cr_id r < i"

definition cards_newest_first :: "uuid \<Rightarrow> card_row list \<Rightarrow> card_row list" where
  "cards_newest_first u rows =
     rev (sort_key (\<lambda>r. ns (cr_created_at r)) (sort_key cr_id
       (filter (\<lambda>r. cr_user_id r = u \<and> card_live r) rows)))"

text \<open>\<open>None\<close> is the panic of taking the last element of an empty slice.\<close>

definition list_by_user ::
  "(string \<Rightarrow> string) \<Rightarrow> uuid \<Rightarrow> card_cursor option \<Rightarrow> int \<Rightarrow> card_world \<Rightarrow>
   (card_error + card_entity list \<times> card_cursor option) option" where
  "list_by_user strip u cursor limit w =
     (let fetch = limit + 1;
          rows = filter (\<lambda>r. case cursor of None \<Rightarrow> True | Some p \<Rightarrow> row_below p r)
            (cards_newest_first u (cw_cards w))
      in if fetch < 0 then Some (Inl ErrCardDatabase)
         else case hydrate_rows strip (take (nat fetch) rows) of
           Inl e \<Rightarrow> Some (Inl e)
         | Inr cards \<Rightarrow>
             if limit < int (length cards) then
               if limit \<le> 0 then None
               else (let shown = take (nat limit) cards; c = shown ! (length shown - 1)
                     in Some (Inr (shown, Some (ce_created_at c, ce_id c))))
             else Some (Inr (cards, None)))"

definition days_before_due :: "(string \<Rightarrow> string) \<Rightarrow> bank_code \<Rightarrow> card_world \<Rightarrow> int" where
  "days_before_due strip b w =
     (case map_of (cw_banks w) (lookup_key strip b) of None \<Rightarrow> 7 | Some d \<Rightarrow> d)"

definition bank_recognized :: "(string \<Rightarrow> string) \<Rightarrow> bank_code \<Rightarrow> card_world \<Rightarrow> bool" where
  "bank_recognized strip b w \<longleftrightarrow> lookup_key strip b \<in> fst ` set (cw_banks w)"

section \<open>Reading rows back\<close>

lemma bank_code_reads_back:
  "new_bank_code strip raw = Inr b \<Longrightarrow> new_bank_code strip (bank_display b) = Inr b"
  by (auto simp: new_bank_code_def Let_def split: if_splits)

lemma hydrate_row_fields:
  assumes "hydrate_row strip r = Inr c"
  shows "ce_id c = cr_id r" "ce_user_id c = cr_user_id r" "nickname_value (ce_nickname c) = cr_nickname r"
    "new_bank_code strip (cr_bank r) = Inr (ce_bank c)" "new_nickname (cr_nickname r) = Inr (ce_nickname c)"
    "new_billing_cycle (cr_closing_day r) (cr_due_day r) = Inr (ce_cycle c)"
    "ce_cycle c = \<lparr>bc_closing_day = cr_closing_day r, bc_due_day = cr_due_day r\<rparr>"
    "ce_created_at c = cr_created_at r" "ce_version c = cr_version r"
    "ce_updated_at c = cr_updated_at r" "ce_deleted_at c = None"
  using assms
  by (auto simp: hydrate_row_def new_nickname_def new_billing_cycle_def split: sum.splits if_splits)

lemma hydrate_rows_Inr:
  "hydrate_rows strip rs = Inr cs \<longleftrightarrow>
     length cs = length rs \<and> (\<forall>i < length rs. hydrate_row strip (rs ! i) = Inr (cs ! i))"
proof (induction rs arbitrary: cs)
  case (Cons r rs)
  show ?case
  proof (cases cs)
    case (Cons c cs')
    then show ?thesis
      using Cons.IH [of cs'] by (auto simp: All_less_Suc2 split: sum.splits)
  qed (auto split: sum.splits)
qed auto

lemma hydrate_rows_take:
  "hydrate_rows strip rs = Inr cs \<Longrightarrow> hydrate_rows strip (take n rs) = Inr (take n cs)"
  by (auto simp: hydrate_rows_Inr)

lemma hydrate_rows_drop:
  "hydrate_rows strip rs = Inr cs \<Longrightarrow> hydrate_rows strip (drop n rs) = Inr (drop n cs)"
  by (auto simp: hydrate_rows_Inr)

section \<open>Pages\<close>

definition cursor_of :: "card_row \<Rightarrow> card_cursor" where
  "cursor_of r = (cr_created_at r, cr_id r)"

text \<open>In a list sorted by an asymmetric order, what comes below an element comes after it.\<close>

lemma filter_below:
  assumes "sorted_wrt R xs" "k < length xs" "\<And>x. \<not> R x x" "\<And>x y. R x y \<Longrightarrow> \<not> R y x"
  shows "filter (R (xs ! k)) xs = drop (Suc k) xs"
proof -
  have split: "xs = take k xs @ xs ! k # drop (Suc k) xs" using assms(2) by (rule id_take_nth_drop)
  have "sorted_wrt R (take k xs @ xs ! k # drop (Suc k) xs)" using assms(1) split by simp
  then have "\<forall>x \<in> set (take k xs). R x (xs ! k)" "\<forall>x \<in> set (drop (Suc k) xs). R (xs ! k) x"
    by (simp_all only: sorted_wrt_append sorted_wrt.simps list.set ball_simps) blast+
  then have "filter (R (xs ! k)) (take k xs) = []" "filter (R (xs ! k)) (drop (Suc k) xs) = drop (Suc k) xs"
    using assms(4) by (auto simp: filter_empty_conv)
  then show ?thesis using split assms(3) by (metis append_Nil filter.simps(2) filter_append)
qed

text \<open>Sorting twice, the second time stably, sorts by both keys.\<close>

lemma insort_lex:
  fixes f :: "'a \<Rightarrow> 'k::linorder" and g :: "'a \<Rightarrow> 'l::linorder"
  assumes "sorted_wrt (\<lambda>x y. f x < f y \<or> f x = f y \<and> g x < g y) ys" "\<forall>y \<in> set ys. g x < g y"
  shows "sorted_wrt (\<lambda>x y. f x < f y \<or> f x = f y \<and> g x < g y) (insort_key f x ys)"
  using assms by (induction ys) (auto simp: set_insort_key)

lemma sort_lex:
  fixes f :: "'a \<Rightarrow> 'k::linorder" and g :: "'a \<Rightarrow> 'l::linorder"
  assumes "sorted_wrt (\<lambda>x y. g x < g y) xs"
  shows "sorted_wrt (\<lambda>x y. f x < f y \<or> f x = f y \<and> g x < g y) (sort_key f xs)"
  using assms by (induction xs) (auto intro: insort_lex)

lemma sorted_two_keys:
  fixes f :: "'a \<Rightarrow> 'k::linorder" and g :: "'a \<Rightarrow> 'l::linorder"
  assumes "distinct (map g xs)"
  shows "sorted_wrt (\<lambda>x y. f x < f y \<or> f x = f y \<and> g x < g y) (sort_key f (sort_key g xs))"
proof (rule sort_lex)
  have "distinct (map g (sort_key g xs))" using assms by (simp add: distinct_map)
  moreover have "sorted (map g (sort_key g xs))" by simp
  ultimately have "sorted_wrt (<) (map g (sort_key g xs))" by (simp add: strict_sorted_iff)
  then show "sorted_wrt (\<lambda>x y. g x < g y) (sort_key g xs)" by (simp add: sorted_wrt_map)
qed

lemma newest_first_sorted:
  assumes "distinct (map cr_id rows)"
  shows "sorted_wrt (\<lambda>a b. row_below (cursor_of a) b) (cards_newest_first u rows)"
proof -
  have "distinct (map cr_id (filter (\<lambda>r. cr_user_id r = u \<and> card_live r) rows))"
    using assms by (rule distinct_map_filter)
  from sorted_two_keys [OF this, of "\<lambda>r. ns (cr_created_at r)"]
  show ?thesis
    by (simp add: cards_newest_first_def sorted_wrt_rev cursor_of_def)
qed

lemma newest_first_set [simp]:
  "set (cards_newest_first u rows) = {r \<in> set rows. cr_user_id r = u \<and> card_live r}"
  by (auto simp: cards_newest_first_def)

lemma rows_below_cursor:
  assumes "distinct (map cr_id rows)" "k < length (cards_newest_first u rows)"
  shows "filter (row_below (cursor_of (cards_newest_first u rows ! k))) (cards_newest_first u rows) =
    drop (Suc k) (cards_newest_first u rows)"
proof (rule filter_below [OF newest_first_sorted [OF assms(1)] assms(2)])
  show "\<not> row_below (cursor_of x) x" for x by (simp add: cursor_of_def)
  show "row_below (cursor_of x) y \<Longrightarrow> \<not> row_below (cursor_of y) x" for x y
    by (auto simp: cursor_of_def)
qed

text \<open>Following the cursors, at most \<open>n\<close> of them.\<close>

fun pages :: "nat \<Rightarrow> (string \<Rightarrow> string) \<Rightarrow> uuid \<Rightarrow> int \<Rightarrow> card_world \<Rightarrow> card_cursor option \<Rightarrow> card_entity list option" where
  "pages 0 strip u limit w cur = None"
| "pages (Suc n) strip u limit w cur =
     (case list_by_user strip u cur limit w of
        Some (Inr (cs, None)) \<Rightarrow> Some cs
      | Some (Inr (cs, Some p)) \<Rightarrow> map_option ((@) cs) (pages n strip u limit w (Some p))
      | _ \<Rightarrow> None)"

lemma pages_from:
  assumes "limit = int l" "0 < l" "distinct (map cr_id (cw_cards w))"
    and "hydrate_rows strip (cards_newest_first u (cw_cards w)) = Inr cards"
    and "filter (\<lambda>r. case cur of None \<Rightarrow> True | Some p \<Rightarrow> row_below p r) (cards_newest_first u (cw_cards w)) =
      drop m (cards_newest_first u (cw_cards w))"
    and "length cards < m + n * l + 1" "m \<le> length cards" "0 < n"
  shows "pages n strip u limit w cur = Some (drop m cards)"
  using assms(5-8)
proof (induction n arbitrary: m cur)
  case (Suc n)
  let ?L = "cards_newest_first u (cw_cards w)" and ?D = "drop m cards"
  have len: "length ?L = length cards" using assms(4) by (auto simp: hydrate_rows_Inr)
  have nat: "nat (1 + int l) = Suc l" "nat (int l + 1) = Suc l" by simp_all
  have page: "hydrate_rows strip (take (Suc l) (drop m ?L)) = Inr (take (Suc l) ?D)"
    using assms(4) by (intro hydrate_rows_take hydrate_rows_drop)
  show ?case
  proof (cases "length ?D \<le> l")
    case True
    then have "list_by_user strip u cur limit w = Some (Inr (?D, None))"
      using assms(1) by (simp add: list_by_user_def Suc.prems(1) page nat Let_def)
    then show ?thesis by simp
  next
    case False
    define k where "k = m + l - 1"
    have k: "k < length cards" "Suc k = m + l" using False assms(2) by (auto simp: k_def)
    have row: "hydrate_row strip (?L ! k) = Inr (cards ! k)"
      using assms(4) k(1) len by (simp add: hydrate_rows_Inr)
    have shown: "take l (take (Suc l) ?D) = take l ?D" "length (take l ?D) = l" "take l ?D ! (l - 1) = cards ! k"
      "l < length (take (Suc l) ?D)"
      using k False assms(2) by (simp_all add: k_def min_def)
    have "list_by_user strip u cur limit w =
        Some (Inr (take l ?D, Some (ce_created_at (cards ! k), ce_id (cards ! k))))"
      unfolding list_by_user_def Suc.prems(1) Let_def
      using assms(1,2) shown by (simp add: page nat del: take_take length_take length_drop)
    then have "list_by_user strip u cur limit w = Some (Inr (take l ?D, Some (cursor_of (?L ! k))))"
      using hydrate_row_fields(1,8) [OF row] by (simp add: cursor_of_def)
    moreover have "pages n strip u limit w (Some (cursor_of (?L ! k))) = Some (drop (Suc k) cards)"
      using Suc.IH [of "Some (cursor_of (?L ! k))" "Suc k"] rows_below_cursor [OF assms(3), of k u] k Suc.prems(2) len
        False assms(2)
      by (cases n) (auto simp: algebra_simps)
    ultimately show ?thesis
      using k(2) append_take_drop_id [of l ?D] by (simp add: add.commute)
  qed
qed simp

text \<open>
  C30: Following the cursors of a user's pages from the first, whatever their size, shows every live
  card exactly once, newest first.
\<close>

theorem pages_show_all:
  assumes "1 \<le> limit" "distinct (map cr_id (cw_cards w))"
    and "hydrate_rows strip (cards_newest_first u (cw_cards w)) = Inr cards"
  shows "pages (Suc (length (cw_cards w))) strip u limit w None = Some cards \<and> distinct (map ce_id cards) \<and>
    ce_id ` set cards = cr_id ` {r \<in> set (cw_cards w). cr_user_id r = u \<and> card_live r}"
proof -
  let ?L = "cards_newest_first u (cw_cards w)"
  have each: "length cards = length ?L" "\<And>i. i < length ?L \<Longrightarrow> hydrate_row strip (?L ! i) = Inr (cards ! i)"
    using assms(3) by (simp_all add: hydrate_rows_Inr)
  then have ids: "map ce_id cards = map cr_id ?L"
    by (intro nth_equalityI) (auto dest: hydrate_row_fields(1))
  have "length ?L \<le> length (cw_cards w)" by (simp add: cards_newest_first_def)
  moreover have "1 \<le> nat limit" using assms(1) by simp
  then have "length (cw_cards w) \<le> length (cw_cards w) * nat limit" by simp
  ultimately have "length cards < 0 + Suc (length (cw_cards w)) * nat limit + 1"
    unfolding each(1) mult_Suc by linarith
  then have "pages (Suc (length (cw_cards w))) strip u limit w None = Some cards"
    using pages_from [OF _ _ assms(2,3), of limit "nat limit" None 0 "Suc (length (cw_cards w))"] assms(1)
    by (simp del: pages.simps)
  moreover have "distinct (map ce_id cards)"
    unfolding ids using assms(2) by (simp add: cards_newest_first_def distinct_map distinct_map_filter inj_on_def)
  moreover have "ce_id ` set cards = cr_id ` {r \<in> set (cw_cards w). cr_user_id r = u \<and> card_live r}"
    using arg_cong [OF ids, of set] by simp
  ultimately show ?thesis by simp
qed

lemma sample_bank:
  "new_bank_code id ''inter'' = Inr (BankCode ''inter'')" "lookup_key id (BankCode ''inter'') = ''inter''"
proof -
  have "trim_space ''inter'' = ''inter''" by (rule no_space_ends) simp_all
  moreover have "fields_of [] ''inter'' = [''inter'']" by (subst fields_of_plain) simp_all
  ultimately show "new_bank_code id ''inter'' = Inr (BankCode ''inter'')" "lookup_key id (BankCode ''inter'') = ''inter''"
    by (simp_all add: new_bank_code_def lookup_key_def normalize_bank_def Let_def)
qed

lemma sample_nickname: "new_nickname ''azul'' = Inr (Nickname ''azul'')"
  by code_simp

definition sample_card_row :: "uuid \<Rightarrow> int \<Rightarrow> card_row" where
  "sample_card_row i t = \<lparr>cr_id = i, cr_user_id = 7, cr_nickname = ''azul'', cr_bank = ''inter'', cr_closing_day = 3,
     cr_due_day = 10, cr_version = 1, cr_created_at = \<lparr>ns = t, loc = utc\<rparr>, cr_updated_at = \<lparr>ns = t, loc = utc\<rparr>,
     cr_deleted_at = None\<rparr>"

lemma sample_card_row_reads:
  "hydrate_row id (sample_card_row i t) = Inr \<lparr>ce_id = i, ce_user_id = 7, ce_nickname = Nickname ''azul'',
     ce_bank = BankCode ''inter'', ce_cycle = \<lparr>bc_closing_day = 3, bc_due_day = 10\<rparr>, ce_version = 1,
     ce_created_at = \<lparr>ns = t, loc = utc\<rparr>, ce_updated_at = \<lparr>ns = t, loc = utc\<rparr>, ce_deleted_at = None\<rparr>"
  by (simp add: hydrate_row_def sample_card_row_def sample_nickname sample_bank new_billing_cycle_def)

theorem pages_show_all_witness:
  "let w = \<lparr>iw_keys = [], cw_cards = [sample_card_row 1 5, sample_card_row 2 9], cw_users = [7], cw_banks = []\<rparr>
   in \<exists>cards. pages 3 id 7 1 w None = Some cards \<and> distinct (map ce_id cards) \<and> ce_id ` set cards = {1, 2}"
proof -
  let ?w = "\<lparr>iw_keys = [], cw_cards = [sample_card_row 1 5, sample_card_row 2 9], cw_users = [7], cw_banks = []\<rparr> :: card_world"
  have fields: "cr_id (sample_card_row i t) = i" "cr_user_id (sample_card_row i t) = 7" "card_live (sample_card_row i t)"
    "ns (cr_created_at (sample_card_row i t)) = t" for i t
    by (simp_all add: sample_card_row_def card_live_def)
  have "cards_newest_first 7 (cw_cards ?w) = [sample_card_row 2 9, sample_card_row 1 5]"
    by (simp add: cards_newest_first_def fields)
  then obtain cards where "hydrate_rows id (cards_newest_first 7 (cw_cards ?w)) = Inr cards"
    by (simp add: sample_card_row_reads)
  moreover have "{r \<in> set (cw_cards ?w). cr_user_id r = 7 \<and> card_live r} = {sample_card_row 1 5, sample_card_row 2 9}"
    by (auto simp: fields)
  ultimately have "pages 3 id 7 1 ?w None = Some cards \<and> distinct (map ce_id cards) \<and> ce_id ` set cards = {1, 2}"
    using pages_show_all [of 1 ?w id 7 cards] by (simp add: fields numeral_3_eq_3 del: pages.simps)
  then show ?thesis unfolding Let_def by blast
qed

end
