(* ===== verification/CardUseCases.thy ===== *)
theory CardUseCases
  imports CardStore "HOL-Library.Sublist"
begin

text \<open>
  The use cases that create, change and delete a card (\<open>internal/card/application/usecases\<close>) and
  the HTTP handlers in front of them, which stand behind the middleware of repeated requests
  (\<open>internal/card/infrastructure/http/server\<close>).
\<close>

section \<open>Calls\<close>

record card_output =
  co_id :: uuid
  co_user_id :: uuid
  co_nickname :: string
  co_bank :: string
  co_closing_day :: int
  co_due_day :: int
  co_best_purchase_day :: int
  co_created_at :: gotime
  co_updated_at :: gotime
  co_deleted_at :: "gotime option"

definition to_card_output :: "card_entity \<Rightarrow> card_output" where
  "to_card_output c =
     (let best = bc_closing_day (ce_cycle c) + 1
      in \<lparr>co_id = ce_id c, co_user_id = ce_user_id c, co_nickname = nickname_value (ce_nickname c),
          co_bank = bank_display (ce_bank c), co_closing_day = bc_closing_day (ce_cycle c),
          co_due_day = bc_due_day (ce_cycle c), co_best_purchase_day = (if 31 < best then 1 else best),
          co_created_at = ce_created_at c, co_updated_at = ce_updated_at c,
          co_deleted_at = ce_deleted_at c\<rparr>)"

text \<open>
  What one call gets from outside: the clock, a fresh identifier, the zone of Sao Paulo, the
  folding of texts, \<open>json.Marshal\<close> and the context the middleware left, if any.
\<close>

record card_call =
  ck_now :: gotime
  ck_id :: uuid
  ck_zone :: location
  ck_strip :: "string \<Rightarrow> string"
  ck_marshal :: "card_output \<Rightarrow> string"
  ck_idem :: "idem_context option"

definition store_answer :: "card_call \<Rightarrow> int \<Rightarrow> string \<Rightarrow> card_world \<Rightarrow> card_error + card_world" where
  "store_answer k s body w =
     (case ck_idem k of
        None \<Rightarrow> Inr w
      | Some ic \<Rightarrow>
          (case idem_put (ck_now k) (record_for ic s body) (iw_keys w) of
             Inl e \<Rightarrow> Inl (ErrCardIdempotency e)
           | Inr rows \<Rightarrow> Inr (w\<lparr>iw_keys := rows\<rparr>)))"

section \<open>Creating\<close>

text \<open>The closing day is \<open>None\<close> when it is to be derived from the due day and the bank.\<close>

record create_card_input =
  ci_user_id :: uuid
  ci_nickname :: string
  ci_bank :: string
  ci_due_day :: int
  ci_closing_day :: "int option"

definition validate_create :: "create_card_input \<Rightarrow> card_error list" where
  "validate_create i =
     err_if (ci_user_id i = uuid_nil) ErrCardUserIDRequired @
     err_if (ci_bank i = []) ErrCardBankRequired @
     err_if (ci_due_day i < 1 \<or> 31 < ci_due_day i) ErrCardDueDayInvalid @
     err_if (case ci_closing_day i of None \<Rightarrow> False | Some d \<Rightarrow> d < 1 \<or> 31 < d) ErrCardClosingDayInvalid"

definition create_card_cycle ::
  "card_call \<Rightarrow> create_card_input \<Rightarrow> bank_code \<Rightarrow> card_world \<Rightarrow> card_error + billing_cycle" where
  "create_card_cycle k i b w =
     (case ci_closing_day i of
        Some d \<Rightarrow> new_billing_cycle d (ci_due_day i)
      | None \<Rightarrow>
          new_billing_cycle
            (fst (decide_purchase_day (ci_due_day i) (days_before_due (ck_strip k) b w)
               (in_loc (ck_now k) utc) (ck_zone k)))
            (ci_due_day i))"

definition create_card_tx ::
  "card_call \<Rightarrow> create_card_input \<Rightarrow> nickname \<Rightarrow> bank_code \<Rightarrow> card_world \<Rightarrow>
   (card_error list + card_entity) \<times> card_world" where
  "create_card_tx k i n b w =
     (case create_card_cycle k i b w of
        Inl e \<Rightarrow> (Inl [e], w)
      | Inr y \<Rightarrow>
          (let c = create_card_decider \<lparr>cc_user_id = ci_user_id i, cc_nickname = n, cc_bank = b, cc_cycle = y\<rparr>
                 (ck_id k) (in_loc (ck_now k) utc)
           in case insert_card c w of
                Inl e \<Rightarrow> (Inl [e], w)
              | Inr w1 \<Rightarrow>
                  (case store_answer k 201 (ck_marshal k (to_card_output c)) w1 of
                     Inl e \<Rightarrow> (Inl [e], w1)
                   | Inr w2 \<Rightarrow> (Inr c, w2))))"

definition create_card ::
  "card_call \<Rightarrow> create_card_input \<Rightarrow> card_world \<Rightarrow> (card_error list + card_output) \<times> card_world" where
  "create_card k i w =
     (if validate_create i \<noteq> [] then (Inl (validate_create i), w)
      else case new_nickname (ci_nickname i) of
        Inl e \<Rightarrow> (Inl [e], w)
      | Inr n \<Rightarrow>
        (case new_bank_code (ck_strip k) (ci_bank i) of
           Inl e \<Rightarrow> (Inl [e], w)
         | Inr b \<Rightarrow> apfst (map_sum id to_card_output) (do_tx (create_card_tx k i n b) w)))"

section \<open>Changing\<close>

record update_card_input =
  ui_id :: uuid
  ui_user_id :: uuid
  ui_nickname :: "string option"
  ui_bank :: "string option"
  ui_due_day :: "int option"

definition validate_update :: "update_card_input \<Rightarrow> card_error list" where
  "validate_update i =
     err_if (ui_id i = uuid_nil) ErrCardIDRequired @
     err_if (ui_user_id i = uuid_nil) ErrCardUserIDRequired @
     err_if (case ui_due_day i of None \<Rightarrow> False | Some d \<Rightarrow> d < 1 \<or> 31 < d) ErrCardDueDayInvalid"

definition resolve_update ::
  "card_call \<Rightarrow> card_entity \<Rightarrow> update_card_input \<Rightarrow> card_world \<Rightarrow>
   card_error + billing_cycle option \<times> bank_code option" where
  "resolve_update k c i w =
     (case (case ui_bank i of None \<Rightarrow> Inr None
            | Some raw \<Rightarrow> map_sum id Some (new_bank_code (ck_strip k) raw)) of
        Inl e \<Rightarrow> Inl e
      | Inr nb \<Rightarrow>
          if ui_bank i = None \<and> ui_due_day i = None then Inr (None, nb)
          else
            (let b = (case nb of None \<Rightarrow> ce_bank c | Some b \<Rightarrow> b);
                 due = (case ui_due_day i of None \<Rightarrow> bc_due_day (ce_cycle c) | Some d \<Rightarrow> d);
                 closing = fst (decide_purchase_day due (days_before_due (ck_strip k) b w)
                   (in_loc (ck_now k) utc) (ck_zone k))
             in case new_billing_cycle closing due of
                  Inl e \<Rightarrow> Inl e
                | Inr y \<Rightarrow> Inr (Some y, nb)))"

definition update_card_tx ::
  "card_call \<Rightarrow> update_card_input \<Rightarrow> card_world \<Rightarrow> (card_error list + card_entity) \<times> card_world" where
  "update_card_tx k i w =
     (case get_card_row (ck_strip k) (ui_id i) (ui_user_id i) w of
        Inl e \<Rightarrow> (Inl [e], w)
      | Inr c \<Rightarrow>
        if card_is_deleted c then (Inl [ErrCardNotFound], w)
        else case resolve_update k c i w of
          Inl e \<Rightarrow> (Inl [e], w)
        | Inr (y, b) \<Rightarrow>
          (case update_card_decider c \<lparr>uc_nickname = ui_nickname i, uc_bank = b, uc_cycle = y\<rparr>
                  (in_loc (ck_now k) utc) of
             Inl e \<Rightarrow> (Inl [e], w)
           | Inr d \<Rightarrow>
             (case update_card_row (ck_strip k) d w of
                Inl e \<Rightarrow> (Inl [e], w)
              | Inr (p, w1) \<Rightarrow>
                (case store_answer k 200 (ck_marshal k (to_card_output p)) w1 of
                   Inl e \<Rightarrow> (Inl [e], w1)
                 | Inr w2 \<Rightarrow> (Inr p, w2)))))"

definition update_card ::
  "card_call \<Rightarrow> update_card_input \<Rightarrow> card_world \<Rightarrow> (card_error list + card_output) \<times> card_world" where
  "update_card k i w =
     (if validate_update i \<noteq> [] then (Inl (validate_update i), w)
      else apfst (map_sum id to_card_output) (do_tx (update_card_tx k i) w))"

section \<open>Deleting\<close>

definition soft_delete_card ::
  "card_call \<Rightarrow> uuid \<Rightarrow> uuid \<Rightarrow> card_world \<Rightarrow> (card_error list + unit) \<times> card_world" where
  "soft_delete_card k i u w =
     (let errs = err_if (i = uuid_nil) ErrCardIDRequired @ err_if (u = uuid_nil) ErrCardUserIDRequired
      in if errs \<noteq> [] then (Inl errs, w)
         else do_tx (\<lambda>w. case soft_delete_card_row i u (in_loc (ck_now k) utc) w of
                Inl e \<Rightarrow> (Inl [e], w)
              | Inr w1 \<Rightarrow>
                  (case store_answer k 204 ''{}'' w1 of
                     Inl e \<Rightarrow> (Inl [e], w1)
                   | Inr w2 \<Rightarrow> (Inr (), w2))) w)"

section \<open>Looking up\<close>

definition get_card :: "(string \<Rightarrow> string) \<Rightarrow> uuid \<Rightarrow> uuid \<Rightarrow> card_world \<Rightarrow> card_error list + card_output" where
  "get_card strip i u w =
     (let errs = err_if (i = uuid_nil) ErrCardIDRequired @ err_if (u = uuid_nil) ErrCardUserIDRequired
      in if errs \<noteq> [] then Inl errs
         else case get_card_row strip i u w of
           Inl e \<Rightarrow> Inl [e]
         | Inr c \<Rightarrow> if card_is_deleted c then Inl [ErrCardNotFound] else Inr (to_card_output c))"

definition get_card_for_user :: "(string \<Rightarrow> string) \<Rightarrow> uuid \<Rightarrow> uuid \<Rightarrow> card_world \<Rightarrow> card_error + billing_cycle" where
  "get_card_for_user strip i u w =
     (case get_card_row strip i u w of
        Inl e \<Rightarrow> Inl e
      | Inr c \<Rightarrow> if card_is_deleted c then Inl ErrCardNotFound else Inr (ce_cycle c))"

definition list_cards ::
  "(string \<Rightarrow> string) \<Rightarrow> uuid \<Rightarrow> card_cursor option \<Rightarrow> int \<Rightarrow> card_world \<Rightarrow>
   (card_error list + card_output list \<times> card_cursor option) option" where
  "list_cards strip u cur limit w =
     (if u = uuid_nil then Some (Inl [ErrCardUserIDRequired])
      else case list_by_user strip u cur limit w of
        None \<Rightarrow> None
      | Some (Inl e) \<Rightarrow> Some (Inl [e])
      | Some (Inr (cs, p)) \<Rightarrow> Some (Inr (map to_card_output cs, p)))"

definition count_cards :: "uuid \<Rightarrow> card_world \<Rightarrow> card_error list + int" where
  "count_cards u w = (if u = uuid_nil then Inl [ErrCardUserIDRequired] else Inr (count_active u w))"

text \<open>
  The purchase is a date without a zone; the invoice is that of its midnight in the zone of the
  module. \<open>format\<close> prints the date of an instant.
\<close>

definition invoice_for_card ::
  "(string \<Rightarrow> string) \<Rightarrow> (gotime \<Rightarrow> string) \<Rightarrow> location \<Rightarrow> uuid \<Rightarrow> uuid \<Rightarrow> gotime \<Rightarrow> card_world \<Rightarrow>
   card_error + string \<times> string" where
  "invoice_for_card strip format zone i u purchase w =
     (if is_zero purchase then Inl ErrInvalidPurchaseDate
      else case get_card_row strip i u w of
        Inl e \<Rightarrow> Inl e
      | Inr c \<Rightarrow>
          if card_is_deleted c then Inl ErrCardNotFound
          else (let p = midnight (year purchase) (month purchase) (day purchase) zone;
                    (closing, due) = invoice_for p (ce_cycle c) zone
                in Inr (format (in_loc closing zone), format (in_loc due zone))))"

definition best_purchase_day ::
  "(string \<Rightarrow> string) \<Rightarrow> location \<Rightarrow> gotime \<Rightarrow> string \<Rightarrow> int \<Rightarrow> card_world \<Rightarrow> card_error list + int \<times> int" where
  "best_purchase_day strip zone now raw due w =
     (let errs = err_if (raw = []) ErrCardBankRequired @ err_if (due < 1 \<or> 31 < due) ErrCardDueDayInvalid
      in if errs \<noteq> [] then Inl errs
         else case new_bank_code strip raw of
           Inl e \<Rightarrow> Inl [e]
         | Inr b \<Rightarrow> Inr (decide_purchase_day due (days_before_due strip b w) (in_loc now utc) zone))"

definition is_bank_recognized :: "(string \<Rightarrow> string) \<Rightarrow> string \<Rightarrow> card_world \<Rightarrow> card_error list + bool" where
  "is_bank_recognized strip raw w =
     (if raw = [] then Inl [ErrCardBankRequired]
      else case new_bank_code strip raw of
        Inl e \<Rightarrow> Inl [e]
      | Inr b \<Rightarrow> Inr (bank_recognized strip b w))"

text \<open>
  A card by its nickname: one of the hundred newest whose nickname is the text but for the case of
  its letters, or else the only one whose nickname contains it. \<open>same\<close> is \<open>strings.EqualFold\<close> and
  \<open>lower\<close> is \<open>strings.ToLower\<close>, which read the tables of Unicode.
\<close>

definition resolve_by_nickname ::
  "(string \<Rightarrow> string) \<Rightarrow> (string \<Rightarrow> string \<Rightarrow> bool) \<Rightarrow> (string \<Rightarrow> string) \<Rightarrow> uuid \<Rightarrow> string \<Rightarrow> card_world \<Rightarrow>
   (card_error list + card_output) option" where
  "resolve_by_nickname strip same lower u nick w =
     (let errs = err_if (u = uuid_nil) ErrCardUserIDRequired @
                 err_if (trim_space nick = []) ErrCardNicknameRequired
      in if errs \<noteq> [] then Some (Inl errs)
         else case list_by_user strip u None 100 w of
           None \<Rightarrow> None
         | Some (Inl e) \<Rightarrow> Some (Inl [e])
         | Some (Inr (cs, _)) \<Rightarrow>
             (let target = trim_space nick;
                  live = filter (\<lambda>c. \<not> card_is_deleted c) cs;
                  part = filter (\<lambda>c. sublist (lower target) (lower (nickname_value (ce_nickname c)))) live
              in case find (\<lambda>c. same (nickname_value (ce_nickname c)) target) live of
                   Some c \<Rightarrow> Some (Inr (to_card_output c))
                 | None \<Rightarrow>
                     if 2 \<le> rune_count target \<and> length part = 1
                     then Some (Inr (to_card_output (hd part)))
                     else Some (Inl [ErrCardNotFound])))"

section \<open>The handlers\<close>

text \<open>
  The status and the code an error is answered with; of errors that were joined the first case
  that fits counts.
\<close>

definition card_failure :: "card_error list \<Rightarrow> int \<times> string" where
  "card_failure es =
     (if ErrCardDueDayInvalid \<in> set es then (400, ''invalid_due_day'')
      else if ErrCardBankRequired \<in> set es then (400, ''bank_required'')
      else if ErrCardUserIDRequired \<in> set es \<or> ErrCardIDRequired \<in> set es then (400, ''invalid_request'')
      else if ErrInvalidNickname \<in> set es then (400, ''invalid_nickname'')
      else if ErrInvalidBank \<in> set es then (400, ''invalid_bank'')
      else if ErrInvalidClosingDay \<in> set es then (400, ''invalid_closing_day'')
      else if ErrInvalidDueDay \<in> set es then (400, ''invalid_due_day'')
      else if ErrInvalidPurchaseDate \<in> set es then (400, ''invalid_purchase_date'')
      else if ErrInvalidCursor \<in> set es then (400, ''invalid_cursor'')
      else if ErrNicknameConflict \<in> set es then (409, ''nickname_in_use'')
      else if ErrCardNotFound \<in> set es then (404, ''card_not_found'')
      else (500, ''''))"

text \<open>
  What the handlers use of other packages: parsing identifiers and bodies, fresh identifiers,
  printing JSON, as an answer and to be stored, and the body of an error.
\<close>

record card_http =
  ch_zone :: location
  ch_strip :: "string \<Rightarrow> string"
  ch_new_id :: "gotime \<Rightarrow> http_request \<Rightarrow> uuid"
  ch_parse_id :: "string \<Rightarrow> uuid option"
  ch_create_body :: "string \<Rightarrow> (string \<times> string \<times> int) option"
  ch_update_body :: "string \<Rightarrow> (string option \<times> string option \<times> int option) option"
  ch_marshal :: "card_output \<Rightarrow> string"
  ch_json :: "card_output \<Rightarrow> string"
  ch_fail :: "int \<Rightarrow> string \<Rightarrow> string"

definition call_of :: "card_http \<Rightarrow> idem_context \<Rightarrow> gotime \<Rightarrow> http_request \<Rightarrow> card_call" where
  "call_of h c now rq =
     \<lparr>ck_now = now, ck_id = ch_new_id h now rq, ck_zone = ch_zone h, ck_strip = ch_strip h,
      ck_marshal = ch_marshal h, ck_idem = (if ic_key c = [] then None else Some c)\<rparr>"

definition fail_with :: "card_http \<Rightarrow> int \<times> string \<Rightarrow> writer_call list" where
  "fail_with h f = [WriteHeader (fst f), WriteBody (ch_fail h (fst f) (snd f))]"

definition answer_with :: "card_http \<Rightarrow> int \<Rightarrow> card_output \<Rightarrow> writer_call list" where
  "answer_with h s out = [WriteHeader s, WriteBody (ch_json h out)]"

definition user_of :: "http_request \<Rightarrow> uuid" where
  "user_of rq = (case hr_principal rq of None \<Rightarrow> uuid_nil | Some u \<Rightarrow> u)"

definition body_of :: "http_request \<Rightarrow> string" where
  "body_of rq = (case hr_body rq of None \<Rightarrow> [] | Some b \<Rightarrow> b)"

definition create_card_handler :: "card_http \<Rightarrow> card_world handler" where
  "create_card_handler h c now rq w =
     (case ch_create_body h (body_of rq) of
        None \<Rightarrow> (fail_with h (400, ''invalid_payload''), w)
      | Some (nick, bank, due) \<Rightarrow>
          (case create_card (call_of h c now rq)
                  \<lparr>ci_user_id = user_of rq, ci_nickname = nick, ci_bank = bank, ci_due_day = due,
                   ci_closing_day = None\<rparr> w of
             (Inl es, w1) \<Rightarrow> (fail_with h (card_failure es), w1)
           | (Inr out, w1) \<Rightarrow> (answer_with h 201 out, w1)))"

definition update_card_handler :: "card_http \<Rightarrow> card_world handler" where
  "update_card_handler h c now rq w =
     (case ch_parse_id h (hr_target rq) of
        None \<Rightarrow> (fail_with h (400, ''invalid_card_id''), w)
      | Some i \<Rightarrow>
        (case ch_update_body h (body_of rq) of
           None \<Rightarrow> (fail_with h (400, ''invalid_payload''), w)
         | Some (nick, bank, due) \<Rightarrow>
             if nick = None \<and> bank = None \<and> due = None
             then (fail_with h (400, ''empty_payload''), w)
             else (case update_card (call_of h c now rq)
                     \<lparr>ui_id = i, ui_user_id = user_of rq, ui_nickname = nick, ui_bank = bank,
                      ui_due_day = due\<rparr> w of
                (Inl es, w1) \<Rightarrow> (fail_with h (card_failure es), w1)
              | (Inr out, w1) \<Rightarrow> (answer_with h 200 out, w1))))"

definition delete_card_handler :: "card_http \<Rightarrow> card_world handler" where
  "delete_card_handler h c now rq w =
     (case ch_parse_id h (hr_target rq) of
        None \<Rightarrow> (fail_with h (400, ''invalid_card_id''), w)
      | Some i \<Rightarrow>
          (case soft_delete_card (call_of h c now rq) i (user_of rq) w of
             (Inl es, w1) \<Rightarrow> (fail_with h (card_failure es), w1)
           | (Inr _, w1) \<Rightarrow> ([WriteHeader 204], w1)))"

section \<open>What the handlers owe the middleware\<close>

lemma insert_card_Inr:
  assumes "insert_card c w = Inr w1"
  shows "w1 = w\<lparr>cw_cards := cw_cards w @ [row_of_card c]\<rparr>" "card_row_ok (row_of_card c)"
    "ce_id c \<notin> cr_id ` set (cw_cards w)" "ce_user_id c \<in> set (cw_users w)"
    "\<not> nickname_taken (ce_id c) (ce_user_id c) (nickname_value (ce_nickname c)) (cw_cards w)"
  using assms by (auto simp: insert_card_def row_of_card_def Let_def split: if_splits)

lemma update_card_row_Inr:
  assumes "update_card_row strip c w = Inr (p, w1)"
  obtains r where "r \<in> set (cw_cards w)" "card_of (ce_id c) (ce_user_id c) r"
    "card_row_ok (set_card_row c r)" "hydrate_row strip (set_card_row c r) = Inr p"
    "\<not> nickname_taken (cr_id r) (cr_user_id r) (nickname_value (ce_nickname c)) (cw_cards w)"
    "w1 = w\<lparr>cw_cards := map (\<lambda>x. if card_of (ce_id c) (ce_user_id c) x then set_card_row c x else x) (cw_cards w)\<rparr>"
proof -
  obtain r where r: "find (card_of (ce_id c) (ce_user_id c)) (cw_cards w) = Some r"
    using assms by (auto simp: update_card_row_def split: option.splits)
  then have "r \<in> set (cw_cards w)" "card_of (ce_id c) (ce_user_id c) r"
    by (auto simp: find_Some_iff)
  then show ?thesis
    using assms that [of r] by (auto simp: update_card_row_def r set_card_row_def Let_def split: if_splits sum.splits)
qed

lemma store_answer_Inr:
  "store_answer k s b w = Inr w1 \<longleftrightarrow>
     (case ck_idem k of None \<Rightarrow> w1 = w
      | Some ic \<Rightarrow> idem_put (ck_now k) (record_for ic s b) (iw_keys w) = Inr (iw_keys w1) \<and>
          w1 = w\<lparr>iw_keys := iw_keys w1\<rparr>)"
  by (auto simp: store_answer_def split: option.splits sum.splits)

text \<open>A success changes the cards in one step and stores the answer; an error changes nothing.\<close>

lemma create_card_error: "create_card k i w = (Inl es, w1) \<Longrightarrow> w1 = w"
  by (auto simp: create_card_def do_tx_def apfst_def map_prod_def split: sum.splits if_splits prod.splits)

lemma create_card_success:
  assumes "create_card k i w = (Inr out, w2)"
  obtains c w1 where "insert_card c w = Inr w1" "store_answer k 201 (ck_marshal k out) w1 = Inr w2"
    "out = to_card_output c" "ce_id c = ck_id k" "ce_user_id c = ci_user_id i"
    "new_nickname (ci_nickname i) = Inr (ce_nickname c)" "new_bank_code (ck_strip k) (ci_bank i) = Inr (ce_bank c)"
    "create_card_cycle k i (ce_bank c) w = Inr (ce_cycle c)" "ce_deleted_at c = None"
proof -
  obtain n b where nb: "new_nickname (ci_nickname i) = Inr n" "new_bank_code (ck_strip k) (ci_bank i) = Inr b"
    using assms by (auto simp: create_card_def split: sum.splits if_splits)
  then obtain c where tx: "create_card_tx k i n b w = (Inr c, w2)" "out = to_card_output c"
    using assms by (cases "do_tx (create_card_tx k i n b) w")
      (auto simp: create_card_def do_tx_Inr map_sum_def split: sum.splits if_splits)
  obtain y where y: "create_card_cycle k i b w = Inr y"
    using tx(1) by (auto simp: create_card_tx_def split: sum.splits)
  define d where "d = create_card_decider \<lparr>cc_user_id = ci_user_id i, cc_nickname = n, cc_bank = b, cc_cycle = y\<rparr>
    (ck_id k) (in_loc (ck_now k) utc)"
  obtain w1 where w1: "insert_card d w = Inr w1" "store_answer k 201 (ck_marshal k (to_card_output d)) w1 = Inr w2" "c = d"
    using tx(1) by (auto simp: create_card_tx_def y Let_def simp flip: d_def split: sum.splits)
  show ?thesis
    using that [of d w1] w1 tx(2) nb y by (simp add: d_def create_card_decider_def hydrate_card_def)
qed

lemma update_card_error: "update_card k i w = (Inl es, w1) \<Longrightarrow> w1 = w"
  by (auto simp: update_card_def do_tx_def apfst_def map_prod_def split: sum.splits if_splits prod.splits)

lemma update_card_success:
  assumes "update_card k i w = (Inr out, w2)"
  obtains d p w1 where "update_card_row (ck_strip k) d w = Inr (p, w1)" "out = to_card_output p"
    "store_answer k 200 (ck_marshal k out) w1 = Inr w2" "ce_id d = ui_id i" "ce_user_id d = ui_user_id i"
    "new_bank_code (ck_strip k) (bank_display (ce_bank d)) = Inr (ce_bank d)"
proof -
  obtain p where tx: "update_card_tx k i w = (Inr p, w2)" "out = to_card_output p"
    using assms by (cases "do_tx (update_card_tx k i) w")
      (auto simp: update_card_def do_tx_Inr map_sum_def split: sum.splits if_splits)
  obtain c where c: "get_card_row (ck_strip k) (ui_id i) (ui_user_id i) w = Inr c"
    using tx(1) by (auto simp: update_card_tx_def split: sum.splits)
  then obtain r where r: "hydrate_row (ck_strip k) r = Inr c" "card_of (ui_id i) (ui_user_id i) r"
    by (auto simp: get_card_row_def find_Some_iff split: option.splits)
  obtain y b d w1 where d: "resolve_update k c i w = Inr (y, b)" "update_card_decider c \<lparr>uc_nickname = ui_nickname i, uc_bank = b, uc_cycle = y\<rparr>
      (in_loc (ck_now k) utc) = Inr d" "update_card_row (ck_strip k) d w = Inr (p, w1)"
    "store_answer k 200 (ck_marshal k (to_card_output p)) w1 = Inr w2"
    using tx(1) by (auto simp: update_card_tx_def c split: sum.splits prod.splits if_splits)
  have "new_bank_code (ck_strip k) (bank_display x) = Inr x" if "b = Some x" for x
    using d(1) that bank_code_reads_back
    by (auto simp: resolve_update_def Let_def map_sum_def split: option.splits sum.splits if_splits)
  then have "new_bank_code (ck_strip k) (bank_display (ce_bank d)) = Inr (ce_bank d)"
    using d(2) bank_code_reads_back [OF hydrate_row_fields(4) [OF r(1)]]
    by (auto simp: update_card_decider_def split: sum.splits option.splits)
  moreover have "ce_id d = ui_id i" "ce_user_id d = ui_user_id i"
    using d(2) hydrate_row_fields(1,2) [OF r(1)] r(2)
    by (auto simp: update_card_decider_def card_of_def split: sum.splits)
  ultimately show ?thesis using that d(3,4) tx(2) by blast
qed

lemma soft_delete_error: "soft_delete_card k i u w = (Inl es, w1) \<Longrightarrow> w1 = w"
  by (auto simp: soft_delete_card_def do_tx_def Let_def split: sum.splits if_splits prod.splits)

lemma soft_delete_success:
  assumes "soft_delete_card k i u w = (Inr x, w2)"
  obtains w1 where "soft_delete_card_row i u (in_loc (ck_now k) utc) w = Inr w1" "store_answer k 204 ''{}'' w1 = Inr w2"
  using assms that by (auto simp: soft_delete_card_def Let_def do_tx_Inr split: sum.splits if_splits)

lemma recorded_two [simp]: "rr_status (recorded [WriteHeader s, WriteBody b]) = s"
  by (simp add: recorded_def new_recorder_def)

lemma recorded_one [simp]: "rr_status (recorded [WriteHeader s]) = s"
  by (simp add: recorded_def new_recorder_def)

lemma card_failure_status: "\<not> success (fst (card_failure es))"
  by (simp add: card_failure_def success_def)

lemmas failure_simps = fail_with_def answer_with_def card_failure_status success_def call_of_def

text \<open>The three handlers keep the contract, whatever they use of other packages.\<close>

interpretation create_once: recording_handler "create_card_handler h" for h
proof unfold_locales
  fix c now rq and w w1 :: card_world and calls
  assume run: "create_card_handler h c now rq w = (calls, w1)"
  show "\<exists>b. idem_put now (record_for c (rr_status (recorded calls)) b) (iw_keys w) = Inr (iw_keys w1)"
    if "ic_key c \<noteq> []" "success (rr_status (recorded calls))"
    using run that card_failure_status
    by (auto simp: create_card_handler_def fail_with_def answer_with_def success_def call_of_def store_answer_Inr
        split: option.splits sum.splits prod.splits elim!: create_card_success dest!: insert_card_Inr(1))
  show "w1 = w" if "\<not> success (rr_status (recorded calls))"
    using run that
    by (auto simp: create_card_handler_def fail_with_def answer_with_def success_def
        split: option.splits sum.splits prod.splits dest: create_card_error)
qed

interpretation update_once: recording_handler "update_card_handler h" for h
proof unfold_locales
  fix c now rq and w w1 :: card_world and calls
  assume run: "update_card_handler h c now rq w = (calls, w1)"
  show "\<exists>b. idem_put now (record_for c (rr_status (recorded calls)) b) (iw_keys w) = Inr (iw_keys w1)"
    if "ic_key c \<noteq> []" "success (rr_status (recorded calls))"
    using run that card_failure_status
    by (auto simp: update_card_handler_def fail_with_def answer_with_def success_def call_of_def store_answer_Inr
        split: option.splits sum.splits if_splits prod.splits elim!: update_card_success update_card_row_Inr)
  show "w1 = w" if "\<not> success (rr_status (recorded calls))"
    using run that
    by (auto simp: update_card_handler_def fail_with_def answer_with_def success_def
        split: option.splits sum.splits prod.splits if_splits dest: update_card_error)
qed

interpretation delete_once: recording_handler "delete_card_handler h" for h
proof unfold_locales
  fix c now rq and w w1 :: card_world and calls
  assume run: "delete_card_handler h c now rq w = (calls, w1)"
  show "\<exists>b. idem_put now (record_for c (rr_status (recorded calls)) b) (iw_keys w) = Inr (iw_keys w1)"
    if "ic_key c \<noteq> []" "success (rr_status (recorded calls))"
    using run that card_failure_status
    by (auto simp: delete_card_handler_def fail_with_def success_def call_of_def store_answer_Inr soft_delete_card_row_def
        split: option.splits sum.splits prod.splits if_splits elim!: soft_delete_success) blast
  show "w1 = w" if "\<not> success (rr_status (recorded calls))"
    using run that
    by (auto simp: delete_card_handler_def fail_with_def success_def
        split: option.splits sum.splits prod.splits dest: soft_delete_error)
qed

section \<open>What holds of the table\<close>

definition names_apart :: "card_row list \<Rightarrow> bool" where
  "names_apart rows \<longleftrightarrow> (\<forall>r \<in> set rows. \<forall>s \<in> set rows. card_live r \<and> card_live s \<and>
     cr_user_id r = cr_user_id s \<and> cr_nickname r = cr_nickname s \<longrightarrow> cr_id r = cr_id s)"

definition row_reads_back :: "(string \<Rightarrow> string) \<Rightarrow> card_row \<Rightarrow> bool" where
  "row_reads_back strip r \<longleftrightarrow>
     (case hydrate_row strip r of
        Inl _ \<Rightarrow> False
      | Inr c \<Rightarrow> nickname_value (ce_nickname c) = cr_nickname r \<and> bank_display (ce_bank c) = cr_bank r)"

definition cards_ok :: "(string \<Rightarrow> string) \<Rightarrow> card_world \<Rightarrow> bool" where
  "cards_ok strip w \<longleftrightarrow> distinct (map cr_id (cw_cards w)) \<and> names_apart (cw_cards w) \<and>
     (\<forall>r \<in> set (cw_cards w). card_row_ok r \<and> row_reads_back strip r \<and> cr_user_id r \<in> set (cw_users w)) \<and>
     distinct (map ir_id (iw_keys w))"

lemma names_apartD:
  "names_apart rows \<Longrightarrow> r \<in> set rows \<Longrightarrow> s \<in> set rows \<Longrightarrow> card_live r \<Longrightarrow> card_live s \<Longrightarrow>
   cr_user_id r = cr_user_id s \<Longrightarrow> cr_nickname r = cr_nickname s \<Longrightarrow> cr_id r = cr_id s"
  unfolding names_apart_def by blast

lemma names_apart_snoc:
  assumes "names_apart rows" "\<not> nickname_taken (cr_id x) (cr_user_id x) (cr_nickname x) rows"
  shows "names_apart (rows @ [x])"
proof -
  have new: "cr_id r = cr_id x" if "r \<in> set rows" "card_live r" "cr_user_id r = cr_user_id x" "cr_nickname r = cr_nickname x" for r
    using that assms(2) by (auto simp: nickname_taken_def)
  show ?thesis
    unfolding names_apart_def
  proof (intro ballI impI)
    fix r s assume "r \<in> set (rows @ [x])" "s \<in> set (rows @ [x])"
      and same: "card_live r \<and> card_live s \<and> cr_user_id r = cr_user_id s \<and> cr_nickname r = cr_nickname s"
    then consider "r \<in> set rows" "s \<in> set rows" | "r \<in> set rows" "s = x" | "r = x" "s \<in> set rows" | "r = x" "s = x" by auto
    then show "cr_id r = cr_id s"
    proof cases
      case 1
      then show ?thesis using same names_apartD [OF assms(1) 1] by blast
    next
      case 2
      then show ?thesis using same new [of r] by simp
    next
      case 3
      then show ?thesis using same new [of s] by simp
    qed simp
  qed
qed

lemma names_apart_map:
  assumes "names_apart rows"
    and "\<And>r. cr_id (f r) = cr_id r \<and> cr_user_id (f r) = cr_user_id r \<and> cr_nickname (f r) = cr_nickname r"
    and "\<And>r. card_live (f r) \<Longrightarrow> card_live r"
  shows "names_apart (map f rows)"
  unfolding names_apart_def
proof (intro ballI impI)
  fix r' s' assume "r' \<in> set (map f rows)" "s' \<in> set (map f rows)"
    and same: "card_live r' \<and> card_live s' \<and> cr_user_id r' = cr_user_id s' \<and> cr_nickname r' = cr_nickname s'"
  then obtain r s where rs: "r \<in> set rows" "r' = f r" "s \<in> set rows" "s' = f s" by auto
  then show "cr_id r' = cr_id s'"
    using same names_apartD [OF assms(1) rs(1,3)] assms(2,3) by metis
qed

lemma store_answer_ok:
  assumes "store_answer k s b w = Inr w1" "cards_ok strip w"
  shows "cards_ok strip w1"
  using assms by (cases "ck_idem k")
    (auto simp: store_answer_def cards_ok_def split: sum.splits dest: idem_put_distinct)

lemma set_card_row_same [simp]:
  "cr_id (set_card_row c r) = cr_id r" "cr_user_id (set_card_row c r) = cr_user_id r"
  "card_live (set_card_row c r) \<longleftrightarrow> card_live r" "cr_nickname (set_card_row c r) = nickname_value (ce_nickname c)"
  by (simp_all add: set_card_row_def card_live_def)

lemma reads_back_intro:
  assumes "hydrate_row strip r = Inr c" "new_bank_code strip raw = Inr (BankCode (cr_bank r))"
  shows "row_reads_back strip r"
  using bank_code_reads_back [OF assms(2)] hydrate_row_fields(3,4) [OF assms(1)] assms(1)
  by (simp add: row_reads_back_def)

text \<open>A display text is one that \<open>new_bank_code\<close> would give back; the rows hold only such.\<close>

lemma insert_card_ok:
  assumes "insert_card c w = Inr w1" "cards_ok strip w" "new_nickname nick = Inr (ce_nickname c)"
    and "new_bank_code strip raw = Inr (ce_bank c)" "new_billing_cycle a b = Inr (ce_cycle c)"
  shows "cards_ok strip w1"
proof -
  note i = insert_card_Inr [OF assms(1)]
  have nick: "new_nickname (nickname_value (ce_nickname c)) = Inr (ce_nickname c)"
    using assms(3) by (cases "ce_nickname c") (auto simp: new_nickname_def split: if_splits)
  have cyc: "new_billing_cycle (bc_closing_day (ce_cycle c)) (bc_due_day (ce_cycle c)) = Inr (ce_cycle c)"
    using assms(5) by (cases "ce_cycle c") (auto simp: new_billing_cycle_def split: if_splits)
  have "row_reads_back strip (row_of_card c)"
    using nick cyc bank_code_reads_back [OF assms(4)]
    by (simp add: row_reads_back_def hydrate_row_def row_of_card_def)
  moreover have "names_apart (cw_cards w @ [row_of_card c])"
    using assms(2) i(5) by (intro names_apart_snoc) (simp_all add: cards_ok_def row_of_card_def)
  ultimately show ?thesis
    using i(2-4) assms(2) by (auto simp: i(1) cards_ok_def row_of_card_def)
qed

lemma update_card_ok:
  assumes "update_card_row strip c w = Inr (p, w1)" "cards_ok strip w"
    and "new_bank_code strip (bank_display (ce_bank c)) = Inr (ce_bank c)"
  shows "cards_ok strip w1"
proof -
  obtain r where r: "r \<in> set (cw_cards w)" "card_of (ce_id c) (ce_user_id c) r"
    "card_row_ok (set_card_row c r)" "hydrate_row strip (set_card_row c r) = Inr p"
    "\<not> nickname_taken (cr_id r) (cr_user_id r) (nickname_value (ce_nickname c)) (cw_cards w)"
    "w1 = w\<lparr>cw_cards := map (\<lambda>x. if card_of (ce_id c) (ce_user_id c) x then set_card_row c x else x) (cw_cards w)\<rparr>"
    using update_card_row_Inr [OF assms(1)] by blast
  have "inj_on cr_id (set (cw_cards w))" using assms(2) by (simp add: cards_ok_def distinct_map)
  then have only: "x = r" if "x \<in> set (cw_cards w)" "card_of (ce_id c) (ce_user_id c) x" for x
    using that r(1,2) inj_onD [of cr_id "set (cw_cards w)" x r] by (simp add: card_of_def)
  let ?f = "\<lambda>x. if card_of (ce_id c) (ce_user_id c) x then set_card_row c x else x"
  have reads: "row_reads_back strip (set_card_row c r)"
    using r(4) hydrate_row_fields(3,4) [OF r(4)] assms(3) by (simp add: row_reads_back_def) (simp add: set_card_row_def)
  have old: "names_apart (cw_cards w)" using assms(2) by (simp add: cards_ok_def)
  have free: "cr_id y = cr_id r" if "y \<in> set (cw_cards w)" "card_live y" "cr_user_id y = cr_user_id r"
    "cr_nickname y = nickname_value (ce_nickname c)" for y
    using that r(5) by (auto simp: nickname_taken_def)
  have names: "names_apart (map ?f (cw_cards w))"
    unfolding names_apart_def
  proof (intro ballI impI)
    fix x' y'
    assume in': "x' \<in> set (map ?f (cw_cards w))" "y' \<in> set (map ?f (cw_cards w))"
      and same: "card_live x' \<and> card_live y' \<and> cr_user_id x' = cr_user_id y' \<and> cr_nickname x' = cr_nickname y'"
    obtain x y where xy: "x \<in> set (cw_cards w)" "x' = ?f x" "y \<in> set (cw_cards w)" "y' = ?f y" using in' by auto
    show "cr_id x' = cr_id y'"
    proof (cases "x = r \<and> card_of (ce_id c) (ce_user_id c) x")
      case True
      then have x: "cr_id x' = cr_id r" "cr_user_id x' = cr_user_id r" "cr_nickname x' = nickname_value (ce_nickname c)"
        using xy(2) by auto
      show ?thesis
      proof (cases "card_of (ce_id c) (ce_user_id c) y")
        case True
        then show ?thesis using x(1) only [OF xy(3)] xy(4) by simp
      next
        case False
        then show ?thesis using free [OF xy(3)] same x xy(4) by simp
      qed
    next
      case False
      then have x: "x' = x" using only [OF xy(1)] xy(2) by auto
      show ?thesis
      proof (cases "card_of (ce_id c) (ce_user_id c) y")
        case True
        then show ?thesis using only [OF xy(3)] free [OF xy(1)] same x xy(4) by simp
      next
        case False
        then show ?thesis using names_apartD [OF old xy(1,3)] same x xy(4) by simp
      qed
    qed
  qed
  have "map cr_id (map ?f (cw_cards w)) = map cr_id (cw_cards w)" by simp
  then show ?thesis
    using assms(2) names reads r(3) only by (auto simp: r(6) cards_ok_def simp del: map_map)
qed

lemma delete_card_ok:
  assumes "soft_delete_card_row i u t w = Inr w1" "cards_ok strip w"
  shows "cards_ok strip w1"
proof -
  let ?f = "\<lambda>r. if card_of i u r then r\<lparr>cr_deleted_at := Some (in_loc t utc)\<rparr> else r"
  have w1: "w1 = w\<lparr>cw_cards := map ?f (cw_cards w)\<rparr>"
    using assms(1) by (auto simp: soft_delete_card_row_def split: if_splits)
  have kept: "card_row_ok (?f r) = card_row_ok r" "row_reads_back strip (?f r) = row_reads_back strip r"
    "cr_id (?f r) = cr_id r" "cr_user_id (?f r) = cr_user_id r" for r
    by (simp_all add: card_row_ok_def row_reads_back_def hydrate_row_def split: sum.splits)
  have names: "names_apart (map ?f (cw_cards w))"
    using assms(2) by (intro names_apart_map) (simp_all add: cards_ok_def card_live_def split: if_splits)
  have rows: "card_row_ok r \<and> row_reads_back strip r \<and> cr_user_id r \<in> set (cw_users w)"
    if r: "r \<in> set (map ?f (cw_cards w))" for r
  proof -
    obtain x where x: "x \<in> set (cw_cards w)" "r = ?f x" using r by auto
    show ?thesis unfolding x(2) kept using x(1) assms(2) by (simp add: cards_ok_def)
  qed
  have ids: "map cr_id (map ?f (cw_cards w)) = map cr_id (cw_cards w)" by simp
  have "distinct (map cr_id (cw_cards w1))" using assms(2) ids by (simp add: w1 cards_ok_def del: map_map)
  moreover have "names_apart (cw_cards w1)" using names by (simp add: w1)
  moreover have "\<forall>r \<in> set (cw_cards w1). card_row_ok r \<and> row_reads_back strip r \<and> cr_user_id r \<in> set (cw_users w1)"
    using rows unfolding w1 by simp
  moreover have "distinct (map ir_id (iw_keys w1))" using assms(2) by (simp add: w1 cards_ok_def)
  ultimately show ?thesis unfolding cards_ok_def by blast
qed

lemma create_card_ok:
  assumes "create_card k i w = (r, w2)" "cards_ok (ck_strip k) w"
  shows "cards_ok (ck_strip k) w2"
proof (cases r)
  case (Inl es)
  then show ?thesis using assms(2) create_card_error [of k i w es w2] assms(1) by simp
next
  case (Inr out)
  obtain c w1 where c: "insert_card c w = Inr w1" "store_answer k 201 (ck_marshal k out) w1 = Inr w2"
    "new_nickname (ci_nickname i) = Inr (ce_nickname c)" "new_bank_code (ck_strip k) (ci_bank i) = Inr (ce_bank c)"
    "create_card_cycle k i (ce_bank c) w = Inr (ce_cycle c)"
    using assms(1) unfolding Inr by (rule create_card_success)
  obtain a b where "new_billing_cycle a b = Inr (ce_cycle c)"
    using c(5) by (auto simp: create_card_cycle_def split: option.splits)
  from store_answer_ok [OF c(2) insert_card_ok [OF c(1) assms(2) c(3,4) this]] show ?thesis .
qed

text \<open>
  The calls, in any order and with any clocks, identifiers and tables of banks; the middleware may
  store answers of its own, and other modules add users.
\<close>

inductive card_step :: "(string \<Rightarrow> string) \<Rightarrow> card_world \<Rightarrow> card_world \<Rightarrow> bool" for strip where
  create: "create_card k i w = (r, w') \<Longrightarrow> ck_strip k = strip \<Longrightarrow> card_step strip w w'"
| update: "update_card k i w = (r, w') \<Longrightarrow> ck_strip k = strip \<Longrightarrow> card_step strip w w'"
| delete: "soft_delete_card k i u w = (r', w') \<Longrightarrow> card_step strip w w'"
| answer: "idem_put now x (iw_keys w) = Inr rows \<Longrightarrow> card_step strip w (w\<lparr>iw_keys := rows\<rparr>)"
| user: "card_step strip w (w\<lparr>cw_users := u # cw_users w\<rparr>)"
| banks: "card_step strip w (w\<lparr>cw_banks := b\<rparr>)"

inductive cards_reachable :: "(string \<Rightarrow> string) \<Rightarrow> card_world \<Rightarrow> bool" for strip where
  empty: "cards_reachable strip \<lparr>iw_keys = [], cw_cards = [], cw_users = us, cw_banks = bs\<rparr>"
| step: "cards_reachable strip w \<Longrightarrow> card_step strip w w' \<Longrightarrow> cards_reachable strip w'"


section \<open>Repeated requests\<close>

text \<open>The router puts every changing request behind the keys of one scope, for a day.\<close>

definition card_keyed ::
  "(string \<Rightarrow> string) \<Rightarrow> card_world handler \<Rightarrow> gotime \<Rightarrow> http_request \<Rightarrow> card_world \<Rightarrow>
   http_response \<times> card_world" where
  "card_keyed hash = idem_middleware hash ''card'' day_ns"

definition good_key :: "string \<Rightarrow> bool" where
  "good_key k \<longleftrightarrow> k \<noteq> [] \<and> length k \<le> 128 \<and> is_ascii k"

text \<open>
  C32: Once a card has been created, a request of the same user with the same key and body within a
  day is answered with the same status and changes nothing: no second card is created. The answer
  does not depend on the path: it is given by whichever handler the request is for and whatever card
  it names.
\<close>

theorem create_answered_once:
  assumes "card_keyed hash (create_card_handler h) now rq w = (resp, w1)" "rs_status resp = 201"
    and "hr_principal rq = Some u" "good_key (hr_key rq)" "(''card'', hr_key rq, u) \<notin> ir_id ` set (iw_keys w)"
    and "hr_key rq2 = hr_key rq" "hr_principal rq2 = Some u" "hr_body rq2 = hr_body rq"
    and "after (add_dur (in_loc now utc) day_ns) now2" "\<And>b. length (hash b) = 64"
  shows "\<exists>b. card_keyed hash other now2 rq2 w1 = (\<lparr>rs_status = 201, rs_body = b\<rparr>, w1)"
  using create_once.repeated(1) [OF assms(1)[unfolded card_keyed_def] assms(5,3) _ assms(6-10)] assms(2,4)
  by (simp add: card_keyed_def good_key_def success_def)

text \<open>The same of a deletion, so that deleting another card with the same key is not carried out.\<close>

lemma reused_key_ignored:
  assumes "card_keyed hash (delete_card_handler h) now rq w = (resp, w1)" "rs_status resp = 204"
    and "hr_principal rq = Some u" "good_key (hr_key rq)" "(''card'', hr_key rq, u) \<notin> ir_id ` set (iw_keys w)"
    and "after (add_dur (in_loc now utc) day_ns) now2" "\<And>b. length (hash b) = 64"
  shows "\<exists>b. card_keyed hash (delete_card_handler h) now2 (rq\<lparr>hr_target := t\<rparr>) w1 =
    (\<lparr>rs_status = 204, rs_body = b\<rparr>, w1)"
  using delete_once.repeated(1) [OF assms(1)[unfolded card_keyed_def] assms(5,3), of "rq\<lparr>hr_target := t\<rparr>"]
    assms(2-4,6,7)
  by (simp add: card_keyed_def good_key_def success_def)


section \<open>A card is created\<close>

definition sample_http :: card_http where
  "sample_http = \<lparr>ch_zone = utc, ch_strip = id, ch_new_id = (\<lambda>_ _. 5), ch_parse_id = (\<lambda>_. Some 5),
     ch_create_body = (\<lambda>_. Some (''azul'', ''inter'', 10)), ch_update_body = (\<lambda>_. None),
     ch_marshal = co_nickname, ch_json = co_nickname, ch_fail = (\<lambda>_ c. c)\<rparr>"

definition sample_request :: http_request where
  "sample_request = \<lparr>hr_key = ''k1'', hr_principal = Some 7, hr_target = [], hr_body = Some []\<rparr>"

definition sample_hash :: "string \<Rightarrow> string" where
  "sample_hash _ = replicate 64 (CHR ''0'')"

definition sample_world :: "idem_record list \<Rightarrow> card_world" where
  "sample_world keys = \<lparr>iw_keys = keys, cw_cards = [], cw_users = [7], cw_banks = []\<rparr>"

abbreviation sample_now :: gotime where
  "sample_now \<equiv> midnight 2025 3 1 utc"

lemma sample_closing: "decide_purchase_day 10 7 sample_now utc = (3, 4)"
proof -
  have v: "valid_date 2025 3 1" "valid_date 2025 3 10" "valid_date 2025 3 3"
    by (simp_all add: valid_date_def days_in_month_def)
  have "clamp_day 10 2025 3 = 10" by (simp add: clamp_day_eq days_in_month_def)
  moreover have "day (add_date (midnight 2025 3 10 utc) 0 0 (- 7)) = day (midnight 2025 3 3 utc)"
    using day_before_midnight(2) [OF steady_utc, of 2025 3 10 "- 7"]
    by (intro day_by_number)
      (simp add: local_day_midnight [OF steady_utc] days_of_day [of 2025 3 10] days_of_day [of 2025 3 3])
  ultimately show ?thesis
    by (simp add: decide_purchase_day_def Let_def midnight_fields [OF steady_utc v(1)] midnight_fields [OF steady_utc v(3)])
qed

lemma sample_columns: "pg_text ''azul''" "pg_text ''inter''" "rune_count ''azul'' = 4" "rune_count ''inter'' = 5"
  by code_simp+

lemma sample_card_created:
  obtains w1 where "card_keyed sample_hash (create_card_handler sample_http) sample_now sample_request (sample_world []) =
    (\<lparr>rs_status = 201, rs_body = ''azul''\<rparr>, w1)" "length (cw_cards w1) = 1"
proof -
  define c where "c = \<lparr>ic_scope = ''card'', ic_key = ''k1'', ic_user_id = (7 :: uuid), ic_request_hash = sample_hash [],
    ic_expires_at = add_dur (in_loc sample_now utc) day_ns\<rparr>"
  define k where "k = call_of sample_http c sample_now sample_request"
  let ?i = "\<lparr>ci_user_id = 7, ci_nickname = ''azul'', ci_bank = ''inter'', ci_due_day = 10, ci_closing_day = None\<rparr>"
  have k: "ck_strip k = id" "ck_zone k = utc" "ck_now k = sample_now" "ck_id k = 5" "ck_marshal k = co_nickname"
    "ck_idem k = Some c"
    by (simp_all add: k_def call_of_def sample_http_def c_def)
  have cycle: "create_card_cycle k ?i (BankCode ''inter'') (sample_world []) = Inr \<lparr>bc_closing_day = 3, bc_due_day = 10\<rparr>"
    using sample_closing by (simp add: create_card_cycle_def days_before_due_def k sample_bank sample_world_def new_billing_cycle_def)
  define e where "e = create_card_decider \<lparr>cc_user_id = 7, cc_nickname = Nickname ''azul'', cc_bank = BankCode ''inter'',
    cc_cycle = \<lparr>bc_closing_day = 3, bc_due_day = 10\<rparr>\<rparr> 5 sample_now"
  have e: "card_row_ok (row_of_card e)" "cr_user_id (row_of_card e) = 7" "nickname_value (ce_nickname e) = ''azul''"
    by (simp_all add: e_def create_card_decider_def hydrate_card_def row_of_card_def card_row_ok_def sample_columns
        del: rune_count.simps)
  have insert: "insert_card e (sample_world []) = Inr (sample_world []\<lparr>cw_cards := [row_of_card e]\<rparr>)"
    using e by (simp add: insert_card_def Let_def sample_world_def nickname_taken_def)
  have put: "store_answer k 201 ''azul'' (sample_world []\<lparr>cw_cards := [row_of_card e]\<rparr>) =
      Inr (sample_world [record_for c 201 ''azul'']\<lparr>cw_cards := [row_of_card e]\<rparr>)"
    by (simp add: store_answer_def k idem_put_def row_allowed_record_for sample_world_def c_def sample_hash_def)
  have "create_card k ?i (sample_world []) = (Inr (to_card_output e), sample_world [record_for c 201 ''azul'']\<lparr>cw_cards := [row_of_card e]\<rparr>)"
    using cycle insert put e(3)
    by (simp add: create_card_def validate_create_def err_if_def sample_nickname k(1) sample_bank do_tx_def create_card_tx_def Let_def
        k(3-5) to_card_output_def map_sum_def flip: e_def)
  then have "create_card_handler sample_http c sample_now sample_request (sample_world []) =
      ([WriteHeader 201, WriteBody ''azul''], sample_world [record_for c 201 ''azul'']\<lparr>cw_cards := [row_of_card e]\<rparr>)"
    using e(3) unfolding create_card_handler_def k_def
    by (simp add: sample_http_def sample_request_def body_of_def user_of_def answer_with_def to_card_output_def Let_def)
  then have "card_keyed sample_hash (create_card_handler sample_http) sample_now sample_request (sample_world []) =
      (\<lparr>rs_status = 201, rs_body = ''azul''\<rparr>, sample_world [record_for c 201 ''azul'']\<lparr>cw_cards := [row_of_card e]\<rparr>)"
    by (simp add: card_keyed_def idem_middleware_def sample_request_def is_ascii_def sample_world_def idem_get_def Let_def
        recorded_def new_recorder_def store_rejected_def c_def)
  then show ?thesis using that by simp
qed

theorem create_answered_once_witness:
  "\<exists>b w1 b2. card_keyed sample_hash (create_card_handler sample_http) sample_now sample_request (sample_world []) =
      (\<lparr>rs_status = 201, rs_body = b\<rparr>, w1) \<and>
    card_keyed sample_hash (delete_card_handler sample_http) (midnight 2025 3 1 utc) (sample_request\<lparr>hr_target := ''9''\<rparr>) w1 =
      (\<lparr>rs_status = 201, rs_body = b2\<rparr>, w1)"
proof -
  obtain w1 where run: "card_keyed sample_hash (create_card_handler sample_http) sample_now sample_request (sample_world []) =
    (\<lparr>rs_status = 201, rs_body = ''azul''\<rparr>, w1)" by (rule sample_card_created)
  have "good_key (hr_key sample_request)" by (simp add: good_key_def sample_request_def is_ascii_def)
  then show ?thesis
    using run create_answered_once [OF run, of 7 "sample_request\<lparr>hr_target := ''9''\<rparr>" sample_now "delete_card_handler sample_http"]
    by (simp add: sample_request_def sample_world_def sample_hash_def after_def add_dur_def)
qed



end
