(* ===== verification/CardNotices.thy ===== *)
theory CardNotices
  imports CardUseCases
begin

text \<open>
  The notices of coming due dates (\<open>evaluate_invoice_due_alerts.go\<close>, \<open>notify_invoice_due.go\<close>): the
  scan of the cards, the rows of what was announced (\<open>invoice_due_alert_sent_repository.go\<close>), the
  event between the two (\<open>invoice_due_publisher.go\<close>, \<open>invoice_due_notifier.go\<close>) and the message.
\<close>

section \<open>What was announced\<close>

type_synonym notice_key = "uuid \<times> uuid \<times> gotime"

record notice_row =
  nr_key :: notice_key
  nr_notified_at :: "gotime option"
  nr_channel :: "string option"

definition notice_day :: "gotime \<Rightarrow> gotime" where
  "notice_day t = truncate_day (in_loc t utc)"

definition list_sent_for_due_dates :: "gotime list \<Rightarrow> notice_row list \<Rightarrow> notice_row list" where
  "list_sent_for_due_dates ds rows = filter (\<lambda>r. snd (snd (nr_key r)) \<in> notice_day ` set ds) rows"

text \<open>A row refers to a card, deleted or not, by a foreign key.\<close>

definition insert_notice ::
  "uuid \<Rightarrow> uuid \<Rightarrow> gotime \<Rightarrow> card_world \<Rightarrow> notice_row list \<Rightarrow> card_error + notice_row list" where
  "insert_notice u c due w rows =
     (let k = (u, c, notice_day due)
      in if k \<in> nr_key ` set rows then Inr rows
         else if c \<notin> cr_id ` set (cw_cards w) then Inl ErrCardDatabase
         else Inr (rows @ [\<lparr>nr_key = k, nr_notified_at = None, nr_channel = None\<rparr>]))"

definition notice_notified :: "uuid \<Rightarrow> uuid \<Rightarrow> gotime \<Rightarrow> notice_row list \<Rightarrow> bool option" where
  "notice_notified u c due rows =
     map_option (\<lambda>r. nr_notified_at r \<noteq> None) (find (\<lambda>r. nr_key r = (u, c, notice_day due)) rows)"

definition mark_notice ::
  "uuid \<Rightarrow> uuid \<Rightarrow> gotime \<Rightarrow> string \<Rightarrow> gotime \<Rightarrow> notice_row list \<Rightarrow> bool \<times> notice_row list" where
  "mark_notice u c due channel now rows =
     (let hit = (\<lambda>r. nr_key r = (u, c, notice_day due) \<and> nr_notified_at r = None)
      in (\<exists>r \<in> set rows. hit r,
          map (\<lambda>r. if hit r then r\<lparr>nr_notified_at := Some (in_loc now utc), nr_channel := Some channel\<rparr>
                   else r) rows))"

section \<open>The event\<close>

text \<open>
  The payload of the event has the date of the due date in UTC; the consumer reads the date as its
  midnight in UTC.
\<close>

record due_payload =
  dp_user_id :: uuid
  dp_card_id :: uuid
  dp_nickname :: string
  dp_due_date :: "int \<times> int \<times> int"
  dp_days_until :: int

definition payload_of :: "due_alert \<Rightarrow> due_payload" where
  "payload_of a =
     \<lparr>dp_user_id = du_user_id a, dp_card_id = du_card_id a, dp_nickname = du_nickname a,
      dp_due_date = date_of (in_loc (du_due_date a) utc), dp_days_until = du_days_until a\<rparr>"

definition payload_due :: "due_payload \<Rightarrow> gotime" where
  "payload_due p = (case dp_due_date p of (y, m, d) \<Rightarrow> in_loc (midnight y m d utc) utc)"

section \<open>The scan\<close>

text \<open>The state: cards, rows, the events published and the messages that went out.\<close>

record notice_db =
  nd_cards :: card_world
  nd_sent :: "notice_row list"
  nd_published :: "due_payload list"
  nd_messages :: "(notice_key \<times> string) list"

definition publish_notice :: "due_alert \<Rightarrow> notice_db \<Rightarrow> card_error + notice_db" where
  "publish_notice a db =
     (case insert_notice (du_user_id a) (du_card_id a) (du_due_date a) (nd_cards db) (nd_sent db) of
        Inl e \<Rightarrow> Inl e
      | Inr rows \<Rightarrow> Inr (db\<lparr>nd_published := nd_published db @ [payload_of a], nd_sent := rows\<rparr>))"

fun publish_notices :: "due_alert list \<Rightarrow> notice_db \<Rightarrow> card_error + notice_db" where
  "publish_notices [] db = Inr db"
| "publish_notices (a # as) db =
     (case publish_notice a db of Inl e \<Rightarrow> Inl e | Inr db1 \<Rightarrow> publish_notices as db1)"

definition candidate_of :: "card_entity \<Rightarrow> due_candidate" where
  "candidate_of c =
     \<lparr>dc_user_id = ce_user_id c, dc_card_id = ce_id c, dc_nickname = nickname_value (ce_nickname c),
      dc_cycle = ce_cycle c\<rparr>"

definition alert_key :: "due_alert \<Rightarrow> notice_key" where
  "alert_key a = (du_user_id a, du_card_id a, notice_day (du_due_date a))"

definition evaluate_due_in_tx ::
  "(string \<Rightarrow> string) \<Rightarrow> location \<Rightarrow> int \<Rightarrow> int \<Rightarrow> gotime \<Rightarrow> notice_db \<Rightarrow> card_error + notice_db" where
  "evaluate_due_in_tx strip l window limit now db =
     (case find_due_within strip window limit now (nd_cards db) of
        Inl e \<Rightarrow> Inl e
      | Inr cards \<Rightarrow>
          (let alerts = decide_due_alerts (map candidate_of cards) window now l;
               sent = nr_key ` set (list_sent_for_due_dates (map du_due_date alerts) (nd_sent db))
           in publish_notices (filter (\<lambda>a. alert_key a \<notin> sent) alerts) db))"

definition evaluate_due_alerts ::
  "(string \<Rightarrow> string) \<Rightarrow> location \<Rightarrow> int \<Rightarrow> int \<Rightarrow> gotime \<Rightarrow> notice_db \<Rightarrow> (card_error + unit) \<times> notice_db" where
  "evaluate_due_alerts strip l window limit clock db =
     do_tx (\<lambda>db. case evaluate_due_in_tx strip l (if window \<le> 0 then 3 else window)
                       (if limit \<le> 0 then 500 else limit) (in_loc clock utc) db of
              Inl e \<Rightarrow> (Inl e, db) | Inr db1 \<Rightarrow> (Inr (), db1)) db"

section \<open>The message\<close>

definition notice_date :: "gotime \<Rightarrow> string" where
  "notice_date t = sprintf_0d 2 (day t) @ ''/'' @ sprintf_0d 2 (month t)"

definition render_notice :: "location \<Rightarrow> string \<Rightarrow> gotime \<Rightarrow> int \<Rightarrow> string" where
  "render_notice l nick due days =
     (let d = notice_date (in_loc due l); n = (if nick = [] then ''seu cartao'' else nick)
      in if days \<le> 0 then ''Sua fatura do cartao '' @ n @ '' vence hoje ('' @ d @ '').''
         else if days = 1 then ''Sua fatura do cartao '' @ n @ '' vence amanha ('' @ d @ '').''
         else ''Sua fatura do cartao '' @ n @ '' vence em '' @ format_int days @ '' dias ('' @ d @ '').'')"

text \<open>
  What the use case gets from elsewhere: the preferred channel of a user (a failure, none, or a
  channel with an address), and whether a channel delivers a text. The result is the outcome of the
  delivery, and whether it returned an error and comes again.
\<close>

datatype notice_outcome =
    NoticeSent | NoticeAlreadySent | NoticeNoChannel | NoticeChannelFailed | NoticeResolverError
  | NoticeRecordMissing

record notice_ports =
  cp_resolve :: "uuid \<Rightarrow> unit + (string \<times> string) option"
  cp_send :: "string \<Rightarrow> string \<Rightarrow> string \<Rightarrow> bool"

definition notify_invoice_due ::
  "notice_ports \<Rightarrow> location \<Rightarrow> gotime \<Rightarrow> due_payload \<Rightarrow> notice_db \<Rightarrow> (notice_outcome \<times> bool) \<times> notice_db" where
  "notify_invoice_due po l now p db =
     (let u = dp_user_id p; c = dp_card_id p; due = payload_due p
      in case notice_notified u c due (nd_sent db) of
           None \<Rightarrow> ((NoticeRecordMissing, False), db)
         | Some True \<Rightarrow> ((NoticeAlreadySent, False), db)
         | Some False \<Rightarrow>
             (case cp_resolve po u of
                Inl _ \<Rightarrow> ((NoticeResolverError, True), db)
              | Inr None \<Rightarrow> ((NoticeNoChannel, False), db)
              | Inr (Some (channel, address)) \<Rightarrow>
                  (let text = render_notice l (dp_nickname p) due (dp_days_until p)
                   in case mark_notice u c due channel (in_loc now utc) (nd_sent db) of
                        (False, rows) \<Rightarrow> ((NoticeAlreadySent, False), db\<lparr>nd_sent := rows\<rparr>)
                      | (True, rows) \<Rightarrow>
                          if cp_send po channel address text
                          then ((NoticeSent, False), db\<lparr>nd_sent := rows,
                                 nd_messages := nd_messages db @ [((u, c, notice_day due), text)]\<rparr>)
                          else ((NoticeChannelFailed, True), db\<lparr>nd_sent := rows\<rparr>))))"

section \<open>The date of a notice\<close>

text \<open>The date of a midnight west of Greenwich, in UTC, is its own date.\<close>

lemma west_midnight_day:
  assumes "steady l off" "- 86400 < off" "off < 0" "is_midnight l t"
  shows "local_day (in_loc t utc) = local_day t"
proof -
  obtain y m d where t: "t = midnight y m d l" using assms(4) by (auto simp: is_midnight_def)
  have "local_secs (in_loc t utc) = days_of y m d * day_s - off"
    using steady_utc by (simp add: local_secs_def Let_def t in_loc_def ns_go_date [OF assms(1)] steady_def)
  then have "local_day (in_loc t utc) = days_of y m d" using assms(2,3) by (simp add: local_day_def)
  then show ?thesis by (simp add: t local_day_midnight [OF assms(1)])
qed

lemma utc_midnight_west:
  assumes "steady l off" "- 86400 < off" "off < 0"
  shows "local_day (in_loc (midnight y m d utc) l) = days_of y m d - 1"
proof -
  have "local_secs (in_loc (midnight y m d utc) l) = days_of y m d * day_s + off"
    using assms(1) by (simp add: local_secs_def Let_def in_loc_def ns_go_date [OF steady_utc] steady_def)
  then show ?thesis using assms(2,3) by (simp add: local_day_def)
qed

lemma notice_date_by_day: "local_day s = local_day t \<Longrightarrow> notice_date s = notice_date t"
proof -
  assume same: "local_day s = local_day t"
  then have "month s = month t" by (simp add: month_def date_of_def local_day_def)
  then show ?thesis using day_by_number [OF same] by (simp only: notice_date_def)
qed

lemma decided_midnight:
  assumes "steady l off" "a \<in> set (decide_due_alerts cs w now l)"
  shows "is_midnight l (du_due_date a)"
  using assms(2)
  by (auto simp: decide_due_alerts_def Let_def next_due_date_def split: prod.splits)

text \<open>
  In a zone west of Greenwich, as Sao Paulo, the message names the day before the due date: the
  date goes through the event as a midnight in UTC, which is the evening before in that zone.
\<close>

lemma notice_names_day_before:
  assumes "steady l off" "- 86400 < off" "off < 0" "a \<in> set (decide_due_alerts cs w now l)"
  shows "notice_date (in_loc (payload_due (payload_of a)) l) = notice_date (add_date (du_due_date a) 0 0 (- 1))"
proof -
  let ?due = "du_due_date a"
  have mid: "is_midnight l ?due" using decided_midnight [OF assms(1,4)] .
  then have loc: "loc ?due = l" by (auto simp: is_midnight_def)
  obtain y m d where ymd: "date_of (in_loc ?due utc) = (y, m, d)" by (rule prod_cases3)
  then have "days_of y m d = local_day ?due"
    using west_midnight_day [OF assms(1-3) mid] local_day_date [of "in_loc ?due utc"]
    by (simp add: year_def month_def day_def)
  moreover have "payload_due (payload_of a) = midnight y m d utc"
    using ymd by (simp add: payload_due_def payload_of_def)
  ultimately have "local_day (in_loc (payload_due (payload_of a)) l) = local_day ?due - 1"
    using utc_midnight_west [OF assms(1-3)] by simp
  moreover have "local_day (add_date ?due 0 0 (- 1)) = local_day ?due - 1"
    using add_days(1) [of ?due off "- 1"] assms(1) loc by simp
  ultimately show ?thesis by (intro notice_date_by_day) simp
qed

section \<open>At most one message\<close>

definition notices_ok :: "notice_db \<Rightarrow> bool" where
  "notices_ok db \<longleftrightarrow> distinct (map nr_key (nd_sent db)) \<and> distinct (map fst (nd_messages db)) \<and>
     (\<forall>k \<in> fst ` set (nd_messages db). \<forall>r \<in> set (nd_sent db). nr_key r = k \<longrightarrow> nr_notified_at r \<noteq> None) \<and>
     fst ` set (nd_messages db) \<subseteq> nr_key ` set (nd_sent db)"

lemma publish_notice_ok:
  assumes "publish_notice a db = Inr db1" "notices_ok db"
  shows "notices_ok db1"
proof -
  let ?k = "(du_user_id a, du_card_id a, notice_day (du_due_date a))"
  let ?r = "\<lparr>nr_key = ?k, nr_notified_at = None, nr_channel = None\<rparr>"
  consider "nd_sent db1 = nd_sent db" | "?k \<notin> nr_key ` set (nd_sent db)" "nd_sent db1 = nd_sent db @ [?r]"
    using assms(1) by (auto simp: publish_notice_def insert_notice_def Let_def split: sum.splits if_splits)
  moreover have msgs: "nd_messages db1 = nd_messages db"
    using assms(1) by (auto simp: publish_notice_def split: sum.splits)
  ultimately show ?thesis
  proof cases
    case 1
    then show ?thesis using assms(2) msgs by (simp add: notices_ok_def)
  next
    case 2
    then have "?k \<notin> fst ` set (nd_messages db)" using assms(2) unfolding notices_ok_def by blast
    then have "nr_notified_at x \<noteq> None"
      if "k \<in> fst ` set (nd_messages db)" "x \<in> set (nd_sent db @ [?r])" "nr_key x = k" for k x
      using that assms(2) unfolding notices_ok_def by (cases "x = ?r") auto
    moreover have "fst ` set (nd_messages db) \<subseteq> nr_key ` set (nd_sent db @ [?r])"
      using assms(2) unfolding notices_ok_def by auto
    ultimately show ?thesis
      using assms(2) 2 unfolding notices_ok_def msgs 2(2) by simp
  qed
qed

lemma publish_notices_ok: "publish_notices as db = Inr db1 \<Longrightarrow> notices_ok db \<Longrightarrow> notices_ok db1"
  by (induction as arbitrary: db) (auto split: sum.splits dest: publish_notice_ok)

lemma evaluate_due_ok:
  assumes "evaluate_due_alerts strip l w n clock db = (r, db1)" "notices_ok db"
  shows "notices_ok db1"
proof -
  have "notices_ok db1" if "evaluate_due_in_tx strip l w' n' c db = Inr db1" for w' n' c
    using that publish_notices_ok [OF _ assms(2)] by (auto simp: evaluate_due_in_tx_def Let_def split: sum.splits)
  then show ?thesis
    using assms by (auto simp: evaluate_due_alerts_def do_tx_def split: sum.splits)
qed

lemma mark_notice_rows:
  assumes "mark_notice u c due channel now rows = (b, rows1)"
  shows "map nr_key rows1 = map nr_key rows"
    "\<forall>r \<in> set rows1. nr_notified_at r = None \<longrightarrow> r \<in> set rows \<and> nr_key r \<noteq> (u, c, notice_day due)"
    "b \<longleftrightarrow> (\<exists>r \<in> set rows. nr_key r = (u, c, notice_day due) \<and> nr_notified_at r = None)"
  using assms by (auto simp: mark_notice_def Let_def split: if_splits)

text \<open>A delivery that reaches the channel has found its row unmarked and leaves it marked.\<close>

lemma notify_invoice_cases:
  assumes "notify_invoice_due po l now p db = ((outcome, again), db1)"
  defines "k \<equiv> (dp_user_id p, dp_card_id p, notice_day (payload_due p))"
  obtains (idle) rows where "db1 = db\<lparr>nd_sent := rows\<rparr>" "map nr_key rows = map nr_key (nd_sent db)"
      "\<forall>r \<in> set rows. nr_notified_at r = None \<longrightarrow> r \<in> set (nd_sent db)" "outcome \<noteq> NoticeSent"
  | (sent) rows msg r where "db1 = db\<lparr>nd_sent := rows, nd_messages := nd_messages db @ [(k, msg)]\<rparr>"
      "map nr_key rows = map nr_key (nd_sent db)" "r \<in> set (nd_sent db)" "nr_key r = k" "nr_notified_at r = None"
      "\<forall>r \<in> set rows. nr_notified_at r = None \<longrightarrow> r \<in> set (nd_sent db) \<and> nr_key r \<noteq> k" "outcome = NoticeSent"
proof (cases "notice_notified (dp_user_id p) (dp_card_id p) (payload_due p) (nd_sent db) = Some False \<and>
    (\<exists>channel address. cp_resolve po (dp_user_id p) = Inr (Some (channel, address)))")
  case False
  then have "db1 = db" "outcome \<noteq> NoticeSent"
    using assms(1) by (auto simp: notify_invoice_due_def Let_def split: option.splits sum.splits bool.splits)
  then show ?thesis using idle [of "nd_sent db"] by simp
next
  case True
  then obtain channel address where r: "cp_resolve po (dp_user_id p) = Inr (Some (channel, address))" by blast
  obtain b rows where m: "mark_notice (dp_user_id p) (dp_card_id p) (payload_due p) channel (in_loc now utc) (nd_sent db) = (b, rows)"
    by (rule prod.exhaust)
  note rows = mark_notice_rows [OF m, folded k_def]
  show ?thesis
  proof (cases "outcome = NoticeSent")
    case True
    then have "b" "\<exists>msg. db1 = db\<lparr>nd_sent := rows, nd_messages := nd_messages db @ [(k, msg)]\<rparr>"
      using assms(1) r m \<open>_ \<and> _\<close> by (auto simp: notify_invoice_due_def Let_def k_def split: if_splits bool.splits)
    then show ?thesis using sent rows True by blast
  next
    case False
    then have "db1 = db\<lparr>nd_sent := rows\<rparr>"
      using assms(1) r m \<open>_ \<and> _\<close> by (auto simp: notify_invoice_due_def Let_def split: if_splits bool.splits)
    then show ?thesis using idle rows False by blast
  qed
qed

lemma marked_stay:
  assumes "map nr_key rows = map nr_key old" "\<forall>r \<in> set rows. nr_notified_at r = None \<longrightarrow> r \<in> set old"
    and "\<forall>r \<in> set old. nr_key r = k \<longrightarrow> nr_notified_at r \<noteq> None" "r \<in> set rows" "nr_key r = k"
  shows "nr_notified_at r \<noteq> None"
  using assms by blast

lemma notify_invoice_ok:
  assumes "notify_invoice_due po l now p db = (r, db1)" "notices_ok db"
  shows "notices_ok db1"
proof -
  obtain outcome again where "r = (outcome, again)" by (rule prod.exhaust)
  from assms(1) [unfolded this] show ?thesis
  proof (cases rule: notify_invoice_cases)
    case (idle rows)
    then have "nr_key ` set rows = nr_key ` set (nd_sent db)" by (metis set_map)
    moreover have "nr_notified_at x \<noteq> None" if "k \<in> fst ` set (nd_messages db)" "x \<in> set rows" "nr_key x = k" for k x
    proof -
      have "\<forall>r \<in> set (nd_sent db). nr_key r = k \<longrightarrow> nr_notified_at r \<noteq> None"
        using assms(2) that(1) unfolding notices_ok_def by blast
      from marked_stay [OF idle(2,3) this that(2,3)] show ?thesis .
    qed
    ultimately show ?thesis using idle(2) assms(2) unfolding notices_ok_def idle(1) by simp
  next
    case (sent rows msg r)
    let ?k = "(dp_user_id p, dp_card_id p, notice_day (payload_due p))"
    have keys: "nr_key ` set rows = nr_key ` set (nd_sent db)" using sent(2) by (metis set_map)
    have new: "?k \<notin> fst ` set (nd_messages db)"
      using assms(2) sent(3-5) unfolding notices_ok_def by blast
    have old: "\<forall>r \<in> set rows. nr_notified_at r = None \<longrightarrow> r \<in> set (nd_sent db)" using sent(6) by blast
    have "nr_notified_at x \<noteq> None" if "k \<in> insert ?k (fst ` set (nd_messages db))" "x \<in> set rows" "nr_key x = k" for k x
    proof (cases "k = ?k")
      case True
      then show ?thesis using sent(6) that(2,3) by blast
    next
      case False
      then have "\<forall>r \<in> set (nd_sent db). nr_key r = k \<longrightarrow> nr_notified_at r \<noteq> None"
        using assms(2) that(1) unfolding notices_ok_def by blast
      from marked_stay [OF sent(2) old this that(2,3)] show ?thesis .
    qed
    moreover have "?k \<in> nr_key ` set rows" unfolding keys using sent(3,4) by (metis image_eqI)
    ultimately show ?thesis
      using assms(2) new sent(2) keys unfolding notices_ok_def sent(1) by simp
  qed
qed

text \<open>
  Scans and deliveries, and changes of the cards that delete no row; an event may be delivered any
  number of times, by any channel and with any clock.
\<close>

inductive notice_step :: "notice_db \<Rightarrow> notice_db \<Rightarrow> bool" where
  cards: "notice_step db (db\<lparr>nd_cards := w\<rparr>)"
| scan: "evaluate_due_alerts strip l w n clock db = (r, db') \<Longrightarrow> notice_step db db'"
| deliver: "p \<in> set (nd_published db) \<Longrightarrow> notify_invoice_due po l now p db = (r', db') \<Longrightarrow> notice_step db db'"

inductive notices_reachable :: "notice_db \<Rightarrow> bool" where
  empty: "notices_reachable \<lparr>nd_cards = w, nd_sent = [], nd_published = [], nd_messages = []\<rparr>"
| step: "notices_reachable db \<Longrightarrow> notice_step db db' \<Longrightarrow> notices_reachable db'"


text \<open>A card due on the 10th of March, looked at on that day in a zone three hours west.\<close>

lemma notice_names_day_before_witness:
  "let l = fixed_zone (- 10800); c = \<lparr>bc_closing_day = 3, bc_due_day = 10\<rparr>; now = midnight 2025 3 10 l
   in \<exists>a \<in> set (decide_due_alerts [\<lparr>dc_user_id = 7, dc_card_id = 5, dc_nickname = ''azul'', dc_cycle = c\<rparr>] 3 now l).
     du_due_date a = now \<and> notice_date (in_loc (payload_due (payload_of a)) l) = ''09/03''"
proof -
  let ?l = "fixed_zone (- 10800)" and ?y = "\<lparr>bc_closing_day = 3, bc_due_day = 10\<rparr>"
  let ?now = "midnight 2025 3 10 ?l"
  let ?c = "\<lparr>dc_user_id = 7, dc_card_id = 5, dc_nickname = ''azul'', dc_cycle = ?y\<rparr>"
  have v: "valid_date 2025 3 10" "valid_date 2025 3 9" by (simp_all add: valid_date_def days_in_month_def)
  note now = midnight_fields [OF steady_fixed v(1), of "- 10800"]
  have stay: "in_loc ?now ?l = ?now" by (simp add: in_loc_def)
  have "clamp_day 10 2025 3 = 10" by (simp add: clamp_day_eq days_in_month_def)
  then have due: "next_due_date ?y ?now ?l = ?now"
    by (simp add: next_due_date_def Let_def now before_def)
  have zero: "days_between ?now ?now = 0" by (simp add: days_between_def sub_time_def sdiv_nonneg)
  obtain a where a: "decide_due_alerts [?c] 3 ?now ?l = [a]" "du_due_date a = ?now"
    by (simp add: decide_due_alerts_def Let_def stay now due zero)
  have "local_day (add_date ?now 0 0 (- 1)) = local_day (midnight 2025 3 9 utc)"
    using add_days(1) [of ?now "- 10800" "- 1"]
    by (simp add: local_day_midnight [OF steady_fixed] local_day_midnight [OF steady_utc] days_of_day [of 2025 3 10]
        days_of_day [of 2025 3 9])
  then have "notice_date (add_date ?now 0 0 (- 1)) = notice_date (midnight 2025 3 9 utc)" by (rule notice_date_by_day)
  also have "\<dots> = sprintf_0d 2 9 @ ''/'' @ sprintf_0d 2 3"
    by (simp add: notice_date_def midnight_fields [OF steady_utc v(2)])
  also have "\<dots> = ''09/03''" by code_simp
  finally show ?thesis
    using notice_names_day_before [OF steady_fixed, of "- 10800" a "[?c]" 3 ?now] a unfolding Let_def by simp
qed


end
