(* ===== verification/WorkflowCodec.thy ===== *)
theory WorkflowCodec
  imports Prelude "HOL-Library.AList"
begin

text \<open>
  The state of a workflow as it is stored: a JSON value, and the merge of what a user answered into
  it (\<open>internal/platform/workflow/codec.go\<close>). The text of a value is left to the JSON package, so
  that a value here is what its text parses to; an object is the list of its members, each name
  once.
\<close>

section \<open>JSON values\<close>

datatype json =
    JNull
  | JBool bool
  | JNum rat
  | JStr string
  | JArr "json list"
  | JObj "(string \<times> json) list"

type_synonym members = "(string \<times> json) list"

fun distinct_keys :: "json \<Rightarrow> bool" where
  "distinct_keys (JArr vs) \<longleftrightarrow> list_all distinct_keys vs"
| "distinct_keys (JObj ms) \<longleftrightarrow> distinct (map fst ms) \<and> list_all (\<lambda>m. distinct_keys (snd m)) ms"
| "distinct_keys _ \<longleftrightarrow> True"

text \<open>
  Decoded into \<open>any\<close> every number becomes a \<open>float64\<close>: \<open>fl\<close> is the nearest one, \<open>None\<close> where the
  number is out of its range and decoding fails.
\<close>

fun floats :: "(rat \<Rightarrow> rat option) \<Rightarrow> json \<Rightarrow> json option"
  and floats_list :: "(rat \<Rightarrow> rat option) \<Rightarrow> json list \<Rightarrow> json list option"
  and floats_members :: "(rat \<Rightarrow> rat option) \<Rightarrow> members \<Rightarrow> members option" where
  "floats fl (JNum x) = map_option JNum (fl x)"
| "floats fl (JArr vs) = map_option JArr (floats_list fl vs)"
| "floats fl (JObj ms) = map_option JObj (floats_members fl ms)"
| "floats fl v = Some v"
| "floats_list fl [] = Some []"
| "floats_list fl (v # vs) =
     (case (floats fl v, floats_list fl vs) of (Some w, Some ws) \<Rightarrow> Some (w # ws) | _ \<Rightarrow> None)"
| "floats_members fl [] = Some []"
| "floats_members fl ((k, v) # ms) =
     (case (floats fl v, floats_members fl ms) of (Some w, Some rest) \<Rightarrow> Some ((k, w) # rest) | _ \<Rightarrow> None)"

section \<open>Merging\<close>

text \<open>
  A member of the patch that is \<open>null\<close> deletes the one of its name; an object is merged into an
  object; everything else replaces what is there.
\<close>

function merge_maps :: "members \<Rightarrow> members \<Rightarrow> members" where
  "merge_maps base [] = base"
| "merge_maps base ((k, v) # patch) =
     merge_maps
       (case v of
          JNull \<Rightarrow> AList.delete k base
        | JObj p \<Rightarrow>
            (case map_of base k of
               Some (JObj b) \<Rightarrow> AList.update k (JObj (merge_maps b p)) base
             | _ \<Rightarrow> AList.update k v base)
        | _ \<Rightarrow> AList.update k v base)
       patch"
  by pat_completeness auto
termination
  by (relation "measure (\<lambda>(b, p). size (JObj p))") auto

text \<open>\<open>Unmarshal\<close> into a map takes an object, and \<open>null\<close> for the map without members.\<close>

definition members_of :: "(rat \<Rightarrow> rat option) \<Rightarrow> json \<Rightarrow> members option" where
  "members_of fl v =
     (case v of JObj ms \<Rightarrow> floats_members fl ms | JNull \<Rightarrow> Some [] | _ \<Rightarrow> None)"

definition merge_patch :: "(rat \<Rightarrow> rat option) \<Rightarrow> json \<Rightarrow> json \<Rightarrow> json option" where
  "merge_patch fl base patch =
     (case (members_of fl base, members_of fl patch) of
        (Some b, Some p) \<Rightarrow> Some (JObj (merge_maps b p))
      | _ \<Rightarrow> None)"

section \<open>What a merge changes\<close>

definition merged_member :: "json option \<Rightarrow> json option \<Rightarrow> json option" where
  "merged_member old new =
     (case new of
        None \<Rightarrow> old
      | Some JNull \<Rightarrow> None
      | Some (JObj p) \<Rightarrow> (case old of Some (JObj b) \<Rightarrow> Some (JObj (merge_maps b p)) | _ \<Rightarrow> new)
      | _ \<Rightarrow> new)"

lemma merge_lookup:
  "distinct (map fst patch) \<Longrightarrow>
   map_of (merge_maps base patch) k = merged_member (map_of base k) (map_of patch k)"
proof (induction patch arbitrary: base)
  case Nil
  then show ?case by (simp add: merged_member_def)
next
  case (Cons m patch)
  obtain j v where m: "m = (j, v)" by fastforce
  have no: "map_of patch j = None"
    using Cons.prems by (force simp: m map_of_eq_None_iff)
  show ?case
    using Cons no by (cases "k = j")
      (auto simp: m merged_member_def delete_conv' update_conv' split: json.splits option.splits)
qed

lemma merge_keeps:
  "distinct (map fst patch) \<Longrightarrow> k \<notin> fst ` set patch \<Longrightarrow>
   map_of (merge_maps base patch) k = map_of base k"
  by (simp add: merge_lookup merged_member_def map_of_eq_None_iff [THEN iffD2])

section \<open>Against RFC 7386\<close>

text \<open>
  The merge patch of RFC 7386: a member that is not an object in the target is merged into as if it
  were an empty one, so that the nulls inside a new object vanish.
\<close>

fun rfc_merge :: "json \<Rightarrow> json \<Rightarrow> json"
  and rfc_members :: "members \<Rightarrow> members \<Rightarrow> members" where
  "rfc_merge target (JObj p) = JObj (rfc_members (case target of JObj t \<Rightarrow> t | _ \<Rightarrow> []) p)"
| "rfc_merge target v = v"
| "rfc_members t [] = t"
| "rfc_members t ((k, v) # p) =
     rfc_members
       (if v = JNull then AList.delete k t
        else AList.update k (rfc_merge (case map_of t k of None \<Rightarrow> JNull | Some w \<Rightarrow> w) v) t)
       p"

fun null_free :: "json \<Rightarrow> bool" where
  "null_free (JObj ms) \<longleftrightarrow> list_all (\<lambda>m. snd m \<noteq> JNull \<and> null_free (snd m)) ms"
| "null_free _ \<longleftrightarrow> True"

lemma update_new: "k \<notin> fst ` set t \<Longrightarrow> AList.update k v t = t @ [(k, v)]"
  by (induction t) auto

lemma rfc_fresh:
  "null_free v \<Longrightarrow> distinct_keys v \<Longrightarrow> (\<And>ms. t \<noteq> JObj ms) \<Longrightarrow> rfc_merge t v = v"
  "null_free (JObj ms) \<Longrightarrow> distinct_keys (JObj ms) \<Longrightarrow> fst ` set ms \<inter> fst ` set t' = {} \<Longrightarrow>
     rfc_members t' ms = t' @ ms"
proof (induction t v and t' ms rule: rfc_merge_rfc_members.induct)
  case (1 target p)
  then show ?case by (auto split: json.splits)
next
  case (4 t k v p)
  have new: "map_of t k = None" "k \<notin> fst ` set t" using 4(5) by (auto simp: map_of_eq_None_iff)
  then have "rfc_merge JNull v = v" using 4 by simp
  then show ?case using 4 new by (simp add: update_new)
qed auto

lemma merge_rfc_members:
  "distinct_keys (JObj p) \<Longrightarrow> (\<And>m. m \<in> set p \<Longrightarrow> null_free (snd m)) \<Longrightarrow> merge_maps b p = rfc_members b p"
proof (induction b p rule: merge_maps.induct)
  case (2 base k v patch)
  have ok: "distinct_keys v" "null_free v" "distinct_keys (JObj patch)"
    using 2(3) 2(4) [of "(k, v)"] by simp_all
  have rest: "merge_maps b patch = rfc_members b patch"
    if "b = (case v of JNull \<Rightarrow> AList.delete k base
        | JObj p \<Rightarrow> (case map_of base k of
            Some (JObj b) \<Rightarrow> AList.update k (JObj (merge_maps b p)) base | _ \<Rightarrow> AList.update k v base)
        | _ \<Rightarrow> AList.update k v base)" for b
    using 2(2) ok(3) 2(4) that by simp
  show ?case
  proof (cases v)
    case (JObj p)
    let ?old = "case map_of base k of None \<Rightarrow> JNull | Some w \<Rightarrow> w"
    let ?next = "case map_of base k of Some (JObj b) \<Rightarrow> AList.update k (JObj (merge_maps b p)) base
        | _ \<Rightarrow> AList.update k (JObj p) base"
    have step: "?next = AList.update k (rfc_merge ?old (JObj p)) base"
    proof (cases "\<exists>b. ?old = JObj b")
      case True
      then obtain b where b: "map_of base k = Some (JObj b)" by (auto split: option.splits)
      have "null_free (snd m)" if "m \<in> set p" for m
        using ok(2) that by (auto simp: JObj list_all_iff)
      then have "merge_maps b p = rfc_members b p"
        using 2(1) [OF JObj b refl] ok(1) JObj by blast
      then show ?thesis by (simp add: b JObj)
    next
      case False
      then have "rfc_merge ?old (JObj p) = JObj p" using rfc_fresh(1) [OF ok(2,1)] JObj by blast
      moreover have "?next = AList.update k (JObj p) base"
        using False by (auto split: option.splits json.splits)
      ultimately show ?thesis by simp
    qed
    have "merge_maps base ((k, v) # patch) = merge_maps ?next patch" by (simp add: JObj)
    also have "\<dots> = rfc_members ?next patch" by (rule rest) (simp add: JObj cong: option.case_cong json.case_cong)
    also have "\<dots> = rfc_members base ((k, v) # patch)" by (simp add: step) (simp add: JObj)
    finally show ?thesis .
  qed (use rest in simp_all)
qed simp

text \<open>
  C40: Where the patch has nulls at its top level only, merging is the merge patch of RFC 7386.
\<close>

theorem merge_patch_rfc:
  assumes "merge_patch fl base patch = Some r" "members_of fl base = Some b"
    and "members_of fl patch = Some p" "distinct_keys (JObj p)" "\<And>m. m \<in> set p \<Longrightarrow> null_free (snd m)"
  shows "r = rfc_merge (JObj b) (JObj p)"
  using assms(1-3) merge_rfc_members [OF assms(4,5)] by (simp add: merge_patch_def)

text \<open>Deeper down it is not: a null inside a new object is kept, where the RFC drops it.\<close>

lemma merge_keeps_inner_null:
  "merge_maps [] [(''a'', JObj [(''b'', JNull)])] = [(''a'', JObj [(''b'', JNull)])]"
  "rfc_members [] [(''a'', JObj [(''b'', JNull)])] = [(''a'', JObj [])]"
  by simp_all

theorem merge_patch_rfc_witness:
  "merge_patch Some (JObj [(''x'', JObj [(''y'', JNum 1), (''z'', JNum 2)]), (''w'', JBool True)])
     (JObj [(''x'', JObj [(''z'', JNum 3)]), (''w'', JNull)]) =
   Some (JObj [(''x'', JObj [(''y'', JNum 1), (''z'', JNum 3)])])"
proof -
  let ?b = "JObj [(''x'', JObj [(''y'', JNum 1), (''z'', JNum 2)]), (''w'', JBool True)]"
  let ?p = "JObj [(''x'', JObj [(''z'', JNum 3)]), (''w'', JNull)]"
  obtain r where r: "merge_patch Some ?b ?p = Some r" by (simp add: merge_patch_def members_of_def)
  have "r = rfc_merge ?b ?p"
    by (rule merge_patch_rfc [OF r]) (auto simp: members_of_def)
  then show ?thesis using r by simp
qed

end
