(* ===== verification/WorkflowStore.thy ===== *)
theory WorkflowStore
  imports GoTime WorkflowCodec
begin

text \<open>
  The runs of workflows and the record of their steps
  (\<open>internal/platform/workflow/infrastructure/postgres/store.go\<close>, with the constraints of the first
  migration), the reaper of runs nobody answered (\<open>reaper.go\<close>) and the deletion of old runs
  (\<open>housekeeping.go\<close>). A status is stored as its wire form; the state of a run is the JSON value
  its bytes parse to, absent for the empty slice.
\<close>

section \<open>Statuses\<close>

datatype wf_error =
    ErrVersionConflict
  | ErrRunConflict
  | ErrRunAlreadyExists
  | ErrInvalidRunStatus
  | ErrInvalidStepStatus
  | ErrInvalidSuspendReason
  | ErrWorkflowDatabase
  | ErrStateEncode
  | ErrStateDecode
  | ErrResumeMerge
  | ErrConflictRunNotFound
  | ErrStepFailed string
  | ErrStep string

datatype run_status = RunZero | RunRunning | RunSuspended | RunSucceeded | RunFailed

definition run_status_string :: "run_status \<Rightarrow> string" where
  "run_status_string s =
     (case s of
        RunRunning \<Rightarrow> ''running''
      | RunSuspended \<Rightarrow> ''suspended''
      | RunSucceeded \<Rightarrow> ''succeeded''
      | RunFailed \<Rightarrow> ''failed''
      | RunZero \<Rightarrow> ''unknown'')"

definition run_status_is_valid :: "run_status \<Rightarrow> bool" where
  "run_status_is_valid s \<longleftrightarrow> s \<noteq> RunZero"

definition parse_run_status :: "string \<Rightarrow> wf_error + run_status" where
  "parse_run_status s =
     (if s = ''running'' then Inr RunRunning
      else if s = ''suspended'' then Inr RunSuspended
      else if s = ''succeeded'' then Inr RunSucceeded
      else if s = ''failed'' then Inr RunFailed
      else Inl ErrInvalidRunStatus)"

datatype step_status = StepZero | StepCompleted | StepSuspended | StepFailed | StepSkipped

definition step_status_string :: "step_status \<Rightarrow> string" where
  "step_status_string s =
     (case s of
        StepCompleted \<Rightarrow> ''completed''
      | StepSuspended \<Rightarrow> ''suspended''
      | StepFailed \<Rightarrow> ''failed''
      | StepSkipped \<Rightarrow> ''skipped''
      | StepZero \<Rightarrow> ''unknown'')"

definition step_status_is_valid :: "step_status \<Rightarrow> bool" where
  "step_status_is_valid s \<longleftrightarrow> s \<noteq> StepZero"

definition parse_step_status :: "string \<Rightarrow> wf_error + step_status" where
  "parse_step_status s =
     (if s = ''completed'' then Inr StepCompleted
      else if s = ''suspended'' then Inr StepSuspended
      else if s = ''failed'' then Inr StepFailed
      else if s = ''skipped'' then Inr StepSkipped
      else Inl ErrInvalidStepStatus)"

datatype suspend_reason = ReasonZero | SuspendAwaitingInput

definition suspend_reason_string :: "suspend_reason \<Rightarrow> string" where
  "suspend_reason_string r =
     (case r of SuspendAwaitingInput \<Rightarrow> ''awaiting_input'' | ReasonZero \<Rightarrow> ''unknown'')"

definition suspend_reason_is_valid :: "suspend_reason \<Rightarrow> bool" where
  "suspend_reason_is_valid r \<longleftrightarrow> r = SuspendAwaitingInput"

definition parse_suspend_reason :: "string \<Rightarrow> wf_error + suspend_reason" where
  "parse_suspend_reason s =
     (if s = ''awaiting_input'' then Inr SuspendAwaitingInput else Inl ErrInvalidSuspendReason)"

interpretation run_status_wire: wire_enum run_status_is_valid run_status_string parse_run_status
  by unfold_locales (auto simp: run_status_is_valid_def run_status_string_def parse_run_status_def
      split: run_status.splits if_splits)

interpretation step_status_wire: wire_enum step_status_is_valid step_status_string parse_step_status
  by unfold_locales (auto simp: step_status_is_valid_def step_status_string_def parse_step_status_def
      split: step_status.splits if_splits)

interpretation suspend_reason_wire:
  wire_enum suspend_reason_is_valid suspend_reason_string parse_suspend_reason
  by unfold_locales (auto simp: suspend_reason_is_valid_def suspend_reason_string_def
      parse_suspend_reason_def split: suspend_reason.splits if_splits)

section \<open>Snapshots and rows\<close>

record snapshot =
  sn_run_id :: uuid
  sn_workflow :: string
  sn_key :: string
  sn_status :: run_status
  sn_suspend_reason :: suspend_reason
  sn_cursor :: nat
  sn_state :: "json option"
  sn_attempts :: int
  sn_max_attempts :: int
  sn_version :: int
  sn_last_error :: string
  sn_created_at :: gotime
  sn_updated_at :: gotime
  sn_ended_at :: "gotime option"

record step_record =
  sr_id :: uuid
  sr_run_id :: uuid
  sr_step_id :: string
  sr_seq :: nat
  sr_status :: step_status
  sr_attempt :: int
  sr_duration_ms :: int
  sr_error :: string
  sr_started_at :: gotime
  sr_ended_at :: "gotime option"

record run_row =
  rr_id :: uuid
  rr_workflow :: string
  rr_key :: string
  rr_status :: string
  rr_suspend_reason :: string
  rr_cursor :: nat
  rr_state :: json
  rr_attempts :: int
  rr_max_attempts :: int
  rr_version :: int
  rr_last_error :: string
  rr_created_at :: gotime
  rr_updated_at :: gotime
  rr_ended_at :: "gotime option"

record step_row =
  st_id :: uuid
  st_run_id :: uuid
  st_step_id :: string
  st_seq :: nat
  st_status :: string
  st_attempt :: int
  st_duration_ms :: int
  st_error :: string
  st_started_at :: gotime
  st_ended_at :: "gotime option"

record wf_db =
  wd_runs :: "run_row list"
  wd_steps :: "step_row list"

definition nullable_time :: "gotime option \<Rightarrow> gotime option" where
  "nullable_time v =
     (case v of None \<Rightarrow> None | Some t \<Rightarrow> if is_zero t then None else Some (in_loc t utc))"

definition state_or_empty :: "json option \<Rightarrow> json" where
  "state_or_empty st = (case st of None \<Rightarrow> JObj [] | Some v \<Rightarrow> v)"

text \<open>The columns of type \<open>INT\<close> hold 32 bits.\<close>

definition fits_int :: "int \<Rightarrow> bool" where
  "fits_int x \<longleftrightarrow> - (2 ^ 31) \<le> x \<and> x < 2 ^ 31"

definition active_status :: "string \<Rightarrow> bool" where
  "active_status s \<longleftrightarrow> s = ''running'' \<or> s = ''suspended''"

definition ended_status :: "string \<Rightarrow> bool" where
  "ended_status s \<longleftrightarrow> s = ''succeeded'' \<or> s = ''failed''"

definition run_row_ok :: "run_row \<Rightarrow> bool" where
  "run_row_ok r \<longleftrightarrow>
     (active_status (rr_status r) \<or> ended_status (rr_status r)) \<and> 0 \<le> rr_attempts r \<and>
     0 < rr_max_attempts r \<and> fits_int (int (rr_cursor r)) \<and> fits_int (rr_attempts r) \<and>
     fits_int (rr_max_attempts r) \<and> in_i64 (rr_version r)"

definition active_row :: "string \<Rightarrow> string \<Rightarrow> run_row \<Rightarrow> bool" where
  "active_row w k r \<longleftrightarrow> rr_workflow r = w \<and> rr_key r = k \<and> active_status (rr_status r)"

section \<open>The store\<close>

definition row_of_snapshot :: "snapshot \<Rightarrow> run_row" where
  "row_of_snapshot s =
     \<lparr>rr_id = sn_run_id s, rr_workflow = sn_workflow s, rr_key = sn_key s,
      rr_status = run_status_string (sn_status s),
      rr_suspend_reason = suspend_reason_string (sn_suspend_reason s), rr_cursor = sn_cursor s,
      rr_state = state_or_empty (sn_state s), rr_attempts = sn_attempts s,
      rr_max_attempts = sn_max_attempts s, rr_version = sn_version s,
      rr_last_error = sn_last_error s, rr_created_at = in_loc (sn_created_at s) utc,
      rr_updated_at = in_loc (sn_updated_at s) utc, rr_ended_at = nullable_time (sn_ended_at s)\<rparr>"

definition insert_run :: "snapshot \<Rightarrow> wf_db \<Rightarrow> wf_error + wf_db" where
  "insert_run s db =
     (let r = row_of_snapshot s
      in if \<not> run_row_ok r then Inl ErrWorkflowDatabase
         else if rr_id r \<in> rr_id ` set (wd_runs db) \<or>
                 active_status (rr_status r) \<and> (\<exists>x \<in> set (wd_runs db). active_row (rr_workflow r) (rr_key r) x)
           then Inl ErrRunAlreadyExists
         else Inr (db\<lparr>wd_runs := wd_runs db @ [r]\<rparr>))"

definition scan_snapshot :: "run_row \<Rightarrow> wf_error + snapshot" where
  "scan_snapshot r =
     (case parse_run_status (rr_status r) of
        Inl e \<Rightarrow> Inl e
      | Inr status \<Rightarrow>
          Inr \<lparr>sn_run_id = rr_id r, sn_workflow = rr_workflow r, sn_key = rr_key r,
            sn_status = status,
            sn_suspend_reason = (case parse_suspend_reason (rr_suspend_reason r) of
                Inl _ \<Rightarrow> ReasonZero | Inr x \<Rightarrow> x),
            sn_cursor = rr_cursor r, sn_state = Some (rr_state r), sn_attempts = rr_attempts r,
            sn_max_attempts = rr_max_attempts r, sn_version = rr_version r,
            sn_last_error = rr_last_error r, sn_created_at = in_loc (rr_created_at r) utc,
            sn_updated_at = in_loc (rr_updated_at r) utc, sn_ended_at = rr_ended_at r\<rparr>)"

definition scan_first :: "run_row list \<Rightarrow> wf_error + snapshot option" where
  "scan_first rows =
     (case rows of
        [] \<Rightarrow> Inr None
      | r # _ \<Rightarrow> (case scan_snapshot r of Inl e \<Rightarrow> Inl e | Inr s \<Rightarrow> Inr (Some s)))"

definition load_run :: "string \<Rightarrow> string \<Rightarrow> wf_db \<Rightarrow> wf_error + snapshot option" where
  "load_run w k db = scan_first (filter (active_row w k) (wd_runs db))"

definition load_latest :: "string \<Rightarrow> string \<Rightarrow> wf_db \<Rightarrow> wf_error + snapshot option" where
  "load_latest w k db =
     scan_first (rev (sort_key (\<lambda>r. ns (rr_created_at r)) (sort_key rr_id
       (filter (\<lambda>r. rr_workflow r = w \<and> rr_key r = k) (wd_runs db)))))"

text \<open>
  The update takes the version in its condition. It writes neither the workflow nor the key, so that
  the index of active runs is met again by the same key.
\<close>

definition saved_row :: "snapshot \<Rightarrow> run_row \<Rightarrow> run_row" where
  "saved_row s r =
     r\<lparr>rr_status := run_status_string (sn_status s),
       rr_suspend_reason := suspend_reason_string (sn_suspend_reason s), rr_cursor := sn_cursor s,
       rr_state := state_or_empty (sn_state s), rr_attempts := sn_attempts s,
       rr_last_error := sn_last_error s, rr_version := rr_version r + 1,
       rr_updated_at := in_loc (sn_updated_at s) utc, rr_ended_at := nullable_time (sn_ended_at s)\<rparr>"

definition save_run :: "snapshot \<Rightarrow> int \<Rightarrow> wf_db \<Rightarrow> wf_error + wf_db" where
  "save_run s version db =
     (let hit = (\<lambda>r. rr_id r = sn_run_id s \<and> rr_version r = version);
          rows = map (\<lambda>r. if hit r then saved_row s r else r) (wd_runs db)
      in if \<not> (\<exists>r \<in> set (wd_runs db). hit r) then Inl ErrVersionConflict
         else if (\<exists>r \<in> set (wd_runs db). hit r \<and>
              (\<not> run_row_ok (saved_row s r) \<or>
               active_status (rr_status (saved_row s r)) \<and>
               (\<exists>x \<in> set (wd_runs db). rr_id x \<noteq> rr_id r \<and> active_row (rr_workflow r) (rr_key r) x)))
           then Inl ErrWorkflowDatabase
         else Inr (db\<lparr>wd_runs := rows\<rparr>))"

definition row_of_step :: "step_record \<Rightarrow> step_row" where
  "row_of_step s =
     \<lparr>st_id = sr_id s, st_run_id = sr_run_id s, st_step_id = sr_step_id s, st_seq = sr_seq s,
      st_status = step_status_string (sr_status s), st_attempt = sr_attempt s,
      st_duration_ms = sr_duration_ms s, st_error = sr_error s,
      st_started_at = in_loc (sr_started_at s) utc, st_ended_at = nullable_time (sr_ended_at s)\<rparr>"

text \<open>A step that is recorded again for the same attempt replaces what was recorded.\<close>

definition append_step :: "step_record \<Rightarrow> wf_db \<Rightarrow> wf_error + wf_db" where
  "append_step s db =
     (let r = row_of_step s;
          same = (\<lambda>x. (st_run_id x, st_seq x, st_attempt x) = (st_run_id r, st_seq r, st_attempt r))
      in if sr_status s = StepZero \<or> \<not> fits_int (int (st_seq r)) \<or> \<not> fits_int (st_attempt r)
           then Inl ErrWorkflowDatabase
         else if \<exists>x \<in> set (wd_steps db). same x then
           Inr (db\<lparr>wd_steps := map (\<lambda>x. if same x then r\<lparr>st_id := st_id x\<rparr> else x) (wd_steps db)\<rparr>)
         else if st_id r \<in> st_id ` set (wd_steps db) \<or> st_run_id r \<notin> rr_id ` set (wd_runs db)
           then Inl ErrWorkflowDatabase
         else Inr (db\<lparr>wd_steps := wd_steps db @ [r]\<rparr>))"

fun scan_all :: "run_row list \<Rightarrow> wf_error + snapshot list" where
  "scan_all [] = Inr []"
| "scan_all (r # rs) =
     (case scan_snapshot r of
        Inl e \<Rightarrow> Inl e
      | Inr s \<Rightarrow> (case scan_all rs of Inl e \<Rightarrow> Inl e | Inr ss \<Rightarrow> Inr (s # ss)))"

definition list_suspended :: "string \<Rightarrow> gotime \<Rightarrow> int \<Rightarrow> wf_db \<Rightarrow> wf_error + snapshot list" where
  "list_suspended w cutoff limit db =
     (if limit < 0 then Inl ErrWorkflowDatabase
      else scan_all (take (nat limit) (sort_key (\<lambda>r. ns (rr_updated_at r))
        (filter (\<lambda>r. rr_workflow r = w \<and> rr_status r = ''suspended'' \<and> before (rr_updated_at r) cutoff)
          (wd_runs db)))))"

text \<open>
  The rows to delete come in no order of their own: the first ones of the table are taken. The
  steps of a run go with it.
\<close>

definition deletable :: "gotime \<Rightarrow> run_row \<Rightarrow> bool" where
  "deletable cutoff r \<longleftrightarrow>
     ended_status (rr_status r) \<and> (\<exists>t. rr_ended_at r = Some t \<and> before t cutoff)"

definition delete_completed :: "gotime \<Rightarrow> int \<Rightarrow> int \<Rightarrow> wf_db \<Rightarrow> wf_error + int \<times> wf_db" where
  "delete_completed now retention limit db =
     (if limit < 0 then Inl ErrWorkflowDatabase
      else let cutoff = add_dur (in_loc now utc) (i64 (- retention));
               ids = map rr_id (take (nat limit) (filter (deletable cutoff) (wd_runs db)));
               kept = filter (\<lambda>r. rr_id r \<notin> set ids) (wd_runs db)
           in Inr (int (length (wd_runs db)) - int (length kept),
                db\<lparr>wd_runs := kept, wd_steps := filter (\<lambda>x. st_run_id x \<notin> set ids) (wd_steps db)\<rparr>))"

section \<open>The reaper and the housekeeping\<close>

text \<open>A run that was suspended for too long is failed; one that moved on in between is left alone.\<close>

definition reaped :: "gotime \<Rightarrow> snapshot \<Rightarrow> snapshot" where
  "reaped now s =
     s\<lparr>sn_status := RunFailed, sn_ended_at := Some (in_loc now utc),
       sn_last_error := ''workflow: suspenso alem do TTL, expirado pelo reaper''\<rparr>"

fun reap_all :: "gotime \<Rightarrow> snapshot list \<Rightarrow> wf_db \<Rightarrow> int \<times> wf_db" where
  "reap_all now [] db = (0, db)"
| "reap_all now (s # ss) db =
     (case save_run (reaped now s) (sn_version s) db of
        Inl _ \<Rightarrow> reap_all now ss db
      | Inr db1 \<Rightarrow> (case reap_all now ss db1 of (n, db2) \<Rightarrow> (n + 1, db2)))"

definition reap :: "string \<Rightarrow> int \<Rightarrow> int \<Rightarrow> gotime \<Rightarrow> wf_db \<Rightarrow> (wf_error + int) \<times> wf_db" where
  "reap w max_age batch now db =
     (case list_suspended w (add_dur (in_loc now utc) (i64 (- max_age))) batch db of
        Inl e \<Rightarrow> (Inl e, db)
      | Inr ss \<Rightarrow> (case reap_all now ss db of (n, db1) \<Rightarrow> (Inr n, db1)))"

text \<open>Each batch reads the clock anew: \<open>clock i\<close> is the instant of batch \<open>i\<close>.\<close>

record housekeeping_config =
  hc_retention_days :: int
  hc_batch_size :: int
  hc_schedule :: string

definition new_housekeeping :: "housekeeping_config \<Rightarrow> string + housekeeping_config" where
  "new_housekeeping c =
     (if hc_retention_days c \<le> 0 then Inl ''workflow: housekeeping: retention_days must be > 0''
      else if hc_batch_size c \<le> 0 then Inl ''workflow: housekeeping: batch_size must be > 0''
      else if hc_schedule c = '''' then Inl ''workflow: housekeeping: schedule must not be empty''
      else Inr c)"

partial_function (option) runs_cleanup_loop ::
  "(nat \<Rightarrow> gotime) \<Rightarrow> int \<Rightarrow> int \<Rightarrow> nat \<Rightarrow> int \<Rightarrow> wf_db \<Rightarrow> ((wf_error + int) \<times> wf_db) option" where
  "runs_cleanup_loop clock retention limit i gone db =
     (case delete_completed (clock i) retention limit db of
        Inl e \<Rightarrow> Some (Inl e, db)
      | Inr (n, db1) \<Rightarrow>
          if n = 0 then Some (Inr (gone + n), db1)
          else runs_cleanup_loop clock retention limit (Suc i) (gone + n) db1)"

definition run_workflow_housekeeping ::
  "(nat \<Rightarrow> gotime) \<Rightarrow> housekeeping_config \<Rightarrow> wf_db \<Rightarrow> ((wf_error + int) \<times> wf_db) option" where
  "run_workflow_housekeeping clock c db =
     runs_cleanup_loop clock (i64 (i64 (hc_retention_days c * 24) * 3600000000000)) (hc_batch_size c) 0 0 db"

section \<open>What the tables keep\<close>

definition runs_ok :: "wf_db \<Rightarrow> bool" where
  "runs_ok db \<longleftrightarrow>
     distinct (map rr_id (wd_runs db)) \<and>
     (\<forall>r \<in> set (wd_runs db). run_row_ok r \<and> (rr_ended_at r = None \<longleftrightarrow> active_status (rr_status r))) \<and>
     (\<forall>w k. \<forall>x \<in> set (wd_runs db). \<forall>y \<in> set (wd_runs db).
        active_row w k x \<longrightarrow> active_row w k y \<longrightarrow> x = y)"

definition steps_ok :: "wf_db \<Rightarrow> bool" where
  "steps_ok db \<longleftrightarrow>
     st_run_id ` set (wd_steps db) \<subseteq> rr_id ` set (wd_runs db) \<and>
     distinct (map (\<lambda>x. (st_run_id x, st_seq x, st_attempt x)) (wd_steps db))"

lemma status_texts [simp]:
  "active_status (run_status_string s) \<longleftrightarrow> s = RunRunning \<or> s = RunSuspended"
  "ended_status (run_status_string s) \<longleftrightarrow> s = RunSucceeded \<or> s = RunFailed"
  by (cases s; simp add: active_status_def ended_status_def run_status_string_def)+

lemma not_both: "active_status s \<Longrightarrow> \<not> ended_status s"
  by (auto simp: active_status_def ended_status_def)

lemma run_by_id:
  "distinct (map rr_id rows) \<Longrightarrow> x \<in> set rows \<Longrightarrow> y \<in> set rows \<Longrightarrow> rr_id x = rr_id y \<Longrightarrow> x = y"
  by (meson distinct_map inj_onD)

lemma runs_okD:
  assumes "runs_ok db"
  shows "distinct (map rr_id (wd_runs db))"
    and "r \<in> set (wd_runs db) \<Longrightarrow> run_row_ok r"
    and "r \<in> set (wd_runs db) \<Longrightarrow> rr_ended_at r = None \<longleftrightarrow> active_status (rr_status r)"
    and "x \<in> set (wd_runs db) \<Longrightarrow> y \<in> set (wd_runs db) \<Longrightarrow> active_row w k x \<Longrightarrow> active_row w k y \<Longrightarrow> x = y"
  using assms unfolding runs_ok_def by blast+

lemma insert_run_ok:
  assumes "insert_run s db = Inr db'" "runs_ok db" "nullable_time (sn_ended_at s) = None \<longleftrightarrow>
      active_status (rr_status (row_of_snapshot s))"
  shows "runs_ok db' \<and> wd_runs db' = wd_runs db @ [row_of_snapshot s] \<and> wd_steps db' = wd_steps db"
proof -
  let ?r = "row_of_snapshot s"
  have new: "db' = db\<lparr>wd_runs := wd_runs db @ [?r]\<rparr>" "run_row_ok ?r" "rr_id ?r \<notin> rr_id ` set (wd_runs db)"
    "active_status (rr_status ?r) \<Longrightarrow> x \<in> set (wd_runs db) \<Longrightarrow> \<not> active_row (rr_workflow ?r) (rr_key ?r) x" for x
    using assms(1) by (auto simp: insert_run_def Let_def split: if_splits)
  have "rr_ended_at ?r = None \<longleftrightarrow> active_status (rr_status ?r)"
    using assms(3) by (simp add: row_of_snapshot_def)
  moreover have "x = y" if "x \<in> set (wd_runs db')" "y \<in> set (wd_runs db')" "active_row w k x" "active_row w k y"
    for x y w k
  proof -
    have alone: "\<not> active_row w k z" if "active_row w k ?r" "z \<in> set (wd_runs db)" for z
      using that new(4) [of z] unfolding active_row_def by metis
    have "x \<in> set (wd_runs db) \<or> x = ?r" "y \<in> set (wd_runs db) \<or> y = ?r" using that(1,2) by (auto simp: new(1))
    then show ?thesis using alone that(3,4) runs_okD(4) [OF assms(2) _ _ that(3,4)] by blast
  qed
  ultimately have "runs_ok db'"
    using assms(2) new(2,3) unfolding runs_ok_def new(1) by simp
  then show ?thesis by (simp add: new(1))
qed

lemma save_runE:
  assumes "save_run s v db = Inr db'" "distinct (map rr_id (wd_runs db))"
  obtains r where "r \<in> set (wd_runs db)" "rr_id r = sn_run_id s" "rr_version r = v"
    "wd_runs db' = map (\<lambda>x. if rr_id x = sn_run_id s then saved_row s x else x) (wd_runs db)"
    "wd_steps db' = wd_steps db" "run_row_ok (saved_row s r)"
    "\<And>x. active_status (rr_status (saved_row s r)) \<Longrightarrow> x \<in> set (wd_runs db) \<Longrightarrow>
       active_row (rr_workflow r) (rr_key r) x \<Longrightarrow> rr_id x = rr_id r"
proof -
  let ?hit = "\<lambda>r. rr_id r = sn_run_id s \<and> rr_version r = v"
  obtain r where r: "r \<in> set (wd_runs db)" "?hit r" "run_row_ok (saved_row s r)"
    "\<And>x. active_status (rr_status (saved_row s r)) \<Longrightarrow> x \<in> set (wd_runs db) \<Longrightarrow>
       active_row (rr_workflow r) (rr_key r) x \<Longrightarrow> rr_id x = rr_id r"
    and db': "db' = db\<lparr>wd_runs := map (\<lambda>r. if ?hit r then saved_row s r else r) (wd_runs db)\<rparr>"
    using assms(1) unfolding save_run_def Let_def by (auto split: if_splits)
  have "?hit x \<longleftrightarrow> rr_id x = sn_run_id s" if "x \<in> set (wd_runs db)" for x
    using run_by_id [OF assms(2) that r(1)] r(2) by auto
  then have "wd_runs db' = map (\<lambda>x. if rr_id x = sn_run_id s then saved_row s x else x) (wd_runs db)"
    by (simp add: db')
  then show ?thesis using that r db' by simp
qed

lemma saved_row_same [simp]:
  "rr_id (saved_row s r) = rr_id r" "rr_workflow (saved_row s r) = rr_workflow r"
  "rr_key (saved_row s r) = rr_key r" "rr_version (saved_row s r) = rr_version r + 1"
  "rr_status (saved_row s r) = run_status_string (sn_status s)"
  "rr_ended_at (saved_row s r) = nullable_time (sn_ended_at s)"
  by (simp_all add: saved_row_def)

lemma save_run_ok:
  assumes "save_run s v db = Inr db'" "runs_ok db"
    and "nullable_time (sn_ended_at s) = None \<longleftrightarrow> sn_status s = RunRunning \<or> sn_status s = RunSuspended"
  shows "runs_ok db'"
proof -
  obtain r where r: "r \<in> set (wd_runs db)" "rr_id r = sn_run_id s" "run_row_ok (saved_row s r)"
    and runs: "wd_runs db' = map (\<lambda>x. if rr_id x = sn_run_id s then saved_row s x else x) (wd_runs db)"
    and alone: "\<And>x. active_status (rr_status (saved_row s r)) \<Longrightarrow> x \<in> set (wd_runs db) \<Longrightarrow>
       active_row (rr_workflow r) (rr_key r) x \<Longrightarrow> rr_id x = rr_id r"
    by (rule save_runE [OF assms(1) runs_okD(1) [OF assms(2)]]) blast
  let ?f = "\<lambda>x. if rr_id x = sn_run_id s then saved_row s x else x"
  have f: "?f r = saved_row s r" "x \<in> set (wd_runs db) \<Longrightarrow> x \<noteq> r \<Longrightarrow> ?f x = x" for x
    using run_by_id [OF runs_okD(1) [OF assms(2)] _ r(1), of x] r(2) by auto
  have member: "y = saved_row s r \<or> y \<in> set (wd_runs db) \<and> y \<noteq> r" if "y \<in> set (wd_runs db')" for y
    using that f unfolding runs by force
  have other: "\<not> active_row w k x" if "active_row w k (saved_row s r)" "x \<in> set (wd_runs db)" "x \<noteq> r" for w k x
  proof
    assume "active_row w k x"
    moreover have "active_status (rr_status (saved_row s r))" "w = rr_workflow r" "k = rr_key r"
      using that(1) by (simp_all add: active_row_def)
    ultimately have "rr_id x = rr_id r" using alone that(2) by blast
    then show False using run_by_id [OF runs_okD(1) [OF assms(2)] that(2) r(1)] that(3) by blast
  qed
  have "map rr_id (wd_runs db') = map rr_id (wd_runs db)" by (simp add: runs comp_def)
  moreover have "run_row_ok y" "rr_ended_at y = None \<longleftrightarrow> active_status (rr_status y)"
    if "y \<in> set (wd_runs db')" for y
    using member [OF that] r(3) assms(3) runs_okD(2,3) [OF assms(2), of y] by auto
  moreover have "x = y" if "x \<in> set (wd_runs db')" "y \<in> set (wd_runs db')"
    "active_row w k x" "active_row w k y" for x y w k
    using member [OF that(1)] member [OF that(2)] other that(3,4) runs_okD(4) [OF assms(2) _ _ that(3,4)] by blast
  ultimately show ?thesis
    using runs_okD(1) [OF assms(2)] unfolding runs_ok_def by simp
qed

lemma save_stale: "\<not> (\<exists>r \<in> set (wd_runs db). rr_id r = sn_run_id s \<and> rr_version r = v) \<Longrightarrow>
    save_run s v db = Inl ErrVersionConflict"
  by (simp add: save_run_def)

lemma append_step_ok:
  assumes "append_step x db = Inr db'" "steps_ok db"
  shows "steps_ok db' \<and> wd_runs db' = wd_runs db"
proof (cases "\<exists>y \<in> set (wd_steps db). (st_run_id y, st_seq y, st_attempt y) =
    (st_run_id (row_of_step x), st_seq (row_of_step x), st_attempt (row_of_step x))")
  case True
  define same where "same = (\<lambda>y :: step_row. (st_run_id y, st_seq y, st_attempt y) =
    (st_run_id (row_of_step x), st_seq (row_of_step x), st_attempt (row_of_step x)))"
  define g where "g = (\<lambda>y :: step_row. if same y then (row_of_step x)\<lparr>st_id := st_id y\<rparr> else y)"
  have g: "st_run_id (g y) = st_run_id y" "st_seq (g y) = st_seq y" "st_attempt (g y) = st_attempt y" for y
    by (simp_all add: g_def same_def)
  have "db' = db\<lparr>wd_steps := map g (wd_steps db)\<rparr>"
    using assms(1) True unfolding append_step_def Let_def g_def same_def by (auto split: if_splits)
  then show ?thesis using assms(2) by (simp add: steps_ok_def g image_image comp_def)
next
  case False
  have "db' = db\<lparr>wd_steps := wd_steps db @ [row_of_step x]\<rparr>" "st_run_id (row_of_step x) \<in> rr_id ` set (wd_runs db)"
    using assms(1) False by (auto simp: append_step_def Let_def split: if_splits)
  then show ?thesis using assms(2) False unfolding steps_ok_def by force
qed

lemma delete_completedE:
  assumes "delete_completed now retention limit db = Inr (n, db')"
  obtains ids cutoff where "cutoff = add_dur (in_loc now utc) (i64 (- retention))" "0 \<le> limit"
    "ids = map rr_id (take (nat limit) (filter (deletable cutoff) (wd_runs db)))"
    "wd_runs db' = filter (\<lambda>r. rr_id r \<notin> set ids) (wd_runs db)"
    "wd_steps db' = filter (\<lambda>x. st_run_id x \<notin> set ids) (wd_steps db)"
    "n = int (length (wd_runs db)) - int (length (wd_runs db'))"
  using assms by (auto simp: delete_completed_def Let_def split: if_splits)

lemma delete_completed_ok:
  assumes "delete_completed now retention limit db = Inr (n, db')"
  shows "runs_ok db \<Longrightarrow> runs_ok db'" and "steps_ok db \<Longrightarrow> steps_ok db'"
    and "runs_ok db \<Longrightarrow> r \<in> set (wd_runs db) \<Longrightarrow> \<not> ended_status (rr_status r) \<Longrightarrow> r \<in> set (wd_runs db')"
proof -
  obtain ids cutoff where ids: "ids = map rr_id (take (nat limit) (filter (deletable cutoff) (wd_runs db)))"
    and runs: "wd_runs db' = filter (\<lambda>r. rr_id r \<notin> set ids) (wd_runs db)"
    and steps: "wd_steps db' = filter (\<lambda>x. st_run_id x \<notin> set ids) (wd_steps db)"
    by (rule delete_completedE [OF assms]) blast
  show "runs_ok db'" if "runs_ok db"
    using runs_okD [OF that] unfolding runs_ok_def runs by (auto simp: distinct_map_filter)
  show "steps_ok db'" if "steps_ok db"
    using that unfolding steps_ok_def runs steps by (auto simp: distinct_map_filter)
  show "r \<in> set (wd_runs db')" if "runs_ok db" "r \<in> set (wd_runs db)" "\<not> ended_status (rr_status r)"
  proof -
    have "rr_id r \<notin> set ids"
      using run_by_id [OF runs_okD(1) [OF that(1)] that(2)] that(3)
      by (auto simp: ids deletable_def dest!: in_set_takeD)
    then show ?thesis using that(2) by (simp add: runs)
  qed
qed

section \<open>Reading\<close>

lemma scan_snapshotE:
  assumes "scan_snapshot r = Inr s"
  shows "sn_run_id s = rr_id r \<and> sn_workflow s = rr_workflow r \<and> sn_key s = rr_key r \<and>
    sn_version s = rr_version r \<and> run_status_string (sn_status s) = rr_status r \<and> sn_ended_at s = rr_ended_at r \<and>
    sn_cursor s = rr_cursor r \<and> sn_state s = Some (rr_state r) \<and> sn_attempts s = rr_attempts r \<and>
    sn_max_attempts s = rr_max_attempts r"
  using assms run_status_wire.wire_parse [of "rr_status r"]
  by (auto simp: scan_snapshot_def split: sum.splits)

lemma scan_allE: "scan_all rs = Inr ss \<Longrightarrow> s \<in> set ss \<Longrightarrow> \<exists>r \<in> set rs. scan_snapshot r = Inr s"
  by (induction rs arbitrary: ss) (auto split: sum.splits)

lemma load_runE:
  assumes "load_run w k db = Inr (Some s)"
  obtains r where "r \<in> set (wd_runs db)" "active_row w k r" "scan_snapshot r = Inr s"
proof -
  obtain r rs where r: "filter (active_row w k) (wd_runs db) = r # rs" "scan_snapshot r = Inr s"
    using assms by (auto simp: load_run_def scan_first_def split: list.splits sum.splits)
  then have "r \<in> set (filter (active_row w k) (wd_runs db))" by simp
  then show ?thesis using that r(2) by auto
qed

lemma load_run_None: "load_run w k db = Inr None \<longleftrightarrow> \<not> (\<exists>r \<in> set (wd_runs db). active_row w k r)"
proof -
  have "scan_first rows = Inr None \<longleftrightarrow> rows = []" for rows
    by (auto simp: scan_first_def split: list.splits sum.splits)
  then show ?thesis by (auto simp: load_run_def filter_empty_conv)
qed

lemma load_run_active:
  assumes "runs_ok db" "r \<in> set (wd_runs db)" "active_row w k r"
  obtains s where "load_run w k db = Inr (Some s)" "scan_snapshot r = Inr s"
proof -
  have "filter (active_row w k) (wd_runs db) \<noteq> []" using assms(2,3) by (auto simp: filter_empty_conv)
  then obtain x rs where x: "filter (active_row w k) (wd_runs db) = x # rs"
    by (cases "filter (active_row w k) (wd_runs db)") auto
  then have "x \<in> set (filter (active_row w k) (wd_runs db))" by simp
  then have "x \<in> set (wd_runs db)" "active_row w k x" by auto
  then have "x = r" using runs_okD(4) [OF assms(1)] assms(2,3) by blast
  moreover obtain s where "scan_snapshot r = Inr s"
    using assms(3) by (auto simp: scan_snapshot_def active_row_def active_status_def parse_run_status_def)
  ultimately show ?thesis using that x by (simp add: load_run_def scan_first_def)
qed

section \<open>The housekeeping comes to an end\<close>

lemma filter_full: "length (filter P xs) = length xs \<Longrightarrow> filter P xs = xs"
  by (metis filter_id_conv length_filter_less less_irrefl)

lemma delete_completed_batch:
  assumes "0 < limit" "runs_ok db"
  obtains n db' where "delete_completed now retention limit db = Inr (n, db')"
    "n = int (length (wd_runs db)) - int (length (wd_runs db'))" "0 \<le> n"
    "n = 0 \<Longrightarrow> db' = db \<and> \<not> (\<exists>r \<in> set (wd_runs db). deletable (add_dur (in_loc now utc) (i64 (- retention))) r)"
    "filter (\<lambda>r. \<not> ended_status (rr_status r)) (wd_runs db') =
      filter (\<lambda>r. \<not> ended_status (rr_status r)) (wd_runs db)"
proof -
  define cutoff where "cutoff = add_dur (in_loc now utc) (i64 (- retention))"
  define old where "old = take (nat limit) (filter (deletable cutoff) (wd_runs db))"
  define ids where "ids = set (map rr_id old)"
  define db' where "db' = db\<lparr>wd_runs := filter (\<lambda>r. rr_id r \<notin> ids) (wd_runs db),
    wd_steps := filter (\<lambda>x. st_run_id x \<notin> ids) (wd_steps db)\<rparr>"
  have run: "delete_completed now retention limit db =
      Inr (int (length (wd_runs db)) - int (length (wd_runs db')), db')"
    using assms(1) by (simp add: delete_completed_def Let_def db'_def ids_def old_def cutoff_def)
  have old_in: "set old \<subseteq> set (wd_runs db)" "r \<in> set old \<Longrightarrow> ended_status (rr_status r)" for r
    by (auto simp: old_def deletable_def dest!: in_set_takeD)
  have none: "old = [] \<and> \<not> (\<exists>r \<in> set (wd_runs db). deletable cutoff r)"
    if "length (wd_runs db') = length (wd_runs db)"
  proof -
    have "filter (\<lambda>r. rr_id r \<notin> ids) (wd_runs db) = wd_runs db"
      using that by (intro filter_full) (simp add: db'_def)
    then have "old = []" using old_in(1) by (cases old) (auto simp: ids_def filter_id_conv)
    then show ?thesis using assms(1) by (auto simp: old_def filter_empty_conv)
  qed
  have "filter (\<lambda>r. \<not> ended_status (rr_status r)) (wd_runs db') =
      filter (\<lambda>r. \<not> ended_status (rr_status r)) (wd_runs db)"
  proof -
    have "rr_id r \<notin> ids" if "r \<in> set (wd_runs db)" "\<not> ended_status (rr_status r)" for r
      using run_by_id [OF runs_okD(1) [OF assms(2)] that(1)] old_in that(2) by (auto simp: ids_def)
    then show ?thesis by (auto simp: db'_def intro: filter_cong)
  qed
  moreover have "length (wd_runs db') \<le> length (wd_runs db)" by (simp add: db'_def)
  moreover have "db' = db" if "old = []" using that by (simp add: db'_def ids_def)
  moreover have "db' = db \<and> \<not> (\<exists>r \<in> set (wd_runs db). deletable cutoff r)"
    if "int (length (wd_runs db)) - int (length (wd_runs db')) = 0"
    using none that \<open>old = [] \<Longrightarrow> db' = db\<close> by simp
  ultimately show ?thesis by (intro that [OF run]) (simp_all add: cutoff_def)
qed

lemma runs_loop_ends:
  assumes "0 < limit" "runs_ok db" "steps_ok db"
  shows "\<exists>j db'. runs_cleanup_loop clock retention limit i gone db =
      Some (Inr (gone + int (length (wd_runs db)) - int (length (wd_runs db'))), db') \<and>
    runs_ok db' \<and> steps_ok db' \<and>
    \<not> (\<exists>r \<in> set (wd_runs db'). deletable (add_dur (in_loc (clock j) utc) (i64 (- retention))) r) \<and>
    filter (\<lambda>r. \<not> ended_status (rr_status r)) (wd_runs db') =
      filter (\<lambda>r. \<not> ended_status (rr_status r)) (wd_runs db)"
  using assms(2,3)
proof (induction "length (wd_runs db)" arbitrary: db i gone rule: less_induct)
  case less
  obtain n db1 where one: "delete_completed (clock i) retention limit db = Inr (n, db1)"
    and n: "n = int (length (wd_runs db)) - int (length (wd_runs db1))" "0 \<le> n"
    and stop: "n = 0 \<Longrightarrow> db1 = db \<and>
      \<not> (\<exists>r \<in> set (wd_runs db). deletable (add_dur (in_loc (clock i) utc) (i64 (- retention))) r)"
    and kept: "filter (\<lambda>r. \<not> ended_status (rr_status r)) (wd_runs db1) =
      filter (\<lambda>r. \<not> ended_status (rr_status r)) (wd_runs db)"
    by (rule delete_completed_batch [where now = "clock i" and retention = retention, OF assms(1) less(2)]) blast
  show ?case
  proof (cases "n = 0")
    case True
    then have "runs_cleanup_loop clock retention limit i gone db = Some (Inr gone, db)"
      using one stop by (subst runs_cleanup_loop.simps) simp
    then show ?thesis using stop True less(2,3) by auto
  next
    case False
    have ok: "runs_ok db1" "steps_ok db1" using delete_completed_ok(1,2) [OF one] less(2,3) by blast+
    have step: "runs_cleanup_loop clock retention limit i gone db =
        runs_cleanup_loop clock retention limit (Suc i) (gone + n) db1"
      using one False by (subst runs_cleanup_loop.simps) simp
    have shorter: "length (wd_runs db1) < length (wd_runs db)" using n False by linarith
    obtain j db2 where j: "runs_cleanup_loop clock retention limit (Suc i) (gone + n) db1 =
        Some (Inr (gone + n + int (length (wd_runs db1)) - int (length (wd_runs db2))), db2)"
      "runs_ok db2" "steps_ok db2"
      "\<not> (\<exists>r \<in> set (wd_runs db2). deletable (add_dur (in_loc (clock j) utc) (i64 (- retention))) r)"
      "filter (\<lambda>r. \<not> ended_status (rr_status r)) (wd_runs db2) =
        filter (\<lambda>r. \<not> ended_status (rr_status r)) (wd_runs db1)"
      using less(1) [OF shorter ok, of "Suc i" "gone + n"] by blast
    have "gone + n + int (length (wd_runs db1)) = gone + int (length (wd_runs db))" using n by simp
    then show ?thesis using j kept step by metis
  qed
qed

text \<open>
  A housekeeping job that can be built at all comes to an end, whatever the clock does between
  its batches: the runs that have not ended are untouched, and nothing is left that the last batch
  could have deleted.
\<close>

lemma old_runs_deleted:
  assumes "new_housekeeping c0 = Inr c" "runs_ok db" "steps_ok db"
  shows "\<exists>j n db'. run_workflow_housekeeping clock c db = Some (Inr n, db') \<and>
    n = int (length (wd_runs db)) - int (length (wd_runs db')) \<and> runs_ok db' \<and> steps_ok db' \<and>
    \<not> (\<exists>r \<in> set (wd_runs db'). deletable (add_dur (in_loc (clock j) utc)
        (i64 (- i64 (i64 (hc_retention_days c * 24) * 3600000000000)))) r) \<and>
    filter (\<lambda>r. \<not> ended_status (rr_status r)) (wd_runs db') =
      filter (\<lambda>r. \<not> ended_status (rr_status r)) (wd_runs db)"
proof -
  have "0 < hc_batch_size c" using assms(1) by (auto simp: new_housekeeping_def split: if_splits)
  from runs_loop_ends [OF this assms(2,3), of clock _ 0 0] show ?thesis
    unfolding run_workflow_housekeeping_def by fastforce
qed

lemma old_runs_deleted_witness:
  "\<exists>n db'. run_workflow_housekeeping (\<lambda>_. \<lparr>ns = 10 ^ 18, loc = utc\<rparr>)
     \<lparr>hc_retention_days = 30, hc_batch_size = 100, hc_schedule = ''@daily''\<rparr>
     \<lparr>wd_runs = [], wd_steps = []\<rparr> = Some (Inr n, db') \<and> runs_ok db'"
  using old_runs_deleted [of "\<lparr>hc_retention_days = 30, hc_batch_size = 100, hc_schedule = ''@daily''\<rparr>" _
      "\<lparr>wd_runs = [], wd_steps = []\<rparr>" "\<lambda>_. \<lparr>ns = 10 ^ 18, loc = utc\<rparr>"]
  by (fastforce simp: new_housekeeping_def runs_ok_def steps_ok_def)

end
