(* ===== verification/WorkflowEngine.thy ===== *)
theory WorkflowEngine
  imports WorkflowStore
begin

text \<open>
  The engine of workflows (\<open>internal/platform/workflow\<close>): steps and the combinators that build
  them (\<open>step.go\<close>, \<open>combinators.go\<close>), and the engine that starts a run, suspends it, and resumes
  it with what the user answered (\<open>engine.go\<close>). A step acts on a state and on the world, the other
  modules it calls; the error of a step is its text. What the engine asks of its surroundings is
  the record \<open>engine_call\<close>, one per call.
\<close>

section \<open>Steps\<close>

record suspension =
  su_reason :: suspend_reason
  su_prompt :: string

record 's step_out =
  so_state :: 's
  so_status :: step_status
  so_suspend :: "suspension option"

record retry_policy =
  rp_max_attempts :: int
  rp_base_backoff :: int
  rp_max_backoff :: int

type_synonym ('s, 'w) step_fn = "'s \<Rightarrow> 'w \<Rightarrow> ('s step_out \<times> string option) \<times> 'w"

datatype ('s, 'w) step =
    StepFunc string "('s, 'w) step_fn"
  | SequenceStep string "('s, 'w) step list"
  | BranchStep string "'s \<Rightarrow> string" "(string \<times> ('s, 'w) step) list"
  | RetryStep "('s, 'w) step" retry_policy

fun step_id :: "('s, 'w) step \<Rightarrow> string" where
  "step_id (StepFunc i f) = i"
| "step_id (SequenceStep i steps) = i"
| "step_id (BranchStep i decide routes) = i"
| "step_id (RetryStep s p) = step_id s"

text \<open>The output that carries a state and nothing else, beside an error.\<close>

definition bare_out :: "'s \<Rightarrow> 's step_out" where
  "bare_out s = \<lparr>so_state = s, so_status = StepZero, so_suspend = None\<rparr>"

fun sequence_loop :: "(string \<times> ('s, 'w) step_fn) list \<Rightarrow> ('s, 'w) step_fn" where
  "sequence_loop [] current w =
     ((\<lparr>so_state = current, so_status = StepCompleted, so_suspend = None\<rparr>, None), w)"
| "sequence_loop ((i, f) # fs) current w =
     (case f current w of
        ((out, Some err), w1) \<Rightarrow> ((bare_out current, Some (i @ '': '' @ err)), w1)
      | ((out, None), w1) \<Rightarrow>
          if so_status out = StepSuspended then ((out, None), w1)
          else if so_status out = StepFailed then
            ((\<lparr>so_state = so_state out, so_status = StepFailed, so_suspend = None\<rparr>, None), w1)
          else sequence_loop fs (so_state out) w1)"

text \<open>
  The attempts that are left count down; between two of them the context may be done, with the text
  of its error, before the time of the backoff is over.
\<close>

fun retry_loop ::
  "(nat \<Rightarrow> string option) \<Rightarrow> int \<Rightarrow> ('s, 'w) step_fn \<Rightarrow> nat \<Rightarrow> string \<Rightarrow> ('s, 'w) step_fn" where
  "retry_loop is_done m f 0 last_err s w =
     ((bare_out s, Some (''retry exhausted after '' @ format_int m @ '' attempts: '' @ last_err)), w)"
| "retry_loop is_done m f (Suc left) last_err s w =
     (case f s w of
        ((out, None), w1) \<Rightarrow> ((out, None), w1)
      | ((out, Some err), w1) \<Rightarrow>
          (case (left, is_done (nat m - left)) of
             (Suc _, Some ctx_err) \<Rightarrow> ((bare_out s, Some ctx_err), w1)
           | _ \<Rightarrow> retry_loop is_done m f left err s w1))"

record exec_ctx =
  ec_done :: "string \<Rightarrow> nat \<Rightarrow> string option"
  ec_quote :: "string \<Rightarrow> string"

fun exec :: "exec_ctx \<Rightarrow> ('s, 'w) step \<Rightarrow> ('s, 'w) step_fn" where
  "exec c (StepFunc i f) = f"
| "exec c (SequenceStep i steps) = sequence_loop (map (\<lambda>s. (step_id s, exec c s)) steps)"
| "exec c (BranchStep i decide routes) =
     (\<lambda>s w. case map_of (map (\<lambda>(k, x). (k, (step_id x, exec c x))) routes) (decide s) of
        None \<Rightarrow> ((bare_out s, Some (''branch '' @ i @ '': no route for key '' @ ec_quote c (decide s))), w)
      | Some (j, f) \<Rightarrow>
          (case f s w of
             ((out, Some err), w1) \<Rightarrow> ((bare_out s, Some (j @ '': '' @ err)), w1)
           | r \<Rightarrow> r))"
| "exec c (RetryStep x p) =
     retry_loop (ec_done c (step_id x)) (rp_max_attempts p) (exec c x) (nat (rp_max_attempts p)) ''''"

definition retry :: "('s, 'w) step \<Rightarrow> retry_policy \<Rightarrow> ('s, 'w) step" where
  "retry s p =
     (let m = (if rp_max_attempts p \<le> 0 then 1 else rp_max_attempts p);
          b = (if rp_base_backoff p \<le> 0 then 1000000 else rp_base_backoff p);
          x = (if rp_max_backoff p \<le> 0 \<or> rp_max_backoff p < b then b else rp_max_backoff p)
      in RetryStep s \<lparr>rp_max_attempts = m, rp_base_backoff = b, rp_max_backoff = x\<rparr>)"

text \<open>The wait before attempt \<open>n + 1\<close>; \<open>jitter b\<close> is drawn from 0 up to and without \<open>b\<close>.\<close>

fun backoff_doubled :: "nat \<Rightarrow> int \<Rightarrow> int \<Rightarrow> int" where
  "backoff_doubled 0 cap b = b"
| "backoff_doubled (Suc n) cap b =
     (let b2 = i64 (b * 2) in if cap < b2 then cap else backoff_doubled n cap b2)"

definition retry_backoff :: "retry_policy \<Rightarrow> (int \<Rightarrow> int) \<Rightarrow> nat \<Rightarrow> int" where
  "retry_backoff p jitter attempt =
     (let b = backoff_doubled (attempt - 1) (rp_max_backoff p) (rp_base_backoff p);
          half = b sdiv 2; d = i64 (half + jitter (i64 (half + 1)))
      in if rp_max_backoff p < d then rp_max_backoff p else d)"

section \<open>The engine\<close>

record ('s, 'w) wf_definition =
  df_id :: string
  df_root :: "('s, 'w) step"
  df_durable :: bool
  df_max_attempts :: int

record 's run_result =
  ru_run_id :: uuid
  ru_status :: run_status
  ru_state :: 's
  ru_suspend :: "suspension option"

text \<open>
  \<open>ec_zero\<close>, \<open>ec_encode\<close> and \<open>ec_decode\<close> are the zero value and the JSON form of the type of the
  state; the clock is read once; \<open>ec_text\<close> is the text of an error that comes from the store.
\<close>

record 's engine_call =
  ec_zero :: 's
  ec_encode :: "'s \<Rightarrow> json option"
  ec_decode :: "json \<Rightarrow> 's option"
  ec_float :: "rat \<Rightarrow> rat option"
  ec_now :: gotime
  ec_run_id :: uuid
  ec_record_id :: "nat \<Rightarrow> uuid"
  ec_duration :: "nat \<Rightarrow> int"
  ec_text :: "wf_error \<Rightarrow> string"
  ec_ctx :: exec_ctx

definition zero_result :: "'s engine_call \<Rightarrow> 's run_result" where
  "zero_result ca = \<lparr>ru_run_id = uuid_nil, ru_status = RunZero, ru_state = ec_zero ca, ru_suspend = None\<rparr>"

definition error_text :: "'s engine_call \<Rightarrow> wf_error \<Rightarrow> string" where
  "error_text ca e = (case e of ErrStep s \<Rightarrow> s | _ \<Rightarrow> ec_text ca e)"

definition run_step ::
  "'s engine_call \<Rightarrow> ('s, 'w) wf_definition \<Rightarrow> snapshot \<Rightarrow> ('s, 'w) step \<Rightarrow> 's \<Rightarrow> nat \<Rightarrow> wf_db \<Rightarrow> 'w \<Rightarrow>
   ('s step_out \<times> wf_error option) \<times> wf_db \<times> 'w" where
  "run_step ca df snap step state i db w =
     (case exec (ec_ctx ca) step state w of
        ((out, err), w1) \<Rightarrow>
          (let status = (if err \<noteq> None then StepFailed
                         else if so_status out \<noteq> StepZero then so_status out else StepCompleted);
               now = in_loc (ec_now ca) utc
           in if \<not> df_durable df then ((out, map_option ErrStep err), db, w1)
              else
                (case append_step
                   \<lparr>sr_id = ec_record_id ca i, sr_run_id = sn_run_id snap, sr_step_id = step_id step,
                    sr_seq = i, sr_status = status, sr_attempt = i64 (sn_attempts snap + 1),
                    sr_duration_ms = ec_duration ca i,
                    sr_error = (case err of None \<Rightarrow> '''' | Some e \<Rightarrow> e),
                    sr_started_at = now, sr_ended_at = Some now\<rparr> db of
                   Inl e \<Rightarrow> ((bare_out (ec_zero ca), Some e), db, w1)
                 | Inr db1 \<Rightarrow> ((out, map_option ErrStep err), db1, w1))))"

text \<open>The statement counts the version up itself; the version of the snapshot is not written.\<close>

definition save_snap :: "snapshot \<Rightarrow> wf_db \<Rightarrow> wf_error + wf_db" where
  "save_snap snap db = save_run (snap\<lparr>sn_version := sn_version snap + 1\<rparr>) (sn_version snap) db"

definition resolve_conflict_or_fail ::
  "'s engine_call \<Rightarrow> ('s, 'w) wf_definition \<Rightarrow> snapshot \<Rightarrow> wf_error \<Rightarrow> wf_db \<Rightarrow>
   's run_result \<times> wf_error option" where
  "resolve_conflict_or_fail ca df snap e db =
     (if e \<noteq> ErrVersionConflict then (zero_result ca, Some e)
      else case load_run (df_id df) (sn_key snap) db of
             Inl e1 \<Rightarrow> (zero_result ca, Some e1)
           | Inr None \<Rightarrow> (zero_result ca, Some e)
           | Inr (Some latest) \<Rightarrow>
               (case ec_decode ca (state_or_empty (sn_state latest)) of
                  None \<Rightarrow> (zero_result ca, Some ErrStateDecode)
                | Some state \<Rightarrow>
                    (\<lparr>ru_run_id = sn_run_id latest, ru_status = sn_status latest, ru_state = state,
                      ru_suspend = None\<rparr>, Some ErrRunConflict)))"

definition encode_and_stamp_failed :: "'s engine_call \<Rightarrow> snapshot \<Rightarrow> 's \<Rightarrow> snapshot" where
  "encode_and_stamp_failed ca snap state =
     (let now = in_loc (ec_now ca) utc; stamped = snap\<lparr>sn_ended_at := Some now, sn_updated_at := now\<rparr>
      in case ec_encode ca state of
           None \<Rightarrow> stamped
         | Some v \<Rightarrow> stamped\<lparr>sn_state := Some v\<rparr>)"

definition finalize_failed ::
  "'s engine_call \<Rightarrow> ('s, 'w) wf_definition \<Rightarrow> snapshot \<Rightarrow> 's \<Rightarrow> string \<Rightarrow> wf_error \<Rightarrow> wf_db \<Rightarrow>
   ('s run_result \<times> wf_error option) \<times> wf_db" where
  "finalize_failed ca df snap state msg e db =
     (let failed = snap\<lparr>sn_status := RunFailed, sn_last_error := msg,
                        sn_attempts := i64 (sn_attempts snap + 1)\<rparr>;
          result = (\<lparr>ru_run_id = sn_run_id snap, ru_status = RunFailed, ru_state = state,
                     ru_suspend = None\<rparr>, Some e)
      in if \<not> df_durable df then (result, db)
         else (let failed1 = encode_and_stamp_failed ca failed state
               in case save_snap failed1 db of
                    Inl e1 \<Rightarrow> (resolve_conflict_or_fail ca df failed1 e1 db, db)
                  | Inr db1 \<Rightarrow> (result, db1)))"

definition finalize_suspended ::
  "'s engine_call \<Rightarrow> ('s, 'w) wf_definition \<Rightarrow> snapshot \<Rightarrow> nat \<Rightarrow> 's step_out \<Rightarrow> wf_db \<Rightarrow>
   ('s run_result \<times> wf_error option) \<times> wf_db" where
  "finalize_suspended ca df snap i out db =
     (let paused = snap\<lparr>sn_status := RunSuspended, sn_cursor := i,
                        sn_suspend_reason := (case so_suspend out of
                            None \<Rightarrow> sn_suspend_reason snap | Some x \<Rightarrow> su_reason x)\<rparr>;
          result = (\<lparr>ru_run_id = sn_run_id snap, ru_status = RunSuspended, ru_state = so_state out,
                     ru_suspend = so_suspend out\<rparr>, None)
      in if \<not> df_durable df then (result, db)
         else (case ec_encode ca (so_state out) of
                 None \<Rightarrow> ((zero_result ca, Some ErrStateEncode), db)
               | Some v \<Rightarrow>
                   (let paused1 = paused\<lparr>sn_state := Some v, sn_updated_at := in_loc (ec_now ca) utc\<rparr>
                    in case save_snap paused1 db of
                         Inl e1 \<Rightarrow> (resolve_conflict_or_fail ca df paused1 e1 db, db)
                       | Inr db1 \<Rightarrow> (result, db1))))"

definition finalize_succeeded ::
  "'s engine_call \<Rightarrow> ('s, 'w) wf_definition \<Rightarrow> snapshot \<Rightarrow> 's \<Rightarrow> suspension option \<Rightarrow> wf_db \<Rightarrow>
   ('s run_result \<times> wf_error option) \<times> wf_db" where
  "finalize_succeeded ca df snap state suspend db =
     (let ended = snap\<lparr>sn_status := RunSucceeded\<rparr>; now = in_loc (ec_now ca) utc;
          result = (\<lparr>ru_run_id = sn_run_id snap, ru_status = RunSucceeded, ru_state = state,
                     ru_suspend = suspend\<rparr>, None)
      in if \<not> df_durable df then (result, db)
         else (case ec_encode ca state of
                 None \<Rightarrow> ((zero_result ca, Some ErrStateEncode), db)
               | Some v \<Rightarrow>
                   (let ended1 = ended\<lparr>sn_ended_at := Some now, sn_updated_at := now, sn_state := Some v\<rparr>
                    in case save_snap ended1 db of
                         Inl e1 \<Rightarrow> (resolve_conflict_or_fail ca df ended1 e1 db, db)
                       | Inr db1 \<Rightarrow> (result, db1))))"

text \<open>
  A root that is a sequence is run step by step from the cursor, so that a suspended run continues
  at the step that suspended it.
\<close>

fun run_steps ::
  "'s engine_call \<Rightarrow> ('s, 'w) wf_definition \<Rightarrow> snapshot \<Rightarrow> nat \<Rightarrow> ('s, 'w) step list \<Rightarrow> 's \<Rightarrow>
   suspension option \<Rightarrow> wf_db \<Rightarrow> 'w \<Rightarrow> ('s run_result \<times> wf_error option) \<times> wf_db \<times> 'w" where
  "run_steps ca df snap i [] current suspend db w =
     (case finalize_succeeded ca df snap current suspend db of (r, db1) \<Rightarrow> (r, db1, w))"
| "run_steps ca df snap i (step # steps) current suspend db w =
     (case run_step ca df snap step current i db w of
        ((out, Some e), db1, w1) \<Rightarrow>
          (case finalize_failed ca df snap (if so_status out = StepFailed then so_state out else current)
                  (error_text ca e) e db1 of
             (r, db2) \<Rightarrow> (r, db2, w1))
      | ((out, None), db1, w1) \<Rightarrow>
          if so_status out = StepSuspended then
            (case finalize_suspended ca df snap i out db1 of (r, db2) \<Rightarrow> (r, db2, w1))
          else if so_status out = StepFailed then
            (case finalize_failed ca df snap (so_state out)
                    (''step '' @ step_id step @ '' returned failed'') (ErrStepFailed (step_id step)) db1 of
               (r, db2) \<Rightarrow> (r, db2, w1))
          else run_steps ca df snap (Suc i) steps (so_state out) (so_suspend out) db1 w1)"

definition execute_step ::
  "'s engine_call \<Rightarrow> ('s, 'w) wf_definition \<Rightarrow> snapshot \<Rightarrow> ('s, 'w) step \<Rightarrow> 's \<Rightarrow> nat \<Rightarrow> wf_db \<Rightarrow> 'w \<Rightarrow>
   ('s run_result \<times> wf_error option) \<times> wf_db \<times> 'w" where
  "execute_step ca df snap step state i db w =
     (case run_step ca df snap step state i db w of
        ((out, Some e), db1, w1) \<Rightarrow>
          (case finalize_failed ca df snap (if so_status out = StepFailed then so_state out else state)
                  (error_text ca e) e db1 of
             (r, db2) \<Rightarrow> (r, db2, w1))
      | ((out, None), db1, w1) \<Rightarrow>
          (case (if so_status out = StepSuspended then finalize_suspended ca df snap i out db1
                 else finalize_succeeded ca df snap (so_state out) (so_suspend out) db1) of
             (r, db2) \<Rightarrow> (r, db2, w1)))"

definition execute_run ::
  "'s engine_call \<Rightarrow> ('s, 'w) wf_definition \<Rightarrow> snapshot \<Rightarrow> 's \<Rightarrow> nat \<Rightarrow> wf_db \<Rightarrow> 'w \<Rightarrow>
   ('s run_result \<times> wf_error option) \<times> wf_db \<times> 'w" where
  "execute_run ca df snap state cursor db w =
     (case df_root df of
        SequenceStep _ steps \<Rightarrow> run_steps ca df snap cursor (drop cursor steps) state None db w
      | single \<Rightarrow> execute_step ca df snap single state 0 db w)"

definition new_snapshot :: "'s engine_call \<Rightarrow> ('s, 'w) wf_definition \<Rightarrow> string \<Rightarrow> snapshot" where
  "new_snapshot ca df k =
     \<lparr>sn_run_id = ec_run_id ca, sn_workflow = df_id df, sn_key = k, sn_status = RunRunning,
      sn_suspend_reason = ReasonZero, sn_cursor = 0, sn_state = None, sn_attempts = 0,
      sn_max_attempts = (if df_max_attempts df \<le> 0 then 1 else df_max_attempts df), sn_version = 1,
      sn_last_error = '''', sn_created_at = in_loc (ec_now ca) utc,
      sn_updated_at = in_loc (ec_now ca) utc, sn_ended_at = None\<rparr>"

text \<open>
  The insertion can still meet an active run, of someone who started one after the check: that run
  is carried on instead, from its cursor.
\<close>

definition resume_on_conflict ::
  "'s engine_call \<Rightarrow> ('s, 'w) wf_definition \<Rightarrow> string \<Rightarrow> wf_db \<Rightarrow> 'w \<Rightarrow>
   ('s run_result \<times> wf_error option) \<times> wf_db \<times> 'w" where
  "resume_on_conflict ca df k db w =
     (case load_run (df_id df) k db of
        Inl e \<Rightarrow> ((zero_result ca, Some e), db, w)
      | Inr None \<Rightarrow> ((zero_result ca, Some ErrRunAlreadyExists), db, w)
      | Inr (Some existing) \<Rightarrow>
          (case ec_decode ca (state_or_empty (sn_state existing)) of
             None \<Rightarrow> ((zero_result ca, Some ErrStateDecode), db, w)
           | Some current \<Rightarrow>
               (case execute_run ca df existing current (sn_cursor existing) db w of
                  ((r, e), db1, w1) \<Rightarrow> ((r, if e = Some ErrRunConflict then None else e), db1, w1))))"

definition engine_start ::
  "'s engine_call \<Rightarrow> ('s, 'w) wf_definition \<Rightarrow> string \<Rightarrow> 's \<Rightarrow> wf_db \<Rightarrow> 'w \<Rightarrow>
   ('s run_result \<times> wf_error option) \<times> wf_db \<times> 'w" where
  "engine_start ca df k initial db w =
     (let snap = new_snapshot ca df k
      in if \<not> df_durable df then execute_run ca df snap initial 0 db w
         else (case ec_encode ca initial of
                 None \<Rightarrow> ((zero_result ca, Some ErrStateEncode), db, w)
               | Some v \<Rightarrow>
                   (case load_run (df_id df) k db of
                      Inl e \<Rightarrow> ((zero_result ca, Some e), db, w)
                    | Inr (Some _) \<Rightarrow> ((zero_result ca, Some ErrRunAlreadyExists), db, w)
                    | Inr None \<Rightarrow>
                        (case insert_run (snap\<lparr>sn_state := Some v\<rparr>) db of
                           Inl e \<Rightarrow>
                             if e = ErrRunAlreadyExists then resume_on_conflict ca df k db w
                             else ((zero_result ca, Some e), db, w)
                         | Inr db1 \<Rightarrow> execute_run ca df (snap\<lparr>sn_state := Some v\<rparr>) initial 0 db1 w))))"

text \<open>An answer is absent, or bytes that parse to a JSON value, or bytes that do not.\<close>

definition engine_resume ::
  "'s engine_call \<Rightarrow> ('s, 'w) wf_definition \<Rightarrow> string \<Rightarrow> json option option \<Rightarrow> wf_db \<Rightarrow> 'w \<Rightarrow>
   ('s run_result \<times> wf_error option) \<times> wf_db \<times> 'w" where
  "engine_resume ca df k answer db w =
     (if \<not> df_durable df then ((zero_result ca, None), db, w)
      else case load_run (df_id df) k db of
             Inl e \<Rightarrow> ((zero_result ca, Some e), db, w)
           | Inr None \<Rightarrow> ((zero_result ca, None), db, w)
           | Inr (Some snap) \<Rightarrow>
               if sn_status snap \<noteq> RunSuspended then ((zero_result ca, None), db, w)
               else (case ec_decode ca (state_or_empty (sn_state snap)) of
                       None \<Rightarrow> ((zero_result ca, Some ErrStateDecode), db, w)
                     | Some current \<Rightarrow>
                         (case answer of
                            None \<Rightarrow> execute_run ca df snap current (sn_cursor snap) db w
                          | Some None \<Rightarrow> ((zero_result ca, Some ErrResumeMerge), db, w)
                          | Some (Some patch) \<Rightarrow>
                              (case merge_patch (ec_float ca) (state_or_empty (sn_state snap)) patch of
                                 None \<Rightarrow> ((zero_result ca, Some ErrResumeMerge), db, w)
                               | Some merged \<Rightarrow>
                                   (case ec_decode ca merged of
                                      None \<Rightarrow> ((zero_result ca, Some ErrStateDecode), db, w)
                                    | Some current1 \<Rightarrow>
                                        execute_run ca df snap current1 (sn_cursor snap) db w)))))"

definition load_latest_state ::
  "'s engine_call \<Rightarrow> ('s, 'w) wf_definition \<Rightarrow> string \<Rightarrow> wf_db \<Rightarrow>
   wf_error + ('s \<times> snapshot) option" where
  "load_latest_state ca df k db =
     (if \<not> df_durable df then Inr None
      else case load_latest (df_id df) k db of
             Inl e \<Rightarrow> Inl e
           | Inr None \<Rightarrow> Inr None
           | Inr (Some snap) \<Rightarrow>
               (case ec_decode ca (state_or_empty (sn_state snap)) of
                  None \<Rightarrow> Inl ErrStateDecode
                | Some state \<Rightarrow> Inr (Some (state, snap))))"

section \<open>Steps side by side\<close>

text \<open>
  What \<open>Parallel\<close> makes of the results of its workers, in the order of the steps, whatever the order
  in which they ran: the errors, else the first that suspends, else the first that failed, else the
  merged states. A worker that panics has the error of its step.
\<close>

definition parallel_outcome ::
  "('s \<Rightarrow> 's list \<Rightarrow> 's) \<Rightarrow> 's \<Rightarrow> (string + 's step_out) list \<Rightarrow> 's step_out \<times> string list" where
  "parallel_outcome merge state results =
     (let errs = [e. Inl e \<leftarrow> results]; outs = [x. Inr x \<leftarrow> results]
      in if errs \<noteq> [] then (bare_out state, errs)
         else case (filter (\<lambda>x. so_status x = StepSuspended) outs,
                    filter (\<lambda>x. so_status x = StepFailed) outs) of
                (x # _, _) \<Rightarrow> (x, [])
              | ([], x # _) \<Rightarrow>
                  (\<lparr>so_state = so_state x, so_status = StepFailed, so_suspend = None\<rparr>, [])
              | ([], []) \<Rightarrow>
                  (\<lparr>so_state = merge state (map so_state outs), so_status = StepCompleted,
                    so_suspend = None\<rparr>, []))"

section \<open>Several processes on one store\<close>

text \<open>
  The tables together with what the processes hold: the snapshots some process has inserted, or has
  read to carry on or to reap, and may still save at any later time; the keys for which a start has
  passed its check; and the identifiers of all runs ever inserted, none of which is drawn twice. A
  save writes what it likes except the identity of the run, and the time of the end exactly for an
  end. A process may stop between any two statements, and what it held is gone.
\<close>

record wf_state =
  ws_db :: wf_db
  ws_held :: "snapshot set"
  ws_starting :: "(string \<times> string) set"
  ws_ids :: "uuid set"

definition settles :: "snapshot \<Rightarrow> snapshot \<Rightarrow> bool" where
  "settles snap nx \<longleftrightarrow>
     sn_run_id nx = sn_run_id snap \<and> sn_workflow nx = sn_workflow snap \<and> sn_key nx = sn_key snap \<and>
     (sn_status nx = RunSuspended \<and> sn_ended_at nx = sn_ended_at snap \<or>
      sn_status nx \<in> {RunSucceeded, RunFailed} \<and> nullable_time (sn_ended_at nx) \<noteq> None)"

inductive wf_step :: "wf_state \<Rightarrow> wf_state \<Rightarrow> bool" where
  check: "load_run w k (ws_db s) = Inr None \<Longrightarrow>
    wf_step s (s\<lparr>ws_starting := insert (w, k) (ws_starting s)\<rparr>)"
| insert: "(sn_workflow snap, sn_key snap) \<in> ws_starting s \<Longrightarrow> sn_run_id snap \<notin> ws_ids s \<Longrightarrow>
    sn_status snap = RunRunning \<Longrightarrow> sn_ended_at snap = None \<Longrightarrow> insert_run snap (ws_db s) = Inr db \<Longrightarrow>
    wf_step s (s\<lparr>ws_db := db, ws_held := insert snap (ws_held s), ws_ids := insert (sn_run_id snap) (ws_ids s)\<rparr>)"
| clash: "(w, k) \<in> ws_starting s \<Longrightarrow> load_run w k (ws_db s) = Inr (Some snap) \<Longrightarrow>
    wf_step s (s\<lparr>ws_held := insert snap (ws_held s)\<rparr>)"
| resume: "load_run w k (ws_db s) = Inr (Some snap) \<Longrightarrow> sn_status snap = RunSuspended \<Longrightarrow>
    wf_step s (s\<lparr>ws_held := insert snap (ws_held s)\<rparr>)"
| list: "list_suspended w cutoff limit (ws_db s) = Inr snaps \<Longrightarrow>
    wf_step s (s\<lparr>ws_held := ws_held s \<union> set snaps\<rparr>)"
| append: "snap \<in> ws_held s \<Longrightarrow> sr_run_id x = sn_run_id snap \<Longrightarrow> append_step x (ws_db s) = Inr db \<Longrightarrow>
    wf_step s (s\<lparr>ws_db := db\<rparr>)"
| save: "snap \<in> ws_held s \<Longrightarrow> settles snap nx \<Longrightarrow> save_run nx (sn_version snap) (ws_db s) = Inr db \<Longrightarrow>
    wf_step s (s\<lparr>ws_db := db\<rparr>)"
| clean: "delete_completed now retention limit (ws_db s) = Inr (n, db) \<Longrightarrow> wf_step s (s\<lparr>ws_db := db\<rparr>)"
| stop: "held \<subseteq> ws_held s \<Longrightarrow> starting \<subseteq> ws_starting s \<Longrightarrow>
    wf_step s (s\<lparr>ws_held := held, ws_starting := starting\<rparr>)"

inductive_cases wf_stepE: "wf_step s t"

abbreviation no_runs :: wf_state where
  "no_runs \<equiv> \<lparr>ws_db = \<lparr>wd_runs = [], wd_steps = []\<rparr>, ws_held = {}, ws_starting = {}, ws_ids = {}\<rparr>"

definition held_ok :: "wf_db \<Rightarrow> snapshot \<Rightarrow> bool" where
  "held_ok db snap \<longleftrightarrow>
     sn_status snap \<in> {RunRunning, RunSuspended} \<and> sn_ended_at snap = None \<and>
     (\<forall>r \<in> set (wd_runs db). rr_id r = sn_run_id snap \<longrightarrow>
        sn_version snap \<le> rr_version r \<and> (sn_version snap = rr_version r \<longrightarrow> active_status (rr_status r)))"

definition wf_ok :: "wf_state \<Rightarrow> bool" where
  "wf_ok s \<longleftrightarrow>
     runs_ok (ws_db s) \<and> steps_ok (ws_db s) \<and> (\<forall>snap \<in> ws_held s. held_ok (ws_db s) snap) \<and>
     rr_id ` set (wd_runs (ws_db s)) \<subseteq> ws_ids s \<and> sn_run_id ` ws_held s \<subseteq> ws_ids s"

lemma wf_okD:
  assumes "wf_ok s"
  shows "runs_ok (ws_db s)" "steps_ok (ws_db s)" "snap \<in> ws_held s \<Longrightarrow> held_ok (ws_db s) snap"
    "rr_id ` set (wd_runs (ws_db s)) \<subseteq> ws_ids s" "sn_run_id ` ws_held s \<subseteq> ws_ids s"
  using assms by (simp_all add: wf_ok_def)

text \<open>A row that is read as active is held rightly.\<close>

lemma held_ok_read:
  assumes "runs_ok db" "r \<in> set (wd_runs db)" "scan_snapshot r = Inr snap" "active_status (rr_status r)"
  shows "held_ok db snap \<and> sn_run_id snap \<in> rr_id ` set (wd_runs db)"
proof -
  note s = scan_snapshotE [OF assms(3)]
  have "sn_status snap \<in> {RunRunning, RunSuspended}"
    using s assms(4) status_texts(1) [of "sn_status snap"] by simp
  moreover have "sn_ended_at snap = None" using s runs_okD(3) [OF assms(1,2)] assms(4) by simp
  moreover have "x = r" if "x \<in> set (wd_runs db)" "rr_id x = sn_run_id snap" for x
    using run_by_id [OF runs_okD(1) [OF assms(1)] that(1) assms(2)] that(2) s by simp
  moreover have "sn_version snap \<le> rr_version x \<and> (sn_version snap = rr_version x \<longrightarrow> active_status (rr_status x))"
    if "x \<in> set (wd_runs db)" "rr_id x = sn_run_id snap" for x
    using \<open>\<And>x. x \<in> set (wd_runs db) \<Longrightarrow> rr_id x = sn_run_id snap \<Longrightarrow> x = r\<close> [OF that] s assms(4) by simp
  ultimately have "held_ok db snap" unfolding held_ok_def by blast
  then show ?thesis using s assms(2) by simp
qed

lemma held_ok_load:
  assumes "runs_ok db" "load_run w k db = Inr (Some snap)"
  shows "held_ok db snap \<and> sn_run_id snap \<in> rr_id ` set (wd_runs db)"
proof -
  obtain r where "r \<in> set (wd_runs db)" "active_row w k r" "scan_snapshot r = Inr snap"
    by (rule load_runE [OF assms(2)])
  then show ?thesis using held_ok_read [OF assms(1)] by (simp add: active_row_def)
qed

lemma list_suspended_in:
  assumes "list_suspended w cutoff limit db = Inr snaps" "snap \<in> set snaps"
  shows "\<exists>r \<in> set (wd_runs db). rr_status r = ''suspended'' \<and> scan_snapshot r = Inr snap"
proof -
  let ?rows = "take (nat limit) (sort_key (\<lambda>r. ns (rr_updated_at r))
        (filter (\<lambda>r. rr_workflow r = w \<and> rr_status r = ''suspended'' \<and> before (rr_updated_at r) cutoff)
          (wd_runs db)))"
  have "scan_all ?rows = Inr snaps" using assms(1) by (simp add: list_suspended_def split: if_splits)
  moreover have "r \<in> set (wd_runs db) \<and> rr_status r = ''suspended''" if "r \<in> set ?rows" for r
    using in_set_takeD [OF that] by simp
  ultimately show ?thesis using scan_allE assms(2) by blast
qed

lemma held_ok_list:
  assumes "runs_ok db" "list_suspended w cutoff limit db = Inr snaps" "snap \<in> set snaps"
  shows "held_ok db snap \<and> sn_run_id snap \<in> rr_id ` set (wd_runs db)"
proof -
  obtain r where "r \<in> set (wd_runs db)" "rr_status r = ''suspended''" "scan_snapshot r = Inr snap"
    using list_suspended_in [OF assms(2,3)] by blast
  then show ?thesis using held_ok_read [OF assms(1)] by (simp add: active_status_def)
qed

text \<open>A save makes every snapshot of its run stale.\<close>

lemma held_ok_save:
  assumes "save_run nx v db = Inr db'" "runs_ok db" "held_ok db snap"
  shows "held_ok db' snap"
proof -
  obtain r where runs: "wd_runs db' = map (\<lambda>x. if rr_id x = sn_run_id nx then saved_row nx x else x) (wd_runs db)"
    by (rule save_runE [OF assms(1) runs_okD(1) [OF assms(2)]]) blast
  then show ?thesis using assms(3) unfolding held_ok_def runs by fastforce
qed

lemma wf_step_ok:
  assumes "wf_step s t" "wf_ok s"
  shows "wf_ok t"
  using assms(1)
proof (cases rule: wf_step.cases)
  case (insert snap db)
  have sub: "runs_ok db" "wd_runs db = wd_runs (ws_db s) @ [row_of_snapshot snap]" "wd_steps db = wd_steps (ws_db s)"
    using insert_run_ok [OF insert(6) wf_okD(1) [OF assms(2)]] insert(4,5)
    by (simp_all add: row_of_snapshot_def nullable_time_def)
  have fields: "rr_id (row_of_snapshot snap) = sn_run_id snap" "rr_version (row_of_snapshot snap) = sn_version snap"
    "rr_status (row_of_snapshot snap) = ''running''"
    using insert(4) by (simp_all add: row_of_snapshot_def run_status_string_def)
  have "held_ok db x" if "x \<in> ws_held s" for x
    using wf_okD(3) [OF assms(2) that] wf_okD(5) [OF assms(2)] that insert(3)
    by (auto simp: held_ok_def sub fields)
  moreover have "held_ok db snap"
    using insert(3-5) wf_okD(4) [OF assms(2)] by (auto simp: held_ok_def sub fields active_status_def)
  moreover have "steps_ok db" using wf_okD(2) [OF assms(2)] by (auto simp: steps_ok_def sub)
  ultimately show ?thesis
    using wf_okD(4,5) [OF assms(2)] sub(1) by (auto simp: insert(1) wf_ok_def sub(2) fields)
next
  case (clash w k snap)
  then show ?thesis
    using held_ok_load [OF wf_okD(1) [OF assms(2)] clash(3)] assms(2) by (auto simp: wf_ok_def)
next
  case (resume w k snap)
  then show ?thesis
    using held_ok_load [OF wf_okD(1) [OF assms(2)] resume(2)] assms(2) by (auto simp: wf_ok_def)
next
  case (list w cutoff limit snaps)
  have "held_ok (ws_db s) x \<and> sn_run_id x \<in> ws_ids s" if "x \<in> set snaps" for x
    using held_ok_list [OF wf_okD(1) [OF assms(2)] list(2) that] wf_okD(4) [OF assms(2)] by blast
  then show ?thesis using assms(2) by (auto simp: list(1) wf_ok_def)
next
  case (append snap x db)
  note r = append_step_ok [OF append(4) wf_okD(2) [OF assms(2)]]
  then show ?thesis using assms(2) by (auto simp: append(1) wf_ok_def runs_ok_def held_ok_def)
next
  case (save snap nx db)
  note ok = wf_okD [OF assms(2)]
  obtain r where runs: "wd_runs db = map (\<lambda>x. if rr_id x = sn_run_id nx then saved_row nx x else x) (wd_runs (ws_db s))"
    and steps: "wd_steps db = wd_steps (ws_db s)"
    by (rule save_runE [OF save(4) runs_okD(1) [OF ok(1)]]) blast
  have "map rr_id (wd_runs db) = map rr_id (wd_runs (ws_db s))" by (simp add: runs)
  then have ids: "rr_id ` set (wd_runs db) = rr_id ` set (wd_runs (ws_db s))" by (metis set_map)
  have "nullable_time (sn_ended_at nx) = None \<longleftrightarrow> sn_status nx = RunRunning \<or> sn_status nx = RunSuspended"
    using save(3) ok(3) [OF save(2)] by (auto simp: settles_def held_ok_def nullable_time_def)
  then have "runs_ok db" by (rule save_run_ok [OF save(4) ok(1)])
  moreover have "held_ok db x" if "x \<in> ws_held s" for x using held_ok_save [OF save(4) ok(1) ok(3) [OF that]] .
  moreover have "steps_ok db" using ok(2) by (simp add: steps_ok_def steps ids)
  ultimately show ?thesis using ok(4,5) by (simp add: save(1) wf_ok_def ids)
next
  case (clean now retention limit n db)
  note ok = wf_okD [OF assms(2)]
  have sub: "set (wd_runs db) \<subseteq> set (wd_runs (ws_db s))"
    by (rule delete_completedE [OF clean(2)]) auto
  then have "held_ok db x" if "x \<in> ws_held s" for x using ok(3) [OF that] by (auto simp: held_ok_def)
  moreover have "rr_id ` set (wd_runs db) \<subseteq> ws_ids s" using sub ok(4) by blast
  ultimately show ?thesis
    using ok(5) delete_completed_ok(1,2) [OF clean(2)] ok(1,2) by (auto simp: clean(1) wf_ok_def)
next
  case (stop held starting)
  then show ?thesis using assms(2) by (simp add: wf_ok_def) blast
qed (use assms(2) in \<open>auto simp: wf_ok_def\<close>)

inductive wf_steps :: "wf_state \<Rightarrow> wf_state \<Rightarrow> bool" where
  here: "wf_steps s s"
| more: "wf_steps s t \<Longrightarrow> wf_step t u \<Longrightarrow> wf_steps s u"

lemma wf_steps_ok: "wf_steps s t \<Longrightarrow> wf_ok s \<Longrightarrow> wf_ok t"
  by (induction rule: wf_steps.induct) (auto intro: wf_step_ok)

lemma no_runs_ok: "wf_ok no_runs"
  by (simp add: wf_ok_def runs_ok_def steps_ok_def)

text \<open>
  C35: Whatever processes start, resume, record, save, reap and clean, and wherever they stop: a key
  of a workflow has at most one run that is running or suspended, a run has an end exactly when it
  succeeded or failed, every recorded step belongs to a run and no attempt is recorded twice.
\<close>

theorem reachable_runs:
  assumes "wf_steps no_runs s"
  shows "runs_ok (ws_db s) \<and> steps_ok (ws_db s)"
  using wf_okD(1,2) [OF wf_steps_ok [OF assms no_runs_ok]] by simp

section \<open>An end is an end\<close>

text \<open>What the row of a run can become in one step: itself, gone, or a save by a holder of its version.\<close>

lemma wf_step_row:
  assumes "wf_step s t" "wf_ok s" "r \<in> set (wd_runs (ws_db s))"
  shows "r \<in> set (wd_runs (ws_db t)) \<or> rr_id r \<notin> rr_id ` set (wd_runs (ws_db t)) \<and> ended_status (rr_status r) \<or>
    (\<exists>snap \<in> ws_held s. \<exists>nx. sn_run_id snap = rr_id r \<and> sn_version snap = rr_version r \<and>
       saved_row nx r \<in> set (wd_runs (ws_db t)))"
  using assms(1)
proof (cases rule: wf_step.cases)
  case (insert snap db)
  then show ?thesis
    using insert_run_ok [OF insert(6) wf_okD(1) [OF assms(2)]] assms(3)
    by (simp add: row_of_snapshot_def nullable_time_def)
next
  case (append snap x db)
  then show ?thesis using append_step_ok [OF append(4) wf_okD(2) [OF assms(2)]] assms(3) by simp
next
  case (save snap nx db)
  obtain x where x: "x \<in> set (wd_runs (ws_db s))" "rr_id x = sn_run_id nx" "rr_version x = sn_version snap"
    and runs: "wd_runs db = map (\<lambda>x. if rr_id x = sn_run_id nx then saved_row nx x else x) (wd_runs (ws_db s))"
    by (rule save_runE [OF save(4) runs_okD(1) [OF wf_okD(1) [OF assms(2)]]]) blast
  show ?thesis
  proof (cases "rr_id r = sn_run_id nx")
    case True
    then have "x = r" using run_by_id [OF runs_okD(1) [OF wf_okD(1) [OF assms(2)]] x(1) assms(3)] x(2) by simp
    moreover have "saved_row nx r \<in> set (wd_runs db)" using True assms(3) by (force simp: runs)
    ultimately show ?thesis using save x(2,3) by (auto simp: settles_def)
  next
    case False
    then have "r \<in> set (wd_runs db)" using assms(3) by (force simp: runs)
    then show ?thesis by (simp add: save(1))
  qed
next
  case (clean now retention limit n db)
  obtain ids where runs: "wd_runs db = filter (\<lambda>r. rr_id r \<notin> set ids) (wd_runs (ws_db s))"
    by (rule delete_completedE [OF clean(2)]) blast
  show ?thesis
    using delete_completed_ok(3) [OF clean(2) wf_okD(1) [OF assms(2)] assms(3)] assms(3) runs
    by (auto simp: clean(1))
qed (use assms(3) in simp_all)

text \<open>No row takes the identifier of another, nor an identifier that was deleted.\<close>

lemma wf_step_ids:
  assumes "wf_step s t" "wf_ok s" "i \<in> ws_ids s"
  shows "i \<in> ws_ids t \<and> (i \<notin> rr_id ` set (wd_runs (ws_db s)) \<longrightarrow> i \<notin> rr_id ` set (wd_runs (ws_db t)))"
  using assms(1)
proof (cases rule: wf_step.cases)
  case (insert snap db)
  then show ?thesis
    using insert_run_ok [OF insert(6) wf_okD(1) [OF assms(2)]] assms(3)
    by (auto simp: row_of_snapshot_def nullable_time_def)
next
  case (append snap x db)
  then show ?thesis using append_step_ok [OF append(4) wf_okD(2) [OF assms(2)]] assms(3) by simp
next
  case (save snap nx db)
  obtain x where runs: "wd_runs db = map (\<lambda>x. if rr_id x = sn_run_id nx then saved_row nx x else x) (wd_runs (ws_db s))"
    by (rule save_runE [OF save(4) runs_okD(1) [OF wf_okD(1) [OF assms(2)]]]) blast
  have "map rr_id (wd_runs db) = map rr_id (wd_runs (ws_db s))" by (simp add: runs)
  then have "rr_id ` set (wd_runs db) = rr_id ` set (wd_runs (ws_db s))" by (metis set_map)
  then show ?thesis using assms(3) by (simp add: save(1))
next
  case (clean now retention limit n db)
  have "set (wd_runs db) \<subseteq> set (wd_runs (ws_db s))" by (rule delete_completedE [OF clean(2)]) auto
  then show ?thesis using assms(3) by (auto simp: clean(1))
qed (use assms(3) in simp_all)

lemma wf_steps_ids: "wf_steps s t \<Longrightarrow> wf_ok s \<Longrightarrow> i \<in> ws_ids s \<Longrightarrow> i \<in> ws_ids t"
proof (induction rule: wf_steps.induct)
  case (more s t u)
  then show ?case using wf_step_ids [OF more(2) wf_steps_ok [OF more(1,4)]] by blast
qed

lemma ended_unheld:
  assumes "wf_ok s" "r \<in> set (wd_runs (ws_db s))" "ended_status (rr_status r)" "snap \<in> ws_held s"
    "sn_run_id snap = rr_id r"
  shows "sn_version snap < rr_version r"
  using wf_okD(3) [OF assms(1,4)] assms(2,3,5) not_both [of "rr_status r"] unfolding held_ok_def
  by (metis order_le_less)

text \<open>
  C36: A run that succeeded or failed stays as it is until it is deleted, and it does not come back:
  no answer, no late save, no reaper changes it.
\<close>

theorem ended_stays:
  assumes "wf_steps no_runs s" "r \<in> set (wd_runs (ws_db s))" "ended_status (rr_status r)" "wf_steps s t"
  shows "r \<in> set (wd_runs (ws_db t)) \<or> rr_id r \<notin> rr_id ` set (wd_runs (ws_db t))"
  using assms(4,1-3)
proof (induction rule: wf_steps.induct)
  case (more s t u)
  have ok: "wf_ok t" using wf_steps_ok [OF more(1)] wf_steps_ok [OF more(4) no_runs_ok] by blast
  have ok1: "wf_ok s" using wf_steps_ok [OF more(4) no_runs_ok] .
  have id: "rr_id r \<in> ws_ids t" using wf_steps_ids [OF more(1) ok1] wf_okD(4) [OF ok1] more(5) by blast
  show ?case
  proof (cases "r \<in> set (wd_runs (ws_db t))")
    case True
    then show ?thesis
      using wf_step_row [OF more(2) ok True] ended_unheld [OF ok True more(6)] by fastforce
  next
    case False
    then have "rr_id r \<notin> rr_id ` set (wd_runs (ws_db t))" using more by blast
    then show ?thesis using wf_step_ids [OF more(2) ok id] by blast
  qed
qed simp

section \<open>A run whose process died\<close>

text \<open>Nobody holds the run, and nobody is between the check and the insertion for its key.\<close>

definition abandoned :: "run_row \<Rightarrow> wf_state \<Rightarrow> bool" where
  "abandoned r s \<longleftrightarrow>
     r \<in> set (wd_runs (ws_db s)) \<and> rr_id r \<notin> sn_run_id ` ws_held s \<and>
     (rr_workflow r, rr_key r) \<notin> ws_starting s"

lemma abandoned_step:
  assumes "wf_step s t" "wf_ok s" "abandoned r s" "rr_status r = ''running''"
  shows "abandoned r t"
proof -
  note ok = wf_okD(1) [OF assms(2)]
  have r: "r \<in> set (wd_runs (ws_db s))" "rr_id r \<notin> sn_run_id ` ws_held s" "(rr_workflow r, rr_key r) \<notin> ws_starting s"
    using assms(3) by (simp_all add: abandoned_def)
  have same: "x = r" if "x \<in> set (wd_runs (ws_db s))" "rr_id x = rr_id r" for x
    using run_by_id [OF runs_okD(1) [OF ok] that(1) r(1) that(2)] .
  have "sn_run_id snap \<noteq> rr_id r" if "snap \<in> ws_held s" for snap using r(2) that by (metis imageI)
  then have kept: "r \<in> set (wd_runs (ws_db t))"
    using wf_step_row [OF assms(1,2) r(1)] assms(4) by (auto simp: ended_status_def)
  show ?thesis
    using assms(1)
  proof (cases rule: wf_step.cases)
    case (check w k)
    have "(w, k) \<noteq> (rr_workflow r, rr_key r)"
      using check(2) r(1) assms(4) by (auto simp: load_run_None active_row_def active_status_def)
    then show ?thesis using r kept by (auto simp: check(1) abandoned_def)
  next
    case (insert snap db)
    have "sn_run_id snap \<noteq> rr_id r" using insert(3) wf_okD(4) [OF assms(2)] r(1) by blast
    then show ?thesis using r kept by (simp add: insert(1) abandoned_def)
  next
    case (clash w k snap)
    obtain x where x: "x \<in> set (wd_runs (ws_db s))" "active_row w k x" "scan_snapshot x = Inr snap"
      by (rule load_runE [OF clash(3)])
    have "sn_run_id snap \<noteq> rr_id r"
      using same [OF x(1)] scan_snapshotE [OF x(3)] x(2) clash(2) r(3) by (auto simp: active_row_def)
    then show ?thesis using r kept by (simp add: clash(1) abandoned_def)
  next
    case (resume w k snap)
    obtain x where x: "x \<in> set (wd_runs (ws_db s))" "scan_snapshot x = Inr snap"
      by (rule load_runE [OF resume(2)])
    have "sn_run_id snap \<noteq> rr_id r"
      using same [OF x(1)] scan_snapshotE [OF x(2)] resume(3) assms(4) by (auto simp: run_status_string_def)
    then show ?thesis using r kept by (simp add: resume(1) abandoned_def)
  next
    case (list w cutoff limit snaps)
    have "sn_run_id snap \<noteq> rr_id r" if in_snaps: "snap \<in> set snaps" for snap
    proof -
      obtain x where x: "x \<in> set (wd_runs (ws_db s))" "rr_status x = ''suspended''" "scan_snapshot x = Inr snap"
        using list_suspended_in [OF list(2) in_snaps] by blast
      then show ?thesis using same [OF x(1)] scan_snapshotE [OF x(3)] assms(4) by auto
    qed
    then have "rr_id r \<notin> sn_run_id ` set snaps" by (metis imageE)
    then show ?thesis using r kept by (simp add: list(1) abandoned_def image_Un)
  next
    case (stop held starting)
    then show ?thesis using r kept by (simp add: abandoned_def) blast
  qed (use r kept in \<open>simp_all add: abandoned_def\<close>)
qed

text \<open>
  C38: A run whose process died while it was running is never carried on, by nobody and at no time:
  every start for its key is refused, every answer is taken as if there were no run, and the reaper
  looks at suspended runs only.
\<close>

theorem crashed_run_stuck:
  assumes "wf_steps no_runs s" "abandoned r s" "rr_status r = ''running''" "wf_steps s t"
    and "df_durable df" "df_id df = rr_workflow r" "ec_encode ca initial \<noteq> None"
  shows "r \<in> set (wd_runs (ws_db t)) \<and>
    engine_start ca df (rr_key r) initial (ws_db t) w = ((zero_result ca, Some ErrRunAlreadyExists), ws_db t, w) \<and>
    engine_resume ca df (rr_key r) answer (ws_db t) w = ((zero_result ca, None), ws_db t, w)"
proof -
  have ok: "wf_ok t" "abandoned r t"
    using assms(4,1-3)
  proof (induction rule: wf_steps.induct)
    case (here s)
    {
      case 1
      show ?case using wf_steps_ok [OF 1(1) no_runs_ok] .
    next
      case 2
      then show ?case by simp
    }
  next
    case (more s t u)
    {
      case 1
      then show ?case using more wf_step_ok by blast
    next
      case 2
      then show ?case using more abandoned_step by blast
    }
  qed
  have r: "r \<in> set (wd_runs (ws_db t))" using ok(2) by (simp add: abandoned_def)
  moreover have "active_row (df_id df) (rr_key r) r" using assms(3,6) by (simp add: active_row_def active_status_def)
  then obtain snap where "load_run (df_id df) (rr_key r) (ws_db t) = Inr (Some snap)" "scan_snapshot r = Inr snap"
    by (rule load_run_active [OF wf_okD(1) [OF ok(1)] r])
  moreover have "sn_status snap \<noteq> RunSuspended"
    using scan_snapshotE [OF \<open>scan_snapshot r = Inr snap\<close>] assms(3) by (auto simp: run_status_string_def)
  ultimately show ?thesis
    using assms(5,7) by (auto simp: engine_start_def engine_resume_def Let_def split: option.splits)
qed

section \<open>One save per version\<close>

lemma version_grows:
  assumes "wf_steps s t" "wf_ok s" "i \<in> ws_ids s" "\<forall>r \<in> set (wd_runs (ws_db s)). rr_id r = i \<longrightarrow> v < rr_version r"
  shows "\<forall>r \<in> set (wd_runs (ws_db t)). rr_id r = i \<longrightarrow> v < rr_version r"
  using assms
proof (induction rule: wf_steps.induct)
  case (more s t u)
  have ok: "wf_ok t" "wf_ok u" using wf_steps_ok more(1,4) wf_step_ok [OF more(2)] by blast+
  have id: "i \<in> ws_ids t" using wf_steps_ids [OF more(1,4,5)] .
  show ?case
  proof (intro ballI impI)
    fix r assume r: "r \<in> set (wd_runs (ws_db u))" "rr_id r = i"
    then have "i \<in> rr_id ` set (wd_runs (ws_db t))" using wf_step_ids [OF more(2) ok(1) id] by blast
    then obtain x where x: "x \<in> set (wd_runs (ws_db t))" "rr_id x = i" by blast
    have v: "v < rr_version x" using more x by blast
    have same: "y = r" if "y \<in> set (wd_runs (ws_db u))" "rr_id y = i" for y
      using run_by_id [OF runs_okD(1) [OF wf_okD(1) [OF ok(2)]] that(1) r(1)] that(2) r(2) by simp
    consider "x \<in> set (wd_runs (ws_db u))" | nx where "saved_row nx x \<in> set (wd_runs (ws_db u))"
      using wf_step_row [OF more(2) ok(1) x(1)] r x(2) by blast
    then show "v < rr_version r"
    proof cases
      case 1
      then show ?thesis using same x(2) v by blast
    next
      case 2
      then show ?thesis using same [OF 2] x(2) v by (metis saved_row_same(1,4) zless_add1_eq)
    qed
  qed
qed blast

text \<open>
  C37: Of all who read a run at one version only the first to save is heard: every other save at that
  version or an older one is a conflict, then and ever after.
\<close>

theorem first_save_wins:
  assumes "wf_steps no_runs s" "snap \<in> ws_held s" "settles snap nx"
    and "save_run nx (sn_version snap) (ws_db s) = Inr db" "wf_steps (s\<lparr>ws_db := db\<rparr>) t"
    and "sn_run_id other = sn_run_id snap" "v \<le> sn_version snap"
  shows "save_run other v (ws_db t) = Inl ErrVersionConflict"
proof -
  have ok: "wf_ok s" using wf_steps_ok [OF assms(1) no_runs_ok] .
  have ok1: "wf_ok (s\<lparr>ws_db := db\<rparr>)" using wf_step_ok [OF wf_step.save [OF assms(2-4)] ok] .
  obtain x where x: "rr_id x = sn_run_id nx" "rr_version x = sn_version snap" "x \<in> set (wd_runs (ws_db s))"
    and runs: "wd_runs db = map (\<lambda>x. if rr_id x = sn_run_id nx then saved_row nx x else x) (wd_runs (ws_db s))"
    by (rule save_runE [OF assms(4) runs_okD(1) [OF wf_okD(1) [OF ok]]]) blast
  have "sn_version snap < rr_version r" if r: "r \<in> set (wd_runs db)" "rr_id r = sn_run_id snap" for r
  proof -
    obtain y where y: "y \<in> set (wd_runs (ws_db s))" "r = (if rr_id y = sn_run_id nx then saved_row nx y else y)"
      using r(1) by (auto simp: runs)
    have "sn_run_id nx = sn_run_id snap" using assms(3) by (simp add: settles_def)
    then have "rr_id y = sn_run_id nx" using r(2) y(2) by (auto split: if_splits)
    moreover have "y = x"
      using run_by_id [OF runs_okD(1) [OF wf_okD(1) [OF ok]] y(1) x(3)] \<open>rr_id y = sn_run_id nx\<close> x(1) by simp
    ultimately show ?thesis using y(2) x(2) by simp
  qed
  then have "\<forall>r \<in> set (wd_runs (ws_db t)). rr_id r = sn_run_id snap \<longrightarrow> sn_version snap < rr_version r"
    using version_grows [OF assms(5) ok1, of "sn_run_id snap"] wf_okD(5) [OF ok] assms(2) by auto
  then show ?thesis using assms(6,7) by (intro save_stale) force
qed

section \<open>The operations are made of these steps\<close>

text \<open>A process at work on a snapshot it holds records steps and saves, and changes the tables only.\<close>

definition works_on :: "snapshot \<Rightarrow> wf_db \<Rightarrow> wf_db \<Rightarrow> bool" where
  "works_on snap db db' \<longleftrightarrow> (\<forall>s. ws_db s = db \<longrightarrow> snap \<in> ws_held s \<longrightarrow> wf_steps s (s\<lparr>ws_db := db'\<rparr>))"

lemma works_onD:
  "works_on snap db db' \<Longrightarrow> ws_db s = db \<Longrightarrow> snap \<in> ws_held s \<Longrightarrow> wf_steps s (s\<lparr>ws_db := db'\<rparr>)"
  by (simp add: works_on_def)

lemma wf_steps_one: "wf_step s t \<Longrightarrow> wf_steps s t"
  by (rule wf_steps.more [OF wf_steps.here])

lemma wf_steps_trans: "wf_steps t u \<Longrightarrow> wf_steps s t \<Longrightarrow> wf_steps s u"
  by (induction rule: wf_steps.induct) (auto intro: wf_steps.more)

lemma works_on_refl [simp]: "works_on snap db db"
proof -
  have "s\<lparr>ws_db := ws_db s\<rparr> = s" for s :: wf_state by simp
  then show ?thesis unfolding works_on_def by (metis wf_steps.here)
qed

lemma works_on_trans: "works_on snap a b \<Longrightarrow> works_on snap b c \<Longrightarrow> works_on snap a c"
  unfolding works_on_def
proof (intro allI impI)
  fix s :: wf_state assume ab: "\<forall>s. ws_db s = a \<longrightarrow> snap \<in> ws_held s \<longrightarrow> wf_steps s (s\<lparr>ws_db := b\<rparr>)"
    and bc: "\<forall>s. ws_db s = b \<longrightarrow> snap \<in> ws_held s \<longrightarrow> wf_steps s (s\<lparr>ws_db := c\<rparr>)"
    and s: "ws_db s = a" "snap \<in> ws_held s"
  have "wf_steps (s\<lparr>ws_db := b\<rparr>) (s\<lparr>ws_db := b, ws_db := c\<rparr>)"
    using bc [rule_format, of "s\<lparr>ws_db := b\<rparr>"] s(2) by simp
  then show "wf_steps s (s\<lparr>ws_db := c\<rparr>)" using wf_steps_trans ab s by fastforce
qed

lemma works_on_save:
  assumes "save_snap nx db = Inr db'" "settles snap (nx\<lparr>sn_version := sn_version nx + 1\<rparr>)" "sn_version nx = sn_version snap"
  shows "works_on snap db db'"
  unfolding works_on_def
proof (intro allI impI)
  fix s :: wf_state assume "ws_db s = db" "snap \<in> ws_held s"
  then show "wf_steps s (s\<lparr>ws_db := db'\<rparr>)"
    using wf_step.save [OF _ assms(2), of s db'] assms(1,3) by (auto simp: save_snap_def intro: wf_steps.more wf_steps.here)
qed

lemma works_on_append:
  assumes "append_step x db = Inr db'" "sr_run_id x = sn_run_id snap"
  shows "works_on snap db db'"
  unfolding works_on_def using assms by (auto intro: wf_steps.more wf_steps.here wf_step.append)

lemma run_step_works: "works_on snap db (fst (snd (run_step ca df snap step state i db w)))"
  by (auto simp: run_step_def Let_def split: prod.split sum.split intro: works_on_append)

lemma finalize_failed_works:
  "\<not> is_zero (ec_now ca) \<Longrightarrow> works_on snap db (snd (finalize_failed ca df snap state msg e db))"
  by (auto simp: finalize_failed_def Let_def encode_and_stamp_failed_def settles_def nullable_time_def
      is_zero_def in_loc_def split: sum.split option.split intro: works_on_save)

lemma finalize_suspended_works: "works_on snap db (snd (finalize_suspended ca df snap i out db))"
  by (auto simp: finalize_suspended_def Let_def settles_def split: sum.split option.split
      intro: works_on_save)

lemma finalize_succeeded_works:
  "\<not> is_zero (ec_now ca) \<Longrightarrow> works_on snap db (snd (finalize_succeeded ca df snap state su db))"
  by (auto simp: finalize_succeeded_def Let_def settles_def nullable_time_def
      is_zero_def in_loc_def split: sum.split option.split intro: works_on_save)

lemmas finalize_works = finalize_failed_works finalize_suspended_works finalize_succeeded_works

lemma run_steps_works:
  "\<not> is_zero (ec_now ca) \<Longrightarrow> works_on snap db (fst (snd (run_steps ca df snap i steps state su db w)))"
proof (induction ca df snap i steps state su db w rule: run_steps.induct)
  case (1 ca df snap i current suspend db w)
  then show ?case by (simp add: case_prod_beta finalize_works)
next
  case (2 ca df snap i step steps current suspend db w)
  obtain out e db1 w1 where one: "run_step ca df snap step current i db w = ((out, e), db1, w1)"
    by (metis prod.exhaust)
  have "works_on snap db1 (fst (snd (run_steps ca df snap i (step # steps) current suspend db w)))"
    using 2 one by (cases e) (simp_all add: case_prod_beta finalize_works)
  then show ?case using works_on_trans run_step_works [of snap db ca df step current i w] one by (metis fst_conv snd_conv)
qed

lemma execute_run_works:
  assumes "\<not> is_zero (ec_now ca)"
  shows "works_on snap db (fst (snd (execute_run ca df snap state cursor db w)))"
proof -
  have single: "works_on snap db (fst (snd (execute_step ca df snap x state 0 db w)))" for x
  proof -
    obtain out e db1 w1 where one: "run_step ca df snap x state 0 db w = ((out, e), db1, w1)"
      by (metis prod.exhaust)
    have "works_on snap db1 (fst (snd (execute_step ca df snap x state 0 db w)))"
      using one assms by (cases e) (simp_all add: execute_step_def case_prod_beta finalize_works)
    then show ?thesis using works_on_trans run_step_works [of snap db ca df x state 0 w] one by (metis fst_conv snd_conv)
  qed
  then show ?thesis
    by (simp add: execute_run_def run_steps_works [OF assms] split: step.split)
qed

lemma volatile_db: "\<not> df_durable df \<Longrightarrow> fst (snd (execute_run ca df snap state cursor db w)) = db"
proof -
  assume v: "\<not> df_durable df"
  have one: "fst (snd (run_step ca df snap x state i db w)) = db" for x state i w
    by (simp add: run_step_def v Let_def split: prod.split)
  have finals: "snd (finalize_failed ca df snap state msg e db) = db"
    "snd (finalize_suspended ca df snap i out db) = db" "snd (finalize_succeeded ca df snap state su db) = db"
    for state msg e i out su
    by (simp_all add: finalize_failed_def finalize_suspended_def finalize_succeeded_def v Let_def)
  have many: "fst (snd (run_steps ca df snap i steps state su db w)) = db" for i steps state su w
  proof (induction steps arbitrary: i state su w)
    case Nil
    then show ?case by (simp add: case_prod_beta finals)
  next
    case (Cons x steps)
    obtain out e w1 where "run_step ca df snap x state i db w = ((out, e), db, w1)"
      using one by (metis prod.collapse)
    then show ?case using Cons by (cases e) (simp_all add: case_prod_beta finals)
  qed
  have "fst (snd (execute_step ca df snap x state 0 db w)) = db" for x
  proof -
    obtain out e w1 where "run_step ca df snap x state 0 db w = ((out, e), db, w1)"
      using one by (metis prod.collapse)
    then show ?thesis by (cases e) (simp_all add: execute_step_def case_prod_beta finals)
  qed
  then show ?thesis using many by (simp add: execute_run_def split: step.split)
qed

lemma start_steps:
  assumes "\<not> is_zero (ec_now ca)" "ec_run_id ca \<notin> ws_ids s"
  shows "\<exists>t. wf_steps s t \<and> ws_db t = fst (snd (engine_start ca df k initial (ws_db s) w))"
proof (cases "\<exists>v db1. df_durable df \<and> ec_encode ca initial = Some v \<and> load_run (df_id df) k (ws_db s) = Inr None \<and>
    insert_run ((new_snapshot ca df k)\<lparr>sn_state := Some v\<rparr>) (ws_db s) = Inr db1")
  case False
  then have "fst (snd (engine_start ca df k initial (ws_db s) w)) = ws_db s"
    using volatile_db [of df ca "new_snapshot ca df k" initial 0 "ws_db s" w]
    by (auto simp: engine_start_def resume_on_conflict_def Let_def split: option.split sum.split)
  then show ?thesis using wf_steps.here by metis
next
  case True
  then obtain v db1 where v: "df_durable df" "ec_encode ca initial = Some v"
    "load_run (df_id df) k (ws_db s) = Inr None"
    "insert_run ((new_snapshot ca df k)\<lparr>sn_state := Some v\<rparr>) (ws_db s) = Inr db1" by blast
  let ?snap = "(new_snapshot ca df k)\<lparr>sn_state := Some v\<rparr>"
  let ?s1 = "s\<lparr>ws_starting := insert (df_id df, k) (ws_starting s)\<rparr>"
  let ?s2 = "?s1\<lparr>ws_db := db1, ws_held := insert ?snap (ws_held ?s1), ws_ids := insert (sn_run_id ?snap) (ws_ids ?s1)\<rparr>"
  have "wf_step s ?s1" by (rule wf_step.check [OF v(3)])
  moreover have "wf_step ?s1 ?s2"
    by (rule wf_step.insert) (use assms(2) v(4) in \<open>simp_all add: new_snapshot_def\<close>)
  ultimately have "wf_steps s ?s2" by (meson wf_steps.intros)
  moreover have "wf_steps ?s2 (?s2\<lparr>ws_db := fst (snd (execute_run ca df ?snap initial 0 db1 w))\<rparr>)"
    by (rule works_onD [OF execute_run_works [OF assms(1)]]) simp_all
  ultimately have "wf_steps s (?s2\<lparr>ws_db := fst (snd (execute_run ca df ?snap initial 0 db1 w))\<rparr>)"
    using wf_steps_trans by blast
  moreover have "fst (snd (engine_start ca df k initial (ws_db s) w)) = fst (snd (execute_run ca df ?snap initial 0 db1 w))"
    using v by (simp add: engine_start_def Let_def)
  ultimately show ?thesis by fastforce
qed

lemma resume_steps:
  assumes "\<not> is_zero (ec_now ca)"
  shows "\<exists>t. wf_steps s t \<and> ws_db t = fst (snd (engine_resume ca df k answer (ws_db s) w))"
proof (cases "\<exists>snap current. load_run (df_id df) k (ws_db s) = Inr (Some snap) \<and> sn_status snap = RunSuspended \<and>
    engine_resume ca df k answer (ws_db s) w = execute_run ca df snap current (sn_cursor snap) (ws_db s) w")
  case False
  then have "fst (snd (engine_resume ca df k answer (ws_db s) w)) = ws_db s"
    by (auto simp: engine_resume_def split: option.split sum.split)
  then show ?thesis using wf_steps.here by metis
next
  case True
  then obtain snap current where r: "load_run (df_id df) k (ws_db s) = Inr (Some snap)" "sn_status snap = RunSuspended"
    "engine_resume ca df k answer (ws_db s) w = execute_run ca df snap current (sn_cursor snap) (ws_db s) w" by blast
  let ?s1 = "s\<lparr>ws_held := insert snap (ws_held s)\<rparr>"
  have "wf_step s ?s1" by (rule wf_step.resume [OF r(1,2)])
  then have "wf_steps s ?s1" by (meson wf_steps.intros)
  moreover have "wf_steps ?s1 (?s1\<lparr>ws_db := fst (snd (engine_resume ca df k answer (ws_db s) w))\<rparr>)"
    unfolding r(3) by (rule works_onD [OF execute_run_works [OF assms]]) simp_all
  ultimately have "wf_steps s (?s1\<lparr>ws_db := fst (snd (engine_resume ca df k answer (ws_db s) w))\<rparr>)"
    using wf_steps_trans by blast
  then show ?thesis by fastforce
qed

lemma reap_all_steps:
  assumes "\<not> is_zero now" "set ss \<subseteq> ws_held s"
  shows "wf_steps s (s\<lparr>ws_db := snd (reap_all now ss (ws_db s))\<rparr>)"
  using assms(2)
proof (induction ss arbitrary: s)
  case Nil
  then show ?case by (simp add: wf_steps.here)
next
  case (Cons x ss)
  show ?case
  proof (cases "save_run (reaped now x) (sn_version x) (ws_db s)")
    case (Inr db1)
    have "settles x (reaped now x)"
      using assms(1) by (simp add: settles_def reaped_def nullable_time_def is_zero_def in_loc_def)
    then have "wf_step s (s\<lparr>ws_db := db1\<rparr>)" using wf_step.save [OF _ _ Inr] Cons.prems by simp
    moreover have "wf_steps (s\<lparr>ws_db := db1\<rparr>) (s\<lparr>ws_db := snd (reap_all now (x # ss) (ws_db s))\<rparr>)"
      using Cons.IH [of "s\<lparr>ws_db := db1\<rparr>"] Cons.prems Inr by (simp add: case_prod_beta)
    ultimately show ?thesis using wf_steps_trans wf_steps_one by blast
  qed (use Cons in simp)
qed

lemma reap_steps:
  assumes "\<not> is_zero now"
  shows "\<exists>t. wf_steps s t \<and> ws_db t = snd (reap name age batch now (ws_db s))"
proof (cases "list_suspended name (add_dur (in_loc now utc) (i64 (- age))) batch (ws_db s)")
  case (Inl e)
  then show ?thesis using wf_steps.here by (fastforce simp: reap_def)
next
  case (Inr ss)
  let ?s1 = "s\<lparr>ws_held := ws_held s \<union> set ss\<rparr>"
  have "wf_step s ?s1" by (rule wf_step.list [OF Inr])
  moreover have "wf_steps ?s1 (?s1\<lparr>ws_db := snd (reap_all now ss (ws_db ?s1))\<rparr>)"
    by (rule reap_all_steps [OF assms]) simp
  ultimately have "wf_steps s (?s1\<lparr>ws_db := snd (reap_all now ss (ws_db ?s1))\<rparr>)"
    using wf_steps_trans by (meson wf_steps.intros)
  then show ?thesis using Inr by (intro exI conjI) (auto simp: reap_def case_prod_beta)
qed

text \<open>
  Starting a run, answering it and reaping are made of the statements above, nothing else: what
  every sequence of statements of several processes keeps, every sequence of these operations keeps.
\<close>

lemma operations_are_steps:
  assumes "\<not> is_zero (ec_now ca)" "ec_run_id ca \<notin> ws_ids s"
  shows "(\<exists>t. wf_steps s t \<and> ws_db t = fst (snd (engine_start ca df k initial (ws_db s) w))) \<and>
    (\<exists>t. wf_steps s t \<and> ws_db t = fst (snd (engine_resume ca df k answer (ws_db s) w))) \<and>
    (\<exists>t. wf_steps s t \<and> ws_db t = snd (reap name age batch (ec_now ca) (ws_db s)))"
  by (intro conjI start_steps [OF assms] resume_steps [OF assms(1)] reap_steps [OF assms(1)])

section \<open>What a durable run comes to\<close>

text \<open>
  The contract of a sequence, without a store: the steps one after the other from step \<open>i\<close>, to the
  end, to the step that suspends, or to the one that breaks, with the text the run is left with.
\<close>

datatype 's outcome =
    Finished 's "suspension option"
  | Paused nat 's "suspension option"
  | Broken 's string wf_error

fun walk ::
  "exec_ctx \<Rightarrow> nat \<Rightarrow> ('s, 'w) step list \<Rightarrow> 's \<Rightarrow> suspension option \<Rightarrow> 'w \<Rightarrow> 's outcome \<times> 'w" where
  "walk c i [] s su w = (Finished s su, w)"
| "walk c i (x # xs) s su w =
     (case exec c x s w of
        ((out, Some e), w1) \<Rightarrow>
          (Broken (if so_status out = StepFailed then so_state out else s) e (ErrStep e), w1)
      | ((out, None), w1) \<Rightarrow>
          if so_status out = StepSuspended then (Paused i (so_state out) (so_suspend out), w1)
          else if so_status out = StepFailed then
            (Broken (so_state out) (''step '' @ step_id x @ '' returned failed'') (ErrStepFailed (step_id x)), w1)
          else walk c (Suc i) xs (so_state out) (so_suspend out) w1)"

fun result_of :: "uuid \<Rightarrow> 's outcome \<Rightarrow> 's run_result \<times> wf_error option" where
  "result_of i (Finished s su) =
     (\<lparr>ru_run_id = i, ru_status = RunSucceeded, ru_state = s, ru_suspend = su\<rparr>, None)"
| "result_of i (Paused j s su) =
     (\<lparr>ru_run_id = i, ru_status = RunSuspended, ru_state = s, ru_suspend = su\<rparr>, None)"
| "result_of i (Broken s msg e) =
     (\<lparr>ru_run_id = i, ru_status = RunFailed, ru_state = s, ru_suspend = None\<rparr>, Some e)"

fun outcome_row :: "('s \<Rightarrow> json option) \<Rightarrow> 's outcome \<Rightarrow> run_row \<Rightarrow> bool" where
  "outcome_row enc (Finished s su) r \<longleftrightarrow> rr_status r = ''succeeded'' \<and> enc s = Some (rr_state r)"
| "outcome_row enc (Paused j s su) r \<longleftrightarrow>
     rr_status r = ''suspended'' \<and> rr_cursor r = j \<and> enc s = Some (rr_state r)"
| "outcome_row enc (Broken s msg e) r \<longleftrightarrow>
     rr_status r = ''failed'' \<and> rr_last_error r = msg \<and> enc s = Some (rr_state r)"

text \<open>The contract is what the combinator \<open>Sequence\<close> does when it is a step itself.\<close>

lemma walk_sequence:
  "\<exists>o1 w1 out err. walk c i steps s su w = (o1, w1) \<and>
     exec c (SequenceStep name steps) s w = ((out, err), w1) \<and>
     (case o1 of
        Finished s1 su1 \<Rightarrow> err = None \<and> out = \<lparr>so_state = s1, so_status = StepCompleted, so_suspend = None\<rparr>
      | Paused j s1 su1 \<Rightarrow> err = None \<and> out = \<lparr>so_state = s1, so_status = StepSuspended, so_suspend = su1\<rparr>
      | Broken s1 msg e \<Rightarrow> err \<noteq> None \<or> so_status out = StepFailed)"
proof (induction steps arbitrary: i s su w)
  case (Cons x xs)
  obtain out e w1 where x: "exec c x s w = ((out, e), w1)" by (metis prod.exhaust)
  show ?case
  proof (cases "e = None \<and> so_status out \<noteq> StepSuspended \<and> so_status out \<noteq> StepFailed")
    case True
    then show ?thesis using Cons [of "Suc i" "so_state out" "so_suspend out" w1] x by simp
  next
    case False
    then show ?thesis using x by (cases e; cases out) auto
  qed
qed simp

text \<open>
  The store takes what the run writes: the run is there at the version of the snapshot, the numbers
  fit their columns, the identifiers drawn for the steps are new, and every state has a JSON form.
\<close>

definition accepts :: "'s engine_call \<Rightarrow> snapshot \<Rightarrow> nat \<Rightarrow> nat \<Rightarrow> wf_db \<Rightarrow> bool" where
  "accepts ca snap i n db \<longleftrightarrow>
     runs_ok db \<and> 0 \<le> sn_attempts snap \<and> sn_attempts snap < 2 ^ 31 - 1 \<and> sn_version snap < 2 ^ 63 - 1 \<and>
     sn_cursor snap < 2 ^ 31 \<and> n \<le> 2 ^ 31 \<and>
     (\<exists>r \<in> set (wd_runs db). rr_id r = sn_run_id snap \<and> rr_version r = sn_version snap \<and>
        active_status (rr_status r)) \<and>
     (\<forall>j. i \<le> j \<longrightarrow> j < n \<longrightarrow> ec_record_id ca j \<notin> st_id ` set (wd_steps db)) \<and>
     inj_on (ec_record_id ca) {..<n} \<and> (\<forall>s. ec_encode ca s \<noteq> None) \<and> \<not> is_zero (ec_now ca)"

lemma accepts_encode:
  assumes "accepts ca snap i n db"
  obtains v where "ec_encode ca s = Some v"
proof -
  have "ec_encode ca s \<noteq> None" using assms by (simp add: accepts_def)
  then show ?thesis using that by blast
qed

lemma save_snap_accepts:
  assumes "accepts ca snap i n db" "sn_run_id nx = sn_run_id snap" "sn_version nx = sn_version snap"
    and "sn_status nx \<noteq> RunZero" "0 \<le> sn_attempts nx" "sn_attempts nx < 2 ^ 31" "sn_cursor nx < 2 ^ 31"
  shows "\<exists>r db'. save_snap nx db = Inr db' \<and> saved_row nx r \<in> set (wd_runs db') \<and>
    rr_id r = sn_run_id snap \<and> rr_version r = sn_version snap"
proof -
  obtain r where r: "r \<in> set (wd_runs db)" "rr_id r = sn_run_id snap" "rr_version r = sn_version snap"
    "active_status (rr_status r)"
    and ok: "runs_ok db" and v: "sn_version snap < 2 ^ 63 - 1"
    using assms(1) by (auto simp: accepts_def)
  let ?nx = "nx\<lparr>sn_version := sn_version nx + 1\<rparr>"
  let ?hit = "\<lambda>r. rr_id r = sn_run_id ?nx \<and> rr_version r = sn_version nx"
  have hit: "?hit r" using r assms(2,3) by simp
  have only: "x = r" if "x \<in> set (wd_runs db)" "?hit x" for x
    using run_by_id [OF runs_okD(1) [OF ok] that(1) r(1)] that(2) hit by simp
  have "active_status (run_status_string (sn_status nx)) \<or> ended_status (run_status_string (sn_status nx))"
    using assms(4) by (cases "sn_status nx") auto
  moreover have "in_i64 (sn_version snap + 1)"
    using v runs_okD(2) [OF ok r(1)] r(3) by (simp add: run_row_ok_def in_i64_def)
  ultimately have row: "run_row_ok (saved_row ?nx r)"
    using runs_okD(2) [OF ok r(1)] assms(5-7) r(3)
    by (simp add: run_row_ok_def saved_row_def fits_int_def)
  have alone: "\<not> (\<exists>x \<in> set (wd_runs db). rr_id x \<noteq> rr_id r \<and> active_row (rr_workflow r) (rr_key r) x)"
    using runs_okD(4) [OF ok _ r(1), of _ "rr_workflow r" "rr_key r"] r(4) by (auto simp: active_row_def)
  define rows where "rows = map (\<lambda>r. if ?hit r then saved_row ?nx r else r) (wd_runs db)"
  have taken: "\<not> (\<exists>r \<in> set (wd_runs db). ?hit r \<and> (\<not> run_row_ok (saved_row ?nx r) \<or>
      active_status (rr_status (saved_row ?nx r)) \<and>
      (\<exists>x \<in> set (wd_runs db). rr_id x \<noteq> rr_id r \<and> active_row (rr_workflow r) (rr_key r) x)))"
    using only row alone by blast
  have "save_run ?nx (sn_version nx) db = Inr (db\<lparr>wd_runs := rows\<rparr>)"
    unfolding save_run_def Let_def rows_def
    by (subst if_not_P, use r(1) hit in blast, subst if_not_P, rule taken, rule refl)
  moreover have "saved_row nx r \<in> set rows"
    using r(1) hit by (force simp: rows_def saved_row_def)
  ultimately show ?thesis using r by (auto simp: save_snap_def)
qed

lemma run_step_accepts:
  assumes "accepts ca snap i n db" "i < n" "df_durable df" "exec (ec_ctx ca) x s w = ((out, err), w1)"
  shows "\<exists>db1. run_step ca df snap x s i db w = ((out, map_option ErrStep err), db1, w1) \<and>
    accepts ca snap (Suc i) n db1"
proof -
  let ?status = "if err \<noteq> None then StepFailed
    else if so_status out \<noteq> StepZero then so_status out else StepCompleted"
  let ?now = "in_loc (ec_now ca) utc"
  define rec where "rec = \<lparr>sr_id = ec_record_id ca i, sr_run_id = sn_run_id snap, sr_step_id = step_id x,
    sr_seq = i, sr_status = ?status, sr_attempt = i64 (sn_attempts snap + 1),
    sr_duration_ms = ec_duration ca i, sr_error = (case err of None \<Rightarrow> '''' | Some e \<Rightarrow> e),
    sr_started_at = ?now, sr_ended_at = Some ?now\<rparr>"
  have a: "i64 (sn_attempts snap + 1) = sn_attempts snap + 1" "fits_int (sn_attempts snap + 1)" "fits_int (int i)"
    using assms(1,2) by (auto simp: accepts_def fits_int_def in_i64_def intro!: i64_id)
  have run: "sn_run_id snap \<in> rr_id ` set (wd_runs db)" using assms(1) by (force simp: accepts_def)
  have new: "ec_record_id ca i \<notin> st_id ` set (wd_steps db)" using assms(1,2) by (auto simp: accepts_def)
  have "\<exists>db1. append_step rec db = Inr db1 \<and> wd_runs db1 = wd_runs db \<and>
      st_id ` set (wd_steps db1) \<subseteq> insert (ec_record_id ca i) (st_id ` set (wd_steps db))"
    using a run new by (auto simp: append_step_def Let_def row_of_step_def rec_def)
  then obtain db1 where db1: "append_step rec db = Inr db1" "wd_runs db1 = wd_runs db"
    "st_id ` set (wd_steps db1) \<subseteq> insert (ec_record_id ca i) (st_id ` set (wd_steps db))" by blast
  have "ec_record_id ca j \<notin> st_id ` set (wd_steps db1)" if "Suc i \<le> j" "j < n" for j
  proof -
    have "ec_record_id ca j \<noteq> ec_record_id ca i" using assms(1,2) that by (auto simp: accepts_def dest: inj_onD)
    moreover have "ec_record_id ca j \<notin> st_id ` set (wd_steps db)" using assms(1) that by (simp add: accepts_def)
    ultimately show ?thesis using db1(3) by blast
  qed
  then have "accepts ca snap (Suc i) n db1"
    using assms(1) unfolding accepts_def runs_ok_def db1(2) by simp
  moreover have "run_step ca df snap x s i db w = ((out, map_option ErrStep err), db1, w1)"
    using db1(1) assms(3,4) by (simp add: run_step_def Let_def rec_def)
  ultimately show ?thesis by blast
qed

text \<open>Each way a run ends up is saved as the outcome it is.\<close>

definition saved_as :: "'s engine_call \<Rightarrow> snapshot \<Rightarrow> 's outcome \<Rightarrow> wf_db \<Rightarrow> bool" where
  "saved_as ca snap o1 db \<longleftrightarrow>
     (\<exists>r \<in> set (wd_runs db). rr_id r = sn_run_id snap \<and> rr_version r = sn_version snap + 1 \<and>
        outcome_row (ec_encode ca) o1 r)"

lemma finalize_failed_accepts:
  assumes "accepts ca snap i n db" "df_durable df"
  shows "\<exists>db'. finalize_failed ca df snap s msg e db = (result_of (sn_run_id snap) (Broken s msg e), db') \<and>
    saved_as ca snap (Broken s msg e) db'"
proof -
  obtain v where v: "ec_encode ca s = Some v" by (rule accepts_encode [OF assms(1)])
  have a: "i64 (sn_attempts snap + 1) = sn_attempts snap + 1" "0 \<le> sn_attempts snap" "sn_attempts snap + 1 < 2 ^ 31"
    "sn_cursor snap < 2 ^ 31"
    using assms(1) by (auto simp: accepts_def in_i64_def intro!: i64_id)
  let ?nx = "encode_and_stamp_failed ca (snap\<lparr>sn_status := RunFailed, sn_last_error := msg,
    sn_attempts := i64 (sn_attempts snap + 1)\<rparr>) s"
  have nx: "?nx = snap\<lparr>sn_status := RunFailed, sn_last_error := msg, sn_attempts := sn_attempts snap + 1,
      sn_ended_at := Some (in_loc (ec_now ca) utc), sn_updated_at := in_loc (ec_now ca) utc, sn_state := Some v\<rparr>"
    by (simp add: encode_and_stamp_failed_def Let_def v a)
  obtain r db' where "save_snap ?nx db = Inr db'" "saved_row ?nx r \<in> set (wd_runs db')"
    "rr_id r = sn_run_id snap" "rr_version r = sn_version snap"
    using save_snap_accepts [OF assms(1), of ?nx] a unfolding nx by auto
  then show ?thesis
    using assms(2) v
    by (auto simp: finalize_failed_def Let_def saved_as_def nx saved_row_def run_status_string_def state_or_empty_def
        intro!: bexI [of _ "saved_row ?nx r"])
qed

lemma finalize_suspended_accepts:
  assumes "accepts ca snap i n db" "df_durable df" "j < 2 ^ 31"
  shows "\<exists>db'. finalize_suspended ca df snap j out db =
      (result_of (sn_run_id snap) (Paused j (so_state out) (so_suspend out)), db') \<and>
    saved_as ca snap (Paused j (so_state out) (so_suspend out)) db'"
proof -
  obtain v where v: "ec_encode ca (so_state out) = Some v" by (rule accepts_encode [OF assms(1)])
  let ?nx = "snap\<lparr>sn_status := RunSuspended, sn_cursor := j, sn_suspend_reason :=
      (case so_suspend out of None \<Rightarrow> sn_suspend_reason snap | Some x \<Rightarrow> su_reason x),
      sn_state := Some v, sn_updated_at := in_loc (ec_now ca) utc\<rparr>"
  have a: "0 \<le> sn_attempts snap" "sn_attempts snap < 2 ^ 31" using assms(1) by (auto simp: accepts_def)
  obtain r db' where "save_snap ?nx db = Inr db'" "saved_row ?nx r \<in> set (wd_runs db')"
    "rr_id r = sn_run_id snap" "rr_version r = sn_version snap"
    using save_snap_accepts [OF assms(1), of ?nx] a assms(3) by auto
  then show ?thesis
    using assms(2) v
    by (auto simp: finalize_suspended_def Let_def saved_as_def saved_row_def run_status_string_def
        state_or_empty_def intro!: bexI [of _ "saved_row ?nx r"])
qed

lemma finalize_succeeded_accepts:
  assumes "accepts ca snap i n db" "df_durable df"
  shows "\<exists>db'. finalize_succeeded ca df snap s su db = (result_of (sn_run_id snap) (Finished s su), db') \<and>
    saved_as ca snap (Finished s su) db'"
proof -
  obtain v where v: "ec_encode ca s = Some v" by (rule accepts_encode [OF assms(1)])
  let ?nx = "snap\<lparr>sn_status := RunSucceeded, sn_ended_at := Some (in_loc (ec_now ca) utc),
      sn_updated_at := in_loc (ec_now ca) utc, sn_state := Some v\<rparr>"
  have a: "0 \<le> sn_attempts snap" "sn_attempts snap < 2 ^ 31" "sn_cursor snap < 2 ^ 31"
    using assms(1) by (auto simp: accepts_def)
  obtain r db' where "save_snap ?nx db = Inr db'" "saved_row ?nx r \<in> set (wd_runs db')"
    "rr_id r = sn_run_id snap" "rr_version r = sn_version snap"
    using save_snap_accepts [OF assms(1), of ?nx] a by auto
  then show ?thesis
    using assms(2) v
    by (auto simp: finalize_succeeded_def Let_def saved_as_def saved_row_def run_status_string_def
        state_or_empty_def intro!: bexI [of _ "saved_row ?nx r"])
qed

lemma run_steps_walk:
  assumes "accepts ca snap i n db" "i + length steps \<le> n" "df_durable df"
  shows "\<exists>o1 w1 db'. walk (ec_ctx ca) i steps s su w = (o1, w1) \<and>
    run_steps ca df snap i steps s su db w = (result_of (sn_run_id snap) o1, db', w1) \<and> saved_as ca snap o1 db'"
  using assms(1,2)
proof (induction steps arbitrary: i s su db w)
  case Nil
  then show ?case using finalize_succeeded_accepts [OF Nil(1) assms(3), of s su] by auto
next
  case (Cons x xs)
  obtain out err w1 where x: "exec (ec_ctx ca) x s w = ((out, err), w1)" by (metis prod.exhaust)
  have "i < n" using Cons.prems(2) by simp
  then obtain db1 where db1: "run_step ca df snap x s i db w = ((out, map_option ErrStep err), db1, w1)"
    "accepts ca snap (Suc i) n db1" using run_step_accepts [OF Cons.prems(1) _ assms(3) x] by blast
  consider e where "err = Some e" | "err = None" "so_status out = StepSuspended"
    | "err = None" "so_status out = StepFailed"
    | "err = None" "so_status out \<noteq> StepSuspended" "so_status out \<noteq> StepFailed" by (cases err) auto
  then show ?case
  proof cases
    case (1 e)
    then show ?thesis
      using finalize_failed_accepts [OF db1(2) assms(3), of "if so_status out = StepFailed then so_state out else s" e "ErrStep e"]
        x db1 by (auto simp: error_text_def)
  next
    case 2
    have "i < 2 ^ 31" using \<open>i < n\<close> Cons.prems(1) by (simp add: accepts_def)
    then show ?thesis using finalize_suspended_accepts [OF db1(2) assms(3), of i out] 2 x db1 by auto
  next
    case 3
    then show ?thesis
      using finalize_failed_accepts [OF db1(2) assms(3), of "so_state out"
        "''step '' @ step_id x @ '' returned failed''" "ErrStepFailed (step_id x)"] 3 x db1 by auto
  next
    case 4
    then show ?thesis
      using Cons.IH [OF db1(2), of "so_state out" "so_suspend out" w1] Cons.prems(2) x db1 by auto
  qed
qed

text \<open>
  C39: Answering a suspended run of a sequence merges the answer into its state and goes on with the
  step that suspended it, never with one before it: the result, the effect on the world and the row
  of the run are those of the steps from the cursor on, one after the other.
\<close>

theorem resume_continues:
  assumes "df_durable df" "df_root df = SequenceStep name steps" "load_run (df_id df) k db = Inr (Some snap)"
    and "sn_status snap = RunSuspended" "ec_decode ca (state_or_empty (sn_state snap)) \<noteq> None"
    and "merge_patch (ec_float ca) (state_or_empty (sn_state snap)) patch = Some merged"
    and "ec_decode ca merged = Some current" "accepts ca snap (sn_cursor snap) (length steps) db"
    and "sn_cursor snap \<le> length steps"
    and "walk (ec_ctx ca) (sn_cursor snap) (drop (sn_cursor snap) steps) current None w = (o1, w1)"
  shows "\<exists>db'. engine_resume ca df k (Some (Some patch)) db w = (result_of (sn_run_id snap) o1, db', w1) \<and>
    saved_as ca snap o1 db'"
proof -
  have "sn_cursor snap + length (drop (sn_cursor snap) steps) \<le> length steps" using assms(9) by simp
  from run_steps_walk [OF assms(8) this assms(1), of current None w] assms(10)
  obtain db' where "run_steps ca df snap (sn_cursor snap) (drop (sn_cursor snap) steps) current None db w =
      (result_of (sn_run_id snap) o1, db', w1)" "saved_as ca snap o1 db'" by auto
  then show ?thesis
    using assms(1-7) by (auto simp: engine_resume_def execute_run_def)
qed

section \<open>A flow that asks once\<close>

text \<open>A flow of two steps over the members of an object: the second one waits for an answer. The
  world counts what was done.\<close>

definition flow_greet :: "(members, nat) step" where
  "flow_greet = StepFunc ''greet''
     (\<lambda>s w. ((\<lparr>so_state = s, so_status = StepCompleted, so_suspend = None\<rparr>, None), w + 1))"

definition flow_ask :: "(members, nat) step" where
  "flow_ask = StepFunc ''ask''
     (\<lambda>s w. ((case map_of s ''answer'' of
                None \<Rightarrow> \<lparr>so_state = s, so_status = StepSuspended,
                         so_suspend = Some \<lparr>su_reason = SuspendAwaitingInput, su_prompt = ''?''\<rparr>\<rparr>
              | Some _ \<Rightarrow> \<lparr>so_state = s, so_status = StepCompleted, so_suspend = None\<rparr>, None), w + 10))"

definition flow :: "(members, nat) wf_definition" where
  "flow = \<lparr>df_id = ''flow'', df_root = SequenceStep ''root'' [flow_greet, flow_ask], df_durable = True,
           df_max_attempts = 1\<rparr>"

definition flow_call :: "nat \<Rightarrow> members engine_call" where
  "flow_call n =
     \<lparr>ec_zero = [], ec_encode = (\<lambda>m. Some (JObj m)),
      ec_decode = (\<lambda>v. case v of JObj m \<Rightarrow> Some m | _ \<Rightarrow> None), ec_float = Some,
      ec_now = \<lparr>ns = int n + 1, loc = utc\<rparr>, ec_run_id = 7, ec_record_id = (\<lambda>j. of_nat (n + j)),
      ec_duration = (\<lambda>_. 0), ec_text = (\<lambda>_. ''''),
      ec_ctx = \<lparr>ec_done = (\<lambda>_ _. None), ec_quote = (\<lambda>s. s)\<rparr>\<rparr>"

lemmas flow_defs = flow_def flow_greet_def flow_ask_def flow_call_def

lemmas store_defs = insert_run_def row_of_snapshot_def run_status_string_def suspend_reason_string_def
  state_or_empty_def nullable_time_def run_row_ok_def active_status_def ended_status_def fits_int_def
  in_i64_def active_row_def in_loc_def is_zero_def step_status_string_def row_of_step_def append_step_def
  save_snap_def save_run_def saved_row_def

lemma flow_started:
  "\<exists>db snap. engine_start (flow_call 100) flow ''k'' [] \<lparr>wd_runs = [], wd_steps = []\<rparr> 0 =
      ((\<lparr>ru_run_id = 7, ru_status = RunSuspended, ru_state = [],
         ru_suspend = Some \<lparr>su_reason = SuspendAwaitingInput, su_prompt = ''?''\<rparr>\<rparr>, None), db, 11) \<and>
    load_run ''flow'' ''k'' db = Inr (Some snap) \<and> sn_status snap = RunSuspended \<and> sn_cursor snap = 1 \<and>
    sn_run_id snap = 7 \<and> sn_version snap = 2 \<and> sn_state snap = Some (JObj []) \<and> sn_attempts snap = 0 \<and>
    st_id ` set (wd_steps db) = {100, 101}"
  by (simp add: engine_start_def flow_defs load_run_def scan_first_def new_snapshot_def store_defs
      execute_run_def run_step_def finalize_suspended_def Let_def i64_id in_i64_small scan_snapshot_def
      parse_run_status_def)

lemma flow_asked:
  obtains s snap where "wf_steps no_runs s" "load_run ''flow'' ''k'' (ws_db s) = Inr (Some snap)"
    "sn_status snap = RunSuspended" "sn_cursor snap = 1" "sn_run_id snap = 7" "sn_version snap = 2"
    "sn_state snap = Some (JObj [])" "sn_attempts snap = 0" "st_id ` set (wd_steps (ws_db s)) = {100, 101}"
proof -
  have "\<not> is_zero (ec_now (flow_call 100))" "ec_run_id (flow_call 100) \<notin> ws_ids no_runs"
    by (simp_all add: flow_call_def is_zero_def)
  from start_steps [OF this, of flow "''k''" "[]" 0]
  obtain s where "wf_steps no_runs s"
    "ws_db s = fst (snd (engine_start (flow_call 100) flow ''k'' [] \<lparr>wd_runs = [], wd_steps = []\<rparr> 0))" by auto
  then show ?thesis using that flow_started by auto
qed

theorem resume_continues_witness:
  "\<exists>s db'. wf_steps no_runs s \<and>
     engine_resume (flow_call 200) flow ''k'' (Some (Some (JObj [(''answer'', JStr ''sim'')]))) (ws_db s) 11 =
       ((\<lparr>ru_run_id = 7, ru_status = RunSucceeded, ru_state = [(''answer'', JStr ''sim'')], ru_suspend = None\<rparr>, None),
        db', 21)"
proof -
  obtain s snap where s: "wf_steps no_runs s" "load_run ''flow'' ''k'' (ws_db s) = Inr (Some snap)"
    "sn_status snap = RunSuspended" "sn_cursor snap = 1" "sn_run_id snap = 7" "sn_version snap = 2"
    "sn_state snap = Some (JObj [])" "sn_attempts snap = 0" "st_id ` set (wd_steps (ws_db s)) = {100, 101}"
    by (rule flow_asked)
  let ?steps = "[flow_greet, flow_ask]"
  have ok: "runs_ok (ws_db s)" using wf_okD(1) [OF wf_steps_ok [OF s(1) no_runs_ok]] .
  obtain r where r: "r \<in> set (wd_runs (ws_db s))" "active_row ''flow'' ''k'' r" "scan_snapshot r = Inr snap"
    by (rule load_runE [OF s(2)])
  have "\<exists>r \<in> set (wd_runs (ws_db s)). rr_id r = sn_run_id snap \<and> rr_version r = sn_version snap \<and>
      active_status (rr_status r)"
    using r scan_snapshotE [OF r(3)] by (auto simp: active_row_def)
  moreover have "inj_on (ec_record_id (flow_call 200)) {..<2}"
    by (simp add: flow_call_def lessThan_Suc numeral_2_eq_2 inj_on_def)
  moreover have "ec_record_id (flow_call 200) j \<notin> {100, 101}" if "1 \<le> j" "j < 2" for j
    using that by (cases "j = 1") (simp_all add: flow_call_def)
  ultimately have accepts: "accepts (flow_call 200) snap 1 2 (ws_db s)"
    using s(4-9) ok unfolding accepts_def by (simp add: flow_call_def is_zero_def)
  have "\<exists>db'. engine_resume (flow_call 200) flow ''k'' (Some (Some (JObj [(''answer'', JStr ''sim'')]))) (ws_db s) 11 =
      (result_of (sn_run_id snap) (Finished [(''answer'', JStr ''sim'')] None), db', 21) \<and>
      saved_as (flow_call 200) snap (Finished [(''answer'', JStr ''sim'')] None) db'"
  proof (rule resume_continues [where steps = ?steps and name = "''root''"
        and merged = "JObj [(''answer'', JStr ''sim'')]" and current = "[(''answer'', JStr ''sim'')]"])
    show "accepts (flow_call 200) snap (sn_cursor snap) (length ?steps) (ws_db s)" using accepts s(4) by (simp add: numeral_2_eq_2)
  qed (use s in \<open>simp_all add: flow_defs merge_patch_def members_of_def state_or_empty_def\<close>)
  then show ?thesis using s(1,5) by auto
qed

lemma operations_are_steps_witness:
  "\<exists>t. wf_steps no_runs t \<and>
     ws_db t = fst (snd (engine_start (flow_call 100) flow ''k'' [] (ws_db no_runs) 0))"
  using operations_are_steps [of "flow_call 100" no_runs flow "''k''" "[]" 0 None "''flow''" 0 0]
  by (simp add: flow_call_def is_zero_def)

text \<open>A run that has just been inserted.\<close>

definition flow_snapshot :: snapshot where
  "flow_snapshot = (new_snapshot (flow_call 100) flow ''k'')\<lparr>sn_state := Some (JObj [])\<rparr>"

definition flow_running :: wf_state where
  "flow_running =
     \<lparr>ws_db = \<lparr>wd_runs = [row_of_snapshot flow_snapshot], wd_steps = []\<rparr>, ws_held = {flow_snapshot},
      ws_starting = {(''flow'', ''k'')}, ws_ids = {7}\<rparr>"

lemma flow_running_reached: "wf_steps no_runs flow_running"
proof -
  let ?s1 = "no_runs\<lparr>ws_starting := insert (''flow'', ''k'') (ws_starting no_runs)\<rparr>"
  have "wf_step no_runs ?s1" by (rule wf_step.check) (simp add: load_run_def scan_first_def)
  moreover have "wf_step ?s1 (?s1\<lparr>ws_db := \<lparr>wd_runs = [row_of_snapshot flow_snapshot], wd_steps = []\<rparr>,
      ws_held := insert flow_snapshot (ws_held ?s1), ws_ids := insert (sn_run_id flow_snapshot) (ws_ids ?s1)\<rparr>)"
    by (rule wf_step.insert) (simp_all add: flow_snapshot_def new_snapshot_def flow_defs store_defs)
  then have "wf_step ?s1 flow_running" by (simp add: flow_running_def flow_snapshot_def new_snapshot_def flow_defs)
  ultimately show ?thesis by (meson wf_steps.intros)
qed

theorem reachable_runs_witness:
  "runs_ok (ws_db flow_running) \<and> wd_runs (ws_db flow_running) \<noteq> []"
  using reachable_runs [OF flow_running_reached] by (simp add: flow_running_def)

lemma flow_row: "r = row_of_snapshot flow_snapshot \<Longrightarrow>
    rr_id r = 7 \<and> rr_status r = ''running'' \<and> rr_workflow r = ''flow'' \<and> rr_key r = ''k'' \<and> rr_version r = 1"
  by (simp add: flow_snapshot_def new_snapshot_def flow_defs store_defs)

theorem crashed_run_stuck_witness:
  "\<exists>s r. wf_steps no_runs s \<and> r \<in> set (wd_runs (ws_db s)) \<and>
     engine_start (flow_call 300) flow ''k'' [] (ws_db s) 0 =
       ((zero_result (flow_call 300), Some ErrRunAlreadyExists), ws_db s, 0)"
proof -
  let ?s = "flow_running\<lparr>ws_held := {}, ws_starting := {}\<rparr>" and ?r = "row_of_snapshot flow_snapshot"
  have s: "wf_steps no_runs ?s"
    by (rule wf_steps.more [OF flow_running_reached wf_step.stop]) simp_all
  have "abandoned ?r ?s" by (simp add: abandoned_def flow_running_def)
  from crashed_run_stuck [OF s this _ wf_steps.here, of flow "flow_call 300" "[]" 0 None] flow_row [OF refl]
  have "?r \<in> set (wd_runs (ws_db ?s)) \<and> engine_start (flow_call 300) flow ''k'' [] (ws_db ?s) 0 =
      ((zero_result (flow_call 300), Some ErrRunAlreadyExists), ws_db ?s, 0)"
    by (simp add: flow_def flow_call_def)
  then show ?thesis using s by blast
qed

text \<open>Its end is saved once, and a second save at the same version is a conflict.\<close>

definition flow_ended :: snapshot where
  "flow_ended = flow_snapshot\<lparr>sn_status := RunSucceeded, sn_ended_at := Some \<lparr>ns = 500, loc = utc\<rparr>\<rparr>"

lemma flow_saved:
  "settles flow_snapshot flow_ended"
  "save_run flow_ended (sn_version flow_snapshot) (ws_db flow_running) =
     Inr \<lparr>wd_runs = [saved_row flow_ended (row_of_snapshot flow_snapshot)], wd_steps = []\<rparr>"
  by (simp_all add: settles_def flow_ended_def flow_snapshot_def flow_running_def new_snapshot_def flow_defs store_defs)

theorem first_save_wins_witness:
  "save_run flow_ended 1 \<lparr>wd_runs = [saved_row flow_ended (row_of_snapshot flow_snapshot)], wd_steps = []\<rparr> =
     Inl ErrVersionConflict"
proof -
  have "flow_snapshot \<in> ws_held flow_running" by (simp add: flow_running_def)
  from first_save_wins [OF flow_running_reached this flow_saved wf_steps.here, of flow_ended 1] show ?thesis
    by (simp add: flow_ended_def flow_snapshot_def new_snapshot_def)
qed

theorem ended_stays_witness:
  "let r = saved_row flow_ended (row_of_snapshot flow_snapshot);
       s = flow_running\<lparr>ws_db := \<lparr>wd_runs = [r], wd_steps = []\<rparr>\<rparr>;
       t = s\<lparr>ws_held := {}, ws_starting := {}\<rparr>
   in ended_status (rr_status r) \<and> (r \<in> set (wd_runs (ws_db t)) \<or> rr_id r \<notin> rr_id ` set (wd_runs (ws_db t)))"
proof -
  let ?r = "saved_row flow_ended (row_of_snapshot flow_snapshot)"
  let ?s = "flow_running\<lparr>ws_db := \<lparr>wd_runs = [?r], wd_steps = []\<rparr>\<rparr>"
  have "flow_snapshot \<in> ws_held flow_running" by (simp add: flow_running_def)
  then have s: "wf_steps no_runs ?s"
    by (rule wf_steps.more [OF flow_running_reached wf_step.save [OF _ flow_saved]])
  have e: "ended_status (rr_status ?r)" by (simp add: flow_ended_def)
  have "wf_steps ?s (?s\<lparr>ws_held := {}, ws_starting := {}\<rparr>)" by (rule wf_steps_one, rule wf_step.stop) simp_all
  from ended_stays [OF s _ e this] e show ?thesis by (simp add: Let_def)
qed

end
