(* ===== verification/Spec2Isabelle.thy ===== *)
theory Spec2Isabelle
  imports TxnBooks BudgetFeed BillingWebhook PlatformOutbox BudgetDaily CardNotices PlatformPhone WorkflowEngine
begin

text \<open>
  A verification library for \<open>mecontrola\<close>, a Go service that keeps the personal accounts of its
  users: what they spend and earn, the invoices of their credit cards, a budget per month with
  alerts, and the subscription they pay for.

  \<^bold>\<open>The program and how its parts interact.\<close> The modules under \<open>internal/\<close> each hold a domain
  (value objects, entities, pure deciders), use cases that run in one database transaction, and an
  infrastructure of repositories, HTTP handlers, consumers and jobs. They do not call each
  other's use cases on writes but leave events in an outbox, from which a dispatcher hands them to
  consumers:

  \<^item> \<open>transactions\<close> writes transactions, splits card purchases into items of invoices and publishes
    what it did;
  \<^item> \<open>budgets\<close> consumes those events as expenses, keeps plans per month and raises alerts;
  \<^item> \<open>card\<close> keeps the cards, whose closing and due days decide the invoice of a purchase, and
    announces coming due dates;
  \<^item> \<open>billing\<close> follows the events of the payment provider, which arrive by webhook or by
    reconciliation, more than once and in any order;
  \<^item> \<open>platform\<close> holds what they share: the outbox, repeated requests, the engine of durable
    workflows, money and telephone numbers.

  \<^bold>\<open>Theories.\<close>

  \<^item> \<open>Prelude\<close>, \<open>GoTime\<close>, \<open>Months\<close>: Go's 64-bit integers, byte strings, errors and \<open>do_tx\<close> (a
    database transaction: on an error nothing that was written remains), the package \<open>time\<close> on the
    proleptic Gregorian calendar, and months written \<open>YYYY-MM\<close>.
  \<^item> \<open>TxnValues\<close>, \<open>TxnEvidence\<close>, \<open>TxnEntities\<close>, \<open>TxnServices\<close>, \<open>TxnCommands\<close>, \<open>TxnWorkflow\<close>: the
    domain of \<open>internal/transactions\<close>. \<open>TxnRecurring\<close>: recurring templates. \<open>TxnLedger\<close>: its tables
    and write use cases. \<open>TxnBalance\<close> and \<open>TxnBooks\<close>: the total kept on every invoice is the sum of
    its live items, and every write keeps it so.
  \<^item> \<open>BudgetValues\<close>, \<open>BudgetPlan\<close>, \<open>BudgetStore\<close>: the domain, tables and use cases of plans.
    \<open>BudgetExpenses\<close>: versioned expenses and the events that wait for their predecessors.
    \<open>BudgetFeed\<close>: the consumers of the events of transactions. \<open>BudgetAlerts\<close>, \<open>BudgetDaily\<close>: the
    alerts of a committed change, and the daily notices.
  \<^item> \<open>BillingSubscription\<close>, \<open>BillingStore\<close>, \<open>BillingUseCases\<close>: the domain, tables and use cases of
    subscriptions. \<open>BillingLife\<close>: what every sequence of them keeps, and the refinement of the
    entity by the stored row. \<open>BillingWebhook\<close>: signature, payload, dispatch, reconciliation, the
    deletion of old envelopes.
  \<^item> \<open>CardCycle\<close>: the calendar of a card and its agreement with that of the transactions module.
    \<open>CardStore\<close>, \<open>CardUseCases\<close>: cards, their table, use cases and handlers. \<open>CardNotices\<close>: the
    notices of due dates.
  \<^item> \<open>PlatformMoney\<close>, \<open>PlatformPhone\<close>, \<open>PlatformOutbox\<close>, \<open>PlatformIdempotency\<close>: the shared parts.
    \<open>WorkflowCodec\<close>, \<open>WorkflowStore\<close>, \<open>WorkflowEngine\<close>: merge patches, the tables of runs, and the
    engine that executes, suspends and resumes them.

  \<^bold>\<open>Correspondence.\<close> A struct is a \<open>record\<close> with the fields the model reads (what is left out is
  said where the record is declared), an enumeration a \<open>datatype\<close>, an \<open>int64\<close> an integer with
  \<open>i64\<close> around every operation that may wrap, a string the list of its bytes, a pointer that may
  be nil and \<open>option.Option\<close> are \<open>option\<close>, \<open>errors.Join\<close> is the list of what it joins. A sentinel
  error is a constructor; the text wrapped around it is not kept. A panic is \<open>None\<close>. A table is
  the list of its rows; a statement is a function on it that checks the constraints of the
  migrations; a use case takes the tables and returns the result beside the tables it leaves.
  A definition carries the name of the Go function it translates, with the module before it where
  two clash.

  \<^bold>\<open>Parameters.\<close> Code that is not in the repository is an argument: \<open>uuid.Parse\<close> and the new
  identifiers, the clock, the Unicode tables, HMAC and digest, the printing of JSON, the model's
  ratios of floating point numbers, the answers of the payment provider and of the other modules.

  \<^bold>\<open>Interfaces.\<close> \<open>wire_enum\<close> (Prelude) is the contract of an enumeration with a wire form, with
  an interpretation for each enumeration that is stored or sent. \<open>month_label\<close> (Months) is what
  reference months and competences share: order of text is order of the calendar.
  \<open>recording_handler\<close> (PlatformIdempotency) is what a handler owes the middleware of repeated
  requests, interpreted for the three writing handlers of the cards.

  \<^bold>\<open>Groups of lemmas.\<close> For the value objects: round trips of wire forms and what a constructor
  accepts. For the deciders: the outcome on every branch, errors included, in the order the code
  collects them. For the tables: an invariant (\<open>..._ok\<close>) kept by every statement and use case, and
  from these the same of every reachable state (\<open>reachable_...\<close>). For what arrives twice or out of
  order: an event applied once, reconciliation that changes nothing the second time, one message
  a day, a claim that takes the oldest due rows. For loops: the pages of a listing, and the jobs
  that delete in batches, end and leave nothing that was due.

  \<^bold>\<open>Bounds and fuel.\<close> A loop without a bound in the code is \<open>partial_function (option)\<close>, and that
  it returns is proved (\<open>cleanup_ends\<close>, \<open>old_runs_deleted\<close>, \<open>housekeeping_loop_ends\<close>). The
  reconciliation reads at most 1000 pages, as the code does (\<open>reconcile_max_pages\<close>). \<open>pages\<close> takes
  fuel, which \<open>pages_show_all\<close> instantiates with the number of cards and one more, since every
  page but the last holds a card. Integer bounds are hypotheses only where the code has none and
  a value could wrap.

  \<^bold>\<open>Not modelled.\<close> Logs, metrics and spans; the decoding of requests and the printing of
  responses; queries that only read for a listing; connection pools, goroutines and schedules
  (steps of two transactions interleave only where a theory says so: the claim and mark of outbox
  rows, the save of a run under optimistic locking); conversations with the language model
  (\<open>internal/agents\<close>), whose decisions are a remote model's; the search of the category dictionary,
  which PostgreSQL computes; \<open>cmd\<close> and \<open>configs\<close>, which read the environment and wire the modules.

  \<^bold>\<open>What modelling showed.\<close> Some theorems state behaviour that is not what the code means to do,
  each said so in its text: a closing day that equals the due day (\<open>CardCycle\<close>), due dates clamped
  to the end of a month that the daily query misses (\<open>CardCycle\<close>), an expired key that blocks its
  request (\<open>CardUseCases\<close>), a run left running by a process that died (\<open>WorkflowEngine\<close>).
\<close>

end
